(* ===== verification/SeaPrelude.thy ===== *)
theory SeaPrelude
  imports Main "HOL-Library.Word"
begin

text \<open>
  Shared vocabulary of the development: the C integer types, error numbers,
  undefined behaviour as a value, little-endian and decimal representations, and the
  generic lemmas on lists and words the components use.  The collections
  \<open>sea_defs\<close> (encodings) and \<open>sea_width\<close> (lengths of encoded values) are filled here
  and by the components.
\<close>

unbundle bit_operations_syntax

named_theorems sea_width \<open>lengths of encoded structures\<close>
named_theorems sea_defs \<open>unfolding rules of small helpers\<close>

section \<open>C types and error numbers\<close>

type_synonym byte = "8 word"
type_synonym u8 = "8 word"
type_synonym u16 = "16 word"
type_synonym u32 = "32 word"
type_synonym u64 = "64 word"

definition ENOENT :: int where "ENOENT = 2"
definition EBADF :: int where "EBADF = 9"
definition ENOMEM :: int where "ENOMEM = 12"
definition EEXIST :: int where "EEXIST = 17"
definition EINVAL :: int where "EINVAL = 22"
definition C_EOF :: int where "C_EOF = -1"

lemmas errno_defs = ENOENT_def EBADF_def ENOMEM_def EEXIST_def EINVAL_def C_EOF_def

text \<open>
  A C function either returns or runs into undefined behaviour (an access outside an
  object, a use of an indeterminate pointer).  \<open>Undef\<close> is that second outcome.
\<close>

datatype 'a outcome = Done 'a | Undef

text \<open>Conversion of a 64-bit result to a C \<open>int\<close>.\<close>

definition as_int32 :: "int \<Rightarrow> int" where
  "as_int32 x = signed_take_bit 31 x"

lemma as_int32_id [simp]: "- (2 ^ 31) \<le> x \<Longrightarrow> x < 2 ^ 31 \<Longrightarrow> as_int32 x = x"
  by (simp add: as_int32_def signed_take_bit_int_eq_self)

lemma as_int32_minus1 [simp]: "as_int32 (- 1) = - 1"
  by simp

lemma sint_small_u64:
  assumes "unat w < 2 ^ 63"
  shows "sint (w :: u64) = int (unat w)"
proof -
  have "uint w < 2 ^ 63"
    using assms by (metis of_nat_less_iff of_nat_numeral of_nat_power of_nat_unat)
  moreover have "sint w = signed_take_bit 63 (uint w)"
    using signed_of_nat [of "unat w", where 'a = int and 'b = 64] by simp
  moreover have "- (2 ^ 63) \<le> uint w"
    by (rule order_trans [of _ 0]) simp_all
  ultimately have "sint w = uint w"
    by (simp only: signed_take_bit_int_eq_self)
  then show ?thesis by simp
qed

lemma sint_of_nat_u64: "n < 2 ^ 63 \<Longrightarrow> sint (of_nat n :: u64) = int n"
  using sint_small_u64 [of "of_nat n"] by (simp add: unat_of_nat)

section \<open>Lists\<close>

text \<open>\<open>memcpy\<close> of \<open>d\<close> over the bytes of \<open>xs\<close> that start at \<open>p\<close>.\<close>

definition put_at :: "nat \<Rightarrow> 'a list \<Rightarrow> 'a list \<Rightarrow> 'a list" where
  "put_at p d xs = take p xs @ d @ drop (p + length d) xs"

lemma length_put_at [simp]: "p + length d \<le> length xs \<Longrightarrow> length (put_at p d xs) = length xs"
  by (simp add: put_at_def)

lemma put_at_append_left:
  "p + length d \<le> length xs \<Longrightarrow> put_at p d (xs @ ys) = put_at p d xs @ ys"
  by (simp add: put_at_def)

lemma put_at_append_right:
  "length xs \<le> p \<Longrightarrow> put_at p d (xs @ ys) = xs @ put_at (p - length xs) d ys"
  by (simp add: put_at_def)

lemma put_at_whole [simp]: "length d = length xs \<Longrightarrow> put_at 0 d xs = d"
  by (simp add: put_at_def)

lemma put_at_prefix:
  "length d = length xs \<Longrightarrow> put_at 0 d (xs @ ys) = d @ ys"
  by (simp add: put_at_def)

lemma take_drop_middle:
  "take (length b) (drop (length a) (a @ b @ c)) = b"
  by simp

text \<open>Sums of lengths: the offset of the \<open>i\<close>-th chunk of a concatenation.\<close>

definition chunk_off :: "'a list list \<Rightarrow> nat \<Rightarrow> nat" where
  "chunk_off cs i = sum_list (map length (take i cs))"

lemma chunk_off_0 [simp]: "chunk_off cs 0 = 0"
  by (simp add: chunk_off_def)

lemma chunk_off_append:
  "i \<le> length cs \<Longrightarrow> chunk_off (cs @ ds) i = chunk_off cs i"
  by (simp add: chunk_off_def)

lemma chunk_off_all: "chunk_off cs (length cs) = length (concat cs)"
  by (simp add: chunk_off_def length_concat)

lemma concat_take_off: "length (concat (take i cs)) = chunk_off cs i"
  by (simp add: chunk_off_def length_concat)

lemma concat_split_nth:
  assumes "i < length cs"
  shows "concat cs = concat (take i cs) @ cs ! i @ concat (drop (Suc i) cs)"
proof -
  have "cs = take i cs @ cs ! i # drop (Suc i) cs"
    using assms by (simp add: id_take_nth_drop)
  then have "concat cs = concat (take i cs @ cs ! i # drop (Suc i) cs)"
    by (rule arg_cong)
  then show ?thesis by simp
qed

lemma chunk_off_le:
  assumes "i < length cs"
  shows "chunk_off cs i + length (cs ! i) \<le> length (concat cs)"
  using arg_cong [OF concat_split_nth [OF assms], of length]
  by (simp add: concat_take_off)

lemma drop_chunk_off:
  assumes "i < length cs"
  shows "drop (chunk_off cs i) (concat cs) = cs ! i @ concat (drop (Suc i) cs)"
proof -
  have "drop (length (concat (take i cs))) (concat cs) = cs ! i @ concat (drop (Suc i) cs)"
    by (subst concat_split_nth [OF assms]) simp
  then show ?thesis by (simp add: concat_take_off)
qed

lemma concat_update:
  assumes "i < length cs"
  shows "concat (cs[i := c]) = concat (take i cs) @ c @ concat (drop (Suc i) cs)"
  using assms by (simp add: upd_conv_take_nth_drop)

lemma chunk_off_update:
  assumes "length c = length (cs ! i)"
  shows "chunk_off (cs[i := c]) j = chunk_off cs j"
proof -
  have "map length (cs[i := c]) = map length cs"
    using assms by (metis list_update_beyond list_update_id map_update not_le)
  then show ?thesis
    unfolding chunk_off_def by (metis take_map)
qed

lemma put_at_chunk:
  assumes "i < length cs" and "length d = length (cs ! i)"
  shows "put_at (chunk_off cs i) d (concat cs) = concat (cs[i := d])"
proof -
  have "put_at (chunk_off cs i) d (concat (take i cs) @ cs ! i @ concat (drop (Suc i) cs))
      = concat (take i cs) @ d @ concat (drop (Suc i) cs)"
    using assms by (simp add: put_at_def concat_take_off [symmetric])
  then show ?thesis
    by (metis assms(1) concat_split_nth concat_update)
qed

lemma length_concat_equal:
  "\<forall>x \<in> set cs. length x = w \<Longrightarrow> length (concat cs) = w * length cs"
  by (induction cs) auto

lemma chunk_off_equal:
  "\<forall>x \<in> set cs. length x = w \<Longrightarrow> i \<le> length cs \<Longrightarrow> chunk_off cs i = w * i"
  unfolding concat_take_off [symmetric]
  by (subst length_concat_equal [of _ w]) (auto dest: in_set_takeD)

section \<open>Little-endian integers\<close>

fun le_enc :: "nat \<Rightarrow> nat \<Rightarrow> byte list" where
  "le_enc 0 v = []"
| "le_enc (Suc n) v = of_nat v # le_enc n (v div 256)"

fun le_dec :: "byte list \<Rightarrow> nat" where
  "le_dec [] = 0"
| "le_dec (b # bs) = unat b + 256 * le_dec bs"

lemma length_le_enc [simp]: "length (le_enc n v) = n"
  by (induction n arbitrary: v) auto

lemma le_dec_enc: "le_dec (le_enc n v) = v mod 256 ^ n"
proof (induction n arbitrary: v)
  case 0
  then show ?case by simp
next
  case (Suc n)
  have "unat (of_nat v :: byte) = v mod 256"
    by (simp add: unat_of_nat)
  then show ?case
    by (simp add: Suc mod_mult2_eq)
qed

lemma le_dec_less: "le_dec bs < 256 ^ length bs"
proof (induction bs)
  case Nil
  then show ?case by simp
next
  case (Cons b bs)
  have "unat b < 256"
    using unsigned_less [of b, where 'a=nat] by simp
  with Cons show ?case by simp
qed

lemma le_enc_dec: "length bs = n \<Longrightarrow> le_enc n (le_dec bs) = bs"
proof (induction bs arbitrary: n)
  case Nil
  then show ?case by simp
next
  case (Cons b bs)
  have "unat b < 256"
    using unsigned_less [of b, where 'a=nat] by simp
  moreover have "(of_nat (unat b + 256 * le_dec bs) :: byte) = b"
    by (rule unsigned_word_eqI [where 'a = nat]) (use \<open>unat b < 256\<close> in \<open>simp add: unat_of_nat del: of_nat_add of_nat_mult\<close>)
  ultimately show ?case
    using Cons by (auto simp del: of_nat_add of_nat_mult)
qed

definition bytes_of_u16 :: "u16 \<Rightarrow> byte list" where "bytes_of_u16 w = le_enc 2 (unat w)"
definition bytes_of_u32 :: "u32 \<Rightarrow> byte list" where "bytes_of_u32 w = le_enc 4 (unat w)"
definition bytes_of_u64 :: "u64 \<Rightarrow> byte list" where "bytes_of_u64 w = le_enc 8 (unat w)"
definition u16_of_bytes :: "byte list \<Rightarrow> u16" where "u16_of_bytes bs = of_nat (le_dec bs)"
definition u32_of_bytes :: "byte list \<Rightarrow> u32" where "u32_of_bytes bs = of_nat (le_dec bs)"
definition u64_of_bytes :: "byte list \<Rightarrow> u64" where "u64_of_bytes bs = of_nat (le_dec bs)"

lemma length_bytes_of [simp, sea_width]:
  "length (bytes_of_u16 h) = 2" "length (bytes_of_u32 w) = 4" "length (bytes_of_u64 d) = 8"
  by (simp_all add: bytes_of_u16_def bytes_of_u32_def bytes_of_u64_def)

lemma u_of_bytes_of [simp]:
  "u16_of_bytes (bytes_of_u16 h) = h" "u32_of_bytes (bytes_of_u32 w) = w"
  "u64_of_bytes (bytes_of_u64 d) = d"
  using unsigned_less [of h, where 'a=nat] unsigned_less [of w, where 'a=nat]
    unsigned_less [of d, where 'a=nat]
  by (simp_all add: bytes_of_u16_def bytes_of_u32_def bytes_of_u64_def u16_of_bytes_def
      u32_of_bytes_def u64_of_bytes_def le_dec_enc)

lemma bytes_of_u_of [simp]:
  "length a = 2 \<Longrightarrow> bytes_of_u16 (u16_of_bytes a) = a"
  "length b = 4 \<Longrightarrow> bytes_of_u32 (u32_of_bytes b) = b"
  "length c = 8 \<Longrightarrow> bytes_of_u64 (u64_of_bytes c) = c"
  using le_dec_less [of a] le_dec_less [of b] le_dec_less [of c]
  by (simp_all add: bytes_of_u16_def bytes_of_u32_def bytes_of_u64_def u16_of_bytes_def
      u32_of_bytes_def u64_of_bytes_def unat_of_nat le_enc_dec)

section \<open>Decimal text\<close>

text \<open>\<open>%u\<close> and \<open>%llu\<close> of \<open>printf\<close>.\<close>

fun dec_str :: "nat \<Rightarrow> string" where
  "dec_str n = (if n < 10 then [char_of (48 + n)] else dec_str (n div 10) @ [char_of (48 + n mod 10)])"

declare dec_str.simps [simp del]

lemma dec_str_nonempty [simp]: "dec_str n \<noteq> []"
  by (subst dec_str.simps) simp

lemma dec_str_digit: "c \<in> set (dec_str n) \<Longrightarrow> \<exists>d < 10. c = char_of (48 + d :: nat)"
proof (induction n rule: dec_str.induct)
  case (1 n)
  show ?case
  proof (cases "n < 10")
    case True
    with "1.prems" show ?thesis by (subst (asm) dec_str.simps) auto
  next
    case False
    with "1.prems" have "c \<in> set (dec_str (n div 10)) \<or> c = char_of (48 + n mod 10)"
      by (subst (asm) dec_str.simps) auto
    moreover have "n mod 10 < 10" by simp
    ultimately show ?thesis using "1.IH" False by blast
  qed
qed

lemma dec_str_chars: "c \<in> set (dec_str n) \<Longrightarrow> c \<noteq> CHR ''/'' \<and> c \<noteq> CHR ''i'' \<and> c \<noteq> CHR ''_''"
proof -
  assume "c \<in> set (dec_str n)"
  then obtain d :: nat where "d < 10" and "c = char_of (48 + d)" by (auto dest: dec_str_digit)
  then have "of_char c = 48 + d" by simp
  with \<open>d < 10\<close> show ?thesis by auto
qed

lemma length_dec_str: "n < 10 ^ Suc k \<Longrightarrow> length (dec_str n) \<le> Suc k"
proof (induction k arbitrary: n)
  case 0
  then show ?case by (subst dec_str.simps) simp
next
  case (Suc k)
  show ?case
  proof (cases "n < 10")
    case True
    then show ?thesis by (subst dec_str.simps) simp
  next
    case False
    have "n div 10 < 10 ^ Suc k"
      using Suc.prems by (simp add: less_mult_imp_div_less)
    then have "length (dec_str (n div 10)) \<le> Suc k" by (rule Suc.IH)
    with False show ?thesis by (subst dec_str.simps) simp
  qed
qed

lemma length_dec_str_u64: "length (dec_str (unat (w :: u64))) \<le> 20"
proof -
  have "unat w < 2 ^ 64" using unsigned_less [of w, where 'a = nat] by simp
  then have "unat w < 10 ^ Suc 19" by simp
  then show ?thesis using length_dec_str [of "unat w" 19] by simp
qed

text \<open>
  The digits at the start of a string, read after a number \<open>acc\<close>, as \<open>atol\<close> reads them;
  a leading sign, white space and the range of \<open>long\<close> are the caller's matter.
\<close>

definition is_digit :: "char \<Rightarrow> bool" where
  "is_digit c \<longleftrightarrow> 48 \<le> (of_char c :: nat) \<and> (of_char c :: nat) \<le> 57"

fun digits_val :: "nat \<Rightarrow> string \<Rightarrow> nat" where
  "digits_val acc [] = acc"
| "digits_val acc (c # cs) =
     (if is_digit c then digits_val (10 * acc + (of_char c - 48)) cs else acc)"

lemma digits_val_dec_str: "digits_val 0 (dec_str n @ rest) = digits_val n rest"
proof (induction n arbitrary: rest rule: dec_str.induct)
  case (1 n)
  show ?case
  proof (cases "n < 10")
    case True
    then show ?thesis
      by (subst dec_str.simps) (simp add: is_digit_def)
  next
    case False
    have "n mod 10 < 10" by simp
    then have "of_char (char_of (48 + n mod 10) :: char) = (48 + n mod 10 :: nat)"
      by simp
    moreover have "n mod 10 \<le> 9"
      using \<open>n mod 10 < 10\<close> by linarith
    ultimately show ?thesis
      using 1 False by (subst dec_str.simps) (simp add: is_digit_def)
  qed
qed

lemma dec_str_inject [simp]: "dec_str m = dec_str n \<longleftrightarrow> m = n"
  by (metis digits_val_dec_str append_Nil2 digits_val.simps(1))

text \<open>\<open>snprintf\<close> into a buffer of \<open>n\<close> bytes keeps at most \<open>n - 1\<close> characters.\<close>

definition snprintf_str :: "nat \<Rightarrow> string \<Rightarrow> string" where
  "snprintf_str n s = take (n - 1) s"

text \<open>The C string at the start of a buffer, and back.\<close>

definition bytes_of_string :: "string \<Rightarrow> byte list" where
  "bytes_of_string s = map of_char s"

definition string_of_bytes :: "byte list \<Rightarrow> string" where
  "string_of_bytes bs = map (\<lambda>b. char_of (unat b)) bs"

definition c_strlen :: "byte list \<Rightarrow> nat" where
  "c_strlen bs = length (takeWhile (\<lambda>b. b \<noteq> 0) bs)"

lemma length_bytes_of_string [simp]: "length (bytes_of_string s) = length s"
  by (simp add: bytes_of_string_def)

lemma length_string_of_bytes [simp]: "length (string_of_bytes s) = length s"
  by (simp add: string_of_bytes_def)

end
