(* ===== verification/SeaOS.thy ===== *)
theory SeaOS
  imports SeaPrelude
begin

text \<open>
  The POSIX calls the program makes, as functions on an explicit operating-system state:
  \<open>open\<close>, \<open>read\<close>, \<open>write\<close>, \<open>lseek\<close>, \<open>ftruncate\<close>, \<open>close\<close>, \<open>access\<close>, \<open>unlink\<close>,
  \<open>mkdir\<close>, \<open>malloc\<close> and \<open>gettimeofday\<close>, with file names, inodes, file descriptors and
  their positions, and \<open>errno\<close>.  A call that can fail asks the oracle \<open>os_fault\<close> for
  its next outcome, so every error branch of the code can be taken; \<open>os_junk\<close> gives the
  contents of uninitialised memory.  The lemmas at the end say what the calls do on a
  fault-free system.
\<close>

section \<open>State\<close>

datatype fault = NoFault | Fail int | Short nat

record ofile =
  of_ino :: nat
  of_pos :: nat

record os =
  os_names :: "string \<rightharpoonup> nat"
  os_dirs :: "string set"
  os_inodes :: "nat \<Rightarrow> byte list"
  os_next_ino :: nat
  os_fds :: "int \<rightharpoonup> ofile"
  os_next_fd :: int
  os_errno :: int
  os_fault :: "nat \<Rightarrow> fault"
  os_tick :: nat
  os_clock :: "nat \<Rightarrow> u64 \<times> u64"
  os_reads :: nat
  os_junk :: "nat \<Rightarrow> byte"

text \<open>The next outcome of the fault oracle, and the state that has consumed it.\<close>

definition next_fault :: "os \<Rightarrow> fault" where
  "next_fault os = os_fault os (os_tick os)"

definition ticked :: "os \<Rightarrow> os" where
  "ticked os = os\<lparr>os_tick := Suc (os_tick os)\<rparr>"

definition junk_bytes :: "os \<Rightarrow> nat \<Rightarrow> byte list" where
  "junk_bytes os n = map (os_junk os) [0..<n]"

lemma length_junk [simp]: "length (junk_bytes os n) = n"
  by (simp add: junk_bytes_def)

definition PATH_MAX :: nat where "PATH_MAX = 4096"

definition parent_path :: "string \<Rightarrow> string" where
  "parent_path p = rev (drop 1 (dropWhile (\<lambda>c. c \<noteq> CHR ''/'') (rev p)))"

lemma parent_path_append [simp]:
  "CHR ''/'' \<notin> set b \<Longrightarrow> parent_path (a @ ''/'' @ b) = a"
proof -
  assume "CHR ''/'' \<notin> set b"
  then have "dropWhile (\<lambda>c. c \<noteq> CHR ''/'') (rev b @ CHR ''/'' # rev a) = CHR ''/'' # rev a"
    by (subst dropWhile_append2) auto
  then show ?thesis by (simp add: parent_path_def)
qed

section \<open>System calls\<close>

text \<open>\<open>malloc\<close>: a negative \<open>int\<close> becomes a \<open>size_t\<close> no allocator can serve.\<close>

definition c_malloc :: "int \<Rightarrow> os \<Rightarrow> bool \<times> os" where
  "c_malloc n os =
     (case next_fault os of
        Fail e \<Rightarrow> (False, (ticked os)\<lparr>os_errno := ENOMEM\<rparr>)
      | _ \<Rightarrow> (if n < 0 then (False, (ticked os)\<lparr>os_errno := ENOMEM\<rparr>) else (True, ticked os)))"

text \<open>\<open>open(path, O_RDWR)\<close>, with \<open>O_CREAT\<close> when \<open>creat\<close> holds; \<open>-1\<close> on failure.\<close>

definition open_inode :: "nat \<Rightarrow> os \<Rightarrow> int \<times> os" where
  "open_inode i os =
     (os_next_fd os,
      os\<lparr>os_fds := (os_fds os)(os_next_fd os \<mapsto> \<lparr>of_ino = i, of_pos = 0\<rparr>),
         os_next_fd := os_next_fd os + 1\<rparr>)"

definition sys_open :: "string \<Rightarrow> bool \<Rightarrow> os \<Rightarrow> int \<times> os" where
  "sys_open path creat os =
     (case next_fault os of
        Fail e \<Rightarrow> (- 1, (ticked os)\<lparr>os_errno := e\<rparr>)
      | _ \<Rightarrow>
        (case os_names os path of
           Some i \<Rightarrow> open_inode i (ticked os)
         | None \<Rightarrow>
             (if \<not> creat \<or> parent_path path \<notin> os_dirs os
              then (- 1, (ticked os)\<lparr>os_errno := ENOENT\<rparr>)
              else let i = os_next_ino os in
                open_inode i ((ticked os)\<lparr>os_names := (os_names os)(path \<mapsto> i),
                                          os_inodes := (os_inodes os)(i := []),
                                          os_next_ino := Suc i\<rparr>))))"

definition sys_close :: "int \<Rightarrow> os \<Rightarrow> os" where
  "sys_close fd os =
     (case os_fds os fd of
        None \<Rightarrow> os\<lparr>os_errno := EBADF\<rparr>
      | Some f \<Rightarrow> os\<lparr>os_fds := (os_fds os)(fd := None)\<rparr>)"

text \<open>\<open>read\<close>: the count (\<open>-1\<close> on failure) and the bytes read from the position.\<close>

definition read_at :: "int \<Rightarrow> ofile \<Rightarrow> nat \<Rightarrow> os \<Rightarrow> int \<times> byte list \<times> os" where
  "read_at fd f n os =
     (let d = take n (drop (of_pos f) (os_inodes os (of_ino f))) in
      (int (length d), d,
       os\<lparr>os_fds := (os_fds os)(fd \<mapsto> f\<lparr>of_pos := of_pos f + length d\<rparr>)\<rparr>))"

definition sys_read :: "int \<Rightarrow> nat \<Rightarrow> os \<Rightarrow> int \<times> byte list \<times> os" where
  "sys_read fd n os =
     (case os_fds os fd of
        None \<Rightarrow> (- 1, [], (ticked os)\<lparr>os_errno := EBADF\<rparr>)
      | Some f \<Rightarrow>
        (case next_fault os of
           Fail e \<Rightarrow> (- 1, [], (ticked os)\<lparr>os_errno := e\<rparr>)
         | Short k \<Rightarrow> read_at fd f (min k n) (ticked os)
         | NoFault \<Rightarrow> read_at fd f n (ticked os)))"

text \<open>\<open>write\<close> at a position, filling a gap past the end with zeros.\<close>

definition file_write :: "byte list \<Rightarrow> nat \<Rightarrow> byte list \<Rightarrow> byte list" where
  "file_write c p d = put_at p d (c @ replicate (p - length c) 0)"

definition write_at :: "int \<Rightarrow> ofile \<Rightarrow> byte list \<Rightarrow> os \<Rightarrow> int \<times> os" where
  "write_at fd f d os =
     (int (length d),
      os\<lparr>os_inodes := (os_inodes os)(of_ino f := file_write (os_inodes os (of_ino f)) (of_pos f) d),
         os_fds := (os_fds os)(fd \<mapsto> f\<lparr>of_pos := of_pos f + length d\<rparr>)\<rparr>)"

definition sys_write :: "int \<Rightarrow> byte list \<Rightarrow> os \<Rightarrow> int \<times> os" where
  "sys_write fd d os =
     (case os_fds os fd of
        None \<Rightarrow> (- 1, (ticked os)\<lparr>os_errno := EBADF\<rparr>)
      | Some f \<Rightarrow>
        (case next_fault os of
           Fail e \<Rightarrow> (- 1, (ticked os)\<lparr>os_errno := e\<rparr>)
         | Short k \<Rightarrow> write_at fd f (take k d) (ticked os)
         | NoFault \<Rightarrow> write_at fd f d (ticked os)))"

datatype whence = SEEK_SET | SEEK_CUR | SEEK_END

text \<open>\<open>lseek\<close>: a resulting position that is negative or beyond \<open>off_t\<close> is refused.\<close>

definition sys_lseek :: "int \<Rightarrow> int \<Rightarrow> whence \<Rightarrow> os \<Rightarrow> int \<times> os" where
  "sys_lseek fd off w os =
     (case os_fds os fd of
        None \<Rightarrow> (- 1, os\<lparr>os_errno := EBADF\<rparr>)
      | Some f \<Rightarrow>
        (let p = (case w of
                    SEEK_SET \<Rightarrow> off
                  | SEEK_CUR \<Rightarrow> int (of_pos f) + off
                  | SEEK_END \<Rightarrow> int (length (os_inodes os (of_ino f))) + off)
         in if p < 0 \<or> 2 ^ 63 \<le> p then (- 1, os\<lparr>os_errno := EINVAL\<rparr>)
            else (p, os\<lparr>os_fds := (os_fds os)(fd \<mapsto> f\<lparr>of_pos := nat p\<rparr>)\<rparr>)))"

definition sys_ftruncate :: "int \<Rightarrow> nat \<Rightarrow> os \<Rightarrow> os" where
  "sys_ftruncate fd n os =
     (case os_fds os fd of
        None \<Rightarrow> os\<lparr>os_errno := EBADF\<rparr>
      | Some f \<Rightarrow>
        (let c = os_inodes os (of_ino f)
         in os\<lparr>os_inodes := (os_inodes os)(of_ino f := take n (c @ replicate (n - length c) 0))\<rparr>))"

definition sys_access :: "string \<Rightarrow> os \<Rightarrow> int \<times> os" where
  "sys_access path os =
     (if os_names os path = None \<and> path \<notin> os_dirs os
      then (- 1, os\<lparr>os_errno := ENOENT\<rparr>) else (0, os))"

definition sys_unlink :: "string \<Rightarrow> os \<Rightarrow> int \<times> os" where
  "sys_unlink path os =
     (case next_fault os of
        Fail e \<Rightarrow> (- 1, (ticked os)\<lparr>os_errno := e\<rparr>)
      | _ \<Rightarrow>
        (if os_names os path = None then (- 1, (ticked os)\<lparr>os_errno := ENOENT\<rparr>)
         else (0, (ticked os)\<lparr>os_names := (os_names os)(path := None)\<rparr>)))"

definition sys_mkdir :: "string \<Rightarrow> os \<Rightarrow> int \<times> os" where
  "sys_mkdir path os =
     (case next_fault os of
        Fail e \<Rightarrow> (- 1, (ticked os)\<lparr>os_errno := e\<rparr>)
      | _ \<Rightarrow>
        (if path \<in> os_dirs os \<or> os_names os path \<noteq> None
         then (- 1, (ticked os)\<lparr>os_errno := EEXIST\<rparr>)
         else if parent_path path \<notin> os_dirs os then (- 1, (ticked os)\<lparr>os_errno := ENOENT\<rparr>)
         else (0, (ticked os)\<lparr>os_dirs := insert path (os_dirs os)\<rparr>)))"

text \<open>\<open>gettimeofday\<close>: seconds and microseconds.\<close>

definition sys_gettimeofday :: "os \<Rightarrow> (u64 \<times> u64) \<times> os" where
  "sys_gettimeofday os = (os_clock os (os_reads os), os\<lparr>os_reads := Suc (os_reads os)\<rparr>)"

section \<open>A fault-free system\<close>

definition reliable :: "os \<Rightarrow> bool" where
  "reliable os \<longleftrightarrow> (\<forall>n. os_fault os n = NoFault)"

text \<open>Descriptors still to be handed out are positive and unused, inode numbers fresh.\<close>

definition os_wf :: "os \<Rightarrow> bool" where
  "os_wf os \<longleftrightarrow> 0 < os_next_fd os \<and> (\<forall>fd \<ge> os_next_fd os. os_fds os fd = None)
     \<and> os_fds os (- 1) = None \<and> (\<forall>p i. os_names os p = Some i \<longrightarrow> i < os_next_ino os)
     \<and> (\<forall>fd f. os_fds os fd = Some f \<longrightarrow> of_ino f < os_next_ino os)"

text \<open>A fault-free system with the directories \<open>dirs\<close> and no file.\<close>

definition fresh_os :: "string set \<Rightarrow> os" where
  "fresh_os dirs =
     \<lparr>os_names = Map.empty, os_dirs = dirs, os_inodes = (\<lambda>_. []), os_next_ino = 0, os_fds = Map.empty,
      os_next_fd = 3, os_errno = 0, os_fault = (\<lambda>_. NoFault), os_tick = 0,
      os_clock = (\<lambda>n. (of_nat n, 0)), os_reads = 0, os_junk = (\<lambda>_. 0)\<rparr>"

lemma fresh_os_ok [simp]:
  "reliable (fresh_os dirs)" "os_wf (fresh_os dirs)" "os_names (fresh_os dirs) p = None"
  "os_dirs (fresh_os dirs) = dirs"
  by (simp_all add: fresh_os_def reliable_def os_wf_def)

text \<open>Descriptor \<open>fd\<close> is open on inode \<open>i\<close> at position \<open>p\<close>.\<close>

definition fd_at :: "os \<Rightarrow> int \<Rightarrow> nat \<Rightarrow> nat \<Rightarrow> bool" where
  "fd_at os fd i p \<longleftrightarrow> os_fds os fd = Some \<lparr>of_ino = i, of_pos = p\<rparr>"

lemma ticked_fields [simp]:
  "os_names (ticked os) = os_names os" "os_dirs (ticked os) = os_dirs os"
  "os_inodes (ticked os) = os_inodes os" "os_next_ino (ticked os) = os_next_ino os"
  "os_fds (ticked os) = os_fds os" "os_next_fd (ticked os) = os_next_fd os"
  "os_errno (ticked os) = os_errno os" "os_fault (ticked os) = os_fault os"
  "os_clock (ticked os) = os_clock os" "os_reads (ticked os) = os_reads os"
  "os_junk (ticked os) = os_junk os"
  by (simp_all add: ticked_def)

lemma reliable_update [simp]:
  "reliable (ticked os) = reliable os"
  "reliable (os\<lparr>os_names := a\<rparr>) = reliable os"
  "reliable (os\<lparr>os_dirs := b\<rparr>) = reliable os"
  "reliable (os\<lparr>os_inodes := c\<rparr>) = reliable os"
  "reliable (os\<lparr>os_next_ino := d\<rparr>) = reliable os"
  "reliable (os\<lparr>os_fds := e\<rparr>) = reliable os"
  "reliable (os\<lparr>os_next_fd := f\<rparr>) = reliable os"
  "reliable (os\<lparr>os_errno := g\<rparr>) = reliable os"
  "reliable (os\<lparr>os_tick := h\<rparr>) = reliable os"
  "reliable (os\<lparr>os_reads := k\<rparr>) = reliable os"
  by (simp_all add: reliable_def ticked_def)

lemma reliable_next [simp]: "reliable os \<Longrightarrow> next_fault os = NoFault"
  by (simp add: reliable_def next_fault_def)

lemma fd_at_update [simp]:
  "fd_at (ticked os) fd i p = fd_at os fd i p"
  "fd_at (os\<lparr>os_names := a\<rparr>) fd i p = fd_at os fd i p"
  "fd_at (os\<lparr>os_dirs := b\<rparr>) fd i p = fd_at os fd i p"
  "fd_at (os\<lparr>os_inodes := c\<rparr>) fd i p = fd_at os fd i p"
  "fd_at (os\<lparr>os_next_ino := d\<rparr>) fd i p = fd_at os fd i p"
  "fd_at (os\<lparr>os_next_fd := f\<rparr>) fd i p = fd_at os fd i p"
  "fd_at (os\<lparr>os_errno := g\<rparr>) fd i p = fd_at os fd i p"
  "fd_at (os\<lparr>os_reads := k\<rparr>) fd i p = fd_at os fd i p"
  by (simp_all add: fd_at_def)

lemma fd_at_set_fd [simp]:
  "fd_at (os\<lparr>os_fds := m(fd \<mapsto> f)\<rparr>) fd i p \<longleftrightarrow> f = \<lparr>of_ino = i, of_pos = p\<rparr>"
  "fd \<noteq> fd' \<Longrightarrow> fd_at (os\<lparr>os_fds := (os_fds os)(fd' \<mapsto> f)\<rparr>) fd i p \<longleftrightarrow> fd_at os fd i p"
  by (auto simp: fd_at_def)

text \<open>
  The successor states of successful calls, named so that proofs compose them: the
  position set to \<open>p\<close>, the content of an inode set to \<open>c\<close>.
\<close>

definition set_pos :: "int \<Rightarrow> nat \<Rightarrow> nat \<Rightarrow> os \<Rightarrow> os" where
  "set_pos fd i p os = os\<lparr>os_fds := (os_fds os)(fd \<mapsto> \<lparr>of_ino = i, of_pos = p\<rparr>)\<rparr>"

definition set_content :: "nat \<Rightarrow> byte list \<Rightarrow> os \<Rightarrow> os" where
  "set_content i c os = os\<lparr>os_inodes := (os_inodes os)(i := c)\<rparr>"

lemma fd_at_set_pos [simp]:
  "fd_at (set_pos fd i p os) fd j q \<longleftrightarrow> j = i \<and> q = p"
  "fd' \<noteq> fd \<Longrightarrow> fd_at (set_pos fd i p os) fd' j q \<longleftrightarrow> fd_at os fd' j q"
  by (auto simp: fd_at_def set_pos_def)

lemma fd_at_set_content [simp]: "fd_at (set_content i c os) fd j q = fd_at os fd j q"
  by (simp add: fd_at_def set_content_def)

lemma os_inodes_set [simp]:
  "os_inodes (set_pos fd i p os) = os_inodes os"
  "os_inodes (set_content i c os) = (os_inodes os)(i := c)"
  by (simp_all add: set_pos_def set_content_def)

lemma set_fields [simp]:
  "os_names (set_pos fd i p os) = os_names os" "os_names (set_content j c os) = os_names os"
  "os_dirs (set_pos fd i p os) = os_dirs os" "os_dirs (set_content j c os) = os_dirs os"
  "os_next_ino (set_pos fd i p os) = os_next_ino os"
  "os_next_ino (set_content j c os) = os_next_ino os"
  "os_next_fd (set_pos fd i p os) = os_next_fd os"
  "os_next_fd (set_content j c os) = os_next_fd os"
  "os_fds (set_content j c os) = os_fds os"
  "os_fds (set_pos fd i p os) = (os_fds os)(fd \<mapsto> \<lparr>of_ino = i, of_pos = p\<rparr>)"
  "os_errno (set_pos fd i p os) = os_errno os" "os_errno (set_content j c os) = os_errno os"
  "os_clock (set_pos fd i p os) = os_clock os" "os_clock (set_content j c os) = os_clock os"
  "os_reads (set_pos fd i p os) = os_reads os" "os_reads (set_content j c os) = os_reads os"
  "os_junk (set_pos fd i p os) = os_junk os" "os_junk (set_content j c os) = os_junk os"
  by (simp_all add: set_pos_def set_content_def)

lemma reliable_set [simp]:
  "reliable (set_pos fd i p os) = reliable os"
  "reliable (set_content i c os) = reliable os"
  by (simp_all add: set_pos_def set_content_def)

lemma c_malloc_ok [simp]: "reliable os \<Longrightarrow> 0 \<le> n \<Longrightarrow> c_malloc n os = (True, ticked os)"
  by (simp add: c_malloc_def)

lemma sys_read_ok:
  assumes "reliable os" and "fd_at os fd i p"
  shows "sys_read fd n os =
    (let d = take n (drop p (os_inodes os i)) in
     (int (length d), d, set_pos fd i (p + length d) (ticked os)))"
  using assms by (simp add: sys_read_def fd_at_def read_at_def set_pos_def Let_def)

lemma sys_write_ok:
  assumes "reliable os" and "fd_at os fd i p"
  shows "sys_write fd d os =
    (int (length d),
     set_pos fd i (p + length d) (set_content i (file_write (os_inodes os i) p d) (ticked os)))"
  using assms by (simp add: sys_write_def fd_at_def write_at_def set_pos_def set_content_def)

lemma sys_lseek_set:
  assumes "fd_at os fd i p" and "q < 2 ^ 63"
  shows "sys_lseek fd (int q) SEEK_SET os = (int q, set_pos fd i q os)"
  using assms by (simp add: sys_lseek_def fd_at_def set_pos_def)

lemma sys_lseek_cur:
  assumes "fd_at os fd i p" and "p + q < 2 ^ 63"
  shows "sys_lseek fd (int q) SEEK_CUR os = (int (p + q), set_pos fd i (p + q) os)"
  using assms by (simp add: sys_lseek_def fd_at_def set_pos_def nat_add_distrib)

lemma sys_lseek_end:
  assumes "fd_at os fd i p" and "length (os_inodes os i) < 2 ^ 63"
  shows "sys_lseek fd 0 SEEK_END os
    = (int (length (os_inodes os i)), set_pos fd i (length (os_inodes os i)) os)"
  using assms by (simp add: sys_lseek_def fd_at_def set_pos_def)

lemma file_write_end [simp]: "file_write c (length c) d = c @ d"
  by (simp add: file_write_def put_at_def)

lemma file_write_0: "length d \<le> length c \<Longrightarrow> file_write c 0 d = d @ drop (length d) c"
  by (simp add: file_write_def put_at_def)

lemma file_write_inside: "p + length d \<le> length c \<Longrightarrow> file_write c p d = put_at p d c"
  by (simp add: file_write_def)

section \<open>Calls in normal form\<close>

text \<open>
  On a state of the form \<open>set_pos fd i p os\<close> a call on \<open>fd\<close> rewrites by syntax alone;
  the equations below bring states to that form (\<open>os_norm\<close>) and the calls act on it
  (\<open>os_run\<close>).
\<close>

named_theorems os_norm \<open>normal form of successor states\<close>
named_theorems os_run \<open>effect of a call on a state in normal form\<close>

definition clocked :: "os \<Rightarrow> os" where
  "clocked os = os\<lparr>os_reads := Suc (os_reads os)\<rparr>"

lemma clocked_fields [simp]:
  "os_names (clocked os) = os_names os" "os_dirs (clocked os) = os_dirs os"
  "os_inodes (clocked os) = os_inodes os" "os_next_ino (clocked os) = os_next_ino os"
  "os_fds (clocked os) = os_fds os" "os_next_fd (clocked os) = os_next_fd os"
  "os_errno (clocked os) = os_errno os" "os_fault (clocked os) = os_fault os"
  "os_clock (clocked os) = os_clock os" "reliable (clocked os) = reliable os"
  "os_junk (clocked os) = os_junk os" "fd_at (clocked os) fd i p = fd_at os fd i p"
  by (simp_all add: clocked_def)

lemma set_pos_same: "fd_at os fd i p \<Longrightarrow> set_pos fd i p os = os"
  by (simp add: fd_at_def set_pos_def fun_upd_idem)

lemma set_pos_norm [os_norm]:
  "set_pos fd i p (set_pos fd j q os) = set_pos fd i p os"
  "ticked (set_pos fd i p os) = set_pos fd i p (ticked os)"
  "clocked (set_pos fd i p os) = set_pos fd i p (clocked os)"
  "set_content j c (set_pos fd i p os) = set_pos fd i p (set_content j c os)"
  "set_content j c (set_content j c' os) = set_content j c os"
  "ticked (set_content j c os) = set_content j c (ticked os)"
  "clocked (set_content j c os) = set_content j c (clocked os)"
  by (simp_all add: set_pos_def set_content_def ticked_def clocked_def)

lemma sys_read_run [os_run]:
  "reliable os \<Longrightarrow> sys_read fd n (set_pos fd i p os) =
    (int (min n (length (os_inodes os i) - p)), take n (drop p (os_inodes os i)),
     set_pos fd i (p + min n (length (os_inodes os i) - p)) (ticked os))"
  by (subst sys_read_ok [of _ fd i p]) (simp_all add: Let_def set_pos_norm min.commute)

lemma sys_write_run [os_run]:
  "reliable os \<Longrightarrow> sys_write fd d (set_pos fd i p os) =
    (int (length d),
     set_pos fd i (p + length d) (set_content i (file_write (os_inodes os i) p d) (ticked os)))"
  by (subst sys_write_ok [of _ fd i p]) (simp_all add: set_pos_norm)

lemma sys_lseek_set_run:
  "q < 2 ^ 63 \<Longrightarrow> sys_lseek fd (int q) SEEK_SET (set_pos fd i p os) = (int q, set_pos fd i q os)"
  by (subst sys_lseek_set [of _ fd i p]) (simp_all add: set_pos_norm)

lemma sys_lseek_set_0_run [os_run]:
  "sys_lseek fd 0 SEEK_SET (set_pos fd i p os) = (0, set_pos fd i 0 os)"
  using sys_lseek_set_run [of 0 fd i p os] by simp

lemma sys_lseek_cur_run:
  "p + q < 2 ^ 63 \<Longrightarrow>
    sys_lseek fd (int q) SEEK_CUR (set_pos fd i p os) = (int (p + q), set_pos fd i (p + q) os)"
  by (subst sys_lseek_cur [of _ fd i p]) (simp_all add: set_pos_norm)

lemma sys_lseek_end_run [os_run]:
  "length (os_inodes os i) < 2 ^ 63 \<Longrightarrow>
    sys_lseek fd 0 SEEK_END (set_pos fd i p os)
      = (int (length (os_inodes os i)), set_pos fd i (length (os_inodes os i)) os)"
  by (subst sys_lseek_end [of _ fd i p]) (simp_all add: set_pos_norm)

lemma sys_gettimeofday_run [os_run]:
  "sys_gettimeofday (set_pos fd i p os)
     = (os_clock os (os_reads os), set_pos fd i p (clocked os))"
  by (simp add: sys_gettimeofday_def set_pos_def clocked_def)

section \<open>Frames\<close>

text \<open>
  \<open>os'\<close> differs from \<open>os\<close> at most in the position of \<open>fd\<close>, the content of inode \<open>i\<close>,
  and the oracle, clock and \<open>errno\<close> bookkeeping.
\<close>

definition os_frame :: "int \<Rightarrow> nat \<Rightarrow> os \<Rightarrow> os \<Rightarrow> bool" where
  "os_frame fd i os os' \<longleftrightarrow>
     os_names os' = os_names os \<and> os_dirs os' = os_dirs os
     \<and> os_next_ino os' = os_next_ino os \<and> os_next_fd os' = os_next_fd os
     \<and> os_fault os' = os_fault os \<and> os_clock os' = os_clock os \<and> os_junk os' = os_junk os
     \<and> (\<forall>k. k \<noteq> fd \<longrightarrow> os_fds os' k = os_fds os k)
     \<and> (\<forall>j. j \<noteq> i \<longrightarrow> os_inodes os' j = os_inodes os j)"

lemma os_frame_refl [simp]: "os_frame fd i os os"
  by (simp add: os_frame_def)

lemma os_frame_trans: "os_frame fd i a b \<Longrightarrow> os_frame fd i b c \<Longrightarrow> os_frame fd i a c"
  by (simp add: os_frame_def)

lemma os_frame_set [simp]:
  "os_frame fd i os (set_pos fd i p os') = os_frame fd i os os'"
  "os_frame fd i os (set_content i c os') = os_frame fd i os os'"
  "os_frame fd i os (ticked os') = os_frame fd i os os'"
  "os_frame fd i os (clocked os') = os_frame fd i os os'"
  by (simp_all add: os_frame_def set_pos_def set_content_def ticked_def clocked_def)

lemma os_frame_from [simp]: "os_frame fd i (set_pos fd i p os) os' = os_frame fd i os os'"
  by (auto simp: os_frame_def set_pos_def)

lemma os_frame_fd_at: "os_frame fd i os os' \<Longrightarrow> k \<noteq> fd \<Longrightarrow> fd_at os' k j p = fd_at os k j p"
  by (simp add: os_frame_def fd_at_def)

lemma os_frame_inode: "os_frame fd i os os' \<Longrightarrow> j \<noteq> i \<Longrightarrow> os_inodes os' j = os_inodes os j"
  by (simp add: os_frame_def)

lemma os_frame_reliable: "os_frame fd i os os' \<Longrightarrow> reliable os' = reliable os"
  by (simp add: os_frame_def reliable_def)

text \<open>
  The bookkeeping every read, write and seek leaves alone: names, directories, the
  oracles, and which inode each descriptor is open on.
\<close>

definition os_keeps :: "os \<Rightarrow> os \<Rightarrow> bool" where
  "os_keeps os os' \<longleftrightarrow>
     os_names os' = os_names os \<and> os_dirs os' = os_dirs os
     \<and> os_next_ino os' = os_next_ino os \<and> os_next_fd os' = os_next_fd os
     \<and> os_fault os' = os_fault os \<and> os_junk os' = os_junk os
     \<and> (\<forall>k. map_option of_ino (os_fds os' k) = map_option of_ino (os_fds os k))"

lemma os_keeps_refl [simp]: "os_keeps os os"
  by (simp add: os_keeps_def)

lemma os_keeps_trans: "os_keeps a b \<Longrightarrow> os_keeps b c \<Longrightarrow> os_keeps a c"
  by (simp add: os_keeps_def)

lemma os_keeps_step [simp]:
  "os_keeps os (ticked os') = os_keeps os os'"
  "os_keeps os (clocked os') = os_keeps os os'"
  "os_keeps os (set_content i c os') = os_keeps os os'"
  by (simp_all add: os_keeps_def ticked_def clocked_def set_content_def)

lemma os_keeps_set_pos:
  "fd_at os fd i q \<Longrightarrow> os_keeps os os' \<Longrightarrow> os_keeps os (set_pos fd i p os')"
  by (auto simp: os_keeps_def set_pos_def fd_at_def)

lemma os_frame_keeps:
  "os_frame fd i os os' \<Longrightarrow> fd_at os fd i p \<Longrightarrow> fd_at os' fd i p' \<Longrightarrow> os_keeps os os'"
  unfolding os_keeps_def os_frame_def fd_at_def by (metis option.simps(9) ofile.select_convs(1))

lemma os_keeps_reliable: "os_keeps os os' \<Longrightarrow> reliable os' = reliable os"
  by (simp add: os_keeps_def reliable_def)

lemma os_keeps_wf: "os_keeps os os' \<Longrightarrow> os_wf os \<Longrightarrow> os_wf os'"
proof -
  assume keeps: "os_keeps os os'" and wf: "os_wf os"
  have fd: "map_option of_ino (os_fds os' k) = map_option of_ino (os_fds os k)" for k
    using keeps by (simp add: os_keeps_def)
  have none: "os_fds os' k = None \<longleftrightarrow> os_fds os k = None" for k
    using fd [of k] by (cases "os_fds os k"; cases "os_fds os' k") auto
  have some: "\<exists>g. os_fds os k = Some g \<and> of_ino g = of_ino f" if "os_fds os' k = Some f" for k f
    using fd [of k] that by (cases "os_fds os k") auto
  show "os_wf os'"
    using keeps wf unfolding os_wf_def os_keeps_def none by (metis some)
qed

section \<open>Opening, creating and closing\<close>

lemma open_inode_run:
  "open_inode i os = (os_next_fd os,
     set_pos (os_next_fd os) i 0 (os\<lparr>os_next_fd := os_next_fd os + 1\<rparr>))"
  by (simp add: open_inode_def set_pos_def)

lemma os_wf_next_fd:
  "os_wf os \<Longrightarrow> fd_at os fd i p \<Longrightarrow> fd \<noteq> os_next_fd os"
  "os_wf os \<Longrightarrow> 0 < os_next_fd os"
  by (auto simp: os_wf_def fd_at_def)

lemma os_wf_opened:
  "os_wf os \<Longrightarrow> i < os_next_ino os \<Longrightarrow>
    os_wf (set_pos (os_next_fd os) i p (os\<lparr>os_next_fd := os_next_fd os + 1\<rparr>))"
  by (auto simp: os_wf_def)

lemma os_wf_step [simp]:
  "os_wf (ticked os) = os_wf os" "os_wf (clocked os) = os_wf os"
  "os_wf (set_content i c os) = os_wf os"
  by (simp_all add: os_wf_def ticked_def clocked_def set_content_def)

text \<open>A file that \<open>open\<close> creates and that is closed again.\<close>

lemma sys_open_new:
  assumes "reliable os" and "os_names os path = None" and "parent_path path \<in> os_dirs os"
  shows "sys_open path True os = (os_next_fd os,
    set_pos (os_next_fd os) (os_next_ino os) 0 (set_content (os_next_ino os) []
      ((ticked os)\<lparr>os_names := (os_names os)(path \<mapsto> os_next_ino os),
        os_next_ino := Suc (os_next_ino os), os_next_fd := os_next_fd os + 1\<rparr>)))"
  using assms by (simp add: sys_open_def open_inode_run set_pos_def set_content_def ticked_def Let_def)

lemma sys_close_run [simp]:
  "sys_close fd (set_pos fd i p os) = os\<lparr>os_fds := (os_fds os)(fd := None)\<rparr>"
  by (simp add: sys_close_def set_pos_def)

lemma os_wf_created:
  assumes "os_wf os"
  shows "os_wf (os\<lparr>os_names := (os_names os)(path \<mapsto> os_next_ino os), os_inodes := c,
     os_next_ino := Suc (os_next_ino os), os_next_fd := os_next_fd os + 1\<rparr>)"
  using assms by (auto simp: os_wf_def less_Suc_eq)

text \<open>Creating a file, writing \<open>d\<close> and closing it.\<close>

lemma os_wf_new_file:
  assumes "os_wf os" and "os' = os\<lparr>os_names := (os_names os)(path \<mapsto> os_next_ino os), os_inodes := c,
     os_next_ino := Suc (os_next_ino os), os_next_fd := os_next_fd os + 1,
     os_fds := (os_fds os)(os_next_fd os := None)\<rparr>"
  shows "os_wf os'"
  using assms by (auto simp: os_wf_def less_Suc_eq)

end
