(* ===== verification/SeaLog.thy ===== *)
theory SeaLog
  imports SeaPrelude
begin

text \<open>
  The interface that the stores of this program share: an append-only log, in which an
  append hands out the next number and a lookup by number returns the element that got it.
  The locale \<open>append_log\<close> states the contract and proves what a client may conclude; the
  index file of a block, a column array and the block store of the controller are
  interpretations of it, each in its own theory.
\<close>

text \<open>Appending a list of elements, collecting the numbers they get.\<close>

fun log_append_all ::
    "('e \<Rightarrow> 's \<Rightarrow> (nat \<times> 's) option) \<Rightarrow> 'e list \<Rightarrow> 's \<Rightarrow> (nat list \<times> 's) option" where
  "log_append_all app [] s = Some ([], s)"
| "log_append_all app (x # xs) s =
     (case app x s of
        None \<Rightarrow> None
      | Some (n, s1) \<Rightarrow>
        (case log_append_all app xs s1 of
           None \<Rightarrow> None
         | Some (ns, s2) \<Rightarrow> Some (n # ns, s2)))"

text \<open>Looking up a list of numbers, one after the other.\<close>

fun log_get_all ::
    "(nat \<Rightarrow> 's \<Rightarrow> ('e \<times> 's) option) \<Rightarrow> nat list \<Rightarrow> 's \<Rightarrow> ('e list \<times> 's) option" where
  "log_get_all get [] s = Some ([], s)"
| "log_get_all get (n # ns) s =
     (case get n s of
        None \<Rightarrow> None
      | Some (x, s1) \<Rightarrow>
        (case log_get_all get ns s1 of
           None \<Rightarrow> None
         | Some (xs, s2) \<Rightarrow> Some (x # xs, s2)))"

text \<open>Every prefix of \<open>xs\<close> leaves room for its next element.\<close>

fun log_fits :: "('e list \<Rightarrow> 'e \<Rightarrow> bool) \<Rightarrow> 'e list \<Rightarrow> 'e list \<Rightarrow> bool" where
  "log_fits fits es [] = True"
| "log_fits fits es (x # xs) = (fits es x \<and> log_fits fits (es @ [x]) xs)"

locale append_log =
  fixes holds :: "'s \<Rightarrow> 'e list \<Rightarrow> bool"
    and fits :: "'e list \<Rightarrow> 'e \<Rightarrow> bool"
    and app :: "'e \<Rightarrow> 's \<Rightarrow> (nat \<times> 's) option"
    and get :: "nat \<Rightarrow> 's \<Rightarrow> ('e \<times> 's) option"
  assumes app_ok: "holds s es \<Longrightarrow> fits es x \<Longrightarrow>
      \<exists>s'. app x s = Some (length es, s') \<and> holds s' (es @ [x])"
    and get_ok: "holds s es \<Longrightarrow> k < length es \<Longrightarrow>
      \<exists>s'. get k s = Some (es ! k, s') \<and> holds s' es"
begin

lemma app_all_ok:
  "holds s es \<Longrightarrow> log_fits fits es xs \<Longrightarrow>
    \<exists>s'. log_append_all app xs s = Some ([length es..<length es + length xs], s') \<and> holds s' (es @ xs)"
proof (induction xs arbitrary: s es)
  case (Cons x xs)
  obtain s1 where s1: "app x s = Some (length es, s1)" "holds s1 (es @ [x])"
    using app_ok [OF Cons.prems(1), of x] Cons.prems(2) by auto
  obtain s2 where "log_append_all app xs s1
      = Some ([Suc (length es)..<Suc (length es + length xs)], s2)" "holds s2 (es @ x # xs)"
    using Cons.IH [OF s1(2)] Cons.prems(2) by auto
  then show ?case
    using s1 by (simp add: upt_conv_Cons del: upt.simps)
qed simp

lemma get_all_ok:
  "holds s es \<Longrightarrow> \<forall>n \<in> set ns. n < length es \<Longrightarrow>
    \<exists>s'. log_get_all get ns s = Some (map ((!) es) ns, s') \<and> holds s' es"
proof (induction ns arbitrary: s)
  case (Cons n ns)
  obtain s1 where s1: "get n s = Some (es ! n, s1)" "holds s1 es"
    using get_ok [OF Cons.prems(1), of n] Cons.prems(2) by auto
  then show ?case
    using Cons.IH [OF s1(2)] Cons.prems(2) by auto
qed simp

text \<open>What was appended is what the numbers handed out lead to.\<close>

lemma append_then_get:
  assumes "holds s es" and "log_fits fits es xs"
  shows "\<exists>ns s1 s2. log_append_all app xs s = Some (ns, s1) \<and> length ns = length xs
    \<and> log_get_all get ns s1 = Some (xs, s2) \<and> holds s2 (es @ xs)"
proof -
  obtain s1 where s1: "log_append_all app xs s = Some ([length es..<length es + length xs], s1)"
    "holds s1 (es @ xs)"
    using app_all_ok [OF assms] by blast
  have "map ((!) (es @ xs)) [length es..<length es + length xs] = xs"
    by (rule nth_equalityI) (simp_all add: nth_append)
  then show ?thesis
    using s1 get_all_ok [OF s1(2), of "[length es..<length es + length xs]"] by auto
qed

text \<open>Appends do not change what the older numbers lead to.\<close>

lemma old_stable:
  assumes "holds s es" and "log_fits fits es xs" and "k < length es"
  shows "\<exists>ns s1 s2. log_append_all app xs s = Some (ns, s1) \<and> get k s1 = Some (es ! k, s2)"
proof -
  obtain ns s1 where s1: "log_append_all app xs s = Some (ns, s1)" "holds s1 (es @ xs)"
    using app_all_ok [OF assms(1,2)] by blast
  then show ?thesis
    using get_ok [OF s1(2), of k] assms(3) by (auto simp: nth_append)
qed

text \<open>The numbers handed out are pairwise different.\<close>

lemma app_all_distinct:
  assumes "holds s es" and "log_fits fits es xs"
  shows "\<exists>ns s1. log_append_all app xs s = Some (ns, s1) \<and> distinct ns"
  using app_all_ok [OF assms] by auto

end

text \<open>
  The second interface is a finite map with a capacity: an insertion that finds room
  replaces or adds one key, a lookup returns what the map says.
\<close>

fun store_all :: "('k \<Rightarrow> 'v \<Rightarrow> 's \<Rightarrow> 's option) \<Rightarrow> ('k \<times> 'v) list \<Rightarrow> 's \<Rightarrow> 's option" where
  "store_all ins [] s = Some s"
| "store_all ins ((k, v) # kvs) s = (case ins k v s of None \<Rightarrow> None | Some s1 \<Rightarrow> store_all ins kvs s1)"

locale map_store =
  fixes rep :: "'s \<Rightarrow> ('k \<rightharpoonup> 'v) \<Rightarrow> bool"
    and room :: nat
    and ins :: "'k \<Rightarrow> 'v \<Rightarrow> 's \<Rightarrow> 's option"
    and look :: "'s \<Rightarrow> 'k \<Rightarrow> 'v option"
  assumes ins_ok: "rep s M \<Longrightarrow> card (dom M) < room \<Longrightarrow> \<exists>s'. ins k v s = Some s' \<and> rep s' (M(k \<mapsto> v))"
    and look_ok: "rep s M \<Longrightarrow> look s k = M k"
    and rep_finite: "rep s M \<Longrightarrow> finite (dom M)"
begin

lemma store_all_ok:
  "rep s M \<Longrightarrow> card (dom M) + length kvs \<le> room \<Longrightarrow>
    \<exists>s'. store_all ins kvs s = Some s' \<and> rep s' (M ++ map_of (rev kvs))"
proof (induction kvs arbitrary: s M)
  case (Cons kv kvs)
  obtain k v where kv: "kv = (k, v)" by (cases kv)
  obtain s1 where s1: "ins k v s = Some s1" "rep s1 (M(k \<mapsto> v))"
    using ins_ok [OF Cons.prems(1)] Cons.prems(2) by force
  have "card (dom (M(k \<mapsto> v))) \<le> Suc (card (dom M))"
    using rep_finite [OF Cons.prems(1)] by (simp add: card_insert_if)
  then obtain s2 where "store_all ins kvs s1 = Some s2" "rep s2 (M(k \<mapsto> v) ++ map_of (rev kvs))"
    using Cons.IH [OF s1(2)] Cons.prems(2) by fastforce
  then show ?case
    using s1 by (simp add: kv)
qed simp

lemma store_all_look:
  assumes "rep s M" and "card (dom M) + length kvs \<le> room"
  shows "\<exists>s'. store_all ins kvs s = Some s' \<and> (\<forall>k. look s' k = (M ++ map_of (rev kvs)) k)"
  using store_all_ok [OF assms] look_ok by blast

end

end
