(* ===== verification/SeaArray.thy ===== *)
theory SeaArray
  imports SeaOS SeaLog
begin

text \<open>
  \<open>array.h\<close> and \<open>array.c\<close>: a column array, one file with a packed 37-byte header followed
  by fixed-size records.  The operations come first; \<open>array_wf\<close> then says that an open
  array holds the records \<open>rs\<close>, and the lemmas give create, open, append and read on it.
\<close>

section \<open>Record types\<close>

definition VALUE_TYPE_ARR_UINT8 :: u8 where "VALUE_TYPE_ARR_UINT8 = 1"
definition VALUE_TYPE_ARR_INT8 :: u8 where "VALUE_TYPE_ARR_INT8 = 2"
definition VALUE_TYPE_ARR_UINT16 :: u8 where "VALUE_TYPE_ARR_UINT16 = 3"
definition VALUE_TYPE_ARR_INT16 :: u8 where "VALUE_TYPE_ARR_INT16 = 4"
definition VALUE_TYPE_ARR_UINT32 :: u8 where "VALUE_TYPE_ARR_UINT32 = 5"
definition VALUE_TYPE_ARR_INT32 :: u8 where "VALUE_TYPE_ARR_INT32 = 6"
definition VALUE_TYPE_ARR_UINT64 :: u8 where "VALUE_TYPE_ARR_UINT64 = 7"
definition VALUE_TYPE_ARR_INT64 :: u8 where "VALUE_TYPE_ARR_INT64 = 8"
definition VALUE_TYPE_ARR_FLOAT :: u8 where "VALUE_TYPE_ARR_FLOAT = 9"
definition VALUE_TYPE_ARR_DOUBLE :: u8 where "VALUE_TYPE_ARR_DOUBLE = 10"
definition VALUE_TYPE_ARR_UINT128 :: u8 where "VALUE_TYPE_ARR_UINT128 = 11"

lemmas value_types = VALUE_TYPE_ARR_UINT8_def VALUE_TYPE_ARR_INT8_def VALUE_TYPE_ARR_UINT16_def
  VALUE_TYPE_ARR_INT16_def VALUE_TYPE_ARR_UINT32_def VALUE_TYPE_ARR_INT32_def
  VALUE_TYPE_ARR_UINT64_def VALUE_TYPE_ARR_INT64_def VALUE_TYPE_ARR_FLOAT_def
  VALUE_TYPE_ARR_DOUBLE_def VALUE_TYPE_ARR_UINT128_def

definition col_array_get_type_size :: "u8 \<Rightarrow> u32" where
  "col_array_get_type_size t =
     (if t = VALUE_TYPE_ARR_UINT8 then 1
      else if t = VALUE_TYPE_ARR_INT8 then 1
      else if t = VALUE_TYPE_ARR_UINT16 then 2
      else if t = VALUE_TYPE_ARR_INT16 then 2
      else if t = VALUE_TYPE_ARR_UINT32 then 4
      else if t = VALUE_TYPE_ARR_INT32 then 4
      else if t = VALUE_TYPE_ARR_UINT64 then 8
      else if t = VALUE_TYPE_ARR_INT64 then 8
      else if t = VALUE_TYPE_ARR_FLOAT then 8
      else if t = VALUE_TYPE_ARR_DOUBLE then 8
      else if t = VALUE_TYPE_ARR_UINT128 then 16
      else 4)"

section \<open>Structures\<close>

record col_array_info =
  ci_record_type :: u8
  ci_col_name :: "byte list"

record col_array_hdr =
  ch_count :: u32
  ch_record_type :: u8
  ch_col_name :: "byte list"

record col_array =
  ca_fd :: int
  ca_hdr :: col_array_hdr

definition sizeof_col_array_hdr :: nat where "sizeof_col_array_hdr = 37"

definition enc_col_array_hdr :: "col_array_hdr \<Rightarrow> byte list" where
  "enc_col_array_hdr h = bytes_of_u32 (ch_count h) @ [ch_record_type h] @ ch_col_name h"

definition dec_col_array_hdr :: "byte list \<Rightarrow> col_array_hdr" where
  "dec_col_array_hdr bs =
     \<lparr>ch_count = u32_of_bytes (take 4 bs), ch_record_type = bs ! 4, ch_col_name = take 32 (drop 5 bs)\<rparr>"

text \<open>A pointer result: null, pointing to freed memory, or to an object.\<close>

datatype 'a cptr = Null | Freed | Obj 'a

text \<open>An array whose memory was never written.\<close>

definition junk_array :: "os \<Rightarrow> col_array" where
  "junk_array os =
     \<lparr>ca_fd = sint (u32_of_bytes (junk_bytes os 4)),
      ca_hdr = dec_col_array_hdr (drop 4 (junk_bytes os 41))\<rparr>"

section \<open>Operations\<close>

text \<open>
  \<open>strlen\<close> over the 32 bytes of the name is defined only when one of them is 0.  The bytes
  of the header past the name are those the stack held; a complete write leaves its byte
  count in \<open>ret\<close>.
\<close>

definition col_array_create :: "string \<Rightarrow> col_array_info option \<Rightarrow> os \<Rightarrow> (int \<times> os) outcome" where
  "col_array_create path info os =
     (case info of
        None \<Rightarrow> Done (EINVAL, os)
      | Some info \<Rightarrow>
        (let (fd, os1) = sys_open path True os
         in if fd = - 1 then Done (os_errno os1, os1)
            else if 0 \<notin> set (ci_col_name info) then Undef
            else
              let n = c_strlen (ci_col_name info);
                  hdr = \<lparr>ch_count = 0, ch_record_type = ci_record_type info,
                         ch_col_name = take n (ci_col_name info) @ drop n (junk_bytes os1 32)\<rparr>;
                  (w, os2) = sys_write fd (enc_col_array_hdr hdr) os1;
                  ret = (if w \<noteq> int sizeof_col_array_hdr then os_errno os2 else w)
              in Done (ret, if fd > 0 then sys_close fd os2 else os2)))"

text \<open>The path given to \<open>unlink\<close> is an uninitialised local buffer.\<close>

definition col_array_destroy :: "string \<Rightarrow> os \<Rightarrow> (int \<times> os) outcome" where
  "col_array_destroy path os =
     (let (acc, os1) = sys_access path os
      in if acc = - 1 then Done (0, os1)
         else
           let filename = junk_bytes os1 PATH_MAX
           in if 0 \<notin> set filename then Undef
              else
                let (ret, os2) = sys_unlink (string_of_bytes (take (c_strlen filename) filename)) os1
                in Done (if ret \<noteq> 0 then os_errno os2 else ret, os2))"

definition col_array_open :: "string \<Rightarrow> os \<Rightarrow> col_array cptr \<times> int \<times> os" where
  "col_array_open path os =
     (let (ok, os1) = c_malloc 44 os
      in if \<not> ok then (Null, ENOMEM, os1)
         else
           let array = junk_array os1;
               (fd, os2) = sys_open path False os1
           in if fd = - 1
              then (if os_errno os2 \<noteq> 0 then (Freed, os_errno os2, os2) else (Obj array, 0, os2))
              else
                let (size, bs, os3) = sys_read fd sizeof_col_array_hdr os2
                in if size \<noteq> int sizeof_col_array_hdr
                   then (if os_errno os3 \<noteq> 0
                         then (Freed, os_errno os3, if fd > 0 then sys_close fd os3 else os3)
                         else (Obj array, 0, os3))
                   else (Obj \<lparr>ca_fd = fd, ca_hdr = dec_col_array_hdr bs\<rparr>, 0, os3))"

definition col_array_close :: "col_array \<Rightarrow> os \<Rightarrow> os" where
  "col_array_close array os = sys_close (ca_fd array) os"

definition col_array_append ::
    "col_array \<Rightarrow> byte list \<Rightarrow> u32 \<Rightarrow> os \<Rightarrow> (int \<times> col_array \<times> os) outcome" where
  "col_array_append array record record_size os =
     (let record_type_size = col_array_get_type_size (ch_record_type (ca_hdr array));
          record_count = record_size div record_type_size;
          real_record_size = record_count * record_type_size;
          (off, os1) = sys_lseek (ca_fd array) 0 SEEK_END os
      in if length record < unat real_record_size then Undef
         else
           let (w, os2) = sys_write (ca_fd array) (take (unat real_record_size) record) os1
           in if (word_of_int (as_int32 w) :: u32) \<noteq> real_record_size
              then Done (os_errno os2, array, sys_ftruncate (ca_fd array) (nat off) os2)
              else
                let hdr = (ca_hdr array)\<lparr>ch_count := ch_count (ca_hdr array) + record_count\<rparr>;
                    (_, os3) = sys_lseek (ca_fd array) 0 SEEK_SET os2;
                    (_, os4) = sys_write (ca_fd array) (enc_col_array_hdr hdr) os3
                in Done (0, array\<lparr>ca_hdr := hdr\<rparr>, os4))"

text \<open>
  Returns the code, the value stored through \<open>real_record_count\<close> and the buffer.  The
  product of the start index and the record size is taken on 32 bits.
\<close>

definition col_array_read ::
    "col_array \<Rightarrow> u32 \<Rightarrow> u32 \<Rightarrow> byte list \<Rightarrow> u32 \<Rightarrow> os \<Rightarrow>
      (int \<times> u32 option \<times> byte list \<times> os) outcome" where
  "col_array_read array index_start index_stop record record_size os =
     (let record_type_size = col_array_get_type_size (ch_record_type (ca_hdr array));
          real_buf_size = (record_size div record_type_size) * record_type_size;
          index_count_size = (index_stop - index_start) * record_type_size;
          real_limit_read_size =
            (if real_buf_size > index_count_size then index_count_size else real_buf_size);
          start_offset = uint (index_start * record_type_size) + int sizeof_col_array_hdr;
          (_, os1) = sys_lseek (ca_fd array) start_offset SEEK_SET os;
          (r, bs, os2) = sys_read (ca_fd array) (unat real_limit_read_size) os1;
          read_size = as_int32 r
      in if read_size < 0 then Done (os_errno os2, None, record, os2)
         else if length record < length bs then Undef
         else Done (0, Some (word_of_int read_size div record_type_size), put_at 0 bs record, os2))"

section \<open>Sizes\<close>

lemma type_size_cases:
  "col_array_get_type_size t \<in> {1, 2, 4, 8, 16}"
  by (simp add: col_array_get_type_size_def)

lemma type_size_bounds: "0 < unat (col_array_get_type_size t)" "unat (col_array_get_type_size t) \<le> 16"
  using type_size_cases [of t] by auto

lemma length_enc_hdr [simp]:
  "length (enc_col_array_hdr h) = 5 + length (ch_col_name h)"
  by (simp add: enc_col_array_hdr_def)

lemma dec_enc_hdr [simp]:
  "length (ch_col_name h) = 32 \<Longrightarrow> dec_col_array_hdr (enc_col_array_hdr h @ rest) = h"
  by (simp add: dec_col_array_hdr_def enc_col_array_hdr_def nth_append)

lemma take_drop_records:
  assumes "\<forall>r \<in> set rs. length r = n"
  shows "take (m * n) (drop (k * n) (concat rs)) = concat (take m (drop k rs))"
proof -
  have drop: "\<forall>r \<in> set rs. length r = n \<Longrightarrow> drop (k * n) (concat rs) = concat (drop k rs)" for k rs
  proof (induction rs arbitrary: k)
    case (Cons r rs)
    then show ?case by (cases k) simp_all
  qed simp
  have "\<forall>r \<in> set rs. length r = n \<Longrightarrow> take (m * n) (concat rs) = concat (take m rs)" for m rs
  proof (induction rs arbitrary: m)
    case (Cons r rs)
    then show ?case by (cases m) simp_all
  qed simp
  moreover have "\<forall>r \<in> set (drop k rs). length r = n"
    using assms by (meson in_set_dropD)
  ultimately show ?thesis
    using drop [OF assms] by simp
qed

section \<open>What an array holds\<close>

definition rec_size :: "col_array \<Rightarrow> nat" where
  "rec_size a = unat (col_array_get_type_size (ch_record_type (ca_hdr a)))"

lemma rec_size_bounds [simp]: "0 < rec_size a" "rec_size a \<le> 16" "rec_size a \<noteq> 0"
  using type_size_bounds [of "ch_record_type (ca_hdr a)"] by (simp_all add: rec_size_def)

definition array_file :: "col_array_hdr \<Rightarrow> byte list list \<Rightarrow> byte list" where
  "array_file h rs = enc_col_array_hdr h @ concat rs"

definition array_wf :: "os \<Rightarrow> col_array \<Rightarrow> nat \<Rightarrow> byte list list \<Rightarrow> bool" where
  "array_wf os a i rs \<longleftrightarrow>
     (\<exists>p. fd_at os (ca_fd a) i p) \<and> os_inodes os i = array_file (ca_hdr a) rs
     \<and> length (ch_col_name (ca_hdr a)) = 32
     \<and> (\<forall>r \<in> set rs. length r = rec_size a) \<and> unat (ch_count (ca_hdr a)) = length rs"

lemma unat_div_mul:
  fixes a b :: u32
  assumes "unat a = k * unat b + e" and "e < unat b"
  shows "a div b = of_nat k" and "unat (a div b * b) = k * unat b" and "unat (a div b) = k"
proof -
  have "unat a div unat b = k"
    using assms by simp
  then show k: "unat (a div b) = k"
    by (simp add: unat_div_distrib)
  then show "a div b = of_nat k"
    by (metis of_nat_unat ucast_id)
  show "unat (a div b * b) = k * unat b"
    using assms(1) k unsigned_less [of a, where 'a = nat]
    by (simp add: unat_word_ariths)
qed

lemma array_file_small: "array_wf os a i rs \<Longrightarrow> length (array_file (ca_hdr a) rs) < 2 ^ 63"
proof -
  assume wf: "array_wf os a i rs"
  then have "length (concat rs) = rec_size a * length rs"
    by (intro length_concat_equal) (simp add: array_wf_def)
  moreover have "length rs < 2 ^ 32"
    using wf unsigned_less [of "ch_count (ca_hdr a)", where 'a = nat]
    by (auto simp: array_wf_def)
  moreover have "rec_size a * length rs \<le> 16 * length rs"
    by (rule mult_le_mono1) simp
  ultimately have "length (concat rs) < 16 * 2 ^ 32"
    by linarith
  then show ?thesis
    using wf by (simp add: array_file_def array_wf_def del: length_concat)
qed

lemma word_of_int_as_int32: "(word_of_int (as_int32 x) :: u32) = word_of_int x"
  proof (rule bit_word_eqI)
  fix n assume "n < LENGTH(32)"
  then show "bit (word_of_int (as_int32 x) :: u32) n = bit (word_of_int x :: u32) n"
    by (cases "n = 31") (auto simp: as_int32_def bit_signed_take_bit_iff min_def bit_word_of_int_iff)
qed

text \<open>
  Appending \<open>n\<close> records, with fewer than one record's worth of trailing bytes that are
  dropped: the records are added and counted.
\<close>

lemma array_append_ok:
  assumes rel: "reliable os" and wf: "array_wf os a i rs"
    and new: "\<forall>r \<in> set new. length r = rec_size a"
    and buf: "take (length (concat new)) record = concat new" "length (concat new) \<le> length record"
    and size: "unat record_size = length new * rec_size a + rest" "rest < rec_size a"
    and room: "length rs + length new < 2 ^ 32"
  shows "\<exists>a' os'. col_array_append a record record_size os = Done (0, a', os')
    \<and> array_wf os' a' i (rs @ new) \<and> os_frame (ca_fd a) i os os' \<and> ca_fd a' = ca_fd a
    \<and> rec_size a' = rec_size a"
proof -
  obtain p where at: "fd_at os (ca_fd a) i p" and c: "os_inodes os i = array_file (ca_hdr a) rs"
    and name: "length (ch_col_name (ca_hdr a)) = 32" and old: "\<forall>r \<in> set rs. length r = rec_size a"
    and cnt: "unat (ch_count (ca_hdr a)) = length rs"
    using wf by (auto simp: array_wf_def)
  note d = unat_div_mul [OF size [unfolded rec_size_def]]
  have len: "length (concat new) = length new * rec_size a"
    using length_concat_equal [OF new] by (simp only: mult.commute)
  define h where "h = (ca_hdr a)\<lparr>ch_count := ch_count (ca_hdr a) + of_nat (length new)\<rparr>"
  let ?f = "ca_fd a"
  let ?os = "set_pos ?f i 37 (set_content i (array_file h (rs @ new)) (ticked (ticked os)))"
  have small: "length (array_file (ca_hdr a) rs) < 2 ^ 63"
    using wf by (rule array_file_small)
  have real: "unat (of_nat (length new) * col_array_get_type_size (ch_record_type (ca_hdr a)))
      = length (concat new)"
    using d(2) unfolding d(1) len rec_size_def .
  then have cnt32: "(word_of_int (int (length (concat new))) :: u32)
      = of_nat (length new) * col_array_get_type_size (ch_record_type (ca_hdr a))"
    by (metis of_int_of_nat_eq of_nat_unat ucast_id)
  have at_end: "file_write (enc_col_array_hdr (ca_hdr a) @ concat rs) (37 + length (concat rs)) x
      = enc_col_array_hdr (ca_hdr a) @ concat rs @ x" for x
    using file_write_end [of "enc_col_array_hdr (ca_hdr a) @ concat rs" x] name
    by (simp del: length_concat)
  have hl: "length (ch_col_name h) = 32"
    using name by (simp add: h_def)
  have over: "file_write (enc_col_array_hdr (ca_hdr a) @ x) 0 (enc_col_array_hdr h)
      = enc_col_array_hdr h @ x" for x
    using name hl by (simp add: file_write_0)
  have "col_array_append a record record_size (set_pos ?f i p os) = Done (0, a\<lparr>ca_hdr := h\<rparr>, ?os)"
    using rel small buf name cnt32
    by (simp add: col_array_append_def d(1) real os_run os_norm c Let_def at_end over hl
        word_of_int_as_int32 h_def [symmetric] array_file_def del: length_concat)
  then have run: "col_array_append a record record_size os =Done (0, a\<lparr>ca_hdr := h\<rparr>, ?os)"
    unfolding set_pos_same [OF at] .
  have "unat (ch_count h) = length rs + length new"
    using cnt room by (simp add: h_def unat_word_ariths unat_of_nat)
  then show ?thesis
    unfolding run using name old new
    by (auto simp: array_wf_def rec_size_def h_def)
qed

text \<open>
  Reading from \<open>start\<close> to \<open>stop\<close>: the records there, as many as fit the buffer size and
  as the file has.
\<close>

definition records_read :: "byte list list \<Rightarrow> nat \<Rightarrow> nat \<Rightarrow> nat \<Rightarrow> byte list list" where
  "records_read rs start stop cap = take (min (stop - start) cap) (drop start rs)"

lemma unat_mul_small: "unat x * unat y < 2 ^ 32 \<Longrightarrow> unat (x * y :: u32) = unat x * unat y"
  by (simp add: unat_word_ariths)

lemma array_read_ok:
  assumes rel: "reliable os" and wf: "array_wf os a i rs"
    and range: "unat start \<le> unat stop" "unat stop * rec_size a < 2 ^ 31"
    and recs: "recs = records_read rs (unat start) (unat stop) (unat record_size div rec_size a)"
    and buf: "length (concat recs) \<le> length record"
  shows "\<exists>os'. col_array_read a start stop record record_size os =
      Done (0, Some (of_nat (length recs)), put_at 0 (concat recs) record, os')
    \<and> array_wf os' a i rs \<and> os_frame (ca_fd a) i os os' \<and> os_inodes os' = os_inodes os"
proof -
  obtain p where at: "fd_at os (ca_fd a) i p" and c: "os_inodes os i = array_file (ca_hdr a) rs"
    and name: "length (ch_col_name (ca_hdr a)) = 32" and sz: "\<forall>r \<in> set rs. length r = rec_size a"
    using wf by (auto simp: array_wf_def)
  let ?ts = "col_array_get_type_size (ch_record_type (ca_hdr a))"
  let ?n = "unat stop - unat start" and ?m = "unat record_size div rec_size a"
  let ?k = "min ?n ?m"
  have ts: "unat ?ts = rec_size a" by (simp add: rec_size_def)
  have mono: "unat start * rec_size a \<le> unat stop * rec_size a" "?n * rec_size a \<le> unat stop * rec_size a"
    using range(1) by (auto intro: mult_le_mono1)
  have cap: "unat (record_size div ?ts * ?ts) = ?m * rec_size a"
    using unat_div_mul(2) [of record_size ?m ?ts "unat record_size mod rec_size a"] ts by simp
  have cnt: "unat ((stop - start) * ?ts) = ?n * rec_size a"
  proof -
    have "unat (stop - start) = ?n"
      using range(1) by (simp add: unat_sub word_le_nat_alt)
    moreover have "?n * rec_size a < 2 ^ 32"
      by (rule le_less_trans [OF mono(2)]) (use range(2) in simp)
    ultimately show ?thesis
      using unat_mul_small [of "stop - start" ?ts] ts by simp
  qed
  have off: "uint (start * ?ts) + 37 = int (37 + unat start * rec_size a)"
  proof -
    have "unat start * rec_size a < 2 ^ 32"
      by (rule le_less_trans [OF mono(1)]) (use range(2) in simp)
    then have "unat (start * ?ts) = unat start * rec_size a"
      using unat_mul_small [of start ?ts] ts by simp
    then show ?thesis by (metis add.commute of_nat_add of_nat_numeral uint_nat)
  qed
  have lim: "unat (if record_size div ?ts * ?ts > (stop - start) * ?ts then (stop - start) * ?ts
      else record_size div ?ts * ?ts) = ?k * rec_size a"
    using cap cnt by (auto simp: word_less_nat_alt min_def not_less)
  have rsz: "\<forall>r \<in> set recs. length r = rec_size a"
    using sz recs by (auto simp: records_read_def dest: in_set_takeD in_set_dropD)
  have bytes: "take (?k * rec_size a) (drop (37 + unat start * rec_size a) (array_file (ca_hdr a) rs))
      = concat recs"
    using name take_drop_records [OF sz, of ?k "unat start"] recs
    by (simp add: array_file_def records_read_def)
  have tot: "length (concat recs) = length recs * rec_size a"
    using length_concat_equal [OF rsz] by (simp only: mult.commute)
  have "length recs \<le> ?n"
    using recs by (simp add: records_read_def)
  then have "length recs * rec_size a < 2 ^ 31"
    by (intro le_less_trans [OF _ range(2)] le_trans [OF _ mono(2)] mult_le_mono1)
  then have t31: "length (concat recs) < 2 ^ 31"
    unfolding tot .
  have quot: "(of_nat (length (concat recs)) :: u32) div ?ts = of_nat (length recs)"
  proof -
    have "unat (of_nat (length (concat recs)) :: u32) = length recs * unat ?ts + 0"
      using t31 tot ts by (simp add: unat_of_nat del: length_concat of_nat_mult)
    then show ?thesis
      using unat_div_mul(1) [of "of_nat (length (concat recs))" "length recs" ?ts 0] ts
      by (simp add: del: length_concat)
  qed
  have count: "min (?k * rec_size a) (length (array_file (ca_hdr a) rs) - (37 + unat start * rec_size a))
      = length (concat recs)"
    unfolding bytes [symmetric] by (simp add: min.commute)
  let ?os = "set_pos (ca_fd a) i (37 + unat start * rec_size a + length (concat recs)) (ticked os)"
  have seek: "sys_lseek (ca_fd a) (int (37 + unat start * rec_size a)) SEEK_SET (set_pos (ca_fd a) i p os)
      = (int (37 + unat start * rec_size a), set_pos (ca_fd a) i (37 + unat start * rec_size a) os)"
    using le_less_trans [OF mono(1) range(2)] by (intro sys_lseek_set_run) simp
  have "col_array_read a start stop record record_size (set_pos (ca_fd a) i p os)
      = Done (0, Some (of_nat (length recs)), put_at 0 (concat recs) record, ?os)"
    using rel t31 buf
    by (simp add: col_array_read_def sizeof_col_array_hdr_def Let_def off seek lim c
        sys_read_run count bytes quot del: length_concat of_nat_add)
  then have run: "col_array_read a start stop record record_size os
      = Done (0, Some (of_nat (length recs)), put_at 0 (concat recs) record, ?os)"
    unfolding set_pos_same [OF at] .
  show ?thesis
    unfolding run using wf by (auto simp: array_wf_def)
qed

section \<open>Creating and opening\<close>

text \<open>A successful create returns 37, the number of bytes written, not 0.\<close>

lemma array_create_run:
  assumes rel: "reliable os" and wf: "os_wf os" and par: "parent_path path \<in> os_dirs os"
    and new: "os_names os path = None"
    and name: "length (ci_col_name info) = 32" "0 \<in> set (ci_col_name info)"
  shows "\<exists>h os'. col_array_create path (Some info) os = Done (37, os') \<and> reliable os' \<and> os_wf os'
    \<and> os_names os' = (os_names os)(path \<mapsto> os_next_ino os) \<and> os_dirs os' = os_dirs os
    \<and> os_inodes os' = (os_inodes os)(os_next_ino os := array_file h [])
    \<and> ch_count h = 0 \<and> ch_record_type h = ci_record_type info \<and> length (ch_col_name h) = 32
    \<and> take (c_strlen (ci_col_name info)) (ch_col_name h)
        = take (c_strlen (ci_col_name info)) (ci_col_name info)"
proof -
  have n: "c_strlen (ci_col_name info) \<le> 32"
    using length_takeWhile_le [of "\<lambda>b. b \<noteq> 0" "ci_col_name info"] name by (simp add: c_strlen_def)
  have pos: "os_next_fd os \<noteq> - 1" "0 < os_next_fd os"
    using wf by (auto simp: os_wf_def)
  show ?thesis
    using rel name pos n
    by (simp add: col_array_create_def sys_open_new [OF rel new par] os_run os_norm
        sizeof_col_array_hdr_def min_def Let_def)
      (use wf in \<open>auto simp: array_file_def os_wf_def less_Suc_eq file_write_def put_at_def junk_bytes_def
        intro!: exI conjI refl\<close>)
qed

text \<open>Opening an array that is on disk.\<close>

lemma array_open_ok:
  assumes rel: "reliable os" and wf: "os_wf os" and name: "os_names os path = Some i"
    and content: "os_inodes os i = array_file h rs" and len: "length (ch_col_name h) = 32"
    and recs: "\<forall>r \<in> set rs. length r = unat (col_array_get_type_size (ch_record_type h))"
    and cnt: "unat (ch_count h) = length rs"
  shows "\<exists>os'. col_array_open path os = (Obj \<lparr>ca_fd = os_next_fd os, ca_hdr = h\<rparr>, 0, os')
    \<and> array_wf os' \<lparr>ca_fd = os_next_fd os, ca_hdr = h\<rparr> i rs \<and> reliable os' \<and> os_wf os'
    \<and> os_names os' = os_names os \<and> os_inodes os' = os_inodes os"
proof -
  have pos: "os_next_fd os \<noteq> - 1" and i: "i < os_next_ino os"
    using wf name by (auto simp: os_wf_def)
  let ?os = "set_pos (os_next_fd os) i 37 (ticked (ticked (ticked os))\<lparr>os_next_fd := os_next_fd os + 1\<rparr>)"
  have hdr: "take 37 (array_file h rs) = enc_col_array_hdr h"
    using len by (simp add: array_file_def)
  have dec: "dec_col_array_hdr (enc_col_array_hdr h) = h"
    using dec_enc_hdr [OF len, of "[]"] by simp
  have long: "min 37 (length (array_file h rs)) = 37"
    using len by (simp add: array_file_def)
  have tick: "ticked (os'\<lparr>os_next_fd := n\<rparr>) = (ticked os')\<lparr>os_next_fd := n\<rparr>" for os' n
    by (simp add: ticked_def)
  have run: "col_array_open path os = (Obj \<lparr>ca_fd = os_next_fd os, ca_hdr = h\<rparr>, 0, ?os)"
    using rel pos content
    by (simp add: col_array_open_def sys_open_def name open_inode_run os_run os_norm tick
        sizeof_col_array_hdr_def hdr dec long)
  have "os_wf ?os"
    using wf i os_wf_opened [of "ticked (ticked (ticked os))" i 37] by simp
  then show ?thesis
    unfolding run using rel content len recs cnt
    by (auto simp: array_wf_def rec_size_def)
qed

section \<open>The array is a log of records\<close>

definition array_holds :: "nat \<Rightarrow> col_array \<times> os \<Rightarrow> byte list list \<Rightarrow> bool" where
  "array_holds n s rs \<longleftrightarrow>
     (\<exists>i. reliable (snd s) \<and> array_wf (snd s) (fst s) i rs \<and> rec_size (fst s) = n)"

definition array_app :: "byte list \<Rightarrow> col_array \<times> os \<Rightarrow> (nat \<times> col_array \<times> os) option" where
  "array_app r s =
     (case col_array_append (fst s) r (of_nat (length r)) (snd s) of
        Done (ret, a, os) \<Rightarrow> (if ret = 0 then Some (unat (ch_count (ca_hdr (fst s))), a, os) else None)
      | Undef \<Rightarrow> None)"

definition array_get :: "nat \<Rightarrow> nat \<Rightarrow> col_array \<times> os \<Rightarrow> (byte list \<times> col_array \<times> os) option" where
  "array_get n k s =
     (case col_array_read (fst s) (of_nat k) (of_nat (Suc k)) (replicate n 0) (of_nat n) (snd s) of
        Done (ret, cnt, buf, os) \<Rightarrow> (if ret = 0 \<and> cnt = Some 1 then Some (buf, fst s, os) else None)
      | Undef \<Rightarrow> None)"

definition array_fits :: "nat \<Rightarrow> byte list list \<Rightarrow> byte list \<Rightarrow> bool" where
  "array_fits n rs r \<longleftrightarrow> length r = n \<and> Suc (length rs) * n < 2 ^ 31 \<and> n < 2 ^ 31"

text \<open>Records of \<open>n\<close> bytes; the bound keeps every byte offset within 31 bits.\<close>

definition array_log_holds :: "nat \<Rightarrow> col_array \<times> os \<Rightarrow> byte list list \<Rightarrow> bool" where
  "array_log_holds n s rs \<longleftrightarrow> array_holds n s rs \<and> length rs * n < 2 ^ 31"

interpretation array_log: append_log "array_log_holds n" "array_fits n" array_app "array_get n"
  for n
proof
  fix s rs r
  assume h: "array_log_holds n s rs" and f: "array_fits n rs r"
  obtain i where rel: "reliable (snd s)" and wf: "array_wf (snd s) (fst s) i rs"
    and n: "rec_size (fst s) = n"
    using h by (auto simp: array_log_holds_def array_holds_def)
  have size: "length r = n" "Suc (length rs) * n < 2 ^ 31"
    using f by (auto simp: array_fits_def)
  have n1: "1 \<le> n" "n \<le> 16"
    using rec_size_bounds [of "fst s"] n by auto
  have "Suc (length rs) * 1 \<le> Suc (length rs) * n"
    by (rule mult_le_mono2 [OF n1(1)])
  then have room: "length rs + length [r] < 2 ^ 32"
    using size by simp
  have cnt: "unat (ch_count (ca_hdr (fst s))) = length rs"
    using wf by (simp add: array_wf_def)
  obtain a os' where run: "col_array_append (fst s) r (of_nat (length r)) (snd s) = Done (0, a, os')"
    and wf': "array_wf os' a i (rs @ [r])" and fr: "os_frame (ca_fd (fst s)) i (snd s) os'"
    and rs': "rec_size a = rec_size (fst s)"
    using array_append_ok [OF rel wf, of "[r]" r "of_nat (length r)" 0] size room n n1
    by (auto simp: unat_of_nat)
  have "array_log_holds n (a, os') (rs @ [r])"
    unfolding array_log_holds_def array_holds_def
    using wf' os_frame_reliable [OF fr] rel n rs' size by auto
  then show "\<exists>s'. array_app r s = Some (length rs, s') \<and> array_log_holds n s' (rs @ [r])"
    by (simp add: array_app_def run cnt)
next
  fix s rs k
  assume h: "array_log_holds n s rs" and k: "k < length rs"
  obtain i where rel: "reliable (snd s)" and wf: "array_wf (snd s) (fst s) i rs"
    and n: "rec_size (fst s) = n" and lim: "length rs * n < 2 ^ 31"
    using h by (auto simp: array_log_holds_def array_holds_def)
  have n1: "1 \<le> n" "n \<le> 16"
    using rec_size_bounds [of "fst s"] n by auto
  have len: "length (rs ! k) = n"
    using wf k n by (simp add: array_wf_def)
  have "Suc k * n \<le> length rs * n"
    using k by (intro mult_le_mono1) simp
  then have top: "Suc k * n < 2 ^ 31"
    using lim by linarith
  have "Suc k * 1 \<le> Suc k * n"
    by (rule mult_le_mono2 [OF n1(1)])
  then have small: "unat (of_nat k :: u32) = k" "unat (of_nat (Suc k) :: u32) = Suc k"
    "unat (of_nat n :: u32) = n"
    using top n1 by (simp_all add: unat_of_nat del: of_nat_Suc)
  have recs: "[rs ! k] = records_read rs (unat (of_nat k :: u32)) (unat (of_nat (Suc k) :: u32))
      (unat (of_nat n :: u32) div rec_size (fst s))"
    using k n1 unfolding small n records_read_def by (simp add: take_Suc_conv_app_nth hd_drop_conv_nth take_Suc)
  obtain os' where run: "col_array_read (fst s) (of_nat k) (of_nat (Suc k)) (replicate n 0) (of_nat n) (snd s)
      = Done (0, Some (of_nat (length [rs ! k])), put_at 0 (concat [rs ! k]) (replicate n 0), os')"
    and wf': "array_wf os' (fst s) i rs" and fr: "os_frame (ca_fd (fst s)) i (snd s) os'"
    using array_read_ok [OF rel wf _ _ recs, of "replicate n 0"] small top n len by auto
  have "array_log_holds n (fst s, os') rs"
    using wf' os_frame_reliable [OF fr] rel n lim by (auto simp: array_log_holds_def array_holds_def)
  then show "\<exists>s'. array_get n k s = Some (rs ! k, s') \<and> array_log_holds n s' rs"
    using run len by (simp add: array_get_def)
qed

end
