(* ===== verification/SeaMd5.thy ===== *)
theory SeaMd5
  imports SeaPrelude
begin

text \<open>
  \<open>md5.h\<close> and \<open>md5.c\<close>: the digest that names the file of a word.  First the code, with
  the macros as functions and the four unrolled rounds; then the reference definition in
  the style of RFC 1321 (a loop over a table of constants, a padded message cut into
  64-byte blocks), and the proof that the code computes it, block-wise and streamed.
\<close>

unbundle bit_operations_syntax

section \<open>The macros\<close>

definition F_md5 :: "u32 \<Rightarrow> u32 \<Rightarrow> u32 \<Rightarrow> u32" where
  "F_md5 x y z = (x AND y) OR (NOT x AND z)"

definition G_md5 :: "u32 \<Rightarrow> u32 \<Rightarrow> u32 \<Rightarrow> u32" where
  "G_md5 x y z = (x AND z) OR (y AND NOT z)"

definition H_md5 :: "u32 \<Rightarrow> u32 \<Rightarrow> u32 \<Rightarrow> u32" where
  "H_md5 x y z = x XOR y XOR z"

definition I_md5 :: "u32 \<Rightarrow> u32 \<Rightarrow> u32 \<Rightarrow> u32" where
  "I_md5 x y z = y XOR (x OR NOT z)"

definition ROTATE_LEFT :: "u32 \<Rightarrow> nat \<Rightarrow> u32" where
  "ROTATE_LEFT x n = push_bit n x OR drop_bit (32 - n) x"

text \<open>One step with the round function \<open>f\<close>: the new value of the register \<open>a\<close>.\<close>

definition md5_step ::
    "(u32 \<Rightarrow> u32 \<Rightarrow> u32 \<Rightarrow> u32) \<Rightarrow> u32 \<Rightarrow> u32 \<Rightarrow> u32 \<Rightarrow> u32 \<Rightarrow> u32 \<Rightarrow> nat \<Rightarrow> u32 \<Rightarrow> u32" where
  "md5_step f a b c d x s ac = ROTATE_LEFT (a + (f b c d + x + ac)) s + b"

definition FF :: "u32 \<Rightarrow> u32 \<Rightarrow> u32 \<Rightarrow> u32 \<Rightarrow> u32 \<Rightarrow> nat \<Rightarrow> u32 \<Rightarrow> u32" where "FF = md5_step F_md5"
definition GG :: "u32 \<Rightarrow> u32 \<Rightarrow> u32 \<Rightarrow> u32 \<Rightarrow> u32 \<Rightarrow> nat \<Rightarrow> u32 \<Rightarrow> u32" where "GG = md5_step G_md5"
definition HH :: "u32 \<Rightarrow> u32 \<Rightarrow> u32 \<Rightarrow> u32 \<Rightarrow> u32 \<Rightarrow> nat \<Rightarrow> u32 \<Rightarrow> u32" where "HH = md5_step H_md5"
definition II :: "u32 \<Rightarrow> u32 \<Rightarrow> u32 \<Rightarrow> u32 \<Rightarrow> u32 \<Rightarrow> nat \<Rightarrow> u32 \<Rightarrow> u32" where "II = md5_step I_md5"

section \<open>Encoding and decoding words\<close>

fun MD5Encode :: "u32 list \<Rightarrow> byte list" where
  "MD5Encode [] = []"
| "MD5Encode (w # ws) =
     [ucast (w AND 0xFF), ucast (drop_bit 8 w AND 0xFF), ucast (drop_bit 16 w AND 0xFF),
      ucast (drop_bit 24 w AND 0xFF)] @ MD5Encode ws"

fun MD5Decode :: "byte list \<Rightarrow> u32 list" where
  "MD5Decode (b0 # b1 # b2 # b3 # bs) =
     (ucast b0 OR push_bit 8 (ucast b1) OR push_bit 16 (ucast b2) OR push_bit 24 (ucast b3))
       # MD5Decode bs"
| "MD5Decode _ = []"

section \<open>The transformation of one block\<close>

type_synonym md5_regs = "u32 \<times> u32 \<times> u32 \<times> u32"

definition md5_round1 :: "u32 list \<Rightarrow> md5_regs \<Rightarrow> md5_regs" where
  "md5_round1 x = (\<lambda>(a, b, c, d).
     (let a = FF a b c d (x ! 0) 7 0xd76aa478;
          d = FF d a b c (x ! 1) 12 0xe8c7b756;
          c = FF c d a b (x ! 2) 17 0x242070db;
          b = FF b c d a (x ! 3) 22 0xc1bdceee;
          a = FF a b c d (x ! 4) 7 0xf57c0faf;
          d = FF d a b c (x ! 5) 12 0x4787c62a;
          c = FF c d a b (x ! 6) 17 0xa8304613;
          b = FF b c d a (x ! 7) 22 0xfd469501;
          a = FF a b c d (x ! 8) 7 0x698098d8;
          d = FF d a b c (x ! 9) 12 0x8b44f7af;
          c = FF c d a b (x ! 10) 17 0xffff5bb1;
          b = FF b c d a (x ! 11) 22 0x895cd7be;
          a = FF a b c d (x ! 12) 7 0x6b901122;
          d = FF d a b c (x ! 13) 12 0xfd987193;
          c = FF c d a b (x ! 14) 17 0xa679438e;
          b = FF b c d a (x ! 15) 22 0x49b40821
      in (a, b, c, d)))"

definition md5_round2 :: "u32 list \<Rightarrow> md5_regs \<Rightarrow> md5_regs" where
  "md5_round2 x = (\<lambda>(a, b, c, d).
     (let a = GG a b c d (x ! 1) 5 0xf61e2562;
          d = GG d a b c (x ! 6) 9 0xc040b340;
          c = GG c d a b (x ! 11) 14 0x265e5a51;
          b = GG b c d a (x ! 0) 20 0xe9b6c7aa;
          a = GG a b c d (x ! 5) 5 0xd62f105d;
          d = GG d a b c (x ! 10) 9 0x2441453;
          c = GG c d a b (x ! 15) 14 0xd8a1e681;
          b = GG b c d a (x ! 4) 20 0xe7d3fbc8;
          a = GG a b c d (x ! 9) 5 0x21e1cde6;
          d = GG d a b c (x ! 14) 9 0xc33707d6;
          c = GG c d a b (x ! 3) 14 0xf4d50d87;
          b = GG b c d a (x ! 8) 20 0x455a14ed;
          a = GG a b c d (x ! 13) 5 0xa9e3e905;
          d = GG d a b c (x ! 2) 9 0xfcefa3f8;
          c = GG c d a b (x ! 7) 14 0x676f02d9;
          b = GG b c d a (x ! 12) 20 0x8d2a4c8a
      in (a, b, c, d)))"

definition md5_round3 :: "u32 list \<Rightarrow> md5_regs \<Rightarrow> md5_regs" where
  "md5_round3 x = (\<lambda>(a, b, c, d).
     (let a = HH a b c d (x ! 5) 4 0xfffa3942;
          d = HH d a b c (x ! 8) 11 0x8771f681;
          c = HH c d a b (x ! 11) 16 0x6d9d6122;
          b = HH b c d a (x ! 14) 23 0xfde5380c;
          a = HH a b c d (x ! 1) 4 0xa4beea44;
          d = HH d a b c (x ! 4) 11 0x4bdecfa9;
          c = HH c d a b (x ! 7) 16 0xf6bb4b60;
          b = HH b c d a (x ! 10) 23 0xbebfbc70;
          a = HH a b c d (x ! 13) 4 0x289b7ec6;
          d = HH d a b c (x ! 0) 11 0xeaa127fa;
          c = HH c d a b (x ! 3) 16 0xd4ef3085;
          b = HH b c d a (x ! 6) 23 0x4881d05;
          a = HH a b c d (x ! 9) 4 0xd9d4d039;
          d = HH d a b c (x ! 12) 11 0xe6db99e5;
          c = HH c d a b (x ! 15) 16 0x1fa27cf8;
          b = HH b c d a (x ! 2) 23 0xc4ac5665
      in (a, b, c, d)))"

definition md5_round4 :: "u32 list \<Rightarrow> md5_regs \<Rightarrow> md5_regs" where
  "md5_round4 x = (\<lambda>(a, b, c, d).
     (let a = II a b c d (x ! 0) 6 0xf4292244;
          d = II d a b c (x ! 7) 10 0x432aff97;
          c = II c d a b (x ! 14) 15 0xab9423a7;
          b = II b c d a (x ! 5) 21 0xfc93a039;
          a = II a b c d (x ! 12) 6 0x655b59c3;
          d = II d a b c (x ! 3) 10 0x8f0ccc92;
          c = II c d a b (x ! 10) 15 0xffeff47d;
          b = II b c d a (x ! 1) 21 0x85845dd1;
          a = II a b c d (x ! 8) 6 0x6fa87e4f;
          d = II d a b c (x ! 15) 10 0xfe2ce6e0;
          c = II c d a b (x ! 6) 15 0xa3014314;
          b = II b c d a (x ! 13) 21 0x4e0811a1;
          a = II a b c d (x ! 4) 6 0xf7537e82;
          d = II d a b c (x ! 11) 10 0xbd3af235;
          c = II c d a b (x ! 2) 15 0x2ad7d2bb;
          b = II b c d a (x ! 9) 21 0xeb86d391
      in (a, b, c, d)))"

definition MD5Transform :: "md5_regs \<Rightarrow> byte list \<Rightarrow> md5_regs" where
  "MD5Transform state block =
     (let x = MD5Decode (take 64 block);
          (a, b, c, d) = md5_round4 x (md5_round3 x (md5_round2 x (md5_round1 x state)));
          (a0, b0, c0, d0) = state
      in (a0 + a, b0 + b, c0 + c, d0 + d))"

section \<open>The context\<close>

record MD5_CTX =
  md5_count0 :: u32
  md5_count1 :: u32
  md5_state :: md5_regs
  md5_buffer :: "byte list"

definition PADDING :: "byte list" where
  "PADDING = 0x80 # replicate 63 0"

text \<open>The buffer is not initialised: \<open>junk\<close> is what the 64 bytes held.\<close>

definition MD5Init :: "byte list \<Rightarrow> MD5_CTX" where
  "MD5Init junk =
     \<lparr>md5_count0 = 0, md5_count1 = 0,
      md5_state = (0x67452301, 0xEFCDAB89, 0x98BADCFE, 0x10325476), md5_buffer = junk\<rparr>"

text \<open>
  The loop over the whole blocks of the input, with its 32-bit index; it does not end
  when \<open>i + 64\<close> wraps around, hence an option.
\<close>

partial_function (option) md5_blocks ::
    "u32 \<Rightarrow> u32 \<Rightarrow> byte list \<Rightarrow> md5_regs \<Rightarrow> (u32 \<times> md5_regs) option" where
  "md5_blocks i inputlen input state =
     (if i + 64 \<le> inputlen
      then md5_blocks (i + 64) inputlen input (MD5Transform state (drop (unat i) input))
      else Some (i, state))"

declare md5_blocks.simps [code]

definition MD5Update :: "MD5_CTX \<Rightarrow> byte list \<Rightarrow> u32 \<Rightarrow> MD5_CTX option" where
  "MD5Update ctx input inputlen =
     (let index = drop_bit 3 (md5_count0 ctx) AND 0x3F;
          partlen = 64 - index;
          bits = push_bit 3 inputlen;
          count0 = md5_count0 ctx + bits;
          count1 = (if count0 < bits then md5_count1 ctx + 1 else md5_count1 ctx);
          count1 = count1 + drop_bit 29 inputlen
      in if inputlen \<ge> partlen then
           let buffer = put_at (unat index) (take (unat partlen) input) (md5_buffer ctx)
           in (case md5_blocks partlen inputlen input (MD5Transform (md5_state ctx) buffer) of
                 None \<Rightarrow> None
               | Some (i, state) \<Rightarrow>
                   Some \<lparr>md5_count0 = count0, md5_count1 = count1, md5_state = state,
                     md5_buffer =
                       put_at 0 (take (unat (inputlen - i)) (drop (unat i) input)) buffer\<rparr>)
         else
           Some \<lparr>md5_count0 = count0, md5_count1 = count1, md5_state = md5_state ctx,
             md5_buffer = put_at (unat index) (take (unat inputlen) input) (md5_buffer ctx)\<rparr>)"

definition MD5Final :: "MD5_CTX \<Rightarrow> byte list option" where
  "MD5Final ctx =
     (let index = drop_bit 3 (md5_count0 ctx) AND 0x3F;
          padlen = (if index < 56 then 56 - index else 120 - index);
          bits = MD5Encode [md5_count0 ctx, md5_count1 ctx]
      in (case MD5Update ctx PADDING padlen of
            None \<Rightarrow> None
          | Some ctx1 \<Rightarrow>
            (case MD5Update ctx1 bits 8 of
               None \<Rightarrow> None
             | Some ctx2 \<Rightarrow>
               (let (a, b, c, d) = md5_state ctx2 in Some (MD5Encode [a, b, c, d])))))"

text \<open>
  The digest of a C string in lower-case hexadecimal.  Both callers hand in an output
  buffer of 48 bytes, which holds the 32 digits and their terminator.
\<close>

definition hex_digit :: "nat \<Rightarrow> char" where
  "hex_digit n = char_of (if n < 10 then 48 + n else 87 + n)"

definition hex_byte :: "byte \<Rightarrow> string" where
  "hex_byte b = [hex_digit (unat b div 16), hex_digit (unat b mod 16)]"

definition md5 :: "byte list \<Rightarrow> byte list \<Rightarrow> string option" where
  "md5 junk word =
     (case MD5Update (MD5Init junk) word (of_nat (length word)) of
        None \<Rightarrow> None
      | Some ctx \<Rightarrow> map_option (\<lambda>digest. concat (map hex_byte digest)) (MD5Final ctx))"

section \<open>The reference\<close>

text \<open>
  The algorithm of RFC 1321, with nothing taken from the code: the 64 additive constants, the
  shifts and the word order of each round, the four functions on words, rotation by the library,
  bytes and words by arithmetic, hexadecimal digits from a list.
\<close>

definition md5_table :: "u32 list" where
  "md5_table = [
     0xd76aa478, 0xe8c7b756, 0x242070db, 0xc1bdceee, 0xf57c0faf, 0x4787c62a, 0xa8304613,
     0xfd469501, 0x698098d8, 0x8b44f7af, 0xffff5bb1, 0x895cd7be, 0x6b901122, 0xfd987193,
     0xa679438e, 0x49b40821, 0xf61e2562, 0xc040b340, 0x265e5a51, 0xe9b6c7aa, 0xd62f105d,
     0x2441453, 0xd8a1e681, 0xe7d3fbc8, 0x21e1cde6, 0xc33707d6, 0xf4d50d87, 0x455a14ed,
     0xa9e3e905, 0xfcefa3f8, 0x676f02d9, 0x8d2a4c8a, 0xfffa3942, 0x8771f681, 0x6d9d6122,
     0xfde5380c, 0xa4beea44, 0x4bdecfa9, 0xf6bb4b60, 0xbebfbc70, 0x289b7ec6, 0xeaa127fa,
     0xd4ef3085, 0x4881d05, 0xd9d4d039, 0xe6db99e5, 0x1fa27cf8, 0xc4ac5665, 0xf4292244,
     0x432aff97, 0xab9423a7, 0xfc93a039, 0x655b59c3, 0x8f0ccc92, 0xffeff47d, 0x85845dd1,
     0x6fa87e4f, 0xfe2ce6e0, 0xa3014314, 0x4e0811a1, 0xf7537e82, 0xbd3af235, 0x2ad7d2bb,
     0xeb86d391]"

definition md5_shift :: "nat \<Rightarrow> nat" where
  "md5_shift i =
     [[7, 12, 17, 22], [5, 9, 14, 20], [4, 11, 16, 23], [6, 10, 15, 21]] ! (i div 16) ! (i mod 4)"

definition md5_word :: "nat \<Rightarrow> nat" where
  "md5_word i = [i, 5 * i + 1, 3 * i + 5, 7 * i] ! (i div 16) mod 16"

definition md5_fun :: "nat \<Rightarrow> u32 \<Rightarrow> u32 \<Rightarrow> u32 \<Rightarrow> u32" where
  "md5_fun i =
     [\<lambda>x y z. (x AND y) OR (NOT x AND z), \<lambda>x y z. (x AND z) OR (y AND NOT z),
      \<lambda>x y z. x XOR y XOR z, \<lambda>x y z. y XOR (x OR NOT z)] ! (i div 16)"

text \<open>The sixteen words of a block, the low byte first.\<close>

definition md5_word_of :: "byte list \<Rightarrow> u32" where
  "md5_word_of bs = foldr (\<lambda>b w. ucast b + 256 * w) bs 0"

definition md5_words :: "byte list \<Rightarrow> u32 list" where
  "md5_words block = map (\<lambda>j. md5_word_of (take 4 (drop (4 * j) block))) [0..<16]"

text \<open>One step of the loop: the registers move one place round.\<close>

definition md5_ref_step :: "u32 list \<Rightarrow> nat \<Rightarrow> md5_regs \<Rightarrow> md5_regs" where
  "md5_ref_step x i = (\<lambda>(a, b, c, d).
     (d, b + word_rotl (md5_shift i) (a + md5_fun i b c d + x ! md5_word i + md5_table ! i), b, c))"

definition md5_ref_block :: "md5_regs \<Rightarrow> byte list \<Rightarrow> md5_regs" where
  "md5_ref_block s block =
     (case (s, fold (md5_ref_step (md5_words block)) [0..<64] s) of
        ((a0, b0, c0, d0), (a, b, c, d)) \<Rightarrow> (a0 + a, b0 + b, c0 + c, d0 + d))"

text \<open>The message, a 1 bit, zeros up to 56 modulo 64, and the length in bits on 64 bits.\<close>

definition md5_pad :: "byte list \<Rightarrow> byte list" where
  "md5_pad m =
     m @ [0x80] @ replicate ((119 - length m mod 64) mod 64) 0 @ le_enc 8 (8 * length m)"

fun blocks_of :: "byte list \<Rightarrow> byte list list" where
  "blocks_of m = (if length m < 64 then [] else take 64 m # blocks_of (drop 64 m))"

declare blocks_of.simps [simp del]

definition md5_bytes_of :: "u32 \<Rightarrow> byte list" where
  "md5_bytes_of w = [ucast w, ucast (w div 256), ucast (w div 65536), ucast (w div 16777216)]"

definition md5_ref :: "byte list \<Rightarrow> byte list" where
  "md5_ref m =
     (case fold (\<lambda>b s. md5_ref_block s b) (blocks_of (md5_pad m))
             (0x67452301, 0xEFCDAB89, 0x98BADCFE, 0x10325476) of
        (a, b, c, d) \<Rightarrow> concat (map md5_bytes_of [a, b, c, d]))"

definition md5_hex :: "byte list \<Rightarrow> string" where
  "md5_hex bs = concat (map (\<lambda>b. [''0123456789abcdef'' ! (unat b div 16), ''0123456789abcdef'' ! (unat b mod 16)]) bs)"

section \<open>The unrolled rounds are the loop\<close>

text \<open>
  Each step of the loop is one macro call, with the new register bound by a \<open>let\<close> as the
  assignment of the code binds it, so that the two sides unfold to the same term.
\<close>

definition md5_code_fun :: "nat \<Rightarrow> u32 \<Rightarrow> u32 \<Rightarrow> u32 \<Rightarrow> u32" where
  "md5_code_fun i = [F_md5, G_md5, H_md5, I_md5] ! (i div 16)"

lemma md5_fun_code: "md5_fun = md5_code_fun"
proof -
  have e: "F_md5 = (\<lambda>x y z. (x AND y) OR (NOT x AND z))" "G_md5 = (\<lambda>x y z. (x AND z) OR (y AND NOT z))"
    "H_md5 = (\<lambda>x y z. x XOR y XOR z)" "I_md5 = (\<lambda>x y z. y XOR (x OR NOT z))"
    by (simp_all add: fun_eq_iff F_md5_def G_md5_def H_md5_def I_md5_def)
  show ?thesis by (rule ext)+ (simp only: md5_fun_def md5_code_fun_def e)
qed

lemma ROTATE_LEFT_rotl:
  assumes "0 < n" and "n < 32"
  shows "ROTATE_LEFT x n = word_rotl n x"
proof (rule bit_word_eqI)
  fix i assume i: "i < LENGTH(32)"
  show "bit (ROTATE_LEFT x n) i = bit (word_rotl n x) i"
  proof (cases "n \<le> i")
    case True
    then have "(i + (32 - n)) mod 32 = i - n" using assms i by (simp add: mod_if)
    then show ?thesis
      using True i assms by (auto simp: ROTATE_LEFT_def bit_simps bit_word_rotl_iff dest: bit_imp_le_length)
  next
    case False
    then have "(i + (32 - n)) mod 32 = 32 - n + i" using assms by simp
    then show ?thesis
      using False i assms by (auto simp: ROTATE_LEFT_def bit_simps bit_word_rotl_iff)
  qed
qed

lemma md5_shift_bounds: "i < 64 \<Longrightarrow> 0 < md5_shift i \<and> md5_shift i < 32"
proof -
  have "\<forall>i \<in> set [0..<64]. 0 < md5_shift i \<and> md5_shift i < 32" by code_simp
  then show "i < 64 \<Longrightarrow> 0 < md5_shift i \<and> md5_shift i < 32" by simp
qed

lemma md5_ref_step_code:
  "i < 64 \<Longrightarrow> md5_ref_step x i (a, b, c, d)
     = (d, md5_step (md5_code_fun i) a b c d (x ! md5_word i) (md5_shift i) (md5_table ! i), b, c)"
  using md5_shift_bounds [of i]
  by (simp add: md5_ref_step_def md5_step_def ROTATE_LEFT_rotl md5_fun_code ac_simps)

lemmas md5_tables = md5_ref_step_code md5_table_def md5_shift_def md5_word_def md5_code_fun_def
  FF_def GG_def HH_def II_def

lemma md5_steps_1:
  "fold (md5_ref_step x) (0 # is) (a, b, c, d) = (let a = FF a b c d (x ! 0) 7 0xd76aa478 in fold (md5_ref_step x) is (d, a, b, c))"
  "fold (md5_ref_step x) (Suc 0 # is) (a, b, c, d) = (let a = FF a b c d (x ! 1) 12 0xe8c7b756 in fold (md5_ref_step x) is (d, a, b, c))"
  "fold (md5_ref_step x) (2 # is) (a, b, c, d) = (let a = FF a b c d (x ! 2) 17 0x242070db in fold (md5_ref_step x) is (d, a, b, c))"
  "fold (md5_ref_step x) (3 # is) (a, b, c, d) = (let a = FF a b c d (x ! 3) 22 0xc1bdceee in fold (md5_ref_step x) is (d, a, b, c))"
  "fold (md5_ref_step x) (4 # is) (a, b, c, d) = (let a = FF a b c d (x ! 4) 7 0xf57c0faf in fold (md5_ref_step x) is (d, a, b, c))"
  "fold (md5_ref_step x) (5 # is) (a, b, c, d) = (let a = FF a b c d (x ! 5) 12 0x4787c62a in fold (md5_ref_step x) is (d, a, b, c))"
  "fold (md5_ref_step x) (6 # is) (a, b, c, d) = (let a = FF a b c d (x ! 6) 17 0xa8304613 in fold (md5_ref_step x) is (d, a, b, c))"
  "fold (md5_ref_step x) (7 # is) (a, b, c, d) = (let a = FF a b c d (x ! 7) 22 0xfd469501 in fold (md5_ref_step x) is (d, a, b, c))"
  "fold (md5_ref_step x) (8 # is) (a, b, c, d) = (let a = FF a b c d (x ! 8) 7 0x698098d8 in fold (md5_ref_step x) is (d, a, b, c))"
  "fold (md5_ref_step x) (9 # is) (a, b, c, d) = (let a = FF a b c d (x ! 9) 12 0x8b44f7af in fold (md5_ref_step x) is (d, a, b, c))"
  "fold (md5_ref_step x) (10 # is) (a, b, c, d) = (let a = FF a b c d (x ! 10) 17 0xffff5bb1 in fold (md5_ref_step x) is (d, a, b, c))"
  "fold (md5_ref_step x) (11 # is) (a, b, c, d) = (let a = FF a b c d (x ! 11) 22 0x895cd7be in fold (md5_ref_step x) is (d, a, b, c))"
  "fold (md5_ref_step x) (12 # is) (a, b, c, d) = (let a = FF a b c d (x ! 12) 7 0x6b901122 in fold (md5_ref_step x) is (d, a, b, c))"
  "fold (md5_ref_step x) (13 # is) (a, b, c, d) = (let a = FF a b c d (x ! 13) 12 0xfd987193 in fold (md5_ref_step x) is (d, a, b, c))"
  "fold (md5_ref_step x) (14 # is) (a, b, c, d) = (let a = FF a b c d (x ! 14) 17 0xa679438e in fold (md5_ref_step x) is (d, a, b, c))"
  "fold (md5_ref_step x) (15 # is) (a, b, c, d) = (let a = FF a b c d (x ! 15) 22 0x49b40821 in fold (md5_ref_step x) is (d, a, b, c))"
  by (simp_all add: md5_tables Let_def)

lemma md5_steps_2:
  "fold (md5_ref_step x) (16 # is) (a, b, c, d) = (let a = GG a b c d (x ! 1) 5 0xf61e2562 in fold (md5_ref_step x) is (d, a, b, c))"
  "fold (md5_ref_step x) (17 # is) (a, b, c, d) = (let a = GG a b c d (x ! 6) 9 0xc040b340 in fold (md5_ref_step x) is (d, a, b, c))"
  "fold (md5_ref_step x) (18 # is) (a, b, c, d) = (let a = GG a b c d (x ! 11) 14 0x265e5a51 in fold (md5_ref_step x) is (d, a, b, c))"
  "fold (md5_ref_step x) (19 # is) (a, b, c, d) = (let a = GG a b c d (x ! 0) 20 0xe9b6c7aa in fold (md5_ref_step x) is (d, a, b, c))"
  "fold (md5_ref_step x) (20 # is) (a, b, c, d) = (let a = GG a b c d (x ! 5) 5 0xd62f105d in fold (md5_ref_step x) is (d, a, b, c))"
  "fold (md5_ref_step x) (21 # is) (a, b, c, d) = (let a = GG a b c d (x ! 10) 9 0x2441453 in fold (md5_ref_step x) is (d, a, b, c))"
  "fold (md5_ref_step x) (22 # is) (a, b, c, d) = (let a = GG a b c d (x ! 15) 14 0xd8a1e681 in fold (md5_ref_step x) is (d, a, b, c))"
  "fold (md5_ref_step x) (23 # is) (a, b, c, d) = (let a = GG a b c d (x ! 4) 20 0xe7d3fbc8 in fold (md5_ref_step x) is (d, a, b, c))"
  "fold (md5_ref_step x) (24 # is) (a, b, c, d) = (let a = GG a b c d (x ! 9) 5 0x21e1cde6 in fold (md5_ref_step x) is (d, a, b, c))"
  "fold (md5_ref_step x) (25 # is) (a, b, c, d) = (let a = GG a b c d (x ! 14) 9 0xc33707d6 in fold (md5_ref_step x) is (d, a, b, c))"
  "fold (md5_ref_step x) (26 # is) (a, b, c, d) = (let a = GG a b c d (x ! 3) 14 0xf4d50d87 in fold (md5_ref_step x) is (d, a, b, c))"
  "fold (md5_ref_step x) (27 # is) (a, b, c, d) = (let a = GG a b c d (x ! 8) 20 0x455a14ed in fold (md5_ref_step x) is (d, a, b, c))"
  "fold (md5_ref_step x) (28 # is) (a, b, c, d) = (let a = GG a b c d (x ! 13) 5 0xa9e3e905 in fold (md5_ref_step x) is (d, a, b, c))"
  "fold (md5_ref_step x) (29 # is) (a, b, c, d) = (let a = GG a b c d (x ! 2) 9 0xfcefa3f8 in fold (md5_ref_step x) is (d, a, b, c))"
  "fold (md5_ref_step x) (30 # is) (a, b, c, d) = (let a = GG a b c d (x ! 7) 14 0x676f02d9 in fold (md5_ref_step x) is (d, a, b, c))"
  "fold (md5_ref_step x) (31 # is) (a, b, c, d) = (let a = GG a b c d (x ! 12) 20 0x8d2a4c8a in fold (md5_ref_step x) is (d, a, b, c))"
  by (simp_all add: md5_tables Let_def)

lemma md5_steps_3:
  "fold (md5_ref_step x) (32 # is) (a, b, c, d) = (let a = HH a b c d (x ! 5) 4 0xfffa3942 in fold (md5_ref_step x) is (d, a, b, c))"
  "fold (md5_ref_step x) (33 # is) (a, b, c, d) = (let a = HH a b c d (x ! 8) 11 0x8771f681 in fold (md5_ref_step x) is (d, a, b, c))"
  "fold (md5_ref_step x) (34 # is) (a, b, c, d) = (let a = HH a b c d (x ! 11) 16 0x6d9d6122 in fold (md5_ref_step x) is (d, a, b, c))"
  "fold (md5_ref_step x) (35 # is) (a, b, c, d) = (let a = HH a b c d (x ! 14) 23 0xfde5380c in fold (md5_ref_step x) is (d, a, b, c))"
  "fold (md5_ref_step x) (36 # is) (a, b, c, d) = (let a = HH a b c d (x ! 1) 4 0xa4beea44 in fold (md5_ref_step x) is (d, a, b, c))"
  "fold (md5_ref_step x) (37 # is) (a, b, c, d) = (let a = HH a b c d (x ! 4) 11 0x4bdecfa9 in fold (md5_ref_step x) is (d, a, b, c))"
  "fold (md5_ref_step x) (38 # is) (a, b, c, d) = (let a = HH a b c d (x ! 7) 16 0xf6bb4b60 in fold (md5_ref_step x) is (d, a, b, c))"
  "fold (md5_ref_step x) (39 # is) (a, b, c, d) = (let a = HH a b c d (x ! 10) 23 0xbebfbc70 in fold (md5_ref_step x) is (d, a, b, c))"
  "fold (md5_ref_step x) (40 # is) (a, b, c, d) = (let a = HH a b c d (x ! 13) 4 0x289b7ec6 in fold (md5_ref_step x) is (d, a, b, c))"
  "fold (md5_ref_step x) (41 # is) (a, b, c, d) = (let a = HH a b c d (x ! 0) 11 0xeaa127fa in fold (md5_ref_step x) is (d, a, b, c))"
  "fold (md5_ref_step x) (42 # is) (a, b, c, d) = (let a = HH a b c d (x ! 3) 16 0xd4ef3085 in fold (md5_ref_step x) is (d, a, b, c))"
  "fold (md5_ref_step x) (43 # is) (a, b, c, d) = (let a = HH a b c d (x ! 6) 23 0x4881d05 in fold (md5_ref_step x) is (d, a, b, c))"
  "fold (md5_ref_step x) (44 # is) (a, b, c, d) = (let a = HH a b c d (x ! 9) 4 0xd9d4d039 in fold (md5_ref_step x) is (d, a, b, c))"
  "fold (md5_ref_step x) (45 # is) (a, b, c, d) = (let a = HH a b c d (x ! 12) 11 0xe6db99e5 in fold (md5_ref_step x) is (d, a, b, c))"
  "fold (md5_ref_step x) (46 # is) (a, b, c, d) = (let a = HH a b c d (x ! 15) 16 0x1fa27cf8 in fold (md5_ref_step x) is (d, a, b, c))"
  "fold (md5_ref_step x) (47 # is) (a, b, c, d) = (let a = HH a b c d (x ! 2) 23 0xc4ac5665 in fold (md5_ref_step x) is (d, a, b, c))"
  by (simp_all add: md5_tables Let_def)

lemma md5_steps_4:
  "fold (md5_ref_step x) (48 # is) (a, b, c, d) = (let a = II a b c d (x ! 0) 6 0xf4292244 in fold (md5_ref_step x) is (d, a, b, c))"
  "fold (md5_ref_step x) (49 # is) (a, b, c, d) = (let a = II a b c d (x ! 7) 10 0x432aff97 in fold (md5_ref_step x) is (d, a, b, c))"
  "fold (md5_ref_step x) (50 # is) (a, b, c, d) = (let a = II a b c d (x ! 14) 15 0xab9423a7 in fold (md5_ref_step x) is (d, a, b, c))"
  "fold (md5_ref_step x) (51 # is) (a, b, c, d) = (let a = II a b c d (x ! 5) 21 0xfc93a039 in fold (md5_ref_step x) is (d, a, b, c))"
  "fold (md5_ref_step x) (52 # is) (a, b, c, d) = (let a = II a b c d (x ! 12) 6 0x655b59c3 in fold (md5_ref_step x) is (d, a, b, c))"
  "fold (md5_ref_step x) (53 # is) (a, b, c, d) = (let a = II a b c d (x ! 3) 10 0x8f0ccc92 in fold (md5_ref_step x) is (d, a, b, c))"
  "fold (md5_ref_step x) (54 # is) (a, b, c, d) = (let a = II a b c d (x ! 10) 15 0xffeff47d in fold (md5_ref_step x) is (d, a, b, c))"
  "fold (md5_ref_step x) (55 # is) (a, b, c, d) = (let a = II a b c d (x ! 1) 21 0x85845dd1 in fold (md5_ref_step x) is (d, a, b, c))"
  "fold (md5_ref_step x) (56 # is) (a, b, c, d) = (let a = II a b c d (x ! 8) 6 0x6fa87e4f in fold (md5_ref_step x) is (d, a, b, c))"
  "fold (md5_ref_step x) (57 # is) (a, b, c, d) = (let a = II a b c d (x ! 15) 10 0xfe2ce6e0 in fold (md5_ref_step x) is (d, a, b, c))"
  "fold (md5_ref_step x) (58 # is) (a, b, c, d) = (let a = II a b c d (x ! 6) 15 0xa3014314 in fold (md5_ref_step x) is (d, a, b, c))"
  "fold (md5_ref_step x) (59 # is) (a, b, c, d) = (let a = II a b c d (x ! 13) 21 0x4e0811a1 in fold (md5_ref_step x) is (d, a, b, c))"
  "fold (md5_ref_step x) (60 # is) (a, b, c, d) = (let a = II a b c d (x ! 4) 6 0xf7537e82 in fold (md5_ref_step x) is (d, a, b, c))"
  "fold (md5_ref_step x) (61 # is) (a, b, c, d) = (let a = II a b c d (x ! 11) 10 0xbd3af235 in fold (md5_ref_step x) is (d, a, b, c))"
  "fold (md5_ref_step x) (62 # is) (a, b, c, d) = (let a = II a b c d (x ! 2) 15 0x2ad7d2bb in fold (md5_ref_step x) is (d, a, b, c))"
  "fold (md5_ref_step x) (63 # is) (a, b, c, d) = (let a = II a b c d (x ! 9) 21 0xeb86d391 in fold (md5_ref_step x) is (d, a, b, c))"
  by (simp_all add: md5_tables Let_def)

lemma md5_round1_loop: "fold (md5_ref_step x) [0..<16] s = md5_round1 x s"
proof -
  have "[0..<16] = [0, Suc 0, 2, 3, 4, 5, 6, 7, 8, 9, 10, 11, 12, 13, 14, 15]"
    by (simp add: upt_rec)
  then show ?thesis
    by (cases s) (simp only: md5_steps_1 md5_round1_def prod.case fold_simps(1))
qed

lemma md5_round2_loop: "fold (md5_ref_step x) [16..<32] s = md5_round2 x s"
proof -
  have "[16..<32] = [16, 17, 18, 19, 20, 21, 22, 23, 24, 25, 26, 27, 28, 29, 30, 31]"
    by (simp add: upt_rec)
  then show ?thesis
    by (cases s) (simp only: md5_steps_2 md5_round2_def prod.case fold_simps(1))
qed

lemma md5_round3_loop: "fold (md5_ref_step x) [32..<48] s = md5_round3 x s"
proof -
  have "[32..<48] = [32, 33, 34, 35, 36, 37, 38, 39, 40, 41, 42, 43, 44, 45, 46, 47]"
    by (simp add: upt_rec)
  then show ?thesis
    by (cases s) (simp only: md5_steps_3 md5_round3_def prod.case fold_simps(1))
qed

lemma md5_round4_loop: "fold (md5_ref_step x) [48..<64] s = md5_round4 x s"
proof -
  have "[48..<64] = [48, 49, 50, 51, 52, 53, 54, 55, 56, 57, 58, 59, 60, 61, 62, 63]"
    by (simp add: upt_rec)
  then show ?thesis
    by (cases s) (simp only: md5_steps_4 md5_round4_def prod.case fold_simps(1))
qed

text \<open>Decoding a block gives its words.\<close>

lemma or_byte: "(ucast (b :: byte) :: u32) OR push_bit 8 w = ucast b + 256 * w"
proof -
  have "(ucast b :: u32) AND push_bit 8 w = 0"
    by (rule bit_word_eqI) (auto simp: bit_simps dest: bit_imp_le_length)
  then have "(ucast b :: u32) OR push_bit 8 w = ucast b + push_bit 8 w"
    using word_plus_and_or [of "ucast b :: u32" "push_bit 8 w"] by simp
  then show ?thesis by (simp add: push_bit_eq_mult)
qed

lemma decode_word:
  "ucast b0 OR push_bit 8 (ucast b1) OR push_bit 16 (ucast b2) OR push_bit 24 (ucast b3) = md5_word_of [b0, b1, b2, b3]"
proof -
  have "ucast b0 OR push_bit 8 (ucast b1) OR push_bit 16 (ucast b2) OR push_bit 24 (ucast b3)
      = (ucast b0 :: u32) OR push_bit 8 (ucast b1 OR push_bit 8 (ucast b2 OR push_bit 8 (ucast b3)))"
    by (simp add: push_bit_or or.assoc)
  then show ?thesis by (simp only: or_byte md5_word_of_def foldr.simps comp_apply id_apply mult_zero_right add_0_right)
qed

lemma MD5Decode_map: "length bs = 4 * n \<Longrightarrow> MD5Decode bs = map (\<lambda>j. md5_word_of (take 4 (drop (4 * j) bs))) [0..<n]"
proof (induction n arbitrary: bs)
  case (Suc n)
  then obtain b0 b1 b2 b3 cs where bs: "bs = b0 # b1 # b2 # b3 # cs" "length cs = 4 * n"
    by (auto simp: numeral_eq_Suc length_Suc_conv)
  have "[0..<Suc n] = 0 # map Suc [0..<n]" by (simp add: upt_conv_Cons map_Suc_upt del: upt_Suc)
  then show ?case
    using Suc.IH [OF bs(2)] decode_word [of b0 b1 b2 b3] by (simp add: bs(1) numeral_eq_Suc comp_def)
qed simp

lemma MD5Transform_ref:
  assumes "64 \<le> length block"
  shows "MD5Transform state block = md5_ref_block state (take 64 block)"
proof -
  have words: "MD5Decode (take 64 block) = md5_words (take 64 block)"
    using MD5Decode_map [of "take 64 block" 16] assms by (simp add: md5_words_def del: upt.simps)
  have split: "[0..<64] = [0..<16] @ [16..<32] @ [32..<48] @ [48..<64]"
    by (simp add: upt_rec)
  have "fold (md5_ref_step x) [0..<64] s
      = md5_round4 x (md5_round3 x (md5_round2 x (md5_round1 x s)))" for x s
    unfolding split fold_append comp_apply
    using md5_round1_loop [of x] md5_round2_loop [of x] md5_round3_loop [of x] md5_round4_loop [of x]
    by (simp del: upt.simps fold_simps)
  then show ?thesis
    by (simp add: MD5Transform_def md5_ref_block_def Let_def words split: prod.splits)
qed

section \<open>The streamed digest is the digest of the message\<close>

lemma blocks_of_short [simp]: "length m < 64 \<Longrightarrow> blocks_of m = []"
  by (simp add: blocks_of.simps)

lemma blocks_of_cons: "length b = 64 \<Longrightarrow> blocks_of (b @ m) = b # blocks_of m"
  by (simp add: blocks_of.simps [of "b @ m"])

lemma blocks_of_append:
  "length xs = 64 * k \<Longrightarrow> blocks_of (xs @ ys) = blocks_of xs @ blocks_of ys"
proof (induction k arbitrary: xs)
  case (Suc k)
  have x: "xs = take 64 xs @ drop 64 xs" and l: "length (take 64 xs) = 64"
    using Suc.prems by simp_all
  have "blocks_of (take 64 xs @ drop 64 xs @ ys) = take 64 xs # blocks_of (drop 64 xs) @ blocks_of ys"
    using Suc blocks_of_cons [OF l] by simp
  moreover have "blocks_of xs = take 64 xs # blocks_of (drop 64 xs)"
    using blocks_of_cons [OF l, of "drop 64 xs"] by simp
  ultimately show ?case
    by (metis append.assoc append_Cons x)
qed simp

definition md5_rest :: "byte list \<Rightarrow> byte list" where
  "md5_rest m = drop (64 * (length m div 64)) m"

lemma length_md5_rest [simp]: "length (md5_rest m) = length m mod 64"
  by (simp add: md5_rest_def minus_mult_div_eq_mod)

lemma md5_split: "m = take (64 * (length m div 64)) m @ md5_rest m"
  by (simp add: md5_rest_def)

lemma blocks_of_whole: "blocks_of (take (64 * (length m div 64)) m) = blocks_of m"
  using blocks_of_append [of "take (64 * (length m div 64)) m" "length m div 64" "md5_rest m"]
  by (simp add: md5_split [symmetric])

lemma blocks_of_extend:
  "blocks_of (m @ n) = blocks_of m @ blocks_of (md5_rest m @ n)"
  "md5_rest (m @ n) = md5_rest (md5_rest m @ n)"
proof -
  let ?w = "take (64 * (length m div 64)) m"
  have w: "length ?w = 64 * (length m div 64)" by simp
  have m: "m @ n = ?w @ md5_rest m @ n"
    using md5_split [of m] by (metis append.assoc)
  show "blocks_of (m @ n) = blocks_of m @ blocks_of (md5_rest m @ n)"
    unfolding m blocks_of_append [OF w] blocks_of_whole ..
  have "(length m + length n) div 64
      = ((length m mod 64 + length n) + length m div 64 * 64) div 64"
    using div_mult_mod_eq [of "length m" 64] by (intro arg_cong2 [where f = "(div)"]) linarith+
  also have "\<dots> = length m div 64 + (length m mod 64 + length n) div 64"
    by (rule div_mult_self1) simp
  finally have "64 * ((length m + length n) div 64)
      = 64 * ((length m mod 64 + length n) div 64) + 64 * (length m div 64)"
    by (simp only: distrib_left add.commute)
  then have "md5_rest (m @ n)
      = drop (64 * ((length m mod 64 + length n) div 64)) (drop (64 * (length m div 64)) (m @ n))"
    unfolding md5_rest_def length_append drop_drop by (simp only:)
  also have "drop (64 * (length m div 64)) (m @ n) = md5_rest m @ n"
    using w unfolding m by (metis append_eq_conv_conj)
  finally show "md5_rest (m @ n) = md5_rest (md5_rest m @ n)"
    by (simp add: md5_rest_def [of "md5_rest m @ n"])
qed

text \<open>The loop over whole blocks; it ends unless the 32-bit index wraps around.\<close>

abbreviation md5_fold :: "byte list list \<Rightarrow> md5_regs \<Rightarrow> md5_regs" where
  "md5_fold bs s \<equiv> fold (\<lambda>b s. md5_ref_block s b) bs s"

lemma unat_plus_64: "unat i + 64 < 2 ^ 32 \<Longrightarrow> unat (i + 64 :: u32) = unat i + 64"
  by (simp add: unat_word_ariths)

lemma md5_blocks_run:
  assumes "unat i \<le> unat n" and "unat n < 2 ^ 32 - 64" and "length input = unat n"
  shows "\<exists>i'. md5_blocks i n input s = Some (i', md5_fold (blocks_of (drop (unat i) input)) s)
    \<and> unat i' \<le> unat n \<and> drop (unat i') input = md5_rest (drop (unat i) input)"
  using assms
proof (induction "unat n - unat i" arbitrary: i s rule: less_induct)
  case less
  have inc: "unat (i + 64) = unat i + 64"
    using less.prems by (intro unat_plus_64) simp
  show ?case
  proof (cases "i + 64 \<le> n")
    case True
    then have le: "unat i + 64 \<le> unat n"
      using inc by (simp add: word_le_nat_alt)
    let ?d = "drop (unat i) input"
    have "?d = take 64 ?d @ drop (unat (i + 64)) input" and l: "length (take 64 ?d) = 64"
      using le less.prems append_take_drop_id [of 64 "drop (unat i) input"]
      by (simp_all add: inc add.commute)
    then have b: "blocks_of ?d = take 64 ?d # blocks_of (drop (unat (i + 64)) input)"
      and r: "md5_rest ?d = md5_rest (drop (unat (i + 64)) input)"
      using blocks_of_cons [OF l] blocks_of_extend(2) [of "take 64 ?d"] l
      by (metis, metis append_Nil md5_rest_def drop_all length_md5_rest list.size(3) length_0_conv mod_self)
    have dec: "unat n - unat (i + 64) < unat n - unat i"
      using le inc by simp
    obtain i' where
      "md5_blocks (i + 64) n input (md5_ref_block s (take 64 ?d))
        = Some (i', md5_fold (blocks_of (drop (unat (i + 64)) input)) (md5_ref_block s (take 64 ?d)))"
      "unat i' \<le> unat n" "drop (unat i') input = md5_rest (drop (unat (i + 64)) input)"
      using less.hyps [OF dec _ less.prems(2,3)] le inc by fastforce
    then show ?thesis
      using True b r by (subst md5_blocks.simps) (use le less.prems in \<open>auto simp: MD5Transform_ref\<close>)
  next
    case False
    then have "unat n < unat i + 64"
      using inc by (simp add: word_le_nat_alt)
    then have "length (drop (unat i) input) < 64"
      using less.prems by simp
    then show ?thesis
      using False less.prems by (subst md5_blocks.simps) (simp add: md5_rest_def)
  qed
qed

text \<open>A context that has absorbed the message \<open>m\<close>.\<close>

definition md5_init_regs :: md5_regs where
  "md5_init_regs = (0x67452301, 0xEFCDAB89, 0x98BADCFE, 0x10325476)"

definition ctx_rep :: "byte list \<Rightarrow> MD5_CTX \<Rightarrow> bool" where
  "ctx_rep m ctx \<longleftrightarrow>
     md5_state ctx = md5_fold (blocks_of m) md5_init_regs \<and> length (md5_buffer ctx) = 64
     \<and> take (length m mod 64) (md5_buffer ctx) = md5_rest m
     \<and> md5_count0 ctx = of_nat (8 * length m) \<and> md5_count1 ctx = of_nat (8 * length m div 2 ^ 32)"

lemma ctx_rep_init: "length junk = 64 \<Longrightarrow> ctx_rep [] (MD5Init junk)"
  by (simp add: ctx_rep_def MD5Init_def md5_init_regs_def md5_rest_def)

lemma md5_index:
  "unat (drop_bit 3 (of_nat (8 * n) :: u32) AND 0x3F) = n mod 64"
proof -
  have mask: "(0x3F :: u32) = mask 6" by (simp add: mask_eq_exp_minus_1)
  have "unat (drop_bit 3 (of_nat (8 * n) :: u32) AND 0x3F) = (8 * n mod (8 * 2 ^ 29) div 8) mod 64"
    unfolding mask by (simp add: take_bit_eq_mask [symmetric] unsigned_take_bit_eq take_bit_eq_mod
        drop_bit_eq_div unat_div_distrib unat_mod_distrib unat_of_nat del: of_nat_mult)
  also have "\<dots> = n mod 2 ^ 29 mod 64"
    by (simp only: mult_mod_right [symmetric]) simp
  also have "\<dots> = n mod 64"
    by (rule mod_mod_cancel) simp
  finally show ?thesis .
qed

text \<open>The two halves of the bit count add with the carry.\<close>

lemma md5_carry:
  fixes x y :: nat
  shows "(of_nat ((x + y) div 2 ^ 32) :: u32)
    = of_nat (x div 2 ^ 32) + (if (of_nat x + of_nat y :: u32) < of_nat y then 1 else 0)
      + of_nat (y div 2 ^ 32)"
proof -
  let ?M = "2 ^ 32 :: nat"
  let ?c = "(x mod ?M + y mod ?M) div ?M"
  have div: "(x + y) div ?M = x div ?M + y div ?M + ?c"
    by (rule div_add1_eq)
  have small: "x mod ?M < ?M" "y mod ?M < ?M" by simp_all
  have sum: "unat (of_nat x + of_nat y :: u32) = (x mod ?M + y mod ?M) mod ?M"
    by (simp add: unat_word_ariths unat_of_nat)
  have "(of_nat x + of_nat y :: u32) < of_nat y \<longleftrightarrow> ?c = 1"
  proof (cases "x mod ?M + y mod ?M < ?M")
    case True
    then have "?c = 0" and "(x mod ?M + y mod ?M) mod ?M = x mod ?M + y mod ?M"
      by (simp_all only: div_less mod_less)
    then show ?thesis
      using sum by (simp add: word_less_nat_alt unat_of_nat)
  next
    case False
    then have ge: "?M \<le> x mod ?M + y mod ?M" and lt: "x mod ?M + y mod ?M < ?M + ?M"
      using small by linarith+
    then have "?c = 1"
      by (intro div_nat_eqI) simp_all
    moreover have "(x mod ?M + y mod ?M) mod ?M = x mod ?M + y mod ?M - ?M"
      unfolding le_mod_geq [OF ge] by (rule mod_less) (use lt in linarith)
    moreover have "x mod ?M + y mod ?M - ?M < y mod ?M"
      using small ge by linarith
    ultimately show ?thesis
      using sum by (simp add: word_less_nat_alt unat_of_nat)
  qed
  moreover have "?c = 0 \<or> ?c = 1"
    using small by (auto simp: div_if)
  ultimately show ?thesis
    unfolding div by auto
qed

lemma MD5Update_run:
  assumes rep: "ctx_rep m ctx" and n: "unat inputlen < 2 ^ 32 - 64" and len: "length input = unat inputlen"
  shows "\<exists>ctx'. MD5Update ctx input inputlen = Some ctx' \<and> ctx_rep (m @ input) ctx'"
proof -
  let ?r = "length m mod 64"
  let ?index = "drop_bit 3 (md5_count0 ctx) AND 0x3F" and ?bits = "push_bit 3 inputlen :: u32"
  let ?c0 = "md5_count0 ctx + ?bits"
  let ?c1 = "(if ?c0 < ?bits then md5_count1 ctx + 1 else md5_count1 ctx) + drop_bit 29 inputlen"
  have st: "md5_state ctx = md5_fold (blocks_of m) md5_init_regs" and bl: "length (md5_buffer ctx) = 64"
    and buf: "take ?r (md5_buffer ctx) = md5_rest m" and c00: "md5_count0 ctx = of_nat (8 * length m)"
    and c10: "md5_count1 ctx = of_nat (8 * length m div 2 ^ 32)"
    using rep by (auto simp: ctx_rep_def)
  have index: "unat ?index = ?r"
    unfolding c00 by (rule md5_index)
  have r: "?r < 64" by simp
  have part: "unat (64 - ?index) = 64 - ?r"
    using index r by (simp add: unat_sub word_le_nat_alt)
  have bits: "?bits = of_nat (8 * length input)"
    using len by (simp add: push_bit_eq_mult)
  have high: "drop_bit 29 inputlen = (of_nat (8 * length input div 2 ^ 32) :: u32)"
  proof -
    have "8 * unat inputlen div 2 ^ 32 = unat inputlen div 2 ^ 29"
      using div_mult_mult1 [of 8 "unat inputlen" "2 ^ 29"] by simp
    moreover have "unat inputlen div 2 ^ 29 < 2 ^ 32"
      by (rule le_less_trans [OF div_le_dividend]) (use n in simp)
    ultimately show ?thesis
      unfolding len by (simp add: word_unat_eq_iff drop_bit_eq_div unat_div_distrib unat_of_nat)
  qed
  define c0 c1 where cdefs: "c0 = ?c0" "c1 = ?c1"
  have counts: "c0 = of_nat (8 * length (m @ input))" "c1 = of_nat (8 * length (m @ input) div 2 ^ 32)"
  proof -
    show "c0 = of_nat (8 * length (m @ input))"
      unfolding cdefs bits c00 by simp
    show "c1 = of_nat (8 * length (m @ input) div 2 ^ 32)"
      using md5_carry [of "8 * length m" "8 * length input"]
      unfolding cdefs bits c00 c10 high by (simp add: distrib_left)
  qed
  show ?thesis
  proof (cases "64 - ?index \<le> inputlen")
    case True
    then have ge: "64 - ?r \<le> length input"
      using part len by (simp add: word_le_nat_alt)
    define b where "b = md5_rest m @ take (64 - ?r) input"
    have lb: "length b = 64"
      using ge r by (simp add: b_def)
    have fill: "put_at (unat ?index) (take (unat (64 - ?index)) input) (md5_buffer ctx) = b"
      using ge r bl unfolding part index b_def put_at_def buf by simp
    have split: "md5_rest m @ input = b @ drop (64 - ?r) input"
      by (simp add: b_def)
    have blocks: "blocks_of (m @ input) = blocks_of m @ b # blocks_of (drop (64 - ?r) input)"
      unfolding blocks_of_extend(1) [of m] split blocks_of_cons [OF lb] ..
    have rest: "md5_rest (m @ input) = md5_rest (drop (64 - ?r) input)"
      unfolding blocks_of_extend(2) [of m] split unfolding blocks_of_extend(2) [of b]
      using lb by (simp add: md5_rest_def [of b])
    obtain i where loop: "md5_blocks (64 - ?index) inputlen input (md5_ref_block (md5_state ctx) b)
        = Some (i, md5_fold (blocks_of (drop (64 - ?r) input)) (md5_ref_block (md5_state ctx) b))"
      and i: "unat i \<le> unat inputlen" and tail: "drop (unat i) input = md5_rest (drop (64 - ?r) input)"
      using md5_blocks_run [of "64 - ?index" inputlen input "md5_ref_block (md5_state ctx) b"]
        n len ge part by auto
    have left: "take (unat (inputlen - i)) (drop (unat i) input) = md5_rest (m @ input)"
    proof -
      have "unat (inputlen - i) = length (drop (unat i) input)"
        using i len by (simp add: unat_sub word_le_nat_alt)
      then show ?thesis
        unfolding rest tail [symmetric] by (metis order_refl take_all)
    qed
    have lr: "length (md5_rest (m @ input)) = length (m @ input) mod 64" by simp
    have "length (md5_rest (m @ input)) \<le> 64"
      unfolding lr by simp
    moreover have "MD5Update ctx input inputlen = Some \<lparr>md5_count0 = c0, md5_count1 = c1,
        md5_state = md5_fold (blocks_of (drop (64 - ?r) input)) (md5_ref_block (md5_state ctx) b),
        md5_buffer = put_at 0 (md5_rest (m @ input)) b\<rparr>"
      using True loop lb
      by (simp add: MD5Update_def Let_def fill MD5Transform_ref left cdefs)
    ultimately show ?thesis
      unfolding counts by (simp add: ctx_rep_def st blocks put_at_def lb)
  next
    case False
    then have lt: "length input < 64 - ?r"
      using part len by (simp add: word_le_nat_alt)
    then have short: "length (md5_rest m @ input) < 64" by simp
    have "md5_rest (m @ input) = md5_rest m @ input"
      unfolding blocks_of_extend(2) [of m] using short by (simp add: md5_rest_def [of "md5_rest m @ input"])
    moreover from this have "length (m @ input) mod 64 = ?r + length input"
      by (metis length_append length_md5_rest)
    moreover have "MD5Update ctx input inputlen = Some \<lparr>md5_count0 = c0, md5_count1 = c1,
        md5_state = md5_state ctx, md5_buffer = put_at ?r input (md5_buffer ctx)\<rparr>"
      using False len by (simp add: MD5Update_def Let_def index cdefs)
    ultimately show ?thesis
      using bl buf lt unfolding counts
      by (simp add: ctx_rep_def st blocks_of_extend(1) [of m input] short put_at_def)
  qed
qed

text \<open>Finishing: the padding and the length complete the last block.\<close>

lemma MD5Update_prefix:
  assumes "unat n \<le> 64"
  shows "MD5Update ctx input n = MD5Update ctx (take (unat n) input) n"
proof -
  let ?i = "64 - (drop_bit 3 (md5_count0 ctx) AND 0x3F)"
  have mask: "(0x3F :: u32) = mask 6" by (simp add: mask_eq_exp_minus_1)
  have "unat (drop_bit 3 (md5_count0 ctx) AND 0x3F) < 64"
    unfolding mask by (simp add: take_bit_eq_mask [symmetric] take_bit_eq_mod unat_mod_distrib)
  then have i: "0 < unat ?i" "unat ?i \<le> 64"
    by (simp_all add: unat_sub word_le_nat_alt)
  then have "unat (?i + 64) = unat ?i + 64"
    by (intro unat_plus_64) simp
  then have stop: "\<not> ?i + 64 \<le> n"
    using assms i by (simp add: word_le_nat_alt)
  then have run: "md5_blocks ?i n inp s = Some (?i, s)" for inp s
    by (subst md5_blocks.simps) simp
  have "?i \<le> n \<Longrightarrow> take (unat (n - ?i)) (drop (unat ?i) (take (unat n) input))
      = take (unat (n - ?i)) (drop (unat ?i) input)"
    by (simp add: unat_sub word_le_nat_alt drop_take)
  moreover have "?i \<le> n \<Longrightarrow> take (unat ?i) (take (unat n) input) = take (unat ?i) input"
    by (simp add: word_le_nat_alt min_def)
  ultimately show ?thesis
    by (simp add: MD5Update_def Let_def run)
qed

lemma MD5Encode_append: "MD5Encode (xs @ ys) = MD5Encode xs @ MD5Encode ys"
  by (induction xs) simp_all

lemma ucast_byte: "(ucast (w AND 0xFF :: u32) :: byte) = of_nat (unat w)"
proof -
  have mask: "(0xFF :: u32) = mask 8" by (simp add: mask_eq_exp_minus_1)
  show ?thesis
    unfolding mask by (simp add: take_bit_eq_mask [symmetric] word_unat_eq_iff unat_of_nat
        unsigned_ucast_eq take_bit_eq_mod unat_mod_distrib)
qed

lemma le_enc_4: "le_enc 4 v = [of_nat v, of_nat (v div 256), of_nat (v div 65536), of_nat (v div 16777216)]"
proof -
  have "le_enc (Suc (Suc (Suc (Suc 0)))) v
      = [of_nat v, of_nat (v div 256), of_nat (v div 65536), of_nat (v div 16777216)]"
    by (simp flip: div_mult2_eq)
  moreover have "4 = Suc (Suc (Suc (Suc 0)))"
    by simp
  ultimately show ?thesis
    by (simp only:)
qed

lemma MD5Encode_bytes: "MD5Encode ws = concat (map md5_bytes_of ws)"
proof (induction ws)
  case (Cons w ws)
  have "of_nat (unat v) = (ucast v :: byte)" for v :: u32 by (simp add: word_unat_eq_iff unat_of_nat unsigned_ucast_eq take_bit_eq_mod)
  then show ?case using Cons
    by (simp add: ucast_byte md5_bytes_of_def drop_bit_eq_div)
qed simp

lemma MD5Encode_le: "MD5Encode [w] = le_enc 4 (unat w)"
  by (simp add: ucast_byte le_enc_4 drop_bit_eq_div unat_div_distrib)

lemma le_enc_split: "le_enc (m + n) v = le_enc m v @ le_enc n (v div 256 ^ m)"
  by (induction m arbitrary: v) (simp_all add: div_mult2_eq)

lemma le_enc_mod: "le_enc n (v mod 256 ^ n) = le_enc n v"
  by (metis le_dec_enc le_enc_dec length_le_enc)

lemma MD5Encode_count:
  assumes "v < 2 ^ 64"
  shows "MD5Encode [of_nat v, of_nat (v div 2 ^ 32)] = le_enc 8 v"
proof -
  have "v div 2 ^ 32 < 2 ^ 32"
    using assms by (simp add: div_less_iff_less_mult)
  then have "le_enc 4 (unat (of_nat (v div 2 ^ 32) :: u32)) = le_enc 4 (v div 256 ^ 4)"
    by (simp add: unat_of_nat)
  moreover have "le_enc 4 (unat (of_nat v :: u32)) = le_enc 4 v"
    using le_enc_mod [of 4 v] by (simp add: unat_of_nat)
  ultimately show ?thesis
    using le_enc_split [of 4 4 v] MD5Encode_append [of "[of_nat v]" "[of_nat (v div 2 ^ 32)]"]
    by (simp add: MD5Encode_le del: MD5Encode.simps)
qed

lemma md5_zeros: "r < 64 \<Longrightarrow> (119 - r) mod 64 = (if r < 56 then 55 - r else 119 - r :: nat)"
proof (cases "r < 56")
  case True
  then have "119 - r = 55 - r + 64" by simp
  moreover have "(55 - r + 64) mod 64 = 55 - r"
    by (subst mod_add_self2) simp
  ultimately show ?thesis
    using True by (simp only: if_True)
qed simp

lemma MD5Final_run:
  assumes rep: "ctx_rep m ctx" and len: "8 * length m < 2 ^ 64"
  shows "MD5Final ctx = Some (md5_ref m)"
proof -
  let ?r = "length m mod 64"
  let ?index = "drop_bit 3 (md5_count0 ctx) AND 0x3F :: u32"
  let ?pad = "if ?index < 56 then 56 - ?index else 120 - ?index :: u32"
  have r: "?r < 64" by simp
  have index: "unat ?index = ?r"
    using rep md5_index by (simp add: ctx_rep_def)
  have pad: "unat ?pad = (if ?r < 56 then 56 - ?r else 120 - ?r)"
    using index r by (auto simp: word_less_nat_alt unat_sub word_le_nat_alt)
  have pb: "unat ?pad \<le> 64" "0 < unat ?pad"
    unfolding pad using r by auto
  define zs :: "byte list" where "zs = 0x80 # replicate ((119 - ?r) mod 64) 0"
  have "(119 - ?r) mod 64 = unat ?pad - 1"
    unfolding pad md5_zeros [OF r] by simp
  then have zs: "take (unat ?pad) PADDING = zs"
    using pb by (cases "unat ?pad") (simp_all add: zs_def PADDING_def min_def)
  have lz: "length zs = unat ?pad"
    using zs pb by (simp add: zs [symmetric] PADDING_def)
  obtain ctx1 where c1: "MD5Update ctx PADDING ?pad = Some ctx1" and r1: "ctx_rep (m @ zs) ctx1"
    using MD5Update_run [OF rep, of ?pad zs] pb lz MD5Update_prefix [OF pb(1), of ctx PADDING]
    unfolding zs by auto
  let ?bits = "MD5Encode [md5_count0 ctx, md5_count1 ctx]"
  have bits: "?bits = le_enc 8 (8 * length m)"
    using rep MD5Encode_count [OF len] by (simp add: ctx_rep_def del: MD5Encode.simps)
  obtain ctx2 where c2: "MD5Update ctx1 ?bits 8 = Some ctx2" and r2: "ctx_rep (md5_pad m) ctx2"
    using MD5Update_run [OF r1, of 8 ?bits] unfolding bits by (auto simp: md5_pad_def zs_def)
  have st: "md5_state ctx2 = md5_fold (blocks_of (md5_pad m)) md5_init_regs"
    using r2 by (simp add: ctx_rep_def)
  show ?thesis
    using c1 c2
    by (simp add: MD5Final_def Let_def md5_ref_def st md5_init_regs_def MD5Encode_bytes [of "[_, _, _, _]"] del: MD5Encode.simps
        split: prod.splits)
qed

text \<open>The digest of a word is the hexadecimal MD5 of its bytes, whatever the stack held.\<close>

lemma md5_ref_hex:
  assumes "length junk = 64" and "length word < 2 ^ 32 - 64"
  shows "md5 junk word = Some (concat (map hex_byte (md5_ref word)))"
proof -
  have "unat (of_nat (length word) :: u32) = length word"
    using assms by (simp add: unat_of_nat)
  then obtain ctx where "MD5Update (MD5Init junk) word (of_nat (length word)) = Some ctx" "ctx_rep word ctx"
    using MD5Update_run [OF ctx_rep_init [OF assms(1)], of "of_nat (length word)" word] assms by auto
  then show ?thesis
    using MD5Final_run [of word ctx] assms by (simp add: md5_def)
qed

lemma length_md5_hex [simp]: "length (concat (map hex_byte bs)) = 2 * length bs"
  by (induction bs) (simp_all add: hex_byte_def)

lemma length_md5_ref [simp]: "length (md5_ref w) = 16"
  by (simp add: md5_ref_def md5_bytes_of_def split: prod.splits)

lemma hex_digit_nth: "n < 16 \<Longrightarrow> hex_digit n = ''0123456789abcdef'' ! n"
proof -
  have "\<forall>n \<in> set [0..<16]. hex_digit n = ''0123456789abcdef'' ! n" by code_simp
  then show "n < 16 \<Longrightarrow> hex_digit n = ''0123456789abcdef'' ! n" by simp
qed

lemma md5_hex_bytes: "concat (map hex_byte bs) = md5_hex bs"
proof -
  have "hex_byte = (\<lambda>b. [''0123456789abcdef'' ! (unat b div 16), ''0123456789abcdef'' ! (unat b mod 16)])"
  proof
    fix b :: byte
    have "unat b < 256" using unsigned_less [of b, where 'a = nat] by simp
    then have "unat b div 16 < 16" "unat b mod 16 < 16" by simp_all
    then show "hex_byte b = [''0123456789abcdef'' ! (unat b div 16), ''0123456789abcdef'' ! (unat b mod 16)]"
      unfolding hex_byte_def by (simp only: hex_digit_nth)
  qed
  then show ?thesis by (simp only: md5_hex_def)
qed

section \<open>Properties\<close>

text \<open>The block transformation is the MD5 compression function.  The 64 unrolled steps of
  \<open>MD5Transform\<close> compute, for every chaining value and every block, what the loop of the RFC
  computes from its tables of constants, shifts and word indices.\<close>

theorem transform_is_compression:
  assumes "64 \<le> length block"
  shows "MD5Transform state block = md5_ref_block state (take 64 block)"
  by (rule MD5Transform_ref [OF assms])

text \<open>C19: The digest of a word is its MD5.  For a word of any length the 32-bit arithmetic can index,
  \<open>md5\<close> returns, and returns the lower-case hexadecimal of the MD5 digest as RFC 1321 defines it,
  whatever the uninitialised buffer of the context held.  The reference shares no definition with the
  code, and the example is a test vector of the RFC.\<close>

theorem md5_is_reference:
  assumes "length junk = 64" and "length word < 2 ^ 32 - 64"
  shows "md5 junk word = Some (md5_hex (md5_ref word))"
  unfolding md5_hex_bytes [symmetric] by (rule md5_ref_hex [OF assms])

theorem md5_is_reference_witness:
  "md5 (replicate 64 7) (bytes_of_string ''abc'') = Some ''900150983cd24fb0d6963f7d28e17f72''"
proof -
  have d: "md5_hex (md5_ref (bytes_of_string ''abc'')) = ''900150983cd24fb0d6963f7d28e17f72''" by code_simp
  show ?thesis
    unfolding d [symmetric] by (rule md5_is_reference) (unfold length_replicate length_bytes_of_string, simp_all)
qed

text \<open>C28: Hashing in pieces is hashing the whole.  Two updates with the pieces of a message, in any
  split, and then the finalisation give the reference digest of the whole message.\<close>

theorem md5_streaming:
  assumes "length junk = 64" and "length xs + length ys < 2 ^ 32 - 64"
  shows "\<exists>ctx1 ctx2. MD5Update (MD5Init junk) xs (of_nat (length xs)) = Some ctx1
    \<and> MD5Update ctx1 ys (of_nat (length ys)) = Some ctx2 \<and> MD5Final ctx2 = Some (md5_ref (xs @ ys))"
proof -
  have u: "unat (of_nat (length xs) :: u32) = length xs" "unat (of_nat (length ys) :: u32) = length ys"
    using assms by (simp_all add: unat_of_nat)
  obtain ctx1 where 1: "MD5Update (MD5Init junk) xs (of_nat (length xs)) = Some ctx1" "ctx_rep xs ctx1"
    using MD5Update_run [OF ctx_rep_init [OF assms(1)], of "of_nat (length xs)" xs] u assms by auto
  obtain ctx2 where 2: "MD5Update ctx1 ys (of_nat (length ys)) = Some ctx2" "ctx_rep (xs @ ys) ctx2"
    using MD5Update_run [OF 1(2), of "of_nat (length ys)" ys] u assms by auto
  show ?thesis
    using 1 2 MD5Final_run [OF 2(2)] assms by auto
qed

theorem md5_streaming_witness:
  "\<exists>ctx1 ctx2. MD5Update (MD5Init (replicate 64 7)) (replicate 70 97) 70 = Some ctx1
    \<and> MD5Update ctx1 (replicate 3 98) 3 = Some ctx2
    \<and> MD5Final ctx2 = Some (md5_ref (replicate 70 97 @ replicate 3 98))"
proof -
  have l: "length (replicate 64 (7 :: byte)) = 64" "length (replicate 70 (97 :: byte)) + length (replicate 3 (98 :: byte)) < 2 ^ 32 - 64"
    unfolding length_replicate by simp_all
  show ?thesis
    using md5_streaming [OF l] unfolding length_replicate of_nat_numeral .
qed

end
