(* ===== verification/SeaWord.thy ===== *)
theory SeaWord
  imports SeaArray SeaMd5
begin

text \<open>
  \<open>word.c\<close>: the posting list of a word, a column array of 64-bit document ids in the file
  named by the MD5 of the word.  A word is the C string of its bytes, without the
  terminator.  The lemmas give the life of a list (create, open, insert, find) and the
  words for which create and open disagree on the file.
\<close>

section \<open>Operations\<close>

record sea_word =
  sw_array :: "col_array cptr"

definition word_path :: "string \<Rightarrow> string \<Rightarrow> string" where
  "word_path dir digest = snprintf_str PATH_MAX (dir @ ''/'' @ digest)"

text \<open>
  A word of 32 bytes fills \<open>col_name\<close> to the last byte, and the digest then reads past the
  end of it; a digest that does not return is \<open>Undef\<close> too.
\<close>

definition sea_word_create :: "string \<Rightarrow> byte list \<Rightarrow> os \<Rightarrow> (int \<times> os) outcome" where
  "sea_word_create dir word os =
     (let word_len = (if length word > 32 then 31 else length word);
          col_name = take word_len word @ replicate (32 - word_len) 0;
          info = \<lparr>ci_record_type = VALUE_TYPE_ARR_UINT64, ci_col_name = col_name\<rparr>
      in if 0 \<notin> set col_name then Undef
         else
           (case md5 (junk_bytes os 64) (take (c_strlen col_name) col_name) of
              None \<Rightarrow> Undef
            | Some word_md5 \<Rightarrow> col_array_create (word_path dir word_md5) (Some info) os))"

definition sea_word_destroy :: "string \<Rightarrow> byte list \<Rightarrow> os \<Rightarrow> (int \<times> os) outcome" where
  "sea_word_destroy dir word os =
     (case md5 (junk_bytes os 64) word of
        None \<Rightarrow> Undef
      | Some word_md5 \<Rightarrow>
        (case col_array_destroy (word_path dir word_md5) os of
           Undef \<Rightarrow> Undef
         | Done (_, os1) \<Rightarrow> Done (0, os1)))"

text \<open>The handle (\<open>None\<close> for null), the value stored through \<open>error\<close>, and the state.\<close>

definition sea_word_open ::
    "string \<Rightarrow> byte list \<Rightarrow> os \<Rightarrow> (sea_word option \<times> int option \<times> os) outcome" where
  "sea_word_open dir word os =
     (let (ok, os1) = c_malloc 8 os
      in if \<not> ok then Done (None, None, os1)
         else
           (case md5 (junk_bytes os1 64) word of
              None \<Rightarrow> Undef
            | Some word_md5 \<Rightarrow>
              (let (array, error, os2) = col_array_open (word_path dir word_md5) os1
               in Done (Some \<lparr>sw_array = array\<rparr>, Some error, os2))))"

definition sea_word_close :: "sea_word \<Rightarrow> os \<Rightarrow> os outcome" where
  "sea_word_close word os =
     (case sw_array word of
        Obj array \<Rightarrow> Done (col_array_close array os)
      | _ \<Rightarrow> Undef)"

definition sea_word_find_doc_by_words_forward ::
    "sea_word \<Rightarrow> int \<Rightarrow> byte list \<Rightarrow> int \<Rightarrow> os \<Rightarrow> (int \<times> u32 option \<times> byte list \<times> os) outcome" where
  "sea_word_find_doc_by_words_forward word limit doc_id_list doc_id_list_len os =
     (case sw_array word of
        Obj array \<Rightarrow>
          col_array_read array 0 (word_of_int limit) doc_id_list (word_of_int doc_id_list_len) os
      | _ \<Rightarrow> Undef)"

definition sea_word_find_doc_by_words_backward :: "sea_word \<Rightarrow> int \<Rightarrow> byte list \<Rightarrow> int \<Rightarrow> int" where
  "sea_word_find_doc_by_words_backward word limit doc_id_list doc_id_list_len = 0"

definition sea_word_insert_doc ::
    "sea_word \<Rightarrow> byte list \<Rightarrow> int \<Rightarrow> os \<Rightarrow> (int \<times> sea_word \<times> os) outcome" where
  "sea_word_insert_doc word doc_id doc_id_len os =
     (case sw_array word of
        Obj array \<Rightarrow>
          (case col_array_append array doc_id (word_of_int doc_id_len) os of
             Undef \<Rightarrow> Undef
           | Done (ret, array1, os1) \<Rightarrow> Done (ret, word\<lparr>sw_array := Obj array1\<rparr>, os1))
      | _ \<Rightarrow> Undef)"

section \<open>The posting list\<close>

text \<open>The file of a word, and an open word that holds the document ids \<open>docs\<close>.\<close>

definition word_file :: "string \<Rightarrow> byte list \<Rightarrow> string" where
  "word_file dir word = word_path dir (concat (map hex_byte (md5_ref word)))"

definition word_holds :: "os \<Rightarrow> sea_word \<Rightarrow> nat \<Rightarrow> u64 list \<Rightarrow> bool" where
  "word_holds os w i docs \<longleftrightarrow>
     (\<exists>a. sw_array w = Obj a \<and> rec_size a = 8 \<and> array_wf os a i (map bytes_of_u64 docs))"

definition word_on_disk :: "os \<Rightarrow> string \<Rightarrow> byte list \<Rightarrow> nat \<Rightarrow> u64 list \<Rightarrow> bool" where
  "word_on_disk os dir word i docs \<longleftrightarrow>
     os_names os (word_file dir word) = Some i
     \<and> (\<exists>h. os_inodes os i = array_file h (map bytes_of_u64 docs) \<and> length (ch_col_name h) = 32
          \<and> ch_record_type h = VALUE_TYPE_ARR_UINT64 \<and> unat (ch_count h) = length docs)"

lemma uint64_size: "col_array_get_type_size VALUE_TYPE_ARR_UINT64 = 8"
  by (simp add: col_array_get_type_size_def value_types)

lemma c_strlen_padded: "0 \<notin> set w \<Longrightarrow> c_strlen (w @ replicate n 0) = length w"
proof -
  assume "0 \<notin> set w"
  then have "takeWhile (\<lambda>b. b \<noteq> 0) (w @ replicate n 0) = w @ takeWhile (\<lambda>b. b \<noteq> 0) (replicate n 0)"
    by (intro takeWhile_append2) auto
  moreover have "takeWhile (\<lambda>b :: byte. b \<noteq> 0) (replicate n 0) = []"
    by (cases n) simp_all
  ultimately show ?thesis
    by (simp add: c_strlen_def)
qed

lemma hex_digit_slash: "n < 16 \<Longrightarrow> hex_digit n \<noteq> CHR ''/''"
proof -
  assume "n < 16"
  then have "(of_char (hex_digit n) :: nat) = (if n < 10 then 48 + n else 87 + n)"
    by (simp add: hex_digit_def)
  then show ?thesis
    by (auto split: if_splits)
qed

lemma hex_slash: "CHR ''/'' \<notin> set (concat (map hex_byte bs))"
proof -
  have "unat b div 16 < 16" for b :: byte
    using unsigned_less [of b, where 'a = nat] by (simp add: div_less_iff_less_mult)
  then show ?thesis
    using hex_digit_slash [symmetric] by (force simp: hex_byte_def)
qed

lemma word_file_parent:
  "length dir + 40 < PATH_MAX \<Longrightarrow> word_file dir w = dir @ ''/'' @ concat (map hex_byte (md5_ref w))"
  "length dir + 40 < PATH_MAX \<Longrightarrow> parent_path (word_file dir w) = dir"
proof -
  assume "length dir + 40 < PATH_MAX"
  then show *: "word_file dir w = dir @ ''/'' @ concat (map hex_byte (md5_ref w))"
    by (simp add: word_file_def word_path_def snprintf_str_def del: length_concat)
  show "parent_path (word_file dir w) = dir"
    unfolding * by (rule parent_path_append [OF hex_slash])
qed

text \<open>Creating the list of a word of fewer than 32 bytes.\<close>

lemma word_create_run:
  assumes rel: "reliable os" and wf: "os_wf os" and dir: "length dir + 40 < PATH_MAX" "dir \<in> os_dirs os"
    and word: "0 \<notin> set word" "length word < 32" and new: "os_names os (word_file dir word) = None"
  shows "\<exists>os' i. sea_word_create dir word os = Done (37, os') \<and> word_on_disk os' dir word i []
    \<and> reliable os' \<and> os_wf os' \<and> os_dirs os' = os_dirs os
    \<and> os_names os' = (os_names os)(word_file dir word \<mapsto> i)"
proof -
  let ?name = "word @ replicate (32 - length word) 0"
  let ?info = "\<lparr>ci_record_type = VALUE_TYPE_ARR_UINT64, ci_col_name = ?name\<rparr>"
  have len: "c_strlen ?name = length word"
    by (rule c_strlen_padded [OF word(1)])
  have digest: "md5 (junk_bytes os 64) word = Some (concat (map hex_byte (md5_ref word)))"
    using word by (intro md5_ref_hex) simp_all
  have zero: "0 \<in> set ?name"
    using word by simp
  have par: "parent_path (word_file dir word) \<in> os_dirs os"
    using word_file_parent [OF dir(1)] dir(2) by simp
  obtain h os' where "col_array_create (word_file dir word) (Some ?info) os = Done (37, os')"
    and "reliable os'" "os_wf os'"
    and "os_names os' = (os_names os)(word_file dir word \<mapsto> os_next_ino os)"
    and "os_dirs os' = os_dirs os"
    and "os_inodes os' = (os_inodes os)(os_next_ino os := array_file h [])"
    and "ch_count h = 0" "ch_record_type h = VALUE_TYPE_ARR_UINT64" "length (ch_col_name h) = 32"
    using array_create_run [OF rel wf par new, of ?info] word zero by auto
  then show ?thesis
    using word zero
    by (auto simp: sea_word_create_def len digest word_file_def word_on_disk_def Let_def)
qed

lemma word_open_run:
  assumes rel: "reliable os" and wf: "os_wf os" and disk: "word_on_disk os dir word i docs"
    and word: "length word < 2 ^ 32 - 64"
  shows "\<exists>w os'. sea_word_open dir word os = Done (Some w, Some 0, os') \<and> word_holds os' w i docs
    \<and> reliable os' \<and> os_wf os' \<and> os_names os' = os_names os \<and> os_inodes os' = os_inodes os"
proof -
  obtain h where name: "os_names os (word_file dir word) = Some i"
    and c: "os_inodes os i = array_file h (map bytes_of_u64 docs)" and n: "length (ch_col_name h) = 32"
    and t: "ch_record_type h = VALUE_TYPE_ARR_UINT64" and k: "unat (ch_count h) = length docs"
    using disk by (auto simp: word_on_disk_def)
  have digest: "md5 (junk_bytes (ticked os) 64) word = Some (concat (map hex_byte (md5_ref word)))"
    using word by (intro md5_ref_hex) simp_all
  let ?a = "\<lparr>ca_fd = os_next_fd (ticked os), ca_hdr = h\<rparr>"
  obtain os' where "col_array_open (word_file dir word) (ticked os) = (Obj ?a, 0, os')"
    and "array_wf os' ?a i (map bytes_of_u64 docs)" and "reliable os'" "os_wf os'"
    and "os_names os' = os_names os" "os_inodes os' = os_inodes os"
    using array_open_ok [of "ticked os" "word_file dir word" i h "map bytes_of_u64 docs"]
      rel wf name c n t k by (auto simp: uint64_size)
  then show ?thesis
    using rel by (auto simp: sea_word_open_def digest word_file_def [symmetric] word_holds_def
        rec_size_def t uint64_size)
qed

text \<open>Inserting document ids, eight bytes each in the caller's buffer.\<close>

lemma length_ids: "length (concat (map bytes_of_u64 ds)) = 8 * length ds"
  by (induction ds) simp_all

lemma word_insert_run:
  assumes rel: "reliable os" and w: "word_holds os w i docs"
    and room: "length docs + length new < 2 ^ 28"
  shows "\<exists>w' os'. sea_word_insert_doc w (concat (map bytes_of_u64 new)) (int (8 * length new)) os
      = Done (0, w', os') \<and> word_holds os' w' i (docs @ new) \<and> reliable os'"
proof -
  obtain a where a: "sw_array w = Obj a" "rec_size a = 8" "array_wf os a i (map bytes_of_u64 docs)"
    using w by (auto simp: word_holds_def)
  have "unat (of_nat (8 * length new) :: u32) = 8 * length new"
    using room by (simp add: unat_of_nat del: of_nat_mult)
  then obtain a' os' where
    "col_array_append a (concat (map bytes_of_u64 new)) (of_nat (8 * length new)) os = Done (0, a', os')"
    "array_wf os' a' i (map bytes_of_u64 (docs @ new))" "os_frame (ca_fd a) i os os'" "rec_size a' = 8"
    using array_append_ok [OF rel a(3), of "map bytes_of_u64 new" "concat (map bytes_of_u64 new)"
        "of_nat (8 * length new)" 0] a(2) room length_ids [of new]
    by (auto simp del: of_nat_mult length_concat)
  then show ?thesis
    using a os_frame_reliable rel
    by (auto simp: sea_word_insert_doc_def word_holds_def simp del: of_nat_mult)
qed

text \<open>Finding the first \<open>limit\<close> ids, into a buffer that holds \<open>cap\<close> of them.\<close>

lemma word_find_run:
  assumes rel: "reliable os" and w: "word_holds os w i docs"
    and limit: "limit < 2 ^ 28" and cap: "cap < 2 ^ 28" and buf: "length buf = 8 * cap"
  shows "\<exists>os'. sea_word_find_doc_by_words_forward w (int limit) buf (int (8 * cap)) os
      = Done (0, Some (of_nat (length (take (min limit cap) docs))),
          put_at 0 (concat (map bytes_of_u64 (take (min limit cap) docs))) buf, os')
    \<and> word_holds os' w i docs \<and> reliable os'"
proof -
  obtain a where a: "sw_array w = Obj a" "rec_size a = 8" "array_wf os a i (map bytes_of_u64 docs)"
    using w by (auto simp: word_holds_def)
  have u: "unat (of_nat limit :: u32) = limit" "unat (of_nat (8 * cap) :: u32) = 8 * cap"
    using limit cap by (simp_all add: unat_of_nat del: of_nat_mult)
  let ?ds = "take (min limit cap) docs"
  have recs: "map bytes_of_u64 ?ds = records_read (map bytes_of_u64 docs) (unat (0 :: u32))
      (unat (of_nat limit :: u32)) (unat (of_nat (8 * cap) :: u32) div rec_size a)"
    unfolding u a(2) by (simp add: records_read_def take_map)
  have "length (concat (map bytes_of_u64 ?ds)) \<le> length buf"
    unfolding length_ids using buf by simp
  then obtain os' where
    "col_array_read a 0 (of_nat limit) buf (of_nat (8 * cap)) os
      = Done (0, Some (of_nat (length ?ds)), put_at 0 (concat (map bytes_of_u64 ?ds)) buf, os')"
    "array_wf os' a i (map bytes_of_u64 docs)" "os_frame (ca_fd a) i os os'"
    using array_read_ok [OF rel a(3) _ _ recs, of buf] u a(2) limit
    by (auto simp del: of_nat_mult length_concat)
  then show ?thesis
    using a os_frame_reliable rel
    by (auto simp: sea_word_find_doc_by_words_forward_def word_holds_def simp del: of_nat_mult)
qed

text \<open>
  A word of more than 32 bytes: the list is created under the digest of its first 31
  bytes, and opened under the digest of all of them.
\<close>

lemma word_long_mismatch:
  assumes rel: "reliable os" and wf: "os_wf os" and dir: "length dir + 40 < PATH_MAX" "dir \<in> os_dirs os"
    and word: "0 \<notin> set word" "32 < length word" "length word < 2 ^ 32 - 64"
    and new: "os_names os (word_file dir (take 31 word)) = None" "os_names os (word_file dir word) = None"
    and inj: "word_file dir (take 31 word) \<noteq> word_file dir word"
  shows "\<exists>os1 i os2. sea_word_create dir word os = Done (37, os1)
    \<and> word_on_disk os1 dir (take 31 word) i []
    \<and> sea_word_open dir word os1 = Done (Some \<lparr>sw_array = Freed\<rparr>, Some ENOENT, os2)"
proof -
  have t: "0 \<notin> set (take 31 word)" "length (take 31 word) < 32"
    using word by (auto dest: in_set_takeD)
  obtain os1 i where c: "sea_word_create dir (take 31 word) os = Done (37, os1)"
    and d: "word_on_disk os1 dir (take 31 word) i []" and r: "reliable os1"
    and n: "os_names os1 = (os_names os)(word_file dir (take 31 word) \<mapsto> i)"
    using word_create_run [OF rel wf dir t new(1)] by blast
  have same: "sea_word_create dir word os = sea_word_create dir (take 31 word) os"
    using word by (simp add: sea_word_create_def Let_def min_def)
  have digest: "md5 (junk_bytes (ticked os1) 64) word = Some (concat (map hex_byte (md5_ref word)))"
    using word by (intro md5_ref_hex) simp_all
  have "os_names os1 (word_file dir word) = None"
    using n new(2) inj by simp
  then have "col_array_open (word_file dir word) (ticked os1)
      = (Freed, ENOENT, (ticked (ticked (ticked os1)))\<lparr>os_errno := ENOENT\<rparr>)"
    using r by (simp add: col_array_open_def sys_open_def ENOENT_def)
  then have "sea_word_open dir word os1 = Done (Some \<lparr>sw_array = Freed\<rparr>, Some ENOENT,
      (ticked (ticked (ticked os1)))\<lparr>os_errno := ENOENT\<rparr>)"
    using r by (simp add: sea_word_open_def digest word_file_def [symmetric])
  then show ?thesis
    using c d same by metis
qed

section \<open>Properties\<close>

text \<open>The session of a client: create the list of a word, open it, insert ids, find them.\<close>

fun word_insert_all :: "u64 list list \<Rightarrow> sea_word \<Rightarrow> os \<Rightarrow> (sea_word \<times> os) option" where
  "word_insert_all [] w os = Some (w, os)"
| "word_insert_all (ids # batches) w os =
     (case sea_word_insert_doc w (concat (map bytes_of_u64 ids)) (int (8 * length ids)) os of
        Undef \<Rightarrow> None
      | Done (ret, w', os') \<Rightarrow> if ret = 0 then word_insert_all batches w' os' else None)"

definition word_session ::
    "string \<Rightarrow> byte list \<Rightarrow> u64 list list \<Rightarrow> nat \<Rightarrow> nat \<Rightarrow> byte list \<Rightarrow> os \<Rightarrow> (int \<times> u32 option \<times> byte list) option" where
  "word_session dir word batches limit cap buf os =
     (case sea_word_create dir word os of
        Undef \<Rightarrow> None
      | Done (_, os1) \<Rightarrow>
        (case sea_word_open dir word os1 of
           Done (Some w, _, os2) \<Rightarrow>
             (case word_insert_all batches w os2 of
                None \<Rightarrow> None
              | Some (w', os3) \<Rightarrow>
                (case sea_word_find_doc_by_words_forward w' (int limit) buf (int (8 * cap)) os3 of
                   Undef \<Rightarrow> None
                 | Done (ret, n, out, _) \<Rightarrow> Some (ret, n, out)))
         | _ \<Rightarrow> None))"

lemma word_insert_all_ok:
  assumes "reliable os" and "word_holds os w i docs" and "length docs + length (concat batches) < 2 ^ 28"
  shows "\<exists>w' os'. word_insert_all batches w os = Some (w', os')
    \<and> word_holds os' w' i (docs @ concat batches) \<and> reliable os'"
  using assms
proof (induction batches arbitrary: w os docs)
  case (Cons ids batches)
  obtain w1 os1 where 1: "sea_word_insert_doc w (concat (map bytes_of_u64 ids)) (int (8 * length ids)) os
      = Done (0, w1, os1)" "word_holds os1 w1 i (docs @ ids)" "reliable os1"
    using word_insert_run [OF Cons.prems(1,2), of ids] Cons.prems(3) by auto
  show ?case
    using 1(1) Cons.IH [OF 1(3,2)] Cons.prems(3) by (simp del: length_concat)
qed simp

text \<open>C18: The posting list of a word returns the ids inserted into it, oldest first.  For a word of
  fewer than 32 bytes in an existing directory, a create, an open, any batches of inserts and a
  find with any limit and buffer deliver the first ids, as many as the limit, the buffer and the
  list allow, with their count.\<close>

theorem word_insert_find:
  assumes "reliable os" and "os_wf os" and "length dir + 40 < PATH_MAX" and "dir \<in> os_dirs os"
    and "0 \<notin> set word" and "length word < 32" and "os_names os (word_file dir word) = None"
    and "length (concat batches) < 2 ^ 28" and "limit < 2 ^ 28" and "cap < 2 ^ 28" and "length buf = 8 * cap"
  shows "word_session dir word batches limit cap buf os
    = Some (0, Some (of_nat (length (take (min limit cap) (concat batches)))),
        put_at 0 (concat (map bytes_of_u64 (take (min limit cap) (concat batches)))) buf)"
proof -
  obtain os1 i where c: "sea_word_create dir word os = Done (37, os1)" and d: "word_on_disk os1 dir word i []"
    and r1: "reliable os1" "os_wf os1"
    using word_create_run [OF assms(1-7)] by blast
  have "length word < 2 ^ 32 - 64" using assms(6) by simp
  then obtain w os2 where o: "sea_word_open dir word os1 = Done (Some w, Some 0, os2)"
    and h: "word_holds os2 w i []" and r2: "reliable os2"
    using word_open_run [OF r1 d] by blast
  obtain w' os3 where f: "word_insert_all batches w os2 = Some (w', os3)"
    and h3: "word_holds os3 w' i (concat batches)" and r3: "reliable os3"
    using word_insert_all_ok [OF r2 h, unfolded append_Nil list.size(3) add_0, OF assms(8)] by blast
  show ?thesis
    using word_find_run [OF r3 h3 assms(9-11)] by (auto simp: word_session_def c o f simp del: of_nat_mult)
qed

theorem word_insert_find_witness:
  "word_session ''/d'' [104, 105] [[5, 6], [7]] 2 4 (replicate 32 9) (fresh_os {''/d''})
    = Some (0, Some 2, bytes_of_u64 5 @ bytes_of_u64 6 @ replicate 16 9)"
proof -
  have l: "length (replicate 32 (9 :: byte)) = 8 * 4" by (simp only: length_replicate)
  have r: "drop 16 (replicate 32 (9 :: byte)) = replicate 16 9" unfolding drop_replicate by simp
  show ?thesis
    using word_insert_find [of "fresh_os {''/d''}" "''/d''" "[104, 105]" "[[5, 6], [7]]" 2 4, OF _ _ _ _ _ _ _ _ _ _ l]
    by (simp add: PATH_MAX_def put_at_def r)
qed

text \<open>A long word loses its posting list.  For a word of more than 32 bytes, create succeeds and
  makes the list of the word's first 31 bytes; opening the same word looks in the file of the
  whole word and, unless the two digests collide, fails with \<open>ENOENT\<close> and hands back a handle
  to freed memory.\<close>

theorem word_long_is_lost:
  assumes "reliable os" and "os_wf os" and "length dir + 40 < PATH_MAX" and "dir \<in> os_dirs os"
    and "0 \<notin> set word" and "32 < length word" and "length word < 2 ^ 32 - 64"
    and "os_names os (word_file dir (take 31 word)) = None" and "os_names os (word_file dir word) = None"
  shows "\<exists>os1 i w os2. sea_word_create dir word os = Done (37, os1)
    \<and> word_on_disk os1 dir (take 31 word) i []
    \<and> sea_word_open dir word os1
        = Done (Some w, Some (if word_file dir (take 31 word) = word_file dir word then 0 else ENOENT), os2)
    \<and> (sw_array w = Freed \<longleftrightarrow> word_file dir (take 31 word) \<noteq> word_file dir word)"
proof (cases "word_file dir (take 31 word) = word_file dir word")
  case False
  then show ?thesis
    using word_long_mismatch [OF assms False] by force
next
  case True
  have t: "0 \<notin> set (take 31 word)" "length (take 31 word) < 32"
    using assms(5,6) by (auto dest: in_set_takeD)
  obtain os1 i where c: "sea_word_create dir (take 31 word) os = Done (37, os1)"
    and d: "word_on_disk os1 dir (take 31 word) i []" and r: "reliable os1" "os_wf os1"
    using word_create_run [OF assms(1-4) t assms(8)] by blast
  have same: "sea_word_create dir word os = sea_word_create dir (take 31 word) os"
    using assms(5,6) by (simp add: sea_word_create_def Let_def min_def)
  have "word_on_disk os1 dir word i []"
    using d True by (simp add: word_on_disk_def)
  from word_open_run [OF r this assms(7)] obtain w os2 where
    "sea_word_open dir word os1 = Done (Some w, Some 0, os2)" "word_holds os2 w i []"
    by blast
  then show ?thesis
    using c d same True by (auto simp: word_holds_def)
qed

theorem word_long_is_lost_witness:
  "\<exists>os1 i w os2. sea_word_create ''/d'' (replicate 40 97) (fresh_os {''/d''}) = Done (37, os1)
    \<and> word_on_disk os1 ''/d'' (replicate 31 97) i []
    \<and> sea_word_open ''/d'' (replicate 40 97) os1
        = Done (Some w, Some (if word_file ''/d'' (replicate 31 97) = word_file ''/d'' (replicate 40 97)
            then 0 else ENOENT), os2)
    \<and> (sw_array w = Freed \<longleftrightarrow> word_file ''/d'' (replicate 31 97) \<noteq> word_file ''/d'' (replicate 40 97))"
proof -
  have t: "take 31 (replicate 40 (97 :: byte)) = replicate 31 97"
    unfolding take_replicate by simp
  have z: "0 \<notin> set (replicate 40 (97 :: byte))"
    unfolding set_replicate_conv_if by simp
  have l: "32 < length (replicate 40 (97 :: byte))" "length (replicate 40 (97 :: byte)) < 2 ^ 32 - 64"
    unfolding length_replicate by simp_all
  show ?thesis
    using word_long_is_lost [OF _ _ _ _ z l, of "fresh_os {''/d''}" "''/d''"] unfolding t
    by (simp add: PATH_MAX_def)
qed

end
