(* ===== verification/SeaOffset.thy ===== *)
theory SeaOffset
  imports SeaOS
begin

text \<open>
  \<open>sea_block_offset.c\<close>: the growable list of data offsets an index query returns.  The
  \<open>size\<close> field holds the allocation in bytes, while \<open>count\<close> counts entries; both are
  kept as the code has them, beside the cells the allocation really has.
\<close>

record sea_block_offset =
  so_count :: u32
  so_size :: u32
  so_cells :: "u64 list"

definition INCREMENT_SIZE :: nat where "INCREMENT_SIZE = 1280"

definition sizeof_offset :: nat where "sizeof_offset = 16"

definition sea_block_offset_malloc :: "os \<Rightarrow> sea_block_offset option \<times> os" where
  "sea_block_offset_malloc os =
     (let malloc_size = sizeof_offset + INCREMENT_SIZE * 8;
          (ok, os1) = c_malloc (int malloc_size) os
      in if \<not> ok then (None, os1)
         else (Some \<lparr>so_count = 0, so_size = of_nat malloc_size,
                     so_cells = replicate INCREMENT_SIZE 0\<rparr>, os1))"

text \<open>
  When \<open>count\<close> reaches \<open>size\<close> the block is reallocated, but the caller keeps its old
  pointer: success there leaves the caller with a freed object.  Below that, the store
  \<open>offset[count++]\<close> is defined only inside the allocation.
\<close>

definition sea_block_offset_append ::
    "sea_block_offset \<Rightarrow> u64 \<Rightarrow> os \<Rightarrow> (int \<times> sea_block_offset \<times> os) outcome" where
  "sea_block_offset_append header offset os =
     (if so_size header \<le> so_count header then
        let size = as_int32 ((uint (so_size header) - int sizeof_offset) * 2 + int sizeof_offset);
            (ok, os1) = c_malloc size os
        in if \<not> ok then Done (EINVAL, header, os1) else Undef
      else if unat (so_count header) < length (so_cells header) then
        Done (0, header\<lparr>so_cells := (so_cells header)[unat (so_count header) := offset],
                        so_count := so_count header + 1\<rparr>, os)
      else Undef)"

definition sea_block_offset_count :: "sea_block_offset \<Rightarrow> u32" where
  "sea_block_offset_count header = so_count header"

definition sea_block_offset_get :: "sea_block_offset \<Rightarrow> nat \<Rightarrow> u64 outcome" where
  "sea_block_offset_get header i =
     (if i < length (so_cells header) then Done (so_cells header ! i) else Undef)"

section \<open>The list it stands for\<close>

text \<open>A list built by \<open>n \<le> 1280\<close> appends, as its entries; the other cells are zero.\<close>

definition offset_rep :: "u64 list \<Rightarrow> sea_block_offset" where
  "offset_rep xs = \<lparr>so_count = of_nat (length xs), so_size = 10256,
                    so_cells = xs @ replicate (1280 - length xs) 0\<rparr>"

lemma offset_malloc_rep:
  "reliable os \<Longrightarrow> sea_block_offset_malloc os = (Some (offset_rep []), ticked os)"
  by (simp add: sea_block_offset_malloc_def offset_rep_def sizeof_offset_def INCREMENT_SIZE_def
      Let_def)

lemma unat_of_nat_u32: "n < 2 ^ 32 \<Longrightarrow> unat (of_nat n :: u32) = n"
  by (simp add: unat_of_nat)

lemma offset_rep_fields [simp]:
  "length xs < 2 ^ 32 \<Longrightarrow> unat (so_count (offset_rep xs)) = length xs"
  "so_size (offset_rep xs) = 10256"
  "so_cells (offset_rep xs) = xs @ replicate (1280 - length xs) 0"
  by (simp_all add: offset_rep_def unat_of_nat_u32)

lemma offset_append_rep:
  assumes "length xs < 1280"
  shows "sea_block_offset_append (offset_rep xs) x os = Done (0, offset_rep (xs @ [x]), os)"
proof -
  have "\<not> so_size (offset_rep xs) \<le> so_count (offset_rep xs)"
    using assms by (simp add: word_le_nat_alt)
  moreover have "(xs @ replicate (1280 - length xs) 0)[length xs := x]
      = (xs @ [x]) @ replicate (1280 - length (xs @ [x])) 0"
    using assms by (cases "1280 - length xs") (auto simp: list_update_append)
  ultimately show ?thesis
    using assms by (simp add: sea_block_offset_append_def offset_rep_def unat_of_nat_u32)
qed

text \<open>The 1281st append writes past the allocation: \<open>size\<close> counts bytes.\<close>

lemma offset_append_full:
  assumes "length xs = 1280"
  shows "sea_block_offset_append (offset_rep xs) x os = Undef"
  using assms by (simp add: sea_block_offset_append_def word_le_nat_alt)

lemma offset_get_rep:
  "i < length xs \<Longrightarrow> sea_block_offset_get (offset_rep xs) i = Done (xs ! i)"
  by (simp add: sea_block_offset_get_def nth_append)

lemma offset_get_empty: "sea_block_offset_get (offset_rep []) 0 = Done 0"
  by (simp add: sea_block_offset_get_def)

text \<open>Appending a whole list, as the loops of the index queries do.\<close>

fun offset_append_all ::
    "sea_block_offset \<Rightarrow> u64 list \<Rightarrow> os \<Rightarrow> (sea_block_offset \<times> os) outcome" where
  "offset_append_all h [] os = Done (h, os)"
| "offset_append_all h (x # xs) os =
     (case sea_block_offset_append h x os of
        Undef \<Rightarrow> Undef
      | Done (_, h', os') \<Rightarrow> offset_append_all h' xs os')"

lemma offset_append_all_rep:
  "length xs + length ys \<le> 1280 \<Longrightarrow>
     offset_append_all (offset_rep xs) ys os = Done (offset_rep (xs @ ys), os)"
  by (induction ys arbitrary: xs) (simp_all add: offset_append_rep)

lemma offset_append_all_overflow:
  "length xs \<le> 1280 \<Longrightarrow> 1280 < length xs + length ys \<Longrightarrow>
     offset_append_all (offset_rep xs) ys os = Undef"
proof (induction ys arbitrary: xs)
  case Nil
  then show ?case by simp
next
  case (Cons y ys)
  show ?case
  proof (cases "length xs = 1280")
    case True
    then show ?thesis by (simp add: offset_append_full)
  next
    case False
    with Cons show ?thesis by (simp add: offset_append_rep)
  qed
qed

lemma offset_count_rep: "sea_block_offset_count (offset_rep xs) = of_nat (length xs)"
  by (simp add: sea_block_offset_count_def offset_rep_def)

section \<open>Properties\<close>

text \<open>C31: An offset list has room for 1280 entries and checks against the wrong bound.  Appending up to
  1280 offsets to a new list stores them all, in order; appending more writes past the
  allocation, because the count of entries is compared with the size in bytes.\<close>

theorem offset_list_capacity:
  assumes "reliable os"
  shows "\<exists>h os1. sea_block_offset_malloc os = (Some h, os1)
    \<and> (length xs \<le> 1280 \<longrightarrow> (\<exists>h2. offset_append_all h xs os1 = Done (h2, os1)
          \<and> sea_block_offset_count h2 = of_nat (length xs)
          \<and> (\<forall>i < length xs. sea_block_offset_get h2 i = Done (xs ! i))))
    \<and> (1280 < length xs \<longrightarrow> offset_append_all h xs os1 = Undef)"
proof -
  have m: "sea_block_offset_malloc os = (Some (offset_rep []), ticked os)"
    using assms by (simp add: offset_malloc_rep)
  show ?thesis
    unfolding m using offset_append_all_rep [of "[]" xs "ticked os"] offset_append_all_overflow [of "[]" xs "ticked os"]
    by (auto simp: offset_count_rep offset_get_rep)
qed

theorem offset_list_capacity_witness:
  "\<exists>h os1 h2. sea_block_offset_malloc (fresh_os {}) = (Some h, os1)
    \<and> offset_append_all h [7, 8] os1 = Done (h2, os1) \<and> sea_block_offset_count h2 = 2
    \<and> sea_block_offset_get h2 1 = Done 8"
  using offset_list_capacity [of "fresh_os {}" "[7, 8]"] by force

end
