(* ===== verification/SeaIndex.thy ===== *)
theory SeaIndex
  imports SeaOffset SeaLog
begin

text \<open>
  \<open>utils.c\<close> and \<open>sea_block_index.c\<close>: the index file of a block, one 40-byte header
  followed by one 16-byte entry per record.  First the operations as the code has them,
  then the invariant \<open>index_wf\<close> that ties an open index to its file, and what every
  operation does to it.
\<close>

section \<open>utils.c\<close>

definition make_sub_dir :: "string \<Rightarrow> u64 \<Rightarrow> os \<Rightarrow> int \<times> os" where
  "make_sub_dir dir block_id os =
     sys_mkdir (snprintf_str PATH_MAX (dir @ ''/'' @ dec_str (unat block_id))) os"

text \<open>Despite its name the value is in microseconds.\<close>

definition get_current_mills :: "os \<Rightarrow> u64 \<times> os" where
  "get_current_mills os =
     (let ((sec, usec), os1) = sys_gettimeofday os in (sec * 1000000 + usec, os1))"

section \<open>The file format\<close>

record sea_block_index_header =
  ih_block_id :: u64
  ih_max_count :: u64
  ih_start_timestamp :: u64
  ih_stop_timestamp :: u64
  ih_count :: u32
  ih_unused :: u32

record sea_block_index_entry =
  ie_timestamp :: u64
  ie_offset :: u64

record sea_block_index =
  ix_fd :: int
  ix_header :: sea_block_index_header

definition SEA_BLOCK_INDEX_ENTRY_SIZE :: nat where "SEA_BLOCK_INDEX_ENTRY_SIZE = 16"
definition SEA_BLOCK_INDEX_HEADER_SIZE :: nat where "SEA_BLOCK_INDEX_HEADER_SIZE = 40"

lemmas index_sizes = SEA_BLOCK_INDEX_ENTRY_SIZE_def SEA_BLOCK_INDEX_HEADER_SIZE_def

definition enc_index_header :: "sea_block_index_header \<Rightarrow> byte list" where
  "enc_index_header h =
     bytes_of_u64 (ih_block_id h) @ bytes_of_u64 (ih_max_count h)
     @ bytes_of_u64 (ih_start_timestamp h) @ bytes_of_u64 (ih_stop_timestamp h)
     @ bytes_of_u32 (ih_count h) @ bytes_of_u32 (ih_unused h)"

definition dec_index_header :: "byte list \<Rightarrow> sea_block_index_header" where
  "dec_index_header bs =
     \<lparr>ih_block_id = u64_of_bytes (take 8 bs), ih_max_count = u64_of_bytes (take 8 (drop 8 bs)),
      ih_start_timestamp = u64_of_bytes (take 8 (drop 16 bs)),
      ih_stop_timestamp = u64_of_bytes (take 8 (drop 24 bs)),
      ih_count = u32_of_bytes (take 4 (drop 32 bs)), ih_unused = u32_of_bytes (take 4 (drop 36 bs))\<rparr>"

definition enc_index_entry :: "sea_block_index_entry \<Rightarrow> byte list" where
  "enc_index_entry e = bytes_of_u64 (ie_timestamp e) @ bytes_of_u64 (ie_offset e)"

definition dec_index_entry :: "byte list \<Rightarrow> sea_block_index_entry" where
  "dec_index_entry bs =
     \<lparr>ie_timestamp = u64_of_bytes (take 8 bs), ie_offset = u64_of_bytes (take 8 (drop 8 bs))\<rparr>"

lemma length_enc_index [simp, sea_width]:
  "length (enc_index_header h) = 40" "length (enc_index_entry e) = 16"
  by (simp_all add: enc_index_header_def enc_index_entry_def)

lemma dec_enc_index [simp]:
  "dec_index_header (enc_index_header h @ rest) = h"
  "dec_index_entry (enc_index_entry e) = e"
  "dec_index_header (enc_index_header h) = h"
  by (simp_all add: dec_index_header_def enc_index_header_def dec_index_entry_def
      enc_index_entry_def)

section \<open>Operations\<close>

definition sea_block_index_filename :: "string \<Rightarrow> u64 \<Rightarrow> nat \<Rightarrow> string" where
  "sea_block_index_filename dir block_id filename_length =
     snprintf_str filename_length (dir @ ''/'' @ dec_str (unat block_id) @ ''/index'')"

definition sea_block_index_create :: "string \<Rightarrow> u64 \<Rightarrow> u64 \<Rightarrow> os \<Rightarrow> int \<times> os" where
  "sea_block_index_create dir block_id max_count os =
     (let (_, os1) = make_sub_dir dir block_id os;
          filename = sea_block_index_filename dir block_id PATH_MAX;
          (fd, os2) = sys_open filename True os1
      in if fd = - 1 then (os_errno os2, sys_close fd os2)
         else
           let (now, os3) = get_current_mills os2;
               header = \<lparr>ih_block_id = block_id, ih_max_count = max_count,
                         ih_start_timestamp = now, ih_stop_timestamp = now,
                         ih_count = 0, ih_unused = 0\<rparr>;
               (w, os4) = sys_write fd (enc_index_header header) os3;
               ret = as_int32 w
           in (if ret = - 1 then os_errno os4 else 0, sys_close fd os4))"

definition sea_block_index_destroy :: "string \<Rightarrow> u64 \<Rightarrow> os \<Rightarrow> int \<times> os" where
  "sea_block_index_destroy dir block_id os =
     (let filename = sea_block_index_filename dir block_id PATH_MAX;
          (acc, os1) = sys_access filename os
      in if acc = - 1 then (0, os1)
         else
           let (ret, os2) = sys_unlink filename os1
           in (if ret \<noteq> 0 then os_errno os2 else ret, os2))"

text \<open>The index, the value stored through \<open>error\<close>, and the state.\<close>

definition sea_block_index_open ::
    "string \<Rightarrow> u64 \<Rightarrow> os \<Rightarrow> sea_block_index option \<times> int \<times> os" where
  "sea_block_index_open dir block_id os =
     (let filename = sea_block_index_filename dir block_id PATH_MAX;
          (fd, os1) = sys_open filename False os
      in if fd = - 1 then (None, os_errno os1, os1)
         else
           let (r, bs, os2) = sys_read fd SEA_BLOCK_INDEX_HEADER_SIZE os1;
               size = as_int32 r
           in if size \<noteq> int SEA_BLOCK_INDEX_HEADER_SIZE
              then (None, EINVAL, if fd > 0 then sys_close fd os2 else os2)
              else
                let (ok, os3) = c_malloc 44 os2
                in if \<not> ok then (None, ENOMEM, if fd > 0 then sys_close fd os3 else os3)
                   else (Some \<lparr>ix_fd = fd, ix_header = dec_index_header bs\<rparr>, 0, os3))"

definition sea_block_index_close :: "sea_block_index \<Rightarrow> os \<Rightarrow> os" where
  "sea_block_index_close index os = sys_close (ix_fd index) os"

text \<open>
  Returns the code, the values stored through \<open>record_id\<close> and \<open>overlimit\<close>, and the index
  with its header updated.
\<close>

definition sea_block_index_append ::
    "sea_block_index \<Rightarrow> u64 \<Rightarrow> os \<Rightarrow> int \<times> u32 \<times> int \<times> sea_block_index \<times> os" where
  "sea_block_index_append index offset os =
     (let (ts, os1) = get_current_mills os;
          entry = \<lparr>ie_timestamp = ts, ie_offset = offset\<rparr>;
          record_id = ih_count (ix_header index);
          hdr = (ix_header index)\<lparr>ih_count := ih_count (ix_header index) + 1,
                                  ih_stop_timestamp := ts\<rparr>;
          overlimit = (if unat (ih_count hdr) \<ge> unat (ih_max_count hdr) then 1 else 0);
          index1 = index\<lparr>ix_header := hdr\<rparr>;
          (_, os2) = sys_lseek (ix_fd index) 0 SEEK_END os1;
          (w1, os3) = sys_write (ix_fd index) (enc_index_entry entry) os2
      in if as_int32 w1 \<noteq> int SEA_BLOCK_INDEX_ENTRY_SIZE
         then (EINVAL, record_id, overlimit, index1, os3)
         else
           let (_, os4) = sys_lseek (ix_fd index) 0 SEEK_SET os3;
               (w2, os5) = sys_write (ix_fd index) (enc_index_header hdr) os4
           in if as_int32 w2 \<noteq> int SEA_BLOCK_INDEX_HEADER_SIZE
              then
                let hdr2 = hdr\<lparr>ih_count := ih_count hdr - 1\<rparr>;
                    os6 = sys_ftruncate (ix_fd index)
                            (SEA_BLOCK_INDEX_HEADER_SIZE
                             + SEA_BLOCK_INDEX_ENTRY_SIZE * unat (ih_count hdr2)) os5
                in (255, record_id, overlimit, index\<lparr>ix_header := hdr2\<rparr>, os6)
              else (0, record_id, overlimit, index1, os5))"

text \<open>
  The query by count.  The early exit at the end of the index frees \<open>entry_list\<close> before
  its initialisation has run: undefined behaviour.  \<open>real_count\<close> is written only on
  success (\<open>None\<close> otherwise).
\<close>

fun split_entries :: "byte list \<Rightarrow> nat \<Rightarrow> sea_block_index_entry list" where
  "split_entries bs 0 = []"
| "split_entries bs (Suc n) = dec_index_entry (take 16 bs) # split_entries (drop 16 bs) n"

definition sea_block_index_query_by_count ::
    "sea_block_index \<Rightarrow> u32 \<Rightarrow> u32 \<Rightarrow> os \<Rightarrow>
      (sea_block_offset option \<times> u32 option \<times> os) outcome" where
  "sea_block_index_query_by_count index first_record_id count os =
     (let (_, os1) = sys_lseek (ix_fd index)
            (int (SEA_BLOCK_INDEX_HEADER_SIZE
                  + SEA_BLOCK_INDEX_ENTRY_SIZE * unat first_record_id)) SEEK_SET os
      in if ih_count (ix_header index) \<le> first_record_id then Undef
         else
           let read_count = (if first_record_id + count < ih_count (ix_header index) then count
                             else ih_count (ix_header index) - first_record_id);
               (offset, os2) = sea_block_offset_malloc os1;
               bytes = SEA_BLOCK_INDEX_ENTRY_SIZE * unat read_count;
               (ok, os3) = c_malloc (int bytes) os2
           in if \<not> ok then Done (offset, None, os3)
              else
                let (r, bs, os4) = sys_read (ix_fd index) bytes os3;
                    size = (word_of_int r :: u32)
                in if unat size \<noteq> bytes then Done (offset, None, os4)
                   else
                     (case offset of
                        None \<Rightarrow> (if read_count = 0 then Done (None, Some read_count, os4) else Undef)
                      | Some off \<Rightarrow>
                        (case offset_append_all off
                                (map ie_offset (split_entries bs (unat read_count))) os4 of
                           Undef \<Rightarrow> Undef
                         | Done (off', os5) \<Rightarrow> Done (Some off', Some read_count, os5))))"

text \<open>
  The scan of the query by time: read entries while ids are below \<open>count\<close>, stop at the
  first timestamp not below \<open>stop\<close>.  The remaining ids bound the recursion.
\<close>

fun query_by_time_loop ::
    "nat \<Rightarrow> int \<Rightarrow> u64 \<Rightarrow> sea_block_offset option \<Rightarrow> u32 \<Rightarrow> os \<Rightarrow>
      (sea_block_offset option \<times> u32 \<times> os) outcome" where
  "query_by_time_loop 0 fd stop off real_count os = Done (off, real_count, os)"
| "query_by_time_loop (Suc n) fd stop off real_count os =
     (let (r, bs, os1) = sys_read fd SEA_BLOCK_INDEX_ENTRY_SIZE os
      in if as_int32 r \<noteq> int SEA_BLOCK_INDEX_ENTRY_SIZE then Done (off, real_count, os1)
         else
           let entry = dec_index_entry bs
           in if ie_timestamp entry < stop then
                (case off of
                   None \<Rightarrow> Undef
                 | Some h \<Rightarrow>
                   (case sea_block_offset_append h (ie_offset entry) os1 of
                      Undef \<Rightarrow> Undef
                    | Done (_, h', os2) \<Rightarrow>
                        query_by_time_loop n fd stop (Some h') (real_count + 1) os2))
              else Done (off, real_count, os1))"

text \<open>\<open>start\<close> and \<open>count\<close> are parameters the body never reads.\<close>

definition sea_block_index_query_by_time ::
    "sea_block_index \<Rightarrow> u64 \<Rightarrow> u64 \<Rightarrow> u32 \<Rightarrow> u32 \<Rightarrow> u32 \<Rightarrow> os \<Rightarrow>
      (sea_block_offset option \<times> u32 \<times> os) outcome" where
  "sea_block_index_query_by_time index start stop first_record_id count real_count os =
     (let start_record_id = (if first_record_id = 0 then 0 else first_record_id)
      in if ih_count (ix_header index) \<le> start_record_id
         then Done (None, real_count, os\<lparr>os_errno := C_EOF\<rparr>)
         else
           let (_, os1) = sys_lseek (ix_fd index)
                 (int (SEA_BLOCK_INDEX_HEADER_SIZE
                       + SEA_BLOCK_INDEX_ENTRY_SIZE * unat start_record_id)) SEEK_SET os;
               (offset, os2) = sea_block_offset_malloc os1
           in query_by_time_loop (unat (ih_count (ix_header index)) - unat start_record_id)
                (ix_fd index) stop offset real_count os2)"

definition sea_block_index_query_by_record_id ::
    "sea_block_index \<Rightarrow> u32 \<Rightarrow> os \<Rightarrow> (sea_block_offset option \<times> os) outcome" where
  "sea_block_index_query_by_record_id index record_id os =
     (if ih_count (ix_header index) \<le> record_id then Done (None, os\<lparr>os_errno := C_EOF\<rparr>)
      else
        let (_, os1) = sys_lseek (ix_fd index)
              (int (SEA_BLOCK_INDEX_HEADER_SIZE
                    + SEA_BLOCK_INDEX_ENTRY_SIZE * unat record_id)) SEEK_SET os;
            (offset, os2) = sea_block_offset_malloc os1;
            (r, bs, os3) = sys_read (ix_fd index) SEA_BLOCK_INDEX_ENTRY_SIZE os2
        in if as_int32 r \<noteq> int SEA_BLOCK_INDEX_ENTRY_SIZE then Done (offset, os3)
           else
             (case offset of
                None \<Rightarrow> Undef
              | Some h \<Rightarrow>
                (case sea_block_offset_append h (ie_offset (dec_index_entry bs)) os3 of
                   Undef \<Rightarrow> Undef
                 | Done (_, h', os4) \<Rightarrow> Done (Some h', os4))))"

section \<open>The invariant of an open index\<close>

text \<open>
  The file of the open index is its in-memory header followed by the entries \<open>es\<close>, and
  the header counts them.
\<close>

definition index_file :: "sea_block_index_header \<Rightarrow> sea_block_index_entry list \<Rightarrow> byte list" where
  "index_file h es = enc_index_header h @ concat (map enc_index_entry es)"

definition index_wf ::
    "os \<Rightarrow> sea_block_index \<Rightarrow> nat \<Rightarrow> sea_block_index_entry list \<Rightarrow> bool" where
  "index_wf os index i es \<longleftrightarrow>
     (\<exists>p. fd_at os (ix_fd index) i p) \<and> os_inodes os i = index_file (ix_header index) es
     \<and> unat (ih_count (ix_header index)) = length es"

lemma length_concat_entries [simp]: "length (concat (map enc_index_entry es)) = 16 * length es"
  by (induction es) auto

lemma length_index_file [simp]: "length (index_file h es) = 40 + 16 * length es"
  by (simp add: index_file_def)

lemma index_wf_count: "index_wf os index i es \<Longrightarrow> length es < 2 ^ 32"
  unfolding index_wf_def using unsigned_less [of "ih_count (ix_header index)", where 'a = nat] by simp

lemma index_file_entry:
  assumes "k < length es"
  shows "take 16 (drop (40 + 16 * k) (index_file h es)) = enc_index_entry (es ! k)"
proof -
  let ?cs = "map enc_index_entry es"
  have off: "chunk_off ?cs k = 16 * k"
    using assms by (intro chunk_off_equal) auto
  have "drop (40 + 16 * k) (index_file h es) = drop (16 * k) (concat ?cs)"
    by (simp add: index_file_def)
  also have "\<dots> = enc_index_entry (es ! k) @ concat (drop (Suc k) ?cs)"
    using drop_chunk_off [of k ?cs] assms off by simp
  finally show ?thesis by simp
qed

lemma index_file_entries:
  assumes "k + n \<le> length es"
  shows "split_entries (drop (40 + 16 * k) (index_file h es)) n = take n (drop k es)"
  using assms
proof (induction n arbitrary: k)
  case 0
  then show ?case by simp
next
  case (Suc n)
  have "take 16 (drop (40 + 16 * k) (index_file h es)) = enc_index_entry (es ! k)"
    using Suc.prems by (intro index_file_entry) simp
  moreover have "drop 16 (drop (40 + 16 * k) (index_file h es))
      = drop (40 + 16 * Suc k) (index_file h es)"
    by (simp add: add.commute)
  moreover have "take (Suc n) (drop k es) = es ! k # take n (drop (Suc k) es)"
    using Suc.prems by (metis Cons_nth_drop_Suc Suc_le_lessD add_Suc_right le_add1
        le_less_trans take_Suc_Cons)
  ultimately show ?case
    using Suc.IH [of "Suc k"] Suc.prems by (simp only: split_entries.simps) simp
qed

lemma split_entries_take: "16 * n \<le> m \<Longrightarrow> split_entries (take m bs) n = split_entries bs n"
proof (induction n arbitrary: bs m)
  case 0
  then show ?case by simp
next
  case (Suc n)
  then have "split_entries (take (m - 16) (drop 16 bs)) n = split_entries (drop 16 bs) n"
    by simp
  with Suc.prems show ?case by (simp add: drop_take min_def)
qed

lemma get_current_mills_run [os_run]:
  "get_current_mills (set_pos fd i p os) =
     (fst (get_current_mills os), set_pos fd i p (clocked os))"
  by (simp add: get_current_mills_def sys_gettimeofday_def split_beta set_pos_def clocked_def)

lemma index_file_snoc:
  "index_file h es @ enc_index_entry e = index_file h (es @ [e])"
  by (simp add: index_file_def)

lemma index_file_header:
  "file_write (index_file h es) 0 (enc_index_header h') = index_file h' es"
  by (simp add: index_file_def file_write_0)

text \<open>
  A successful append: the new entry is the last one, its id is the old count, and only
  the index's own file and descriptor are touched.
\<close>

definition appended_header ::
    "sea_block_index_header \<Rightarrow> u64 \<Rightarrow> sea_block_index_header" where
  "appended_header h ts = h\<lparr>ih_count := ih_count h + 1, ih_stop_timestamp := ts\<rparr>"

lemma index_append_run:
  assumes rel: "reliable os"
    and content: "os_inodes os i = index_file (ix_header index) es"
    and small: "length es < 2 ^ 32"
  shows "sea_block_index_append index off (set_pos (ix_fd index) i p os) =
    (let ts = fst (get_current_mills os); h = appended_header (ix_header index) ts in
     (0, ih_count (ix_header index),
      (if unat (ih_max_count h) \<le> unat (ih_count h) then 1 else 0),
      index\<lparr>ix_header := h\<rparr>,
      set_pos (ix_fd index) i 40
        (set_content i (index_file h (es @ [\<lparr>ie_timestamp = ts, ie_offset = off\<rparr>]))
          (ticked (ticked (clocked os))))))"
proof -
  have fin: "file_write (index_file h es) (40 + length es * 16) e = index_file h es @ e" for h e
    using file_write_end [of "index_file h es" e] by (simp add: mult.commute)
  show ?thesis
    using small
    by (simp add: sea_block_index_append_def os_run os_norm rel content fin Let_def
        index_sizes appended_header_def index_file_snoc index_file_header mult.commute)
qed

lemma index_append_ok:
  assumes rel: "reliable os" and wf: "index_wf os index i es"
    and room: "Suc (length es) < 2 ^ 32"
  shows "\<exists>index' os'. sea_block_index_append index off os =
      (0, of_nat (length es),
       (if unat (ih_max_count (ix_header index)) \<le> Suc (length es) then 1 else 0), index', os')
    \<and> index_wf os' index' i (es @ [\<lparr>ie_timestamp = fst (get_current_mills os), ie_offset = off\<rparr>])
    \<and> os_frame (ix_fd index) i os os' \<and> ix_fd index' = ix_fd index
    \<and> ih_max_count (ix_header index') = ih_max_count (ix_header index)"
proof -
  obtain p where at: "fd_at os (ix_fd index) i p"
    and content: "os_inodes os i = index_file (ix_header index) es"
    and cnt: "unat (ih_count (ix_header index)) = length es"
    using wf by (auto simp: index_wf_def)
  have os: "set_pos (ix_fd index) i p os = os"
    by (rule set_pos_same [OF at])
  have inc: "unat (ih_count (ix_header index) + 1) = Suc (length es)"
    using cnt room by (simp add: unat_word_ariths)
  have id: "ih_count (ix_header index) = of_nat (length es)"
    unfolding cnt [symmetric] by simp
  note run = index_append_run [OF rel content, of off p, unfolded os Let_def]
  show ?thesis
    using room inc id
    by (auto simp: run index_wf_def appended_header_def)
qed

text \<open>Looking an entry up by its id yields its offset; an id past the end yields nothing.\<close>

lemma index_query_by_record_id_run:
  assumes rel: "reliable os" and content: "os_inodes os i = index_file (ix_header index) es"
    and cnt: "unat (ih_count (ix_header index)) = length es" and r: "unat r < length es"
  shows "sea_block_index_query_by_record_id index r (set_pos (ix_fd index) i p os) =
    Done (Some (offset_rep [ie_offset (es ! unat r)]),
      set_pos (ix_fd index) i (40 + 16 * unat r + 16) (ticked (ticked os)))"
proof -
  have "length es < 2 ^ 32"
    unfolding cnt [symmetric] using unsigned_less [of "ih_count (ix_header index)", where 'a = nat] by simp
  then have bound: "40 + 16 * unat r < 2 ^ 63"
    using r by simp
  have below: "\<not> ih_count (ix_header index) \<le> r"
    using r cnt by (simp add: word_le_nat_alt)
  have seek: "sys_lseek fd (40 + uint r * 16) SEEK_SET (set_pos fd i p os)
      = (40 + uint r * 16, set_pos fd i (40 + unat r * 16) os)" for fd
    using sys_lseek_set_run [OF bound, of fd i p os] by (simp add: mult.commute)
  have read: "take 16 (drop (40 + unat r * 16) (index_file (ix_header index) es))
      = enc_index_entry (es ! unat r)"
    using index_file_entry [OF r] by (simp add: mult.commute)
  have len: "min 16 (length es * 16 - unat r * 16) = 16"
    using r by (simp add: min_def diff_mult_distrib [symmetric])
  show ?thesis
    using below
    by (simp add: sea_block_index_query_by_record_id_def index_sizes seek os_run os_norm rel
        content offset_malloc_rep read len offset_append_rep [of "[]", simplified] mult.commute)
qed

lemma index_query_by_record_id_end:
  "unat (ih_count (ix_header index)) \<le> unat r \<Longrightarrow>
    sea_block_index_query_by_record_id index r os = Done (None, os\<lparr>os_errno := C_EOF\<rparr>)"
  by (simp add: sea_block_index_query_by_record_id_def word_le_nat_alt)

section \<open>Range queries\<close>

lemma index_query_by_count_run:
  assumes rel: "reliable os" and content: "os_inodes os i = index_file (ix_header index) es"
    and cnt: "unat (ih_count (ix_header index)) = length es"
    and r: "unat r < length es" and nowrap: "unat r + unat c < 2 ^ 32"
    and n: "n = min (unat c) (length es - unat r)" and small: "n < 2 ^ 28"
  shows "sea_block_index_query_by_count index r c (set_pos (ix_fd index) i p os) =
    (case offset_append_all (offset_rep []) (map ie_offset (take n (drop (unat r) es)))
        (set_pos (ix_fd index) i (40 + 16 * unat r + 16 * n) (ticked (ticked (ticked os)))) of
       Undef \<Rightarrow> Undef
     | Done (off, os1) \<Rightarrow> Done (Some off, Some (of_nat n), os1))"
proof -
  let ?h = "ix_header index"
  have len: "length es < 2 ^ 32"
    unfolding cnt [symmetric] using unsigned_less [of "ih_count ?h", where 'a = nat] by simp
  have bound: "40 + 16 * unat r < 2 ^ 63"
    using r len by simp
  have seek: "sys_lseek fd (40 + 16 * uint r) SEEK_SET (set_pos fd i p os)
      = (40 + 16 * uint r, set_pos fd i (40 + 16 * unat r) os)" for fd
    using sys_lseek_set_run [OF bound, of fd i p os] by simp
  have below: "\<not> ih_count ?h \<le> r"
    using r cnt by (simp add: word_le_nat_alt)
  have rc: "(if r + c < ih_count ?h then c else ih_count ?h - r) = of_nat n"
    using cnt r nowrap n
    by (auto simp: word_less_nat_alt unat_word_ariths unat_sub_if' min_def
        word_unat_eq_iff unat_of_nat)
  have un: "unat (of_nat n :: u32) = n"
    using small by (simp add: unat_of_nat)
  have k: "unat r + n \<le> length es"
    using n r by simp
  have avail: "min (16 * n) (16 * length es - 16 * unat r) = 16 * n"
    using k by simp
  have split: "split_entries (take (16 * n) (drop (40 + 16 * unat r) (index_file ?h es))) n
      = take n (drop (unat r) es)"
    using index_file_entries [OF k, of ?h] by (simp add: split_entries_take)
  have sz: "unat (16 * of_nat n :: u32) = 16 * n"
    using small by (simp add: unat_word_ariths unat_of_nat)
  show ?thesis
    using below unfolding sea_block_index_query_by_count_def index_sizes
    by (simp add: rc seek os_run os_norm rel content offset_malloc_rep un Let_def split sz avail)
qed

text \<open>
  The scan by time returns the offsets of the entries from \<open>k\<close> on up to the first one that
  is not earlier than \<open>stop\<close>.
\<close>

lemma query_by_time_loop_run:
  assumes "reliable os" and "os_inodes os i = index_file h es"
    and "k + n = length es" and "length xs + n \<le> 1280"
  shows "\<exists>os' p'. query_by_time_loop n fd stop (Some (offset_rep xs)) rc
        (set_pos fd i (40 + 16 * k) os) =
      Done (Some (offset_rep (xs @ map ie_offset (takeWhile (\<lambda>e. ie_timestamp e < stop) (drop k es)))),
            rc + of_nat (length (takeWhile (\<lambda>e. ie_timestamp e < stop) (drop k es))),
            set_pos fd i p' os')
    \<and> os_inodes os' = os_inodes os \<and> os_frame fd i os os'"
  using assms
proof (induction n arbitrary: k xs rc os)
  case 0
  then show ?case by (auto intro!: exI [of _ os])
next
  case (Suc n)
  have k: "k < length es" using Suc.prems by simp
  have read: "take 16 (drop (40 + 16 * k) (index_file h es)) = enc_index_entry (es ! k)"
    by (rule index_file_entry [OF k])
  have avail: "min 16 (16 * length es - 16 * k) = 16"
    using k by simp
  have es: "drop k es = es ! k # drop (Suc k) es"
    using k by (simp add: Cons_nth_drop_Suc)
  show ?case
  proof (cases "ie_timestamp (es ! k) < stop")
    case True
    obtain os' p' where IH: "query_by_time_loop n fd stop
         (Some (offset_rep (xs @ [ie_offset (es ! k)]))) (rc + 1)
         (set_pos fd i (40 + 16 * Suc k) (ticked os)) =
       Done (Some (offset_rep ((xs @ [ie_offset (es ! k)])
             @ map ie_offset (takeWhile (\<lambda>e. ie_timestamp e < stop) (drop (Suc k) es)))),
         (rc + 1) + of_nat (length (takeWhile (\<lambda>e. ie_timestamp e < stop) (drop (Suc k) es))),
         set_pos fd i p' os')"
      "os_inodes os' = os_inodes (ticked os)" "os_frame fd i (ticked os) os'"
      using Suc.IH [of "ticked os" "Suc k" "xs @ [ie_offset (es ! k)]" "rc + 1"] Suc.prems
      by auto
    have "os_frame fd i os os'"
      using IH(3) by (simp add: os_frame_def)
    with IH Suc.prems True es show ?thesis
      by (auto simp: index_sizes os_run os_norm read avail offset_append_rep add.assoc)
  next
    case False
    with Suc.prems es show ?thesis
      by (auto simp: index_sizes os_run os_norm read avail intro!: exI [of _ "ticked os"])
  qed
qed

section \<open>Creating and opening\<close>

lemma index_open_ok:
  assumes rel: "reliable os" and wf: "os_wf os"
    and name: "os_names os (sea_block_index_filename dir bid PATH_MAX) = Some i"
    and content: "os_inodes os i = index_file h es" and cnt: "unat (ih_count h) = length es"
  shows "\<exists>os'. sea_block_index_open dir bid os
      = (Some \<lparr>ix_fd = os_next_fd os, ix_header = h\<rparr>, 0, set_pos (os_next_fd os) i 40 os')
    \<and> index_wf (set_pos (os_next_fd os) i 40 os') \<lparr>ix_fd = os_next_fd os, ix_header = h\<rparr> i es
    \<and> os_frame (os_next_fd os) i (os\<lparr>os_next_fd := os_next_fd os + 1\<rparr>) os'
    \<and> os_inodes os' = os_inodes os"
proof -
  let ?os = "ticked os\<lparr>os_next_fd := os_next_fd os + 1\<rparr>"
  have hdr: "take 40 (index_file h es) = enc_index_header h"
    by (simp add: index_file_def)
  have pos: "os_next_fd os \<noteq> - 1"
    using wf by (simp add: os_wf_def)
  have run: "sea_block_index_open dir bid os
      = (Some \<lparr>ix_fd = os_next_fd os, ix_header = h\<rparr>, 0,
         set_pos (os_next_fd os) i 40 (ticked (ticked ?os)))"
    using rel content pos
    by (simp add: sea_block_index_open_def sys_open_def name open_inode_run os_run os_norm
        index_sizes hdr)
  show ?thesis
    unfolding run using content cnt
    by (auto simp: index_wf_def os_frame_def ticked_def intro!: exI [of _ "ticked (ticked ?os)"])
qed

section \<open>The index is a log of offsets\<close>

text \<open>
  Seen through its two operations, an open index is an append-only log of data-file
  offsets: the record id is the number, the timestamps do not matter.
\<close>

definition index_holds :: "sea_block_index \<times> os \<Rightarrow> u64 list \<Rightarrow> bool" where
  "index_holds s offs \<longleftrightarrow>
     (\<exists>i es. reliable (snd s) \<and> index_wf (snd s) (fst s) i es \<and> map ie_offset es = offs)"

definition index_app :: "u64 \<Rightarrow> sea_block_index \<times> os \<Rightarrow> (nat \<times> sea_block_index \<times> os) option" where
  "index_app off s =
     (let (ret, rid, over, ix, os) = sea_block_index_append (fst s) off (snd s)
      in if ret = 0 then Some (unat rid, ix, os) else None)"

definition index_get :: "nat \<Rightarrow> sea_block_index \<times> os \<Rightarrow> (u64 \<times> sea_block_index \<times> os) option" where
  "index_get n s =
     (case sea_block_index_query_by_record_id (fst s) (of_nat n) (snd s) of
        Done (Some offs, os) \<Rightarrow>
          (case sea_block_offset_get offs 0 of
             Done off \<Rightarrow> Some (off, fst s, os)
           | Undef \<Rightarrow> None)
      | _ \<Rightarrow> None)"

definition index_fits :: "u64 list \<Rightarrow> u64 \<Rightarrow> bool" where
  "index_fits offs off \<longleftrightarrow> Suc (length offs) < 2 ^ 32"

interpretation index_log: append_log index_holds index_fits index_app index_get
proof
  fix s offs off
  assume h: "index_holds s offs" and f: "index_fits offs off"
  obtain i es where rel: "reliable (snd s)" and wf: "index_wf (snd s) (fst s) i es"
    and offs: "offs = map ie_offset es"
    using h by (auto simp: index_holds_def)
  have room: "Suc (length es) < 2 ^ 32"
    using f offs by (simp add: index_fits_def)
  obtain ix os' e where
    run: "sea_block_index_append (fst s) off (snd s) = (0, of_nat (length es), e, ix, os')"
    and wf': "index_wf os' ix i (es @ [\<lparr>ie_timestamp = fst (get_current_mills (snd s)), ie_offset = off\<rparr>])"
    and fr: "os_frame (ix_fd (fst s)) i (snd s) os'"
    using index_append_ok [OF rel wf room, of off] by blast
  have "index_holds (ix, os') (offs @ [off])"
    unfolding index_holds_def using wf' os_frame_reliable [OF fr] rel offs
    by (auto intro!: exI [of _ "es @ [\<lparr>ie_timestamp = fst (get_current_mills (snd s)), ie_offset = off\<rparr>]"])
  then show "\<exists>s'. index_app off s = Some (length offs, s') \<and> index_holds s' (offs @ [off])"
    using run room offs by (auto simp: index_app_def unat_of_nat)
next
  fix s offs k
  assume h: "index_holds s offs" and k: "k < length offs"
  obtain i es where rel: "reliable (snd s)" and wf: "index_wf (snd s) (fst s) i es"
    and offs: "offs = map ie_offset es"
    using h by (auto simp: index_holds_def)
  obtain p where at: "fd_at (snd s) (ix_fd (fst s)) i p"
    and c: "os_inodes (snd s) i = index_file (ix_header (fst s)) es"
    and cnt: "unat (ih_count (ix_header (fst s))) = length es"
    using wf by (auto simp: index_wf_def)
  have uk: "unat (of_nat k :: u32) = k"
    using k offs index_wf_count [OF wf] by (simp add: unat_of_nat)
  have r: "unat (of_nat k :: u32) < length es"
    using k offs uk by simp
  note run = index_query_by_record_id_run [OF rel c cnt r, of p, unfolded set_pos_same [OF at] uk]
  have "index_holds (fst s, set_pos (ix_fd (fst s)) i (40 + 16 * k + 16) (ticked (ticked (snd s)))) offs"
    unfolding index_holds_def using rel c cnt offs by (auto simp: index_wf_def)
  then show "\<exists>s'. index_get k s = Some (offs ! k, s') \<and> index_holds s' offs"
    using k offs by (simp add: index_get_def run offset_get_rep)
qed

section \<open>Properties\<close>

text \<open>An index just created: its header counts no entry, and descriptor 3 is open on it.\<close>

definition sample_index :: "sea_block_index \<times> os" where
  "sample_index =
     (let h = \<lparr>ih_block_id = 7, ih_max_count = 10, ih_start_timestamp = 0, ih_stop_timestamp = 0,
               ih_count = 0, ih_unused = 0\<rparr>
      in (\<lparr>ix_fd = 3, ix_header = h\<rparr>,
          set_pos 3 0 40 (set_content 0 (index_file h []) (fresh_os {}))))"

lemma sample_index_holds: "index_holds sample_index []"
  by (auto simp: index_holds_def sample_index_def index_wf_def Let_def)

text \<open>C30: The index remembers every offset.  Appending a list of offsets to an open index succeeds, and
  looking up the ids the appends returned yields those offsets, in order, whatever was in the
  index before.\<close>

theorem index_append_then_lookup:
  assumes "index_holds s offs" and "length offs + length xs < 2 ^ 32"
  shows "\<exists>ns s1 s2. log_append_all index_app xs s = Some (ns, s1) \<and> length ns = length xs
    \<and> log_get_all index_get ns s1 = Some (xs, s2) \<and> index_holds s2 (offs @ xs)"
proof -
  have "log_fits index_fits offs xs"
    using assms(2) by (induction xs arbitrary: offs) (auto simp: index_fits_def)
  then show ?thesis
    by (rule index_log.append_then_get [OF assms(1)])
qed

theorem index_append_then_lookup_witness:
  "\<exists>ns s1 s2. log_append_all index_app [0, 17, 40] sample_index = Some (ns, s1) \<and> length ns = 3
    \<and> log_get_all index_get ns s1 = Some ([0, 17, 40], s2) \<and> index_holds s2 [0, 17, 40]"
  using index_append_then_lookup [OF sample_index_holds, of "[0, 17, 40]"]
  by (simp add: numeral_3_eq_3 del: log_append_all.simps log_get_all.simps)

text \<open>A query by time stops at the first entry that is not earlier than the stop time, and ignores
  its start time and its count.  From the first record id on, it collects the offsets of the
  entries earlier than \<open>stop\<close> up to the first later one, and adds their number to the counter it
  was given, whatever \<open>start\<close> and \<open>count\<close> are.\<close>

theorem index_time_query:
  assumes "reliable os" and "index_wf os index i es" and "unat r < length es" and "length es \<le> 1280"
  shows "\<exists>os'. sea_block_index_query_by_time index start stop r count rc os =
    Done (Some (offset_rep (map ie_offset (takeWhile (\<lambda>e. ie_timestamp e < stop) (drop (unat r) es)))),
      rc + of_nat (length (takeWhile (\<lambda>e. ie_timestamp e < stop) (drop (unat r) es))), os')"
proof -
  obtain p where at: "fd_at os (ix_fd index) i p" and c: "os_inodes os i = index_file (ix_header index) es"
    and cnt: "unat (ih_count (ix_header index)) = length es"
    using assms(2) by (auto simp: index_wf_def)
  have below: "\<not> ih_count (ix_header index) \<le> r"
    using assms(3) cnt by (simp add: word_le_nat_alt)
  have "40 + 16 * unat r < 2 ^ 63"
    using assms(3,4) by simp
  then have seek: "sys_lseek (ix_fd index) (int (40 + 16 * unat r)) SEEK_SET os
      = (int (40 + 16 * unat r), set_pos (ix_fd index) i (40 + 16 * unat r) os)"
    using sys_lseek_set_run [of "40 + 16 * unat r" "ix_fd index" i p os] set_pos_same [OF at] by simp
  obtain os' p' where loop: "query_by_time_loop (length es - unat r) (ix_fd index) stop (Some (offset_rep [])) rc
        (set_pos (ix_fd index) i (40 + 16 * unat r) (ticked os)) =
      Done (Some (offset_rep (map ie_offset (takeWhile (\<lambda>e. ie_timestamp e < stop) (drop (unat r) es)))),
            rc + of_nat (length (takeWhile (\<lambda>e. ie_timestamp e < stop) (drop (unat r) es))),
            set_pos (ix_fd index) i p' os')"
  proof -
    have rel: "reliable (ticked os)" and ct: "os_inodes (ticked os) i = index_file (ix_header index) es"
      and kn: "unat r + (length es - unat r) = length es"
      and le: "length ([] :: u64 list) + (length es - unat r) \<le> 1280"
      using assms c by simp_all
    show ?thesis
      using query_by_time_loop_run [OF rel ct kn le, of "ix_fd index" stop rc] that by auto
  qed
  have "sea_block_index_query_by_time index start stop r count rc os
      = query_by_time_loop (length es - unat r) (ix_fd index) stop (Some (offset_rep [])) rc
        (set_pos (ix_fd index) i (40 + 16 * unat r) (ticked os))"
    using below assms(1) seek unfolding sea_block_index_query_by_time_def index_sizes cnt
    by (simp add: Let_def offset_malloc_rep os_norm del: query_by_time_loop.simps of_nat_add of_nat_mult)
  then show ?thesis
    using loop by simp
qed

text \<open>An index with two entries, at times 5 and 9.\<close>

definition sample_index2 :: "sea_block_index" where
  "sample_index2 = \<lparr>ix_fd = 3, ix_header = \<lparr>ih_block_id = 7, ih_max_count = 10, ih_start_timestamp = 0,
     ih_stop_timestamp = 0, ih_count = 2, ih_unused = 0\<rparr>\<rparr>"

definition sample_entries :: "sea_block_index_entry list" where
  "sample_entries = [\<lparr>ie_timestamp = 5, ie_offset = 0\<rparr>, \<lparr>ie_timestamp = 9, ie_offset = 17\<rparr>]"

definition sample_index2_os :: os where
  "sample_index2_os = set_pos 3 0 40 (set_content 0 (index_file (ix_header sample_index2) sample_entries) (fresh_os {}))"

theorem index_time_query_witness:
  "\<exists>os'. sea_block_index_query_by_time sample_index2 100 7 0 0 0 sample_index2_os
    = Done (Some (offset_rep [0]), 1, os')"
proof -
  have "reliable sample_index2_os" "index_wf sample_index2_os sample_index2 0 sample_entries"
    by (auto simp: sample_index2_os_def index_wf_def sample_index2_def sample_entries_def)
  from index_time_query [OF this, of 0 100 7 0 0] show ?thesis
    by (simp add: sample_entries_def)
qed

end
