(* ===== verification/SeaRecord.thy ===== *)
theory SeaRecord
  imports SeaOS
begin

text \<open>
  \<open>sea_block_record.c\<close>: the queue of records a query returns.  The \<open>TAILQ\<close> is the list
  of its elements from head to tail; an element is its \<open>length\<close> bytes of data.
\<close>

record sea_block_record =
  head :: "byte list list"

definition sizeof_record :: int where "sizeof_record = 24"
definition sizeof_record_data :: int where "sizeof_record_data = 24"

definition sea_block_record_malloc :: "os \<Rightarrow> sea_block_record option \<times> os" where
  "sea_block_record_malloc os =
     (let (ok, os1) = c_malloc sizeof_record os
      in (if ok then Some \<lparr>head = []\<rparr> else None, os1))"

text \<open>Each element is unlinked before it is freed: nothing is left in the queue.\<close>

fun record_free_loop :: "byte list list \<Rightarrow> byte list list" where
  "record_free_loop [] = []"
| "record_free_loop (data # rest) = record_free_loop rest"

definition sea_block_record_free :: "sea_block_record \<Rightarrow> byte list list" where
  "sea_block_record_free header = record_free_loop (head header)"

definition sea_block_record_append ::
    "sea_block_record \<Rightarrow> byte list \<Rightarrow> u32 \<Rightarrow> os \<Rightarrow> (int \<times> sea_block_record \<times> os) outcome" where
  "sea_block_record_append header buf len os =
     (let (ok, os1) = c_malloc (int (unat len) + sizeof_record_data) os
      in if \<not> ok then Done (EINVAL, header, os1)
         else if length buf < unat len then Undef
         else Done (0, header\<lparr>head := head header @ [take (unat len) buf]\<rparr>, os1))"

text \<open>The callback is called on every element in order; its result is ignored.\<close>

definition sea_block_record_foreach ::
    "sea_block_record \<Rightarrow> (byte list \<Rightarrow> int \<Rightarrow> 'a \<Rightarrow> 'a) \<Rightarrow> 'a \<Rightarrow> int \<times> 'a" where
  "sea_block_record_foreach header func args =
     (0, fold (\<lambda>d a. func d (int (length d)) a) (head header) args)"

definition sea_block_record_get_first ::
    "sea_block_record \<Rightarrow> (byte list \<times> u32) option" where
  "sea_block_record_get_first header =
     (case head header of [] \<Rightarrow> None | d # _ \<Rightarrow> Some (d, of_nat (length d)))"

lemma sea_block_record_free_empties: "sea_block_record_free h = []"
proof -
  have "record_free_loop ds = []" for ds
    by (induction ds) auto
  then show ?thesis by (simp add: sea_block_record_free_def)
qed

lemma record_malloc_ok [simp]:
  "reliable os \<Longrightarrow> sea_block_record_malloc os = (Some \<lparr>head = []\<rparr>, ticked os)"
  by (simp add: sea_block_record_malloc_def sizeof_record_def)

lemma record_append_ok:
  "reliable os \<Longrightarrow> unat len = length buf \<Longrightarrow>
     sea_block_record_append h buf len os = Done (0, h\<lparr>head := head h @ [buf]\<rparr>, ticked os)"
  by (simp add: sea_block_record_append_def sizeof_record_data_def)

lemma record_foreach_collects:
  "snd (sea_block_record_foreach h (\<lambda>d n acc. acc @ [d]) []) = head h"
proof -
  have "fold (\<lambda>d acc. acc @ [d]) ds acc = acc @ ds" for ds acc :: "byte list list"
    by (induction ds arbitrary: acc) auto
  then show ?thesis by (simp add: sea_block_record_foreach_def)
qed

end
