(* ===== verification/SeaData.thy ===== *)
theory SeaData
  imports SeaOffset SeaRecord
begin

text \<open>
  \<open>sea_block_data.c\<close>: the data file of a block.  A record is framed by an 8-byte header
  (magic, disable flag, padding, length) and an 8-byte tail (length, padding, magic); its
  offset in the file is what the index stores.
\<close>

record sea_block_data_header =
  dh_magic :: u8
  dh_disable :: u8
  dh_pad :: "byte list"
  dh_length :: u32

record sea_block_data_tail =
  dt_length :: u32
  dt_pad :: "byte list"
  dt_magic :: u8

record sea_block_data =
  sd_fd :: int

definition SEA_BLOCK_DATA_MAGIC_HEADER :: u8 where "SEA_BLOCK_DATA_MAGIC_HEADER = 94"
definition SEA_BLOCK_DATA_MAGIC_TAIL :: u8 where "SEA_BLOCK_DATA_MAGIC_TAIL = 36"

definition enc_data_header :: "sea_block_data_header \<Rightarrow> byte list" where
  "enc_data_header h = [dh_magic h, dh_disable h] @ dh_pad h @ bytes_of_u32 (dh_length h)"

definition dec_data_header :: "byte list \<Rightarrow> sea_block_data_header" where
  "dec_data_header bs = \<lparr>dh_magic = bs ! 0, dh_disable = bs ! 1, dh_pad = take 2 (drop 2 bs),
     dh_length = u32_of_bytes (take 4 (drop 4 bs))\<rparr>"

definition enc_data_tail :: "sea_block_data_tail \<Rightarrow> byte list" where
  "enc_data_tail t = bytes_of_u32 (dt_length t) @ dt_pad t @ [dt_magic t]"

definition sea_block_data_filename :: "string \<Rightarrow> u64 \<Rightarrow> nat \<Rightarrow> string" where
  "sea_block_data_filename dir block_id filename_len =
     snprintf_str filename_len
       (dir @ ''/'' @ dec_str (unat block_id) @ ''/'' @ dec_str (unat block_id))"

text \<open>\<open>max_size\<close> is a parameter the body never reads.\<close>

definition sea_block_data_create :: "string \<Rightarrow> u64 \<Rightarrow> u64 \<Rightarrow> os \<Rightarrow> int \<times> os" where
  "sea_block_data_create dir block_id max_size os =
     (let (fd, os1) = sys_open (sea_block_data_filename dir block_id PATH_MAX) True os
      in if fd = - 1 then (os_errno os1, os1) else (0, sys_close fd os1))"

definition sea_block_data_destroy :: "string \<Rightarrow> u64 \<Rightarrow> os \<Rightarrow> int \<times> os" where
  "sea_block_data_destroy dir block_id os =
     (let filename = sea_block_data_filename dir block_id PATH_MAX;
          (acc, os1) = sys_access filename os
      in if acc = - 1 then (0, os1)
         else
           let (ret, os2) = sys_unlink filename os1
           in (if ret \<noteq> 0 then os_errno os2 else ret, os2))"

definition sea_block_data_open :: "string \<Rightarrow> u64 \<Rightarrow> os \<Rightarrow> sea_block_data option \<times> os" where
  "sea_block_data_open dir block_id os =
     (let (fd, os1) = sys_open (sea_block_data_filename dir block_id PATH_MAX) False os
      in if fd = - 1 then (None, os1)
         else
           let (ok, os2) = c_malloc 4 os1
           in (if ok then Some \<lparr>sd_fd = fd\<rparr> else None, os2))"

definition sea_block_data_close :: "sea_block_data option \<Rightarrow> os \<Rightarrow> int \<times> os" where
  "sea_block_data_close data os =
     (case data of
        None \<Rightarrow> (0, os)
      | Some d \<Rightarrow> (0, if sd_fd d > 0 then sys_close (sd_fd d) os else os))"

text \<open>
  The framed record: the padding bytes are never assigned, so they are whatever the stack
  held (\<open>os_junk\<close>).
\<close>

definition data_frame :: "os \<Rightarrow> u32 \<Rightarrow> byte list \<Rightarrow> byte list" where
  "data_frame os len d =
     enc_data_header \<lparr>dh_magic = SEA_BLOCK_DATA_MAGIC_HEADER, dh_disable = 0,
                      dh_pad = junk_bytes os 2, dh_length = len\<rparr>
     @ d
     @ enc_data_tail \<lparr>dt_length = len, dt_pad = junk_bytes os 3,
                      dt_magic = SEA_BLOCK_DATA_MAGIC_TAIL\<rparr>"

text \<open>
  The length of the framed record, computed in \<open>size_t\<close> and narrowed to \<open>int\<close>.  The
  three copies are defined when the block really has that size and the caller's buffer
  has \<open>length\<close> bytes.
\<close>

definition frame_buf_len :: "u32 \<Rightarrow> int" where
  "frame_buf_len len = as_int32 (8 + uint len + 8)"

definition sea_block_data_append ::
    "sea_block_data \<Rightarrow> byte list \<Rightarrow> u32 \<Rightarrow> os \<Rightarrow> (int \<times> u64 \<times> os) outcome" where
  "sea_block_data_append data buffer len os =
     (let buf_len = frame_buf_len len;
          (ok, os1) = c_malloc buf_len os
      in if \<not> ok then Done (EINVAL, 0, os1)
         else if buf_len \<noteq> 8 + uint len + 8 \<or> length buffer < unat len then Undef
         else
           let buf = data_frame os len (take (unat len) buffer);
               (off, os2) = sys_lseek (sd_fd data) 0 SEEK_END os1;
               (w, os3) = sys_write (sd_fd data) buf os2;
               size = (word_of_int w :: u32)
           in if size \<noteq> word_of_int buf_len then Done (ENOENT, word_of_int off, os3)
              else Done (0, word_of_int off, os3))"

text \<open>
  Reading the records at the given offsets.  The seek to a record's header is relative to
  the current position (\<open>SEEK_CUR\<close>); the loop ends early when a header or a body cannot
  be read in full.
\<close>

fun data_query_loop ::
    "int \<Rightarrow> u64 list \<Rightarrow> sea_block_record option \<Rightarrow> os \<Rightarrow>
      (sea_block_record option \<times> os) outcome" where
  "data_query_loop fd [] record_list os = Done (record_list, os)"
| "data_query_loop fd (offset # offsets) record_list os =
     (let (_, os1) = sys_lseek fd (sint offset) SEEK_CUR os;
          (r, hb, os2) = sys_read fd 8 os1
      in if as_int32 r \<noteq> 8 then Done (record_list, os2)
         else
           let header = dec_data_header hb;
               (_, os3) = sys_lseek fd (sint (offset + 8)) SEEK_SET os2;
               (ok, os4) = c_malloc (uint (dh_length header)) os3
           in if \<not> ok then Done (record_list, os4)
              else
                let (r2, buf, os5) = sys_read fd (unat (dh_length header)) os4
                in if (word_of_int r2 :: u32) \<noteq> dh_length header then Done (record_list, os5)
                   else
                     (case record_list of
                        None \<Rightarrow> Undef
                      | Some rl \<Rightarrow>
                        (case sea_block_record_append rl buf (dh_length header) os5 of
                           Undef \<Rightarrow> Undef
                         | Done (_, rl', os6) \<Rightarrow> data_query_loop fd offsets (Some rl') os6)))"

definition sea_block_data_query_by_offsets ::
    "sea_block_data \<Rightarrow> sea_block_offset \<Rightarrow> os \<Rightarrow> (sea_block_record option \<times> os) outcome" where
  "sea_block_data_query_by_offsets data offsets os =
     (let (record_list, os1) = sea_block_record_malloc os
      in data_query_loop (sd_fd data)
           (take (unat (sea_block_offset_count offsets)) (so_cells offsets)) record_list os1)"

definition sea_block_data_insert_by_offsets ::
    "sea_block_data \<Rightarrow> sea_block_offset \<Rightarrow> byte list \<Rightarrow> u32 \<Rightarrow> os \<Rightarrow> (int \<times> os) outcome" where
  "sea_block_data_insert_by_offsets data offset buffer len os =
     (let buf_len = frame_buf_len len;
          (ok, os1) = c_malloc buf_len os
      in if \<not> ok then Done (EINVAL, os1)
         else if buf_len \<noteq> 8 + uint len + 8 \<or> length buffer < unat len then Undef
         else
           (case sea_block_offset_get offset 0 of
              Undef \<Rightarrow> Undef
            | Done off \<Rightarrow>
              let buf = data_frame os len (take (unat len) buffer);
                  (_, os2) = sys_lseek (sd_fd data) (sint off) SEEK_SET os1;
                  (w, os3) = sys_write (sd_fd data) buf os2
              in if (word_of_int w :: u32) \<noteq> word_of_int buf_len then Done (ENOENT, os3)
                 else Done (0, os3)))"

section \<open>The file as a sequence of records\<close>

text \<open>
  \<open>is_frame d f\<close>: the bytes \<open>f\<close> are a frame of the payload \<open>d\<close>, whatever the padding.
\<close>

definition is_frame :: "byte list \<Rightarrow> byte list \<Rightarrow> bool" where
  "is_frame d f \<longleftrightarrow> (\<exists>pad pad'. length pad = 2 \<and> length pad' = 3 \<and> length d < 2 ^ 31 - 16
     \<and> f = enc_data_header \<lparr>dh_magic = SEA_BLOCK_DATA_MAGIC_HEADER, dh_disable = 0,
                             dh_pad = pad, dh_length = of_nat (length d)\<rparr>
           @ d
           @ enc_data_tail \<lparr>dt_length = of_nat (length d), dt_pad = pad',
                             dt_magic = SEA_BLOCK_DATA_MAGIC_TAIL\<rparr>)"

lemma length_enc_data [simp, sea_width]:
  "length (dh_pad h) = 2 \<Longrightarrow> length (enc_data_header h) = 8"
  "length (dt_pad t) = 3 \<Longrightarrow> length (enc_data_tail t) = 8"
  by (simp_all add: enc_data_header_def enc_data_tail_def)

lemma dec_enc_data_header [simp]:
  "length (dh_pad h) = 2 \<Longrightarrow> dec_data_header (enc_data_header h) = h"
  by (simp add: dec_data_header_def enc_data_header_def)

lemma length_frame: "is_frame d f \<Longrightarrow> length f = 16 + length d"
  by (auto simp: is_frame_def)

lemma frame_header:
  "is_frame d f \<Longrightarrow> dh_length (dec_data_header (take 8 f)) = of_nat (length d)"
  by (auto simp: is_frame_def)

lemma frame_body: "is_frame d f \<Longrightarrow> take (length d) (drop 8 f) = d"
  by (auto simp: is_frame_def)

lemma frame_len32: "is_frame d f \<Longrightarrow> length d < 2 ^ 31 - 16"
  by (auto simp: is_frame_def)

lemma data_frame_is_frame:
  "length d < 2 ^ 31 - 16 \<Longrightarrow> is_frame d (data_frame os (of_nat (length d)) d)"
  unfolding is_frame_def data_frame_def by (intro exI conjI) auto

lemma unat_small_u32: "n < 2 ^ 31 \<Longrightarrow> unat (of_nat n :: u32) = n"
  by (simp add: unat_of_nat)

lemma uint_small_u32: "n < 2 ^ 31 \<Longrightarrow> uint (of_nat n :: u32) = int n"
  using unat_small_u32 [of n] by (metis of_nat_unat)

lemma frame_buf_len_small:
  "n < 2 ^ 31 - 16 \<Longrightarrow> frame_buf_len (of_nat n) = int n + 16"
  by (simp add: frame_buf_len_def uint_small_u32)

lemma data_append_run:
  assumes rel: "reliable os" and len: "length d < 2 ^ 31 - 16"
    and size: "length (os_inodes os i) < 2 ^ 63"
  shows "sea_block_data_append \<lparr>sd_fd = fd\<rparr> d (of_nat (length d)) (set_pos fd i p os) =
    Done (0, of_nat (length (os_inodes os i)),
      set_pos fd i (length (os_inodes os i) + (16 + length d))
        (set_content i (os_inodes os i @ data_frame os (of_nat (length d)) d)
          (ticked (ticked os))))"
proof -
  have frame: "data_frame (set_pos fd i p os) = data_frame os"
    by (simp add: data_frame_def junk_bytes_def fun_eq_iff)
  have flen: "length (data_frame os (of_nat (length d)) d) = 16 + length d"
    by (rule length_frame [OF data_frame_is_frame [OF len]])
  have "int (length d) < 2 ^ 31" using len by simp
  then show ?thesis
    using len size
    by (simp add: sea_block_data_append_def frame frame_buf_len_small uint_small_u32
        unat_small_u32 rel os_run os_norm flen)
qed

text \<open>
  One round of the query loop from position 0: the header is found because the relative
  seek starts at the beginning of the file.
\<close>

lemma data_query_one:
  assumes rel: "reliable os" and fs: "os_inodes os i = concat fs"
    and k: "k < length fs" and frame: "is_frame d (fs ! k)"
    and size: "length (concat fs) < 2 ^ 62"
  shows "data_query_loop fd (of_nat (chunk_off fs k) # offs) (Some rl) (set_pos fd i 0 os) =
    data_query_loop fd offs (Some (rl\<lparr>head := head rl @ [d]\<rparr>))
      (set_pos fd i (chunk_off fs k + 8 + length d) (ticked (ticked (ticked (ticked os)))))"
proof -
  let ?o = "chunk_off fs k"
  have split: "drop ?o (concat fs) = fs ! k @ concat (drop (Suc k) fs)"
    by (rule drop_chunk_off [OF k])
  have flen: "length (fs ! k) = 16 + length d"
    by (rule length_frame [OF frame])
  have le: "?o + (16 + length d) \<le> length (concat fs)"
    using chunk_off_le [OF k] flen by simp
  have o: "?o < 2 ^ 62" using le size by simp
  have s1: "sint (of_nat ?o :: u64) = int ?o"
    using o by (intro sint_of_nat_u64) simp
  have s2: "sint (of_nat ?o + 8 :: u64) = int (?o + 8)"
    using o sint_of_nat_u64 [of "?o + 8"] by simp
  have seek1: "sys_lseek fd (int ?o) SEEK_CUR (set_pos fd i 0 os) = (int ?o, set_pos fd i ?o os)"
    using sys_lseek_cur_run [of 0 ?o fd i os] o by simp
  have seek2: "sys_lseek fd (int (?o + 8)) SEEK_SET (set_pos fd i p os')
      = (int (?o + 8), set_pos fd i (?o + 8) os')" for p os'
    using sys_lseek_set_run [of "?o + 8" fd i p os'] o by simp
  have hd8: "take 8 (drop ?o (concat fs)) = take 8 (fs ! k)"
    using flen by (simp add: split)
  have body: "take (length d) (drop (?o + 8) (concat fs)) = d"
  proof -
    have "drop (?o + 8) (concat fs) = drop 8 (drop ?o (concat fs))"
      by (simp add: add.commute)
    then show ?thesis
      using frame_body [OF frame] flen by (simp add: split)
  qed
  have len: "length d < 2 ^ 31 - 16" by (rule frame_len32 [OF frame])
  have a1: "min 8 (length (concat fs) - ?o) = 8" using le by simp
  have a2: "min (length d) (length (concat fs) - (?o + 8)) = length d" using le by simp
  show ?thesis
    using len
    by (simp add: s1 s2 seek1 seek2 [simplified] os_run os_norm rel fs hd8 a1 a2 body
        frame_header [OF frame] unat_small_u32 uint_small_u32 record_append_ok
        del: length_concat)
qed

text \<open>
  A relative seek that lands at or past the end of the file finds no header, and the loop
  gives up with the records it has.
\<close>

lemma data_query_past_end:
  assumes rel: "reliable os" and o: "unat off < 2 ^ 62" and p: "p < 2 ^ 62"
    and past: "length (os_inodes os i) \<le> p + unat off"
  shows "data_query_loop fd (off # offs) rl (set_pos fd i p os) =
    Done (rl, set_pos fd i (p + unat off) (ticked os))"
proof -
  have s: "sint off = int (unat off)"
    using o by (intro sint_small_u64) simp
  have "sys_lseek fd (int (unat off)) SEEK_CUR (set_pos fd i p os)
      = (int (p + unat off), set_pos fd i (p + unat off) os)"
    using sys_lseek_cur_run [of p "unat off" fd i os] o p by simp
  then show ?thesis
    using past by (simp add: s os_run os_norm rel)
qed

text \<open>
  Two records of the same size, read in one loop from a fresh descriptor: the second
  relative seek lands on the tail of the second record, whose last byte makes an
  impossible length, and only the first record is returned.
\<close>

lemma tail_as_header_length:
  assumes "length pad = 3"
  shows "36 * 2 ^ 24 \<le> unat (dh_length (dec_data_header
    (enc_data_tail \<lparr>dt_length = n, dt_pad = pad, dt_magic = SEA_BLOCK_DATA_MAGIC_TAIL\<rparr>)))"
proof -
  obtain a b c where pad: "pad = [a, b, c]"
    using assms by (auto simp: numeral_eq_Suc length_Suc_conv)
  have "unat a < 256" "unat b < 256" "unat c < 256"
    using unsigned_less [of a, where 'a = nat] unsigned_less [of b, where 'a = nat]
      unsigned_less [of c, where 'a = nat] by simp_all
  then show ?thesis
    by (simp add: dec_data_header_def enc_data_tail_def pad u32_of_bytes_def
        SEA_BLOCK_DATA_MAGIC_TAIL_def unat_of_nat del: of_nat_add of_nat_mult)
qed

lemma data_query_two:
  assumes rel: "reliable os" and fs: "os_inodes os i = concat (f0 # f1 # fs)"
    and f0: "is_frame d0 f0" and f1: "is_frame d1 f1" and same: "length d1 = length d0"
    and size: "length (concat (f0 # f1 # fs)) < 2 ^ 29"
  shows "\<exists>os'. data_query_loop fd [0, of_nat (16 + length d0)] (Some \<lparr>head = []\<rparr>)
      (set_pos fd i 0 os) = Done (Some \<lparr>head = [d0]\<rparr>, os')"
proof -
  let ?L = "length d0" and ?os = "ticked (ticked (ticked (ticked os)))"
  obtain pad pad' where pads: "length pad = 2" "length pad' = 3" and
    f1_eq: "f1 = enc_data_header \<lparr>dh_magic = SEA_BLOCK_DATA_MAGIC_HEADER, dh_disable = 0,
                             dh_pad = pad, dh_length = of_nat (length d1)\<rparr>
           @ d1 @ enc_data_tail \<lparr>dt_length = of_nat (length d1), dt_pad = pad',
                             dt_magic = SEA_BLOCK_DATA_MAGIC_TAIL\<rparr>"
    using f1 by (auto simp: is_frame_def)
  let ?tail = "enc_data_tail \<lparr>dt_length = of_nat (length d1), dt_pad = pad',
                             dt_magic = SEA_BLOCK_DATA_MAGIC_TAIL\<rparr>"
  let ?N = "dh_length (dec_data_header ?tail)"
  have len0: "length f0 = 16 + ?L" and len1: "length f1 = 16 + ?L"
    using length_frame [OF f0] length_frame [OF f1] same by simp_all
  have L: "?L < 2 ^ 28"
    using size len0 len1 by simp
  have first: "data_query_loop fd (0 # offs) (Some \<lparr>head = []\<rparr>) (set_pos fd i 0 os)
      = data_query_loop fd offs (Some \<lparr>head = [d0]\<rparr>) (set_pos fd i (8 + ?L) ?os)" for offs
    using data_query_one [OF rel fs, of 0 d0 fd offs "\<lparr>head = []\<rparr>"] f0 size by simp
  have s1: "sint (of_nat (16 + ?L) :: u64) = int (16 + ?L)"
    using L by (intro sint_of_nat_u64) simp
  have seek: "sys_lseek fd (int (16 + ?L)) SEEK_CUR (set_pos fd i (8 + ?L) ?os)
      = (int (24 + 2 * ?L), set_pos fd i (24 + 2 * ?L) ?os)"
    using sys_lseek_cur_run [of "8 + ?L" "16 + ?L" fd i ?os] L by (simp add: add.commute)
  have "24 + 2 * ?L = length (f0 @ take (8 + ?L) f1)"
    using len0 len1 by simp
  then have read: "take 8 (drop (24 + 2 * ?L) (concat (f0 # f1 # fs))) = ?tail"
    using pads len0 same by (simp add: f1_eq)
  have avail: "min 8 (length (concat (f0 # f1 # fs)) - (24 + 2 * ?L)) = 8"
    using len0 len1 by simp
  have big: "36 * 2 ^ 24 \<le> unat ?N"
    by (rule tail_as_header_length [OF pads(2)])
  have short: "(word_of_int (int (min (unat ?N) m)) :: u32) \<noteq> ?N" if "m < 2 ^ 29" for m
  proof
    assume eq: "(word_of_int (int (min (unat ?N) m)) :: u32) = ?N"
    have "min (unat ?N) m = m" using that big by simp
    with eq have "(of_nat m :: u32) = ?N" by simp
    then have "unat (of_nat m :: u32) = unat ?N" by simp
    with that big show False by (simp add: unat_of_nat)
  qed
  obtain q where q: "snd (sys_lseek fd (sint (of_nat (16 + ?L) + 8 :: u64)) SEEK_SET
      (set_pos fd i (32 + 2 * ?L) (ticked ?os))) = set_pos fd i q (ticked ?os)"
    using sys_lseek_set_run [of "24 + ?L" fd i "32 + 2 * ?L" "ticked ?os"] L
      sint_of_nat_u64 [of "24 + ?L"]
    by auto
  have m: "length (os_inodes os i) - q < 2 ^ 29"
    using size fs by simp
  have "data_query_loop fd [of_nat (16 + ?L)] (Some \<lparr>head = [d0]\<rparr>) (set_pos fd i (8 + ?L) ?os)
      = Done (Some \<lparr>head = [d0]\<rparr>,
          set_pos fd i (q + min (unat ?N) (length (os_inodes os i) - q)) (ticked (ticked (ticked ?os))))"
    using q short [OF m] L
    by (simp add: s1 seek os_run os_norm rel fs read avail split_beta
        del: of_nat_add concat.simps of_nat_min)
  then show ?thesis unfolding first by blast
qed

lemma data_insert_run:
  assumes rel: "reliable os" and fs: "os_inodes os i = concat fs" and k: "k < length fs"
    and old: "is_frame d0 (fs ! k)" and len: "length d = length d0"
    and size: "length (concat fs) < 2 ^ 62"
  shows "sea_block_data_insert_by_offsets \<lparr>sd_fd = fd\<rparr> (offset_rep [of_nat (chunk_off fs k)])
      d (of_nat (length d)) (set_pos fd i p os) =
    Done (0, set_pos fd i (chunk_off fs k + (16 + length d))
      (set_content i (concat (fs[k := data_frame os (of_nat (length d)) d]))
        (ticked (ticked os))))"
proof -
  let ?o = "chunk_off fs k"
  let ?f = "data_frame os (of_nat (length d)) d"
  have small: "length d < 2 ^ 31 - 16"
    using frame_len32 [OF old] len by simp
  have frame: "data_frame (set_pos fd i p os) = data_frame os"
    by (simp add: data_frame_def junk_bytes_def fun_eq_iff)
  have flen: "length ?f = 16 + length d"
    by (rule length_frame [OF data_frame_is_frame [OF small]])
  have same: "length ?f = length (fs ! k)"
    using flen len length_frame [OF old] by simp
  have le: "?o + length ?f \<le> length (concat fs)"
    using chunk_off_le [OF k] same by simp
  have o: "?o < 2 ^ 62" using le size by simp
  have s1: "sint (of_nat ?o :: u64) = int ?o"
    using o by (intro sint_of_nat_u64) simp
  have seek: "sys_lseek fd (int ?o) SEEK_SET (set_pos fd i p os')
      = (int ?o, set_pos fd i ?o os')" for os'
    using sys_lseek_set_run [of ?o fd i p os'] o by simp
  have w: "file_write (concat fs) ?o ?f = concat (fs[k := ?f])"
    using file_write_inside [OF le] put_at_chunk [OF k same] by simp
  have "int (length d) < 2 ^ 31" using small by simp
  then show ?thesis
    using small
    by (simp add: sea_block_data_insert_by_offsets_def frame frame_buf_len_small uint_small_u32
        unat_small_u32 rel os_run os_norm flen offset_get_rep [of 0 "[_]", simplified] s1 seek fs w)
qed

end
