(* ===== verification/SeaBlock.thy ===== *)
theory SeaBlock
  imports SeaIndex SeaData
begin

text \<open>
  \<open>sea_block.c\<close>: a block couples an index file and a data file.  The operations come first;
  \<open>block_open\<close> then says that an open block holds the payloads \<open>ds\<close> with its data
  descriptor at position \<open>q\<close>, and the lemmas give every operation on that abstraction.
\<close>

section \<open>Operations\<close>

record sea_block =
  sb_dir :: string
  sb_block_id :: u64
  sb_data :: "sea_block_data option"
  sb_index :: "sea_block_index option"

definition SEA_BLOCK_MAX_SIZE_DEFAULT :: u64 where
  "SEA_BLOCK_MAX_SIZE_DEFAULT = 128 * 1024 * 1024"

definition SEA_BLOCK_MAX_COUNT_DEFAULT :: u64 where
  "SEA_BLOCK_MAX_COUNT_DEFAULT = 128 * 1024"

definition sea_block_create :: "string \<Rightarrow> u64 \<Rightarrow> u64 \<Rightarrow> u64 \<Rightarrow> os \<Rightarrow> int \<times> os" where
  "sea_block_create dir block_id max_size max_count os =
     (let max_size = (if max_size = 0 then SEA_BLOCK_MAX_SIZE_DEFAULT else max_size);
          max_count = (if max_count = 0 then SEA_BLOCK_MAX_COUNT_DEFAULT else max_count);
          (ret, os1) = sea_block_index_create dir block_id max_count os
      in if ret \<noteq> 0 then (ret, os1) else sea_block_data_create dir block_id max_size os1)"

definition sea_block_destroy :: "string \<Rightarrow> u64 \<Rightarrow> os \<Rightarrow> os" where
  "sea_block_destroy dir block_id os =
     (let (_, os1) = sea_block_data_destroy dir block_id os;
          (_, os2) = sea_block_index_destroy dir block_id os1
      in os2)"

definition sea_block_open :: "string \<Rightarrow> u64 \<Rightarrow> os \<Rightarrow> sea_block option \<times> os" where
  "sea_block_open dir block_id os =
     (let (ok, os1) = c_malloc 32 os
      in if \<not> ok then (None, os1)
         else
           let (ok2, os2) = c_malloc (int (length dir) + 1) os1
           in if \<not> ok2 then (None, os2)
              else
                (case sea_block_data_open dir block_id os2 of
                   (None, os3) \<Rightarrow> (None, os3)
                 | (Some data, os3) \<Rightarrow>
                   (case sea_block_index_open dir block_id os3 of
                      (None, _, os4) \<Rightarrow> (None, os4)
                    | (Some index, _, os4) \<Rightarrow>
                        (Some \<lparr>sb_dir = dir, sb_block_id = block_id, sb_data = Some data,
                               sb_index = Some index\<rparr>, os4))))"

definition sea_block_close :: "sea_block \<Rightarrow> os \<Rightarrow> os" where
  "sea_block_close block os =
     (let os1 = (case sb_data block of None \<Rightarrow> os | d \<Rightarrow> snd (sea_block_data_close d os))
      in case sb_index block of None \<Rightarrow> os1 | Some i \<Rightarrow> sea_block_index_close i os1)"

text \<open>
  Returns the code, the values stored through \<open>record_id\<close> and \<open>over_limit\<close> (\<open>None\<close> when
  nothing is stored) and the block with its index header updated.
\<close>

definition sea_block_append ::
    "sea_block option \<Rightarrow> byte list option \<Rightarrow> int \<Rightarrow> os \<Rightarrow>
      (int \<times> u32 option \<times> int option \<times> sea_block option \<times> os) outcome" where
  "sea_block_append block data len os =
     (case block of
        None \<Rightarrow> Done (EINVAL, None, None, None, os)
      | Some b \<Rightarrow>
        (case (sb_index b, data) of
           (None, _) \<Rightarrow> Done (EINVAL, None, None, block, os)
         | (_, None) \<Rightarrow> Done (EINVAL, None, None, block, os)
         | (Some index, Some buf) \<Rightarrow>
           if len = 0 then Done (EINVAL, None, None, block, os)
           else
             (case sb_data b of
                None \<Rightarrow> Undef
              | Some d \<Rightarrow>
                (case sea_block_data_append d buf (word_of_int len) os of
                   Undef \<Rightarrow> Undef
                 | Done (ret, offset, os1) \<Rightarrow>
                   if ret \<noteq> 0 then Done (ret, None, None, block, os1)
                   else
                     let (ret2, rid, over, index1, os2) = sea_block_index_append index offset os1
                     in Done (ret2, Some rid, Some over, Some (b\<lparr>sb_index := Some index1\<rparr>), os2)))))"

definition sea_block_query_by_count ::
    "sea_block \<Rightarrow> u32 \<Rightarrow> u32 \<Rightarrow> os \<Rightarrow>
      (sea_block_record option \<times> u32 option \<times> os) outcome" where
  "sea_block_query_by_count block current_record_id count os =
     (case (sb_index block, sb_data block) of
        (Some index, Some data) \<Rightarrow>
          (case sea_block_index_query_by_count index current_record_id count os of
             Undef \<Rightarrow> Undef
           | Done (None, rc, os1) \<Rightarrow> Done (None, rc, os1)
           | Done (Some offsets, rc, os1) \<Rightarrow>
             (case sea_block_data_query_by_offsets data offsets os1 of
                Undef \<Rightarrow> Undef
              | Done (rl, os2) \<Rightarrow> Done (rl, rc, os2)))
      | _ \<Rightarrow> Undef)"

definition sea_block_query_by_time ::
    "sea_block \<Rightarrow> u64 \<Rightarrow> u64 \<Rightarrow> u32 \<Rightarrow> u32 \<Rightarrow> u32 \<Rightarrow> os \<Rightarrow>
      (sea_block_record option \<times> u32 \<times> os) outcome" where
  "sea_block_query_by_time block start stop first_record_id count real_count os =
     (case (sb_index block, sb_data block) of
        (Some index, Some data) \<Rightarrow>
          (case sea_block_index_query_by_time index start stop first_record_id count real_count os of
             Undef \<Rightarrow> Undef
           | Done (None, rc, os1) \<Rightarrow> Done (None, rc, os1)
           | Done (Some offsets, rc, os1) \<Rightarrow>
             (case sea_block_data_query_by_offsets data offsets os1 of
                Undef \<Rightarrow> Undef
              | Done (rl, os2) \<Rightarrow> Done (rl, rc, os2)))
      | _ \<Rightarrow> Undef)"

text \<open>
  Returns the code, the value stored through \<open>ret_buf_len\<close>, the destination buffer
  (\<open>None\<close> for a null pointer) and the state.  With no record in the list \<open>data\<close> is null and
  \<open>data_len\<close> is 0: nothing is copied and the call succeeds.
\<close>

definition sea_block_query_by_record_id ::
    "sea_block \<Rightarrow> u32 \<Rightarrow> byte list option \<Rightarrow> int \<Rightarrow> os \<Rightarrow>
      (int \<times> u32 option \<times> byte list option \<times> os) outcome" where
  "sea_block_query_by_record_id block record_id buf buf_len os =
     (case (sb_index block, sb_data block) of
        (Some index, Some data) \<Rightarrow>
          (case sea_block_index_query_by_record_id index record_id os of
             Undef \<Rightarrow> Undef
           | Done (None, os1) \<Rightarrow> Done (EINVAL, None, buf, os1)
           | Done (Some offsets, os1) \<Rightarrow>
             (case sea_block_data_query_by_offsets data offsets os1 of
                Undef \<Rightarrow> Undef
              | Done (None, os2) \<Rightarrow> Done (EINVAL, None, buf, os2)
              | Done (Some rl, os2) \<Rightarrow>
                let (d, data_len) = (case sea_block_record_get_first rl of
                                       None \<Rightarrow> ([], 0)
                                     | Some (d, n) \<Rightarrow> (d, n))
                in if (word_of_int buf_len :: u32) < data_len then Done (ENOENT, None, buf, os2)
                   else if data_len = 0 then Done (0, Some data_len, buf, os2)
                   else
                     (case buf of
                        None \<Rightarrow> Undef
                      | Some mem \<Rightarrow>
                        if length mem < unat data_len then Undef
                        else Done (0, Some data_len,
                               Some (put_at 0 (take (unat data_len) d) mem), os2))))
      | _ \<Rightarrow> Undef)"

definition sea_block_update ::
    "sea_block \<Rightarrow> u32 \<Rightarrow> byte list \<Rightarrow> int \<Rightarrow> os \<Rightarrow> (int \<times> os) outcome" where
  "sea_block_update block record_id data len os =
     (case (sb_index block, sb_data block) of
        (Some index, Some d) \<Rightarrow>
          (case sea_block_index_query_by_record_id index record_id os of
             Undef \<Rightarrow> Undef
           | Done (None, os1) \<Rightarrow> Done (EINVAL, os1)
           | Done (Some offset, os1) \<Rightarrow>
               sea_block_data_insert_by_offsets d offset data (word_of_int len) os1)
      | _ \<Rightarrow> Undef)"

section \<open>What a block holds\<close>

text \<open>
  The files of a block that holds the payloads \<open>ds\<close>: the data file is their frames in
  order, the index maps each id to the start of its frame.
\<close>

definition block_files ::
    "sea_block_index_header \<Rightarrow> sea_block_index_entry list \<Rightarrow> byte list list \<Rightarrow>
      byte list list \<Rightarrow> bool" where
  "block_files h es fs ds \<longleftrightarrow>
     list_all2 is_frame ds fs \<and> length es = length ds \<and> unat (ih_count h) = length es
     \<and> map ie_offset es = map (\<lambda>k. of_nat (chunk_off fs k)) [0..<length fs]"

definition block_at :: "os \<Rightarrow> sea_block \<Rightarrow> nat \<Rightarrow> nat \<Rightarrow> byte list list \<Rightarrow> nat \<Rightarrow> bool" where
  "block_at os b di ii ds q \<longleftrightarrow>
     (\<exists>dfd ix es fs.
        sb_data b = Some \<lparr>sd_fd = dfd\<rparr> \<and> sb_index b = Some ix
        \<and> dfd \<noteq> ix_fd ix \<and> di \<noteq> ii \<and> fd_at os dfd di q \<and> index_wf os ix ii es
        \<and> os_inodes os di = concat fs \<and> block_files (ix_header ix) es fs ds)"

lemma block_atI:
  "sb_data b = Some \<lparr>sd_fd = dfd\<rparr> \<Longrightarrow> sb_index b = Some ix \<Longrightarrow> dfd \<noteq> ix_fd ix \<Longrightarrow> di \<noteq> ii
    \<Longrightarrow> fd_at os dfd di q \<Longrightarrow> index_wf os ix ii es \<Longrightarrow> os_inodes os di = concat fs
    \<Longrightarrow> block_files (ix_header ix) es fs ds \<Longrightarrow> block_at os b di ii ds q"
  unfolding block_at_def by blast

lemma block_atE:
  assumes "block_at os b di ii ds q"
  obtains dfd ix es fs where "sb_data b = Some \<lparr>sd_fd = dfd\<rparr>" "sb_index b = Some ix"
    "dfd \<noteq> ix_fd ix" "di \<noteq> ii" "fd_at os dfd di q" "index_wf os ix ii es"
    "os_inodes os di = concat fs" "block_files (ix_header ix) es fs ds"
  using assms unfolding block_at_def by blast

definition block_open :: "os \<Rightarrow> sea_block \<Rightarrow> byte list list \<Rightarrow> nat \<Rightarrow> bool" where
  "block_open os b ds q \<longleftrightarrow> (\<exists>di ii. block_at os b di ii ds q)"

text \<open>The number of records from which an append reports the block as full.\<close>

definition block_max :: "sea_block \<Rightarrow> nat" where
  "block_max b = (case sb_index b of None \<Rightarrow> 0 | Some ix \<Rightarrow> unat (ih_max_count (ix_header ix)))"

text \<open>
  What an operation on the open block \<open>b\<close> leaves alone: every other descriptor, every
  inode outside \<open>I\<close>, and the bookkeeping.
\<close>

definition block_fds :: "sea_block \<Rightarrow> int set" where
  "block_fds b = (case sb_data b of None \<Rightarrow> {} | Some d \<Rightarrow> {sd_fd d})
     \<union> (case sb_index b of None \<Rightarrow> {} | Some ix \<Rightarrow> {ix_fd ix})"

definition block_frame :: "sea_block \<Rightarrow> nat set \<Rightarrow> os \<Rightarrow> os \<Rightarrow> bool" where
  "block_frame b I os os' \<longleftrightarrow> os_keeps os os'
     \<and> (\<forall>k. k \<notin> block_fds b \<longrightarrow> os_fds os' k = os_fds os k)
     \<and> (\<forall>j. j \<notin> I \<longrightarrow> os_inodes os' j = os_inodes os j)"

text \<open>The size of the data file: 16 bytes of framing per record.\<close>

definition block_bytes :: "byte list list \<Rightarrow> nat" where
  "block_bytes ds = sum_list (map (\<lambda>d. 16 + length d) ds)"

lemma block_bytes_simps [simp]:
  "block_bytes [] = 0" "block_bytes (d # ds) = 16 + length d + block_bytes ds"
  "block_bytes (ds @ ds') = block_bytes ds + block_bytes ds'"
  by (simp_all add: block_bytes_def)

lemma frames_length: "list_all2 is_frame ds fs \<Longrightarrow> length (concat fs) = block_bytes ds"
  by (induction rule: list_all2_induct) (simp_all add: length_frame)

lemma frames_off:
  "list_all2 is_frame ds fs \<Longrightarrow> chunk_off fs k = block_bytes (take k ds)"
  unfolding concat_take_off [symmetric]
  by (rule frames_length) (rule list_all2_takeI)

lemma block_files_entry:
  assumes "block_files h es fs ds" and "k < length ds"
  shows "ie_offset (es ! k) = of_nat (chunk_off fs k)" and "is_frame (ds ! k) (fs ! k)"
    and "k < length fs" and "k < length es"
proof -
  have len: "length fs = length ds" "length es = length ds"
    using assms by (auto simp: block_files_def list_all2_lengthD)
  then have "map ie_offset es ! k = map (\<lambda>k. of_nat (chunk_off fs k)) [0..<length fs] ! k"
    using assms by (simp add: block_files_def)
  then show "ie_offset (es ! k) = of_nat (chunk_off fs k)"
    using assms len by simp
  show "is_frame (ds ! k) (fs ! k)"
    using assms by (auto simp: block_files_def intro: list_all2_nthD)
  show "k < length fs" and "k < length es"
    using assms len by simp_all
qed

lemma block_files_snoc:
  assumes "block_files h es fs ds" and "is_frame d f"
    and "ie_offset e = of_nat (length (concat fs))" and "unat (ih_count h') = Suc (length es)"
  shows "block_files h' (es @ [e]) (fs @ [f]) (ds @ [d])"
proof -
  have len: "length fs = length ds"
    using assms by (auto simp: block_files_def list_all2_lengthD)
  have "map (\<lambda>k. of_nat (chunk_off (fs @ [f]) k) :: u64) [0..<length fs]
      = map (\<lambda>k. of_nat (chunk_off fs k)) [0..<length fs]"
    by (intro map_cong) (simp_all add: chunk_off_append)
  moreover have "chunk_off (fs @ [f]) (length fs) = length (concat fs)"
    by (simp add: chunk_off_append chunk_off_all del: length_concat)
  ultimately show ?thesis
    using assms len by (simp add: block_files_def list_all2_appendI)
qed

text \<open>Appending: the payload is the new last record, its id the old number of records.\<close>

lemma block_append_ok:
  assumes rel: "reliable os" and b: "block_at os b di ii ds q"
    and d: "d \<noteq> []" "length d < 2 ^ 31 - 16"
    and room: "Suc (length ds) < 2 ^ 32" and size: "block_bytes ds < 2 ^ 62"
  shows "\<exists>b' os'. sea_block_append (Some b) (Some d) (int (length d)) os =
      Done (0, Some (of_nat (length ds)), Some (if block_max b \<le> Suc (length ds) then 1 else 0),
        Some b', os')
    \<and> block_at os' b' di ii (ds @ [d]) (block_bytes (ds @ [d])) \<and> block_frame b {di, ii} os os'
    \<and> block_max b' = block_max b \<and> block_fds b' = block_fds b"
proof -
  obtain dfd ix es fs where
    bd: "sb_data b = Some \<lparr>sd_fd = dfd\<rparr>" and bi: "sb_index b = Some ix"
    and ne: "dfd \<noteq> ix_fd ix" "di \<noteq> ii" and at: "fd_at os dfd di q" and wf: "index_wf os ix ii es"
    and dc: "os_inodes os di = concat fs" and bf: "block_files (ix_header ix) es fs ds"
    by (rule block_atE [OF b])
  have fl: "length (concat fs) = block_bytes ds"
    using bf by (auto simp: block_files_def intro: frames_length)
  have el: "length es = length ds"
    using bf by (auto simp: block_files_def)
  have osd: "set_pos dfd di q os = os" by (rule set_pos_same [OF at])
  let ?f = "data_frame os (of_nat (length d)) d"
  define os1 where "os1 = set_pos dfd di (block_bytes ds + (16 + length d))
      (set_content di (concat (fs @ [?f])) (ticked (ticked os)))"
  have data: "sea_block_data_append \<lparr>sd_fd = dfd\<rparr> d (of_nat (length d)) os
      = Done (0, of_nat (block_bytes ds), os1)"
    using data_append_run [OF rel d(2), of di dfd q] dc fl size osd
    by (simp add: os1_def del: length_concat)
  have rel1: "reliable os1"
    using rel by (simp add: os1_def)
  have wf1: "index_wf os1 ix ii es"
    using wf ne by (auto simp: index_wf_def os1_def)
  let ?e = "\<lparr>ie_timestamp = fst (get_current_mills os1), ie_offset = of_nat (block_bytes ds)\<rparr>"
  obtain ix2 os2 where
    ia: "sea_block_index_append ix (of_nat (block_bytes ds)) os1
          = (0, of_nat (length es),
             (if unat (ih_max_count (ix_header ix)) \<le> Suc (length es) then 1 else 0), ix2, os2)"
    and wf2: "index_wf os2 ix2 ii (es @ [?e])" and fr: "os_frame (ix_fd ix) ii os1 os2"
    and ixfd: "ix_fd ix2 = ix_fd ix"
    and mx: "ih_max_count (ix_header ix2) = ih_max_count (ix_header ix)"
    using index_append_ok [OF rel1 wf1, of "of_nat (block_bytes ds)"] room el by auto
  have bf2: "block_files (ix_header ix2) (es @ [?e]) (fs @ [?f]) (ds @ [d])"
    using wf2 fl by (intro block_files_snoc [OF bf] data_frame_is_frame d(2))
      (auto simp: index_wf_def)
  have at2: "fd_at os2 dfd di (block_bytes (ds @ [d]))"
    using os_frame_fd_at [OF fr ne(1), of di] by (simp add: os1_def)
  have c2: "os_inodes os2 di = concat (fs @ [?f])"
    using os_frame_inode [OF fr ne(2)] by (simp add: os1_def)
  have open2: "block_at os2 (b\<lparr>sb_index := Some ix2\<rparr>) di ii (ds @ [d]) (block_bytes (ds @ [d]))"
    by (rule block_atI [OF _ _ _ ne(2) at2 wf2 c2 bf2]) (simp_all add: bd ixfd ne)
  obtain p where pat: "fd_at os (ix_fd ix) ii p" using wf by (auto simp: index_wf_def)
  obtain p2 where pat2: "fd_at os2 (ix_fd ix) ii p2" using wf2 ixfd by (auto simp: index_wf_def)
  have "os_keeps os os1"
    unfolding os1_def by (rule os_keeps_set_pos [OF at]) simp
  moreover have "fd_at os1 (ix_fd ix) ii p"
    using pat ne by (simp add: os1_def)
  ultimately have keeps: "os_keeps os os2"
    using os_frame_keeps [OF fr _ pat2] os_keeps_trans by blast
  have frame: "block_frame b {di, ii} os os2"
    using keeps fr unfolding block_frame_def by (auto simp: block_fds_def bd bi os_frame_def os1_def)
  show ?thesis
    using d(1) bd bi data ia el open2 frame mx ixfd
    by (simp add: sea_block_append_def block_max_def block_fds_def)
qed

text \<open>
  The reading half of a query: \<open>sea_block_index_query_by_record_id\<close> finds the offset and
  leaves the data file alone.
\<close>

lemma block_index_lookup:
  assumes rel: "reliable os" and wf: "index_wf os ix ii es" and r: "unat r < length es"
  shows "\<exists>os'. sea_block_index_query_by_record_id ix r os =
      Done (Some (offset_rep [ie_offset (es ! unat r)]), os')
    \<and> os_frame (ix_fd ix) ii os os' \<and> os_inodes os' = os_inodes os \<and> index_wf os' ix ii es
    \<and> os_keeps os os'"
proof -
  obtain p where at: "fd_at os (ix_fd ix) ii p"
    and c: "os_inodes os ii = index_file (ix_header ix) es"
    and cnt: "unat (ih_count (ix_header ix)) = length es"
    using wf by (auto simp: index_wf_def)
  note run = index_query_by_record_id_run [OF rel c cnt r, of p, unfolded set_pos_same [OF at]]
  show ?thesis
    unfolding run using c cnt by (auto simp: index_wf_def intro: os_keeps_set_pos [OF at])
qed

text \<open>
  A query on a descriptor still at the start of the data file returns the record; its
  first bytes of the caller's buffer are the payload.
\<close>

lemma block_query_fresh:
  assumes rel: "reliable os" and b: "block_at os b di ii ds 0" and r: "unat r < length ds"
    and size: "block_bytes ds < 2 ^ 62"
    and fits: "length (ds ! unat r) \<le> unat (word_of_int buf_len :: u32)"
    and mem: "length (ds ! unat r) \<le> length mem"
  shows "\<exists>os'. sea_block_query_by_record_id b r (Some mem) buf_len os =
      Done (0, Some (of_nat (length (ds ! unat r))), Some (put_at 0 (ds ! unat r) mem), os')
    \<and> block_at os' b di ii ds (block_bytes (take (unat r) ds) + 8 + length (ds ! unat r))
    \<and> block_frame b {} os os'"
proof -
  let ?d = "ds ! unat r"
  obtain dfd ix es fs where
    bd: "sb_data b = Some \<lparr>sd_fd = dfd\<rparr>" and bi: "sb_index b = Some ix"
    and ne: "dfd \<noteq> ix_fd ix" "di \<noteq> ii" and at: "fd_at os dfd di 0" and wf: "index_wf os ix ii es"
    and dc: "os_inodes os di = concat fs" and bf: "block_files (ix_header ix) es fs ds"
    by (rule block_atE [OF b])
  note entry = block_files_entry [OF bf r]
  have fl: "length (concat fs) = block_bytes ds"
    using bf by (auto simp: block_files_def intro: frames_length)
  have off: "chunk_off fs (unat r) = block_bytes (take (unat r) ds)"
    using bf by (auto simp: block_files_def intro: frames_off)
  have small: "length ?d < 2 ^ 31 - 16"
    by (rule frame_len32 [OF entry(2)])
  obtain os1 where
    look: "sea_block_index_query_by_record_id ix r os
        = Done (Some (offset_rep [of_nat (chunk_off fs (unat r))]), os1)"
    and fr: "os_frame (ix_fd ix) ii os os1" and in1: "os_inodes os1 = os_inodes os"
    and wf1: "index_wf os1 ix ii es" and k1: "os_keeps os os1"
    using block_index_lookup [OF rel wf entry(4)] entry(1) by auto
  have rel1: "reliable os1" using os_frame_reliable [OF fr] rel by simp
  have at1: "fd_at os1 dfd di 0" using os_frame_fd_at [OF fr ne(1)] at by simp
  let ?os1 = "ticked os1"
  define os2 where "os2 = set_pos dfd di (chunk_off fs (unat r) + 8 + length ?d)
     (ticked (ticked (ticked (ticked ?os1))))"
  have same: "set_pos dfd di 0 ?os1 = ?os1"
    by (rule set_pos_same) (simp add: at1)
  have q: "sea_block_data_query_by_offsets \<lparr>sd_fd = dfd\<rparr>
      (offset_rep [of_nat (chunk_off fs (unat r))]) os1 = Done (Some \<lparr>head = [?d]\<rparr>, os2)"
    using data_query_one [of ?os1 di fs "unat r" ?d dfd "[]" "\<lparr>head = []\<rparr>"]
      rel1 in1 dc entry size fl
    by (simp add: sea_block_data_query_by_offsets_def sea_block_offset_count_def same os2_def
        del: length_concat)
  have "block_at os2 b di ii ds (block_bytes (take (unat r) ds) + 8 + length ?d)"
  proof (rule block_atI [OF bd bi ne _ _ _ bf])
    show "fd_at os2 dfd di (block_bytes (take (unat r) ds) + 8 + length ?d)"
      by (simp add: os2_def off)
    show "index_wf os2 ix ii es"
      using wf1 ne by (auto simp: index_wf_def os2_def)
    show "os_inodes os2 di = concat fs"
      by (simp add: os2_def in1 dc)
  qed
  moreover have "os_keeps os os2"
    unfolding os2_def by (rule os_keeps_set_pos [OF at]) (simp add: k1)
  then have "block_frame b {} os os2"
    using fr in1 unfolding block_frame_def by (auto simp: block_fds_def bd bi os_frame_def os2_def)
  moreover have "(of_nat (length ?d) :: u32) = 0 \<longleftrightarrow> ?d = []"
    using small by (simp add: word_unat_eq_iff unat_of_nat)
  then have "sea_block_query_by_record_id b r (Some mem) buf_len os =
      Done (0, Some (of_nat (length ?d)), Some (put_at 0 ?d mem), os2)"
    using fits mem small
    by (simp add: sea_block_query_by_record_id_def bd bi look q sea_block_record_get_first_def
        word_less_nat_alt unat_small_u32)
      (auto simp: put_at_def)
  ultimately show ?thesis by blast
qed

text \<open>
  On a descriptor that stands at the end of the data file, as it does after every append,
  the relative seek runs past the end: the query reports success and no data.
\<close>

lemma block_query_at_end:
  assumes rel: "reliable os" and b: "block_at os b di ii ds (block_bytes ds)"
    and r: "unat r < length ds" and size: "block_bytes ds < 2 ^ 62"
  shows "\<exists>os'. sea_block_query_by_record_id b r buf buf_len os = Done (0, Some 0, buf, os')"
proof -
  obtain dfd ix es fs where
    bd: "sb_data b = Some \<lparr>sd_fd = dfd\<rparr>" and bi: "sb_index b = Some ix"
    and ne: "dfd \<noteq> ix_fd ix" "di \<noteq> ii" and at: "fd_at os dfd di (block_bytes ds)"
    and wf: "index_wf os ix ii es"
    and dc: "os_inodes os di = concat fs" and bf: "block_files (ix_header ix) es fs ds"
    by (rule block_atE [OF b])
  note entry = block_files_entry [OF bf r]
  have fl: "length (concat fs) = block_bytes ds"
    using bf by (auto simp: block_files_def intro: frames_length)
  let ?o = "chunk_off fs (unat r)"
  have o: "?o < 2 ^ 62"
    using chunk_off_le [OF entry(3)] fl size by simp
  obtain os1 where
    look: "sea_block_index_query_by_record_id ix r os = Done (Some (offset_rep [of_nat ?o]), os1)"
    and fr: "os_frame (ix_fd ix) ii os os1" and in1: "os_inodes os1 = os_inodes os"
    using block_index_lookup [OF rel wf entry(4)] entry(1) by auto
  have rel1: "reliable (ticked os1)" using os_frame_reliable [OF fr] rel by simp
  have at1: "fd_at (ticked os1) dfd di (block_bytes ds)"
    using os_frame_fd_at [OF fr ne(1)] at by simp
  have past: "length (os_inodes (ticked os1) di) \<le> block_bytes ds + unat (of_nat ?o :: u64)"
    using in1 dc fl by (simp del: length_concat)
  have uo: "unat (of_nat ?o :: u64) < 2 ^ 62"
    using o by (simp add: unat_of_nat)
  have "\<exists>os'. sea_block_data_query_by_offsets \<lparr>sd_fd = dfd\<rparr> (offset_rep [of_nat ?o]) os1
      = Done (Some \<lparr>head = []\<rparr>, os')"
    using data_query_past_end [OF rel1 uo size past, of dfd "[]" "Some \<lparr>head = []\<rparr>",
        unfolded set_pos_same [OF at1]] rel1
    by (simp add: sea_block_data_query_by_offsets_def sea_block_offset_count_def
        del: data_query_loop.simps)
  then show ?thesis
    by (auto simp: sea_block_query_by_record_id_def bd bi look sea_block_record_get_first_def)
qed

text \<open>An id that was never handed out is an error.\<close>

lemma block_query_missing:
  assumes b: "block_at os b di ii ds q" and r: "length ds \<le> unat r"
  shows "sea_block_query_by_record_id b r buf buf_len os
    = Done (EINVAL, None, buf, os\<lparr>os_errno := C_EOF\<rparr>)"
proof -
  obtain dfd ix es fs where
    bd: "sb_data b = Some \<lparr>sd_fd = dfd\<rparr>" and bi: "sb_index b = Some ix"
    and bf: "block_files (ix_header ix) es fs ds"
    by (rule block_atE [OF b])
  have "unat (ih_count (ix_header ix)) \<le> unat r"
    using bf r by (auto simp: block_files_def)
  then show ?thesis
    by (simp add: sea_block_query_by_record_id_def bd bi index_query_by_record_id_end)
qed

text \<open>
  Overwriting a record with a payload of the same length replaces exactly that record.
\<close>

lemma block_files_update:
  assumes bf: "block_files h es fs ds" and k: "k < length ds"
    and f: "is_frame d f" and len: "length d = length (ds ! k)"
  shows "block_files h es (fs[k := f]) (ds[k := d])"
proof -
  have "length f = length (fs ! k)"
    using length_frame [OF f] length_frame [OF block_files_entry(2) [OF bf k]] len by simp
  then have "chunk_off (fs[k := f]) j = chunk_off fs j" for j
    by (rule chunk_off_update)
  then show ?thesis
    using bf f by (simp add: block_files_def list_all2_update_cong)
qed

lemma block_update_same_length:
  assumes rel: "reliable os" and b: "block_at os b di ii ds q" and r: "unat r < length ds"
    and len: "length d = length (ds ! unat r)" and size: "block_bytes ds < 2 ^ 62"
  shows "\<exists>os' q'. sea_block_update b r d (int (length d)) os = Done (0, os')
    \<and> block_at os' b di ii (ds[unat r := d]) q' \<and> os_keeps os os'"
proof -
  obtain dfd ix es fs where
    bd: "sb_data b = Some \<lparr>sd_fd = dfd\<rparr>" and bi: "sb_index b = Some ix"
    and ne: "dfd \<noteq> ix_fd ix" "di \<noteq> ii" and at: "fd_at os dfd di q" and wf: "index_wf os ix ii es"
    and dc: "os_inodes os di = concat fs" and bf: "block_files (ix_header ix) es fs ds"
    by (rule block_atE [OF b])
  note entry = block_files_entry [OF bf r]
  have fl: "length (concat fs) = block_bytes ds"
    using bf by (auto simp: block_files_def intro: frames_length)
  have small: "length d < 2 ^ 31 - 16"
    using frame_len32 [OF entry(2)] len by simp
  obtain os1 where
    look: "sea_block_index_query_by_record_id ix r os
        = Done (Some (offset_rep [of_nat (chunk_off fs (unat r))]), os1)"
    and fr: "os_frame (ix_fd ix) ii os os1" and in1: "os_inodes os1 = os_inodes os"
    and wf1: "index_wf os1 ix ii es" and k1: "os_keeps os os1"
    using block_index_lookup [OF rel wf entry(4)] entry(1) by auto
  have rel1: "reliable os1" using os_frame_reliable [OF fr] rel by simp
  have at1: "fd_at os1 dfd di q" using os_frame_fd_at [OF fr ne(1)] at by simp
  let ?f = "data_frame os1 (of_nat (length d)) d"
  define os2 where "os2 = set_pos dfd di (chunk_off fs (unat r) + (16 + length d))
     (set_content di (concat (fs[unat r := ?f])) (ticked (ticked os1)))"
  have c1: "os_inodes os1 di = concat fs" by (simp add: in1 dc)
  have sz: "length (concat fs) < 2 ^ 62" using fl size by simp
  have ins: "sea_block_data_insert_by_offsets \<lparr>sd_fd = dfd\<rparr>
      (offset_rep [of_nat (chunk_off fs (unat r))]) d (of_nat (length d)) os1 = Done (0, os2)"
    using data_insert_run [OF rel1 c1 entry(3,2) len sz, of dfd q, unfolded set_pos_same [OF at1]]
    by (simp add: os2_def)
  have "block_at os2 b di ii (ds[unat r := d]) (chunk_off fs (unat r) + (16 + length d))"
  proof (rule block_atI [OF bd bi ne])
    show "block_files (ix_header ix) es (fs[unat r := ?f]) (ds[unat r := d])"
      by (rule block_files_update [OF bf r data_frame_is_frame [OF small] len])
    show "index_wf os2 ix ii es"
      using wf1 ne by (auto simp: index_wf_def os2_def)
  qed (simp_all add: os2_def)
  moreover have "os_keeps os os2"
    unfolding os2_def by (rule os_keeps_set_pos [OF at]) (simp add: k1)
  moreover have "sea_block_update b r d (int (length d)) os = Done (0, os2)"
    by (simp add: sea_block_update_def bd bi look ins)
  ultimately show ?thesis by blast
qed

section \<open>Blocks on disk: creating and opening\<close>

definition block_on_disk :: "os \<Rightarrow> string \<Rightarrow> u64 \<Rightarrow> nat \<Rightarrow> nat \<Rightarrow> byte list list \<Rightarrow> bool" where
  "block_on_disk os dir bid di ii ds \<longleftrightarrow>
     os_names os (sea_block_data_filename dir bid PATH_MAX) = Some di
     \<and> os_names os (sea_block_index_filename dir bid PATH_MAX) = Some ii \<and> di \<noteq> ii
     \<and> (\<exists>h es fs. os_inodes os di = concat fs \<and> os_inodes os ii = index_file h es
           \<and> block_files h es fs ds)"

definition disk_max :: "os \<Rightarrow> nat \<Rightarrow> nat" where
  "disk_max os ii = unat (ih_max_count (dec_index_header (os_inodes os ii)))"

text \<open>What is open is what is on disk, as long as the names lead to the open inodes.\<close>

lemma block_at_on_disk:
  "block_at os b di ii ds q \<Longrightarrow>
    os_names os (sea_block_data_filename dir bid PATH_MAX) = Some di \<Longrightarrow>
    os_names os (sea_block_index_filename dir bid PATH_MAX) = Some ii \<Longrightarrow>
    block_on_disk os dir bid di ii ds"
  unfolding block_at_def block_on_disk_def index_wf_def by blast

text \<open>Opening a block that is on disk: the data descriptor stands at 0.\<close>

lemma block_open_ok:
  assumes rel: "reliable os" and wf: "os_wf os" and disk: "block_on_disk os dir bid di ii ds"
  shows "\<exists>b os'. sea_block_open dir bid os = (Some b, os')
    \<and> block_at os' b di ii ds 0 \<and> reliable os' \<and> os_wf os'
    \<and> os_names os' = os_names os \<and> os_inodes os' = os_inodes os \<and> os_dirs os' = os_dirs os
    \<and> block_max b = disk_max os ii \<and> block_fds b \<subseteq> {os_next_fd os..}
    \<and> (\<forall>k < os_next_fd os. os_fds os' k = os_fds os k) \<and> os_next_fd os \<le> os_next_fd os'
    \<and> os_next_ino os' = os_next_ino os \<and> os_junk os' = os_junk os"
proof -
  obtain h es fs where dn: "os_names os (sea_block_data_filename dir bid PATH_MAX) = Some di"
    and iname: "os_names os (sea_block_index_filename dir bid PATH_MAX) = Some ii"
    and ne: "di \<noteq> ii" and dc: "os_inodes os di = concat fs"
    and ic: "os_inodes os ii = index_file h es" and bf: "block_files h es fs ds"
    using disk by (auto simp: block_on_disk_def)
  let ?fd = "os_next_fd os"
  define os1 where "os1 = set_pos ?fd di 0 (ticked (ticked (ticked (ticked os)))\<lparr>os_next_fd := ?fd + 1\<rparr>)"
  have pos: "0 < ?fd" and ino: "di < os_next_ino os" "ii < os_next_ino os"
    using wf dn iname by (auto simp: os_wf_def)
  have tick: "ticked (set_pos f i p (o'\<lparr>os_next_fd := n\<rparr>)) = set_pos f i p ((ticked o')\<lparr>os_next_fd := n\<rparr>)"
    for f i p o' n by (simp add: ticked_def set_pos_def)
  have d: "sea_block_data_open dir bid (ticked (ticked os)) = (Some \<lparr>sd_fd = ?fd\<rparr>, os1)"
    using rel pos by (simp add: sea_block_data_open_def sys_open_def dn open_inode_run os1_def tick)
  have rel1: "reliable os1" and in1: "os_inodes os1 = os_inodes os"
    and nm1: "os_names os1 = os_names os" and fd1: "os_next_fd os1 = ?fd + 1"
    and wf1: "os_wf os1"
    using rel wf ino os_wf_opened [of "ticked (ticked (ticked (ticked os)))" di 0]
    by (simp_all add: os1_def)
  obtain os2 where
    ix: "sea_block_index_open dir bid os1
      = (Some \<lparr>ix_fd = ?fd + 1, ix_header = h\<rparr>, 0, set_pos (?fd + 1) ii 40 os2)"
    and iw: "index_wf (set_pos (?fd + 1) ii 40 os2) \<lparr>ix_fd = ?fd + 1, ix_header = h\<rparr> ii es"
    and fr: "os_frame (?fd + 1) ii (os1\<lparr>os_next_fd := ?fd + 1 + 1\<rparr>) os2"
    and in2: "os_inodes os2 = os_inodes os1"
    using index_open_ok [OF rel1 wf1, of dir bid ii h es] iname ic bf
    by (auto simp: nm1 in1 fd1 block_files_def)
  let ?os3 = "set_pos (?fd + 1) ii 40 os2"
  let ?b = "\<lparr>sb_dir = dir, sb_block_id = bid, sb_data = Some \<lparr>sd_fd = ?fd\<rparr>,
      sb_index = Some \<lparr>ix_fd = ?fd + 1, ix_header = h\<rparr>\<rparr>"
  have at: "fd_at ?os3 ?fd di 0"
    using os_frame_fd_at [OF fr, of ?fd di 0] by (simp add: os1_def)
  have "block_at ?os3 ?b di ii ds 0"
    by (rule block_atI [OF _ _ _ ne at iw]) (simp_all add: in2 in1 dc, rule bf)
  moreover have "os_wf ?os3"
    using wf1 fr ino(2) unfolding os_wf_def os_frame_def by (auto simp: os1_def fd1)
  moreover have "reliable ?os3"
    using fr rel1 by (simp add: os_frame_reliable)
  moreover have "os_names ?os3 = os_names os"
    using fr nm1 by (simp add: os_frame_def)
  moreover have "os_dirs ?os3 = os_dirs os"
    using fr by (simp add: os_frame_def os1_def)
  moreover have "\<forall>k < ?fd. os_fds ?os3 k = os_fds os k" and "?fd \<le> os_next_fd ?os3"
    and "os_next_ino ?os3 = os_next_ino os" and "os_junk ?os3 = os_junk os"
    using fr fd1 by (auto simp: os_frame_def os1_def)
  moreover have "block_fds ?b = {?fd, ?fd + 1}"
    by (auto simp: block_fds_def)
  ultimately show ?thesis
    using rel d ix
    by (intro exI [of _ ?b] exI [of _ ?os3])
      (auto simp: sea_block_open_def in2 in1 block_max_def disk_max_def ic index_file_def)
qed

text \<open>A block whose data file is absent does not open.\<close>

lemma block_open_missing:
  assumes "reliable os" and "os_names os (sea_block_data_filename dir bid PATH_MAX) = None"
  shows "sea_block_open dir bid os = (None, (ticked (ticked (ticked os)))\<lparr>os_errno := ENOENT\<rparr>)"
  using assms by (simp add: sea_block_open_def sea_block_data_open_def sys_open_def)

text \<open>Closing an open block frees its two descriptors and touches nothing else.\<close>

lemma block_close_run:
  assumes "block_at os b di ii ds q" and "block_fds b \<subseteq> {0<..}"
  shows "sea_block_close b os = os\<lparr>os_fds := (\<lambda>k. if k \<in> block_fds b then None else os_fds os k)\<rparr>"
proof -
  obtain dfd ix es fs p where
    bd: "sb_data b = Some \<lparr>sd_fd = dfd\<rparr>" and bi: "sb_index b = Some ix"
    and ne: "dfd \<noteq> ix_fd ix" and at: "fd_at os dfd di q" "fd_at os (ix_fd ix) ii p"
    using assms(1) by (elim block_atE) (auto simp: index_wf_def)
  have "0 < dfd"
    using assms(2) by (simp add: block_fds_def bd bi)
  then show ?thesis
    using at ne
    by (auto simp: sea_block_close_def bd bi sea_block_data_close_def sea_block_index_close_def
        sys_close_def fd_at_def block_fds_def Let_def intro!: os.equality ext split: if_splits)
qed

text \<open>Creating a block in an existing directory leaves an empty block on disk.\<close>

definition sub_dir :: "string \<Rightarrow> u64 \<Rightarrow> string" where
  "sub_dir dir bid = dir @ ''/'' @ dec_str (unat bid)"

lemma slash_free [simp]:
  "CHR ''/'' \<notin> set (dec_str n)" "dec_str n \<noteq> ''index''" "''index'' \<noteq> dec_str n"
proof -
  have i: "CHR ''i'' \<notin> set (dec_str n)" and s: "CHR ''/'' \<notin> set (dec_str n)"
    using dec_str_chars by blast+
  show "CHR ''/'' \<notin> set (dec_str n)" by (rule s)
  show "dec_str n \<noteq> ''index''" "''index'' \<noteq> dec_str n"
    using i by (metis list.set_intros(1))+
qed

lemma block_filenames:
  assumes "length dir + 48 < PATH_MAX"
  shows "sea_block_data_filename dir bid PATH_MAX = sub_dir dir bid @ ''/'' @ dec_str (unat bid)"
    and "sea_block_index_filename dir bid PATH_MAX = sub_dir dir bid @ ''/'' @ ''index''"
    and "snprintf_str PATH_MAX (dir @ CHR ''/'' # dec_str (unat bid)) = sub_dir dir bid"
  using assms length_dec_str_u64 [of bid]
  by (simp_all add: sea_block_data_filename_def sea_block_index_filename_def snprintf_str_def
      sub_dir_def)

lemma sub_dir_inject [simp]: "sub_dir dir b = sub_dir dir b' \<longleftrightarrow> b = b'"
  by (simp add: sub_dir_def word_unat_eq_iff)

lemma block_filenames_differ:
  assumes "length dir + 48 < PATH_MAX" and "b \<noteq> b'"
  shows "sea_block_data_filename dir b PATH_MAX \<noteq> sea_block_data_filename dir b' PATH_MAX"
    and "sea_block_data_filename dir b PATH_MAX \<noteq> sea_block_index_filename dir b' PATH_MAX"
    and "sea_block_index_filename dir b PATH_MAX \<noteq> sea_block_data_filename dir b' PATH_MAX"
    and "sea_block_index_filename dir b PATH_MAX \<noteq> sea_block_index_filename dir b' PATH_MAX"
proof -
  have par: "parent_path (sea_block_data_filename dir c PATH_MAX) = sub_dir dir c"
    "parent_path (sea_block_index_filename dir c PATH_MAX) = sub_dir dir c" for c
    using parent_path_append [of "dec_str (unat c)" "sub_dir dir c"]
      parent_path_append [of "''index''" "sub_dir dir c"]
    by (simp_all add: block_filenames [OF assms(1)])
  show "sea_block_data_filename dir b PATH_MAX \<noteq> sea_block_data_filename dir b' PATH_MAX"
    "sea_block_data_filename dir b PATH_MAX \<noteq> sea_block_index_filename dir b' PATH_MAX"
    "sea_block_index_filename dir b PATH_MAX \<noteq> sea_block_data_filename dir b' PATH_MAX"
    "sea_block_index_filename dir b PATH_MAX \<noteq> sea_block_index_filename dir b' PATH_MAX"
    using par [of b] par [of b'] assms(2) by (metis sub_dir_inject)+
qed

lemma sub_dir_ne [simp]:
  "sub_dir dir bid @ CHR ''/'' # x \<noteq> sub_dir dir bid" "sub_dir dir bid \<noteq> sub_dir dir bid @ CHR ''/'' # x"
  by auto

lemma block_data_create_run:
  assumes rel: "reliable os" and wf: "os_wf os" and dir: "length dir + 48 < PATH_MAX"
    and sub: "sub_dir dir bid \<in> os_dirs os"
    and new: "os_names os (sea_block_data_filename dir bid PATH_MAX) = None"
  shows "\<exists>os'. sea_block_data_create dir bid max_size os = (0, os') \<and> reliable os' \<and> os_wf os'
    \<and> os_names os' = (os_names os)(sea_block_data_filename dir bid PATH_MAX \<mapsto> os_next_ino os)
    \<and> os_inodes os' = (os_inodes os)(os_next_ino os := []) \<and> os_dirs os' = os_dirs os
    \<and> os_junk os' = os_junk os \<and> (\<forall>k. os_fds os k \<noteq> None \<longrightarrow> os_fds os' k = os_fds os k)"
proof -
  have par: "parent_path (sea_block_data_filename dir bid PATH_MAX) \<in> os_dirs os"
    using sub parent_path_append [of "dec_str (unat bid)" "sub_dir dir bid"]
    by (simp add: block_filenames [OF dir])
  have "os_next_fd os \<noteq> - 1"
    using wf by (simp add: os_wf_def)
  then show ?thesis
    using rel wf
    by (simp add: sea_block_data_create_def sys_open_new [OF rel new par])
      (auto simp: os_wf_def less_Suc_eq)
qed

text \<open>Creating the index: one header, no entry, count 0.\<close>

lemma block_index_create_run:
  assumes rel: "reliable os" and wf: "os_wf os" and dir: "length dir + 48 < PATH_MAX"
    and par: "parent_path (sub_dir dir bid) \<in> os_dirs os"
    and sub: "sub_dir dir bid \<notin> os_dirs os" "os_names os (sub_dir dir bid) = None"
    and new: "os_names os (sea_block_index_filename dir bid PATH_MAX) = None"
  shows "\<exists>h os'. sea_block_index_create dir bid max_count os = (0, os') \<and> reliable os' \<and> os_wf os'
    \<and> os_names os' = (os_names os)(sea_block_index_filename dir bid PATH_MAX \<mapsto> os_next_ino os)
    \<and> os_inodes os' = (os_inodes os)(os_next_ino os := index_file h [])
    \<and> os_dirs os' = insert (sub_dir dir bid) (os_dirs os) \<and> os_next_ino os' = Suc (os_next_ino os)
    \<and> ih_count h = 0 \<and> ih_max_count h = max_count \<and> ih_block_id h = bid \<and> os_junk os' = os_junk os
    \<and> (\<forall>k. os_fds os k \<noteq> None \<longrightarrow> os_fds os' k = os_fds os k)"
proof -
  have mk: "make_sub_dir dir bid os = (0, (ticked os)\<lparr>os_dirs := insert (sub_dir dir bid) (os_dirs os)\<rparr>)"
    using rel par sub by (simp add: make_sub_dir_def sys_mkdir_def block_filenames [OF dir])
  define os1 where "os1 = (ticked os)\<lparr>os_dirs := insert (sub_dir dir bid) (os_dirs os)\<rparr>"
  have rel1: "reliable os1" and wf1: "os_wf os1" and nm: "os_names os1 = os_names os"
    and ino: "os_inodes os1 = os_inodes os" "os_next_ino os1 = os_next_ino os"
    and fd1: "os_fds os1 = os_fds os" and jk: "os_junk os1 = os_junk os" and dirs: "os_dirs os1 = insert (sub_dir dir bid) (os_dirs os)"
    using rel wf by (simp_all add: os1_def os_wf_def)
  have par1: "parent_path (sea_block_index_filename dir bid PATH_MAX) \<in> os_dirs os1"
    using parent_path_append [of "''index''" "sub_dir dir bid"]
    by (simp add: block_filenames [OF dir] os1_def)
  have new1: "os_names os1 (sea_block_index_filename dir bid PATH_MAX) = None"
    using new by (simp add: nm)
  have pos: "os_next_fd os1 \<noteq> - 1"
    using wf1 by (simp add: os_wf_def)
  have idx: "index_file h [] = enc_index_header h" for h
    by (simp add: index_file_def)
  show ?thesis
    using rel1 pos wf1
    by (simp add: sea_block_index_create_def mk os1_def [symmetric]
        sys_open_new [OF rel1 new1 par1] os_run os_norm idx nm ino dirs)
      (auto simp: os_wf_def fd1 nm ino jk file_write_def put_at_def less_Suc_eq intro!: exI conjI refl)
qed

definition block_fresh :: "os \<Rightarrow> string \<Rightarrow> u64 \<Rightarrow> bool" where
  "block_fresh os dir bid \<longleftrightarrow>
     dir \<in> os_dirs os \<and> sub_dir dir bid \<notin> os_dirs os \<and> os_names os (sub_dir dir bid) = None
     \<and> os_names os (sea_block_index_filename dir bid PATH_MAX) = None
     \<and> os_names os (sea_block_data_filename dir bid PATH_MAX) = None"

lemma parent_sub_dir [simp]: "parent_path (sub_dir dir bid) = dir"
  using parent_path_append [of "dec_str (unat bid)" dir] by (simp add: sub_dir_def)

text \<open>A block created under an existing directory: ready on disk, with no record.\<close>

lemma block_create_ok:
  assumes rel: "reliable os" and wf: "os_wf os" and dir: "length dir + 48 < PATH_MAX"
    and fresh: "block_fresh os dir bid"
  shows "\<exists>os' di ii. sea_block_create dir bid max_size max_count os = (0, os')
    \<and> block_on_disk os' dir bid di ii [] \<and> reliable os' \<and> os_wf os'
    \<and> os_names os' = (os_names os)(sea_block_index_filename dir bid PATH_MAX \<mapsto> ii,
          sea_block_data_filename dir bid PATH_MAX \<mapsto> di)
    \<and> disk_max os' ii = unat (if max_count = 0 then SEA_BLOCK_MAX_COUNT_DEFAULT else max_count)
    \<and> os_dirs os' = insert (sub_dir dir bid) (os_dirs os) \<and> os_junk os' = os_junk os
    \<and> os_next_ino os \<le> ii \<and> os_next_ino os \<le> di
    \<and> (\<forall>k. os_fds os k \<noteq> None \<longrightarrow> os_fds os' k = os_fds os k)
    \<and> (\<forall>j < os_next_ino os. os_inodes os' j = os_inodes os j)"
proof -
  have par: "parent_path (sub_dir dir bid) \<in> os_dirs os"
    and sub: "sub_dir dir bid \<notin> os_dirs os" "os_names os (sub_dir dir bid) = None"
    and new: "os_names os (sea_block_index_filename dir bid PATH_MAX) = None"
      "os_names os (sea_block_data_filename dir bid PATH_MAX) = None"
    using fresh by (simp_all add: block_fresh_def)
  let ?mc = "if max_count = 0 then SEA_BLOCK_MAX_COUNT_DEFAULT else max_count"
  let ?ms = "if max_size = 0 then SEA_BLOCK_MAX_SIZE_DEFAULT else max_size"
  have ne: "sea_block_index_filename dir bid PATH_MAX \<noteq> sea_block_data_filename dir bid PATH_MAX"
    by (simp add: block_filenames [OF dir])
  obtain h os1 where c1: "sea_block_index_create dir bid ?mc os = (0, os1)"
    and r1: "reliable os1" "os_wf os1"
    and n1: "os_names os1 = (os_names os)(sea_block_index_filename dir bid PATH_MAX \<mapsto> os_next_ino os)"
    and i1: "os_inodes os1 = (os_inodes os)(os_next_ino os := index_file h [])"
    and d1: "os_dirs os1 = insert (sub_dir dir bid) (os_dirs os)"
    and o1: "os_next_ino os1 = Suc (os_next_ino os)" and h: "ih_count h = 0"
      "ih_max_count h = ?mc" and j1: "os_junk os1 = os_junk os" and f1: "\<forall>k. os_fds os k \<noteq> None \<longrightarrow> os_fds os1 k = os_fds os k"
    using block_index_create_run [OF rel wf dir par sub new(1), of ?mc] by blast
  have "sub_dir dir bid \<in> os_dirs os1" and "os_names os1 (sea_block_data_filename dir bid PATH_MAX) = None"
    using d1 n1 new(2) ne by auto
  then obtain os2 where c2: "sea_block_data_create dir bid ?ms os1 = (0, os2)"
    and r2: "reliable os2" "os_wf os2"
    and n2: "os_names os2 = (os_names os1)(sea_block_data_filename dir bid PATH_MAX \<mapsto> os_next_ino os1)"
    and i2: "os_inodes os2 = (os_inodes os1)(os_next_ino os1 := [])" and d2: "os_dirs os2 = os_dirs os1" and j2: "os_junk os2 = os_junk os1"
    and f2: "\<forall>k. os_fds os1 k \<noteq> None \<longrightarrow> os_fds os2 k = os_fds os1 k"
    using block_data_create_run [OF r1 dir, of bid ?ms] by blast
  have "block_on_disk os2 dir bid (Suc (os_next_ino os)) (os_next_ino os) []"
    using ne h by (simp add: block_on_disk_def n2 n1 i2 i1 o1 block_files_def)
      (intro exI [of _ h] exI [of _ "[]"], simp)
  moreover have "sea_block_create dir bid max_size max_count os = (0, os2)"
    using c1 c2 by (simp add: sea_block_create_def)
  moreover have "\<forall>j < os_next_ino os. os_inodes os2 j = os_inodes os j"
    by (simp add: i2 i1 o1)
  moreover have "disk_max os2 (os_next_ino os) = unat ?mc"
    by (simp add: disk_max_def i2 i1 o1 index_file_def h del: if_split)
  ultimately show ?thesis
    using r2 n2 n1 o1 d2 d1 f1 f2 j1 j2
    by (intro exI [of _ os2] exI [of _ "Suc (os_next_ino os)"] exI [of _ "os_next_ino os"])
      (simp del: if_split)
qed

section \<open>Working on one block beside others\<close>

text \<open>An open block depends on its own descriptors and inodes only.\<close>

lemma block_at_mono:
  assumes "block_at os b di ii ds q" and "\<forall>k \<in> block_fds b. os_fds os' k = os_fds os k"
    and "os_inodes os' di = os_inodes os di" and "os_inodes os' ii = os_inodes os ii"
  shows "block_at os' b di ii ds q"
proof -
  obtain dfd ix es fs where "sb_data b = Some \<lparr>sd_fd = dfd\<rparr>" "sb_index b = Some ix"
    "dfd \<noteq> ix_fd ix" "di \<noteq> ii" "fd_at os dfd di q" "index_wf os ix ii es"
    "os_inodes os di = concat fs" "block_files (ix_header ix) es fs ds"
    by (rule block_atE [OF assms(1)])
  then show ?thesis
    using assms(2-) by (intro block_atI [of b dfd ix di ii os' q es fs ds])
      (auto simp: block_fds_def fd_at_def index_wf_def)
qed

lemma block_at_ticked [simp]: "block_at (ticked os) b di ii ds q = block_at os b di ii ds q"
  by (simp add: block_at_def index_wf_def)

lemma block_at_fds:
  assumes "block_at os b di ii ds q" and "os_wf os"
  shows "block_fds b \<subseteq> {k. os_fds os k \<noteq> None}" and "block_fds b \<subseteq> {..<os_next_fd os}"
proof -
  show *: "block_fds b \<subseteq> {k. os_fds os k \<noteq> None}"
    using assms(1) by (elim block_atE) (auto simp: block_fds_def fd_at_def index_wf_def)
  show "block_fds b \<subseteq> {..<os_next_fd os}"
    using * assms(2) by (force simp: os_wf_def not_le)
qed

text \<open>
  \<open>os'\<close> follows \<open>os\<close> by operations that change no file and none of the descriptors
  already handed out.
\<close>

definition os_ext :: "os \<Rightarrow> os \<Rightarrow> bool" where
  "os_ext os os' \<longleftrightarrow> reliable os' \<and> os_wf os' \<and> os_names os' = os_names os
     \<and> os_inodes os' = os_inodes os \<and> os_dirs os' = os_dirs os \<and> os_next_ino os' = os_next_ino os
     \<and> os_junk os' = os_junk os \<and> os_next_fd os \<le> os_next_fd os' \<and> (\<forall>k < os_next_fd os. os_fds os' k = os_fds os k)"

lemma os_ext_refl: "reliable os \<Longrightarrow> os_wf os \<Longrightarrow> os_ext os os"
  by (simp add: os_ext_def)

lemma os_ext_trans:
  assumes "os_ext a b" and "os_ext b c"
  shows "os_ext a c"
proof -
  have "os_fds c k = os_fds a k" if "k < os_next_fd a" for k
    using assms that by (simp add: os_ext_def)
  then show ?thesis
    using assms by (simp add: os_ext_def)
qed

lemma os_ext_ticked: "os_ext a b \<Longrightarrow> os_ext a (ticked b)"
  by (simp add: os_ext_def)

lemma os_ext_block_at:
  assumes "os_ext os os'" and "os_wf os" and "block_at os b di ii ds q"
  shows "block_at os' b di ii ds q"
proof (rule block_at_mono [OF assms(3)])
  show "\<forall>k \<in> block_fds b. os_fds os' k = os_fds os k"
    using block_at_fds(2) [OF assms(3,2)] assms(1) unfolding os_ext_def by blast
  show "os_inodes os' di = os_inodes os di" "os_inodes os' ii = os_inodes os ii"
    using assms(1) by (simp_all add: os_ext_def)
qed

lemma os_ext_on_disk: "os_ext os os' \<Longrightarrow> block_on_disk os' dir bid di ii ds = block_on_disk os dir bid di ii ds"
  by (simp add: os_ext_def block_on_disk_def)

lemma os_ext_frame:
  assumes "os_ext os os1" and "block_frame b {} os1 os2" and "block_fds b \<subseteq> {os_next_fd os..}"
  shows "os_ext os os2"
proof -
  have "reliable os2" "os_wf os2"
    using assms os_keeps_reliable os_keeps_wf by (auto simp: os_ext_def block_frame_def)
  moreover have "\<forall>k < os_next_fd os. os_fds os2 k = os_fds os k"
  proof (intro allI impI)
    fix k assume k: "k < os_next_fd os"
    then have "k \<notin> block_fds b"
      using assms(3) by auto
    then show "os_fds os2 k = os_fds os k"
      using assms(1,2) k by (simp add: os_ext_def block_frame_def)
  qed
  moreover have "os_inodes os2 = os_inodes os1"
    using assms(2) by (auto simp: block_frame_def)
  ultimately show ?thesis
    using assms(1,2) by (simp add: os_ext_def block_frame_def os_keeps_def)
qed

lemma os_ext_close:
  assumes "os_ext os os1" and "block_at os1 b di ii ds q" and "block_fds b \<subseteq> {os_next_fd os..}"
    and "os_wf os"
  shows "os_ext os (sea_block_close b os1)"
proof -
  have "0 < os_next_fd os" using assms(4) by (simp add: os_wf_def)
  then have "block_fds b \<subseteq> {0<..}" using assms(3) by auto
  then show ?thesis
    using assms unfolding block_close_run [OF assms(2) \<open>block_fds b \<subseteq> {0<..}\<close>]
    by (auto simp: os_ext_def os_wf_def subset_iff)
qed

text \<open>Opening a block anew and looking a record up: the record, and nothing else changes.\<close>

lemma block_reopen:
  assumes "reliable os" and "os_wf os" and "block_on_disk os dir bid di ii ds"
  shows "\<exists>b os'. sea_block_open dir bid os = (Some b, os') \<and> block_at os' b di ii ds 0
    \<and> os_ext os os' \<and> block_fds b \<subseteq> {os_next_fd os..} \<and> block_max b = disk_max os ii"
  using block_open_ok [OF assms] unfolding os_ext_def by blast

lemma block_requery:
  assumes "os_ext os os1" and "block_at os1 b di ii ds 0" and "block_fds b \<subseteq> {os_next_fd os..}"
    and "unat r < length ds" and "block_bytes ds < 2 ^ 62"
    and "length (ds ! unat r) \<le> unat (word_of_int buf_len :: u32)" and "length (ds ! unat r) \<le> length mem"
  shows "\<exists>os2 q. sea_block_query_by_record_id b r (Some mem) buf_len os1 =
      Done (0, Some (of_nat (length (ds ! unat r))), Some (put_at 0 (ds ! unat r) mem), os2)
    \<and> os_ext os os2 \<and> block_at os2 b di ii ds q"
proof -
  have "reliable os1" using assms(1) by (simp add: os_ext_def)
  from block_query_fresh [OF this assms(2,4-7)] os_ext_frame [OF assms(1) _ assms(3)]
  show ?thesis by blast
qed

text \<open>An operation on one open block leaves another one alone.\<close>

lemma block_frame_other:
  assumes "block_at os b di ii ds q" and "block_frame b' I os os'"
    and "block_fds b \<inter> block_fds b' = {}" and "di \<notin> I" and "ii \<notin> I"
  shows "block_at os' b di ii ds q"
proof (rule block_at_mono [OF assms(1)])
  show "\<forall>k \<in> block_fds b. os_fds os' k = os_fds os k"
    using assms(2,3) unfolding block_frame_def by blast
  show "os_inodes os' di = os_inodes os di" "os_inodes os' ii = os_inodes os ii"
    using assms(2,4,5) by (simp_all add: block_frame_def)
qed

lemma block_frame_keeps:
  "block_frame b I os os' \<Longrightarrow> reliable os' = reliable os"
  "block_frame b I os os' \<Longrightarrow> os_wf os \<Longrightarrow> os_wf os'"
  "block_frame b I os os' \<Longrightarrow> os_names os' = os_names os"
  "block_frame b I os os' \<Longrightarrow> os_dirs os' = os_dirs os"
  using os_keeps_reliable os_keeps_wf by (auto simp: block_frame_def os_keeps_def)

lemma block_frame_ticked [simp]: "block_frame b I (ticked os) os' = block_frame b I os os'"
  by (simp add: block_frame_def os_keeps_def)

section \<open>From creation to lookup\<close>

fun block_append_all :: "sea_block \<Rightarrow> byte list list \<Rightarrow> os \<Rightarrow> (u32 list \<times> sea_block \<times> os) option" where
  "block_append_all b [] os = Some ([], b, os)"
| "block_append_all b (d # ds) os =
     (case sea_block_append (Some b) (Some d) (int (length d)) os of
        Done (ret, Some rid, over, Some b1, os1) \<Rightarrow>
          (if ret \<noteq> 0 then None
           else
             (case block_append_all b1 ds os1 of
                None \<Rightarrow> None
              | Some (rids, b2, os2) \<Rightarrow> Some (rid # rids, b2, os2)))
      | _ \<Rightarrow> None)"

definition payloads_ok :: "byte list list \<Rightarrow> bool" where
  "payloads_ok ds \<longleftrightarrow> (\<forall>d \<in> set ds. d \<noteq> [] \<and> length d < 2 ^ 31 - 16)
     \<and> length ds < 2 ^ 32 \<and> block_bytes ds < 2 ^ 62"

lemma block_append_all_ok:
  assumes "reliable os" and "os_wf os" and "block_at os b di ii es q" and "payloads_ok (es @ ds)"
  shows "\<exists>b' os'. block_append_all b ds os
      = Some (map of_nat [length es..<length es + length ds], b', os')
    \<and> block_at os' b' di ii (es @ ds) (if ds = [] then q else block_bytes (es @ ds)) \<and> reliable os' \<and> os_wf os' \<and> os_names os' = os_names os
    \<and> os_dirs os' = os_dirs os \<and> block_fds b' = block_fds b \<and> block_max b' = block_max b"
  using assms
proof (induction ds arbitrary: es b os q)
  case (Cons d ds)
  have d: "d \<noteq> []" "length d < 2 ^ 31 - 16" and room: "Suc (length es) < 2 ^ 32"
    and size: "block_bytes es < 2 ^ 62"
    using Cons.prems(4) by (auto simp: payloads_ok_def)
  obtain b1 os1 where
    app: "sea_block_append (Some b) (Some d) (int (length d)) os = Done (0, Some (of_nat (length es)),
        Some (if block_max b \<le> Suc (length es) then 1 else 0), Some b1, os1)"
    and at1: "block_at os1 b1 di ii (es @ [d]) (block_bytes (es @ [d]))"
    and fr: "block_frame b {di, ii} os os1" and b1: "block_max b1 = block_max b" "block_fds b1 = block_fds b"
    using block_append_ok [OF Cons.prems(1,3) d room size] by blast
  have st: "reliable os1" "os_wf os1" "os_names os1 = os_names os" "os_dirs os1 = os_dirs os"
    using block_frame_keeps [OF fr] Cons.prems(1,2) by simp_all
  obtain b2 os2 where "block_append_all b1 ds os1
      = Some (map of_nat [Suc (length es)..<Suc (length es + length ds)], b2, os2)"
    and "block_at os2 b2 di ii (es @ d # ds) (block_bytes (es @ d # ds))" "reliable os2" "os_wf os2" "os_names os2 = os_names os1"
      "os_dirs os2 = os_dirs os1" "block_fds b2 = block_fds b1" "block_max b2 = block_max b1"
    using Cons.IH [OF st(1,2) at1] Cons.prems(4) by (auto split: if_splits)
  then show ?case
    using app st b1 by (auto simp: upt_conv_Cons simp del: upt.simps)
qed auto

text \<open>
  The two sessions of a client: create a block, open it and append payloads; open a block,
  look a record up and close it again.
\<close>

definition block_store ::
    "string \<Rightarrow> u64 \<Rightarrow> u64 \<Rightarrow> u64 \<Rightarrow> byte list list \<Rightarrow> os \<Rightarrow> (u32 list \<times> sea_block \<times> os) option" where
  "block_store dir bid max_size max_count ds os =
     (let (ret, os1) = sea_block_create dir bid max_size max_count os
      in if ret \<noteq> 0 then None
         else
           (case sea_block_open dir bid os1 of
              (None, _) \<Rightarrow> None
            | (Some b, os2) \<Rightarrow> block_append_all b ds os2))"

definition block_fetch ::
    "string \<Rightarrow> u64 \<Rightarrow> u32 \<Rightarrow> byte list \<Rightarrow> int \<Rightarrow> os \<Rightarrow> (int \<times> u32 option \<times> byte list option \<times> os) option" where
  "block_fetch dir bid r mem buf_len os =
     (case sea_block_open dir bid os of
        (None, _) \<Rightarrow> None
      | (Some b, os1) \<Rightarrow>
        (case sea_block_query_by_record_id b r (Some mem) buf_len os1 of
           Undef \<Rightarrow> None
         | Done (ret, n, buf, os2) \<Rightarrow> Some (ret, n, buf, sea_block_close b os2)))"

lemma block_store_run:
  assumes rel: "reliable os" and wf: "os_wf os" and dir: "length dir + 48 < PATH_MAX"
    and fresh: "block_fresh os dir bid" and ok: "payloads_ok ds"
  shows "\<exists>b os' di ii. block_store dir bid max_size max_count ds os = Some (map of_nat [0..<length ds], b, os')
    \<and> block_at os' b di ii ds (if ds = [] then 0 else block_bytes ds) \<and> reliable os' \<and> os_wf os'
    \<and> os_names os' (sea_block_data_filename dir bid PATH_MAX) = Some di
    \<and> os_names os' (sea_block_index_filename dir bid PATH_MAX) = Some ii
    \<and> block_fds b \<subseteq> {0<..}
    \<and> block_max b = unat (if max_count = 0 then SEA_BLOCK_MAX_COUNT_DEFAULT else max_count)"
proof -
  obtain os1 di ii where c: "sea_block_create dir bid max_size max_count os = (0, os1)"
    and d1: "block_on_disk os1 dir bid di ii []" and r1: "reliable os1" "os_wf os1"
    and m1: "disk_max os1 ii = unat (if max_count = 0 then SEA_BLOCK_MAX_COUNT_DEFAULT else max_count)"
    using block_create_ok [OF rel wf dir fresh] by blast
  obtain b os2 where o2: "sea_block_open dir bid os1 = (Some b, os2)" and at2: "block_at os2 b di ii [] 0"
    and e2: "os_ext os1 os2" and f2: "block_fds b \<subseteq> {os_next_fd os1..}" and m2: "block_max b = disk_max os1 ii"
    using block_reopen [OF r1 d1] by blast
  have r2: "reliable os2" "os_wf os2" "os_names os2 = os_names os1"
    using e2 by (simp_all add: os_ext_def)
  obtain b' os3 where a3: "block_append_all b ds os2 = Some (map of_nat [0..<length ds], b', os3)"
    and at3: "block_at os3 b' di ii ds (if ds = [] then 0 else block_bytes ds)"
    and r3: "reliable os3" "os_wf os3" "os_names os3 = os_names os2"
    and f3: "block_fds b' = block_fds b" "block_max b' = block_max b"
    using block_append_all_ok [OF r2(1,2) at2, unfolded append_Nil list.size(3) add_0, OF ok] by blast
  have pos: "block_fds b' \<subseteq> {0<..}"
    using f2 f3 r1(2) by (auto simp: os_wf_def)
  have "block_store dir bid max_size max_count ds os = Some (map of_nat [0..<length ds], b', os3)"
    by (simp add: block_store_def c o2 a3)
  then show ?thesis
    using at3 r3 r2(3) d1 pos f3 m1 m2 by (auto simp: block_on_disk_def)
qed

lemma block_close_disk:
  assumes "reliable os" and "os_wf os" and at: "block_at os b di ii ds q" and "block_fds b \<subseteq> {0<..}"
    and "os_names os (sea_block_data_filename dir bid PATH_MAX) = Some di"
    and "os_names os (sea_block_index_filename dir bid PATH_MAX) = Some ii"
  shows "reliable (sea_block_close b os)" "os_wf (sea_block_close b os)"
    "block_on_disk (sea_block_close b os) dir bid di ii ds"
  using assms block_at_on_disk [OF at assms(5,6)] unfolding block_close_run [OF at assms(4)]
  by (auto simp: os_wf_def block_on_disk_def)

lemma block_fetch_run:
  assumes "reliable os" and "os_wf os" and "block_on_disk os dir bid di ii ds" and "payloads_ok ds"
    and r: "r < length ds"
    and fits: "length (ds ! r) \<le> unat (word_of_int buf_len :: u32)" "length (ds ! r) \<le> length mem"
  shows "\<exists>os'. block_fetch dir bid (of_nat r) mem buf_len os
      = Some (0, Some (of_nat (length (ds ! r))), Some (put_at 0 (ds ! r) mem), os') \<and> os_ext os os'"
proof -
  obtain b os1 where o1: "sea_block_open dir bid os = (Some b, os1)" and at1: "block_at os1 b di ii ds 0"
    and e1: "os_ext os os1" and f1: "block_fds b \<subseteq> {os_next_fd os..}"
    using block_reopen [OF assms(1-3)] by blast
  have ur: "unat (of_nat r :: u32) = r"
    using r assms(4) by (simp add: payloads_ok_def unat_of_nat)
  then obtain os2 q2 where q2: "sea_block_query_by_record_id b (of_nat r) (Some mem) buf_len os1
      = Done (0, Some (of_nat (length (ds ! r))), Some (put_at 0 (ds ! r) mem), os2)"
    and e2: "os_ext os os2" and at2: "block_at os2 b di ii ds q2"
    using block_requery [OF e1 at1 f1, of "of_nat r" buf_len mem] r fits assms(4)
    by (auto simp: payloads_ok_def)
  show ?thesis
    using q2 o1 os_ext_close [OF e2 at2 f1 assms(2)] by (simp add: block_fetch_def)
qed

text \<open>
  A query by count over two records of one length: the index side finds both, the relative
  seek of the data side takes the tail of the second record for a header, and the list
  comes back with the first record only, next to a count of two.
\<close>

lemma block_query_by_count_two:
  assumes rel: "reliable os" and b: "block_at os b di ii (d0 # d1 # ds) 0" and len: "length d1 = length d0"
    and size: "block_bytes (d0 # d1 # ds) < 2 ^ 29"
  shows "\<exists>os'. sea_block_query_by_count b 0 2 os = Done (Some \<lparr>head = [d0]\<rparr>, Some 2, os')"
proof -
  obtain dfd ix es fs where
    bd: "sb_data b = Some \<lparr>sd_fd = dfd\<rparr>" and bi: "sb_index b = Some ix"
    and ne: "dfd \<noteq> ix_fd ix" "di \<noteq> ii" and at: "fd_at os dfd di 0" and wf: "index_wf os ix ii es"
    and dc: "os_inodes os di = concat fs" and bf: "block_files (ix_header ix) es fs (d0 # d1 # ds)"
    by (rule block_atE [OF b])
  obtain p where iat: "fd_at os (ix_fd ix) ii p" and ic: "os_inodes os ii = index_file (ix_header ix) es"
    and cnt: "unat (ih_count (ix_header ix)) = length es"
    using wf by (auto simp: index_wf_def)
  have le: "length es = Suc (Suc (length ds))"
    using bf by (simp add: block_files_def)
  obtain f0 f1 fr where fs: "fs = f0 # f1 # fr" and f0: "is_frame d0 f0" and f1: "is_frame d1 f1"
    using bf by (auto simp: block_files_def list_all2_Cons1)
  have fl: "length (concat fs) = block_bytes (d0 # d1 # ds)"
    using bf unfolding block_files_def by (blast intro: frames_length)
  have "ie_offset (es ! 0) = 0" "ie_offset (es ! 1) = of_nat (16 + length d0)"
    using block_files_entry(1) [OF bf, of 0] block_files_entry(1) [OF bf, of 1] length_frame [OF f0]
    by (simp_all add: chunk_off_def fs)
  moreover have "take 2 es = [es ! 0, es ! 1]"
    using le by (cases es; cases "tl es") simp_all
  ultimately have offs: "map ie_offset (take 2 (drop (unat (0 :: u32)) es)) = [0, of_nat (16 + length d0)]"
    by simp
  let ?os1 = "set_pos (ix_fd ix) ii (40 + 16 * unat (0 :: u32) + 16 * 2) (ticked (ticked (ticked os)))"
  have "sea_block_index_query_by_count ix 0 2 (set_pos (ix_fd ix) ii p os)
      = (case offset_append_all (offset_rep []) (map ie_offset (take 2 (drop (unat (0 :: u32)) es))) ?os1 of
           Undef \<Rightarrow> Undef
         | Done (off, os1) \<Rightarrow> Done (Some off, Some (of_nat 2), os1))"
    by (rule index_query_by_count_run [OF rel ic cnt]) (use le in simp_all)
  moreover have "offset_append_all (offset_rep []) [0, of_nat (16 + length d0)] ?os1
      = Done (offset_rep [0, of_nat (16 + length d0)], ?os1)"
    by (rule offset_append_all_rep [of "[]", unfolded append_Nil]) simp
  ultimately have "sea_block_index_query_by_count ix 0 2 (set_pos (ix_fd ix) ii p os)
      = Done (Some (offset_rep [0, of_nat (16 + length d0)]), Some (of_nat 2), ?os1)"
    by (simp only: offs outcome.case prod.case)
  then have look: "sea_block_index_query_by_count ix 0 2 os
      = Done (Some (offset_rep [0, of_nat (16 + length d0)]), Some 2, ?os1)"
    unfolding set_pos_same [OF iat] of_nat_numeral .
  have at1: "fd_at (ticked ?os1) dfd di 0"
    using at ne by simp
  obtain os' where "data_query_loop dfd [0, of_nat (16 + length d0)] (Some \<lparr>head = []\<rparr>) (ticked ?os1)
      = Done (Some \<lparr>head = [d0]\<rparr>, os')"
    using data_query_two [of "ticked ?os1" di f0 f1 fr d0 d1 dfd, unfolded set_pos_same [OF at1]]
      rel dc fs f0 f1 len size fl by auto
  then have "sea_block_data_query_by_offsets \<lparr>sd_fd = dfd\<rparr> (offset_rep [0, of_nat (16 + length d0)]) ?os1
      = Done (Some \<lparr>head = [d0]\<rparr>, os')"
    using rel by (simp add: sea_block_data_query_by_offsets_def sea_block_offset_count_def
        del: data_query_loop.simps)
  then show ?thesis
    by (simp add: sea_block_query_by_count_def bd bi look)
qed

section \<open>Properties\<close>

text \<open>C1: A block gives back what was stored in it.  After a create, an open and the appends of
  any payloads (each non-empty, all together within the file limits), the record ids are
  0, 1, 2, ...; once the block is closed, a new open and a lookup of any of these ids succeed,
  report the payload's length and put the payload at the start of the caller's buffer.\<close>

theorem block_store_fetch:
  assumes "reliable os" and "os_wf os" and "length dir + 48 < PATH_MAX"
    and "block_fresh os dir bid" and "payloads_ok ds" and "r < length ds"
    and "length (ds ! r) \<le> unat (word_of_int buf_len :: u32)" and "length (ds ! r) \<le> length mem"
  shows "\<exists>b os1 os2. block_store dir bid max_size max_count ds os = Some (map of_nat [0..<length ds], b, os1)
    \<and> block_fetch dir bid (of_nat r) mem buf_len (sea_block_close b os1)
        = Some (0, Some (of_nat (length (ds ! r))), Some (put_at 0 (ds ! r) mem), os2)"
proof -
  obtain b os1 di ii where s: "block_store dir bid max_size max_count ds os = Some (map of_nat [0..<length ds], b, os1)"
    and at: "block_at os1 b di ii ds (if ds = [] then 0 else block_bytes ds)" and r1: "reliable os1" "os_wf os1"
    and nm: "os_names os1 (sea_block_data_filename dir bid PATH_MAX) = Some di"
      "os_names os1 (sea_block_index_filename dir bid PATH_MAX) = Some ii" and f: "block_fds b \<subseteq> {0<..}"
    using block_store_run [OF assms(1-5)] by blast
  show ?thesis
    using s block_fetch_run [OF block_close_disk [OF r1 at f nm] assms(5-8)] by blast
qed

theorem block_store_fetch_witness:
  "\<exists>b os1 os2. block_store ''/d'' 7 0 0 [[1, 2, 3], [4, 5]] (fresh_os {''/d''}) = Some ([0, 1], b, os1)
    \<and> block_fetch ''/d'' 7 1 [9, 9, 9, 9] 4 (sea_block_close b os1) = Some (0, Some 2, Some [4, 5, 9, 9], os2)"
  using block_store_fetch [of "fresh_os {''/d''}" "''/d''" 7 "[[1, 2, 3], [4, 5]]" 1 4 "[9, 9, 9, 9]" 0 0]
  by (simp add: PATH_MAX_def block_fresh_def payloads_ok_def put_at_def sub_dir_def)

text \<open>C29: A lookup through the handle that appended finds nothing.  The descriptor of the data file
  stands at the end of the file, the lookup seeks from there by the offset of the record, reads
  nothing, and reports success with a length of zero and an untouched buffer.\<close>

theorem block_same_handle_lookup:
  assumes "reliable os" and "os_wf os" and "length dir + 48 < PATH_MAX"
    and "block_fresh os dir bid" and "payloads_ok ds" and "r < length ds"
  shows "\<exists>b os1 os2. block_store dir bid max_size max_count ds os = Some (map of_nat [0..<length ds], b, os1)
    \<and> sea_block_query_by_record_id b (of_nat r) (Some mem) buf_len os1 = Done (0, Some 0, Some mem, os2)"
proof -
  have ur: "unat (of_nat r :: u32) < length ds"
    using assms(5,6) by (simp add: payloads_ok_def unat_of_nat)
  have ne: "ds \<noteq> []" using assms(6) by auto
  obtain b os1 di ii where s: "block_store dir bid max_size max_count ds os = Some (map of_nat [0..<length ds], b, os1)"
    and at: "block_at os1 b di ii ds (block_bytes ds)" and r1: "reliable os1"
    using block_store_run [OF assms(1-5), of max_size max_count] unfolding if_not_P [OF ne] by blast
  show ?thesis
    using s block_query_at_end [OF r1 at ur] assms(5) by (auto simp: payloads_ok_def)
qed

theorem block_same_handle_lookup_witness:
  "\<exists>b os1 os2. block_store ''/d'' 7 0 0 [[1, 2, 3]] (fresh_os {''/d''}) = Some ([0], b, os1)
    \<and> sea_block_query_by_record_id b 0 (Some [9, 9, 9]) 3 os1 = Done (0, Some 0, Some [9, 9, 9], os2)"
  using block_same_handle_lookup [of "fresh_os {''/d''}" "''/d''" 7 "[[1, 2, 3]]" 0 0 0 "[9, 9, 9]" 3]
  by (simp add: PATH_MAX_def block_fresh_def payloads_ok_def sub_dir_def)

text \<open>Looking up an id that was never handed out is an error.  The code is \<open>EINVAL\<close>, nothing is
  stored through the length pointer and the buffer keeps its contents.\<close>

theorem block_fetch_missing:
  assumes "reliable os" and "os_wf os" and "length dir + 48 < PATH_MAX"
    and "block_fresh os dir bid" and "payloads_ok ds" and "length ds \<le> unat r"
  shows "\<exists>b os1 os2. block_store dir bid max_size max_count ds os = Some (map of_nat [0..<length ds], b, os1)
    \<and> block_fetch dir bid r mem buf_len (sea_block_close b os1) = Some (EINVAL, None, Some mem, os2)"
proof -
  obtain b os1 di ii where s: "block_store dir bid max_size max_count ds os = Some (map of_nat [0..<length ds], b, os1)"
    and at: "block_at os1 b di ii ds (if ds = [] then 0 else block_bytes ds)" and r1: "reliable os1" "os_wf os1"
    and nm: "os_names os1 (sea_block_data_filename dir bid PATH_MAX) = Some di"
      "os_names os1 (sea_block_index_filename dir bid PATH_MAX) = Some ii" and f: "block_fds b \<subseteq> {0<..}"
    using block_store_run [OF assms(1-5)] by blast
  obtain b2 os2 where o2: "sea_block_open dir bid (sea_block_close b os1) = (Some b2, os2)"
    and at2: "block_at os2 b2 di ii ds 0"
    using block_reopen [OF block_close_disk [OF r1 at f nm]] by blast
  show ?thesis
    using s o2 block_query_missing [OF at2 assms(6)] by (auto simp: block_fetch_def)
qed

theorem block_fetch_missing_witness:
  "\<exists>b os1 os2. block_store ''/d'' 7 0 0 [[1, 2, 3]] (fresh_os {''/d''}) = Some ([0], b, os1)
    \<and> block_fetch ''/d'' 7 1 [9, 9, 9] 3 (sea_block_close b os1) = Some (EINVAL, None, Some [9, 9, 9], os2)"
  using block_fetch_missing [of "fresh_os {''/d''}" "''/d''" 7 "[[1, 2, 3]]" 1 0 0 "[9, 9, 9]" 3]
  by (simp add: PATH_MAX_def block_fresh_def payloads_ok_def sub_dir_def)

text \<open>C4: Updating a record in place changes that record only.  When the new payload has the length of
  the old one, the update succeeds, and after closing the block every id leads to what it led to
  before, except the updated one, which leads to the new payload.\<close>

theorem block_update_fetch:
  assumes "reliable os" and "os_wf os" and "length dir + 48 < PATH_MAX"
    and "block_fresh os dir bid" and ok: "payloads_ok ds" and k: "k < length ds" and d: "length d = length (ds ! k)"
    and r: "r < length ds" and fits: "length (ds ! r) \<le> unat (word_of_int buf_len :: u32)" "length (ds ! r) \<le> length mem"
  shows "\<exists>b os1 os2 os3. block_store dir bid max_size max_count ds os = Some (map of_nat [0..<length ds], b, os1)
    \<and> sea_block_update b (of_nat k) d (int (length d)) os1 = Done (0, os2)
    \<and> block_fetch dir bid (of_nat r) mem buf_len (sea_block_close b os2)
        = Some (0, Some (of_nat (length (ds ! r))), Some (put_at 0 (if r = k then d else ds ! r) mem), os3)"
proof -
  obtain b os1 di ii where s: "block_store dir bid max_size max_count ds os = Some (map of_nat [0..<length ds], b, os1)"
    and at: "block_at os1 b di ii ds (if ds = [] then 0 else block_bytes ds)" and r1: "reliable os1" "os_wf os1"
    and nm: "os_names os1 (sea_block_data_filename dir bid PATH_MAX) = Some di"
      "os_names os1 (sea_block_index_filename dir bid PATH_MAX) = Some ii" and f: "block_fds b \<subseteq> {0<..}"
    using block_store_run [OF assms(1-5)] by blast
  have uk: "unat (of_nat k :: u32) = k" and size: "block_bytes ds < 2 ^ 62"
    using ok k by (simp_all add: payloads_ok_def unat_of_nat)
  obtain os2 q where up: "sea_block_update b (of_nat k) d (int (length d)) os1 = Done (0, os2)"
    and at2: "block_at os2 b di ii (ds[k := d]) q" and kp: "os_keeps os1 os2"
    using block_update_same_length [OF r1(1) at _ _ size, of "of_nat k" d] uk k d by auto
  have r2: "reliable os2" "os_wf os2" "os_names os2 = os_names os1"
    using os_keeps_reliable [OF kp] os_keeps_wf [OF kp] r1 kp by (simp_all add: os_keeps_def)
  have nm2: "os_names os2 (sea_block_data_filename dir bid PATH_MAX) = Some di"
    "os_names os2 (sea_block_index_filename dir bid PATH_MAX) = Some ii"
    using nm r2 by simp_all
  have "block_bytes (ds[k := d]) = block_bytes ds"
    unfolding block_bytes_def by (rule arg_cong [where f = sum_list]) (use k d in \<open>auto simp: list_eq_iff_nth_eq nth_list_update\<close>)
  moreover have "d \<noteq> []" "length d < 2 ^ 31 - 16"
    using ok k d nth_mem [OF k] by (auto simp: payloads_ok_def)
  ultimately have ok2: "payloads_ok (ds[k := d])"
    using ok by (auto simp: payloads_ok_def dest!: set_update_subset_insert [THEN subsetD])
  have "(ds[k := d]) ! r = (if r = k then d else ds ! r)"
    using r by simp
  moreover have "length ((ds[k := d]) ! r) = length (ds ! r)"
    using r d by (cases "r = k") simp_all
  ultimately show ?thesis
    using s up block_fetch_run [OF block_close_disk [OF r2(1,2) at2 f nm2] ok2, of r buf_len mem] r fits
    by (auto split: if_splits)
qed

theorem block_update_fetch_witness:
  "\<exists>b os1 os2 os3. block_store ''/d'' 7 0 0 [[1, 2, 3], [4, 5]] (fresh_os {''/d''}) = Some ([0, 1], b, os1)
    \<and> sea_block_update b 1 [6, 7] 2 os1 = Done (0, os2)
    \<and> block_fetch ''/d'' 7 1 [9, 9, 9] 3 (sea_block_close b os2) = Some (0, Some 2, Some [6, 7, 9], os3)"
  using block_update_fetch [of "fresh_os {''/d''}" "''/d''" 7 "[[1, 2, 3], [4, 5]]" 1 "[6, 7]" 1 3 "[9, 9, 9]" 0 0]
  by (simp add: PATH_MAX_def block_fresh_def payloads_ok_def put_at_def sub_dir_def)

text \<open>The append that reaches the configured maximum says so.  After storing \<open>ds\<close> in a block
  created for \<open>m\<close> records, one more append succeeds and returns the next id, and it reports the
  block as full exactly when \<open>m\<close> records or more are then stored; it never refuses one.\<close>

theorem block_append_reports_full:
  assumes "reliable os" and "os_wf os" and "length dir + 48 < PATH_MAX"
    and "block_fresh os dir bid" and ok: "payloads_ok (ds @ [d])" and m: "0 < m"
  shows "\<exists>b os1 b2 os2. block_store dir bid max_size m ds os = Some (map of_nat [0..<length ds], b, os1)
    \<and> sea_block_append (Some b) (Some d) (int (length d)) os1 = Done (0, Some (of_nat (length ds)),
        Some (if unat m \<le> Suc (length ds) then 1 else 0), Some b2, os2)"
proof -
  have ok': "payloads_ok ds" and d: "d \<noteq> []" "length d < 2 ^ 31 - 16" and n: "Suc (length ds) < 2 ^ 32"
    and size: "block_bytes ds < 2 ^ 62"
    using ok by (auto simp: payloads_ok_def)
  have nz: "m \<noteq> 0" using m by simp
  obtain b os1 di ii q where s: "block_store dir bid max_size m ds os = Some (map of_nat [0..<length ds], b, os1)"
    and at: "block_at os1 b di ii ds q" and r1: "reliable os1" and mx: "block_max b = unat m"
    using block_store_run [OF assms(1-4) ok', of max_size m] unfolding if_not_P [OF nz] by blast
  show ?thesis
    using s block_append_ok [OF r1 at d n size] unfolding mx by blast
qed

theorem block_append_reports_full_witness:
  "\<exists>b os1 b2 os2. block_store ''/d'' 7 0 2 [[1]] (fresh_os {''/d''}) = Some ([0], b, os1)
    \<and> sea_block_append (Some b) (Some [2]) 1 os1 = Done (0, Some 1, Some 1, Some b2, os2)"
  using block_append_reports_full [of "fresh_os {''/d''}" "''/d''" 7 "[[1]]" "[2]" 2 0]
  by (simp add: PATH_MAX_def block_fresh_def payloads_ok_def sub_dir_def)

text \<open>A query for several records returns the first one only.  With two records of one length
  (and any others) in the block, a query by count for two on a freshly opened block reports a
  count of two and a list that holds the first payload alone.\<close>

theorem block_count_query_truncates:
  assumes "reliable os" and "os_wf os" and "length dir + 48 < PATH_MAX"
    and "block_fresh os dir bid" and ok: "payloads_ok (d0 # d1 # ds)" and len: "length d1 = length d0"
    and size: "block_bytes (d0 # d1 # ds) < 2 ^ 29"
  shows "\<exists>ids b os1 b2 os2 os3. block_store dir bid max_size max_count (d0 # d1 # ds) os = Some (ids, b, os1)
    \<and> sea_block_open dir bid (sea_block_close b os1) = (Some b2, os2)
    \<and> sea_block_query_by_count b2 0 2 os2 = Done (Some \<lparr>head = [d0]\<rparr>, Some 2, os3)"
proof -
  obtain ids b os1 di ii q where s: "block_store dir bid max_size max_count (d0 # d1 # ds) os = Some (ids, b, os1)"
    and at: "block_at os1 b di ii (d0 # d1 # ds) q" and r1: "reliable os1" "os_wf os1"
    and nm: "os_names os1 (sea_block_data_filename dir bid PATH_MAX) = Some di"
      "os_names os1 (sea_block_index_filename dir bid PATH_MAX) = Some ii" and f: "block_fds b \<subseteq> {0<..}"
    using block_store_run [OF assms(1-5)] by blast
  obtain b2 os2 where o2: "sea_block_open dir bid (sea_block_close b os1) = (Some b2, os2)"
    and at2: "block_at os2 b2 di ii (d0 # d1 # ds) 0" and e2: "os_ext (sea_block_close b os1) os2"
    using block_reopen [OF block_close_disk [OF r1 at f nm]] by blast
  have "reliable os2"
    using e2 by (simp add: os_ext_def)
  from block_query_by_count_two [OF this at2 len size] show ?thesis
    using s o2 by blast
qed

theorem block_count_query_truncates_witness:
  "\<exists>ids b os1 b2 os2 os3. block_store ''/d'' 7 0 0 [[1, 2], [3, 4]] (fresh_os {''/d''}) = Some (ids, b, os1)
    \<and> sea_block_open ''/d'' 7 (sea_block_close b os1) = (Some b2, os2)
    \<and> sea_block_query_by_count b2 0 2 os2 = Done (Some \<lparr>head = [[1, 2]]\<rparr>, Some 2, os3)"
  using block_count_query_truncates [of "fresh_os {''/d''}" "''/d''" 7 "[1, 2]" "[3, 4]" "[]" 0 0]
  by (simp add: PATH_MAX_def block_fresh_def payloads_ok_def sub_dir_def)

end
