(* ===== verification/SeaGraph.thy ===== *)
theory SeaGraph
  imports SeaBlock SeaMd5
begin

text \<open>
  \<open>graph.c\<close> and \<open>graph_data.c\<close>: a graph database keeps an index block, whose records
  point to the records of a data block that hold the nodes with their edges and
  attributes.  The operations come first, then the byte format, then what a client sees
  when it inserts a node and looks it up.
\<close>

section \<open>Structures\<close>

record node_info =
  ni_next_record_id :: u32
  ni_prev_record_id :: u32
  ni_edge_count :: u32
  ni_attr_count :: u32

record graph_attr_info =
  ga_attr_name :: "byte list"
  ga_attr_value :: "byte list"

record graph_edge_info =
  ge_direction :: u8
  ge_node_id :: u32

record graph_db_conn =
  gd_dir :: string
  gd_index_block_id :: u64
  gd_index_block :: "sea_block option"
  gd_data_block :: "sea_block option"

record graph_db_index_node_data =
  gi_block_id :: u64
  gi_record_id :: u32
  gi_pad :: u32

definition enc_node_info :: "node_info \<Rightarrow> byte list" where
  "enc_node_info n = bytes_of_u32 (ni_next_record_id n) @ bytes_of_u32 (ni_prev_record_id n)
     @ bytes_of_u32 (ni_edge_count n) @ bytes_of_u32 (ni_attr_count n)"

definition enc_edge :: "graph_edge_info \<Rightarrow> byte list" where
  "enc_edge e = ge_direction e # bytes_of_u32 (ge_node_id e)"

definition enc_attr :: "graph_attr_info \<Rightarrow> byte list" where
  "enc_attr a = ga_attr_name a @ ga_attr_value a"

definition enc_index_node :: "graph_db_index_node_data \<Rightarrow> byte list" where
  "enc_index_node d = bytes_of_u64 (gi_block_id d) @ bytes_of_u32 (gi_record_id d)
     @ bytes_of_u32 (gi_pad d)"

definition dec_index_node :: "byte list \<Rightarrow> graph_db_index_node_data" where
  "dec_index_node bs = \<lparr>gi_block_id = u64_of_bytes (take 8 bs),
     gi_record_id = u32_of_bytes (take 4 (drop 8 bs)), gi_pad = u32_of_bytes (take 4 (drop 12 bs))\<rparr>"

section \<open>Databases and connections\<close>

text \<open>
  The union of a 64-bit integer and a buffer: the block id is the first eight characters
  of the hexadecimal digest.
\<close>

definition graph_db_get_block_id :: "byte list \<Rightarrow> byte list \<Rightarrow> u64 outcome" where
  "graph_db_get_block_id junk db_name =
     (case md5 junk db_name of
        None \<Rightarrow> Undef
      | Some output \<Rightarrow> Done (u64_of_bytes (take 8 (bytes_of_string output))))"

definition graph_db_create :: "string \<Rightarrow> byte list \<Rightarrow> os \<Rightarrow> (int \<times> os) outcome" where
  "graph_db_create dir db_name os =
     (case graph_db_get_block_id (junk_bytes os 64) db_name of
        Undef \<Rightarrow> Undef
      | Done block_id \<Rightarrow>
          Done (sea_block_create dir block_id (128 * 1024 * 1024) (128 * 1024) os))"

definition graph_db_destroy :: "string \<Rightarrow> byte list \<Rightarrow> os \<Rightarrow> (int \<times> os) outcome" where
  "graph_db_destroy dir db_name os =
     (case graph_db_get_block_id (junk_bytes os 64) db_name of
        Undef \<Rightarrow> Undef
      | Done block_id \<Rightarrow> Done (sea_block_data_destroy dir block_id os))"

text \<open>
  The directory is copied into 128 zeroed bytes: 128 characters or more overflow the
  field or leave it unterminated.
\<close>

definition graph_db_open :: "string \<Rightarrow> byte list \<Rightarrow> os \<Rightarrow> (graph_db_conn option \<times> int option \<times> os) outcome" where
  "graph_db_open dir db_name os =
     (let (ok, os1) = c_malloc 152 os
      in if \<not> ok then Done (None, None, os1)
         else
           (case graph_db_get_block_id (junk_bytes os1 64) db_name of
              Undef \<Rightarrow> Undef
            | Done block_id \<Rightarrow>
              (let (index_block, os2) = sea_block_open dir block_id os1
               in if 128 \<le> length dir then Undef
                  else Done (Some \<lparr>gd_dir = dir, gd_index_block_id = block_id,
                                  gd_index_block = index_block, gd_data_block = None\<rparr>, Some 0, os2))))"

definition graph_db_close :: "graph_db_conn \<Rightarrow> os \<Rightarrow> os" where
  "graph_db_close conn os =
     (let os1 = (case gd_index_block conn of None \<Rightarrow> os | Some b \<Rightarrow> sea_block_close b os)
      in case gd_data_block conn of None \<Rightarrow> os1 | Some b \<Rightarrow> sea_block_close b os1)"

section \<open>Nodes\<close>

text \<open>
  \<open>create_node_data\<close>: the code, the record id stored on success, the node with its counts
  set, and the block.
\<close>

definition node_data_bytes ::
    "node_info \<Rightarrow> graph_edge_info list \<Rightarrow> graph_attr_info list \<Rightarrow> byte list" where
  "node_data_bytes node edges attrs =
     enc_node_info node @ concat (map enc_edge edges) @ concat (map enc_attr attrs)"

definition create_node_data ::
    "sea_block \<Rightarrow> node_info \<Rightarrow> graph_attr_info list \<Rightarrow> u16 \<Rightarrow> graph_edge_info list \<Rightarrow> u16 \<Rightarrow> os \<Rightarrow>
      (int \<times> u32 option \<times> node_info \<times> sea_block \<times> os) outcome" where
  "create_node_data block node attr_info attr_count edge_info edge_count os =
     (let edge_size = 5 * unat edge_count;
          attr_size = 32 * unat attr_count;
          buf_size = 16 + edge_size + attr_size;
          (ok, os1) = c_malloc (int buf_size) os
      in if \<not> ok then Done (ENOMEM, None, node, block, os1)
         else if length edge_info < unat edge_count \<or> length attr_info < unat attr_count then Undef
         else
           let node1 = node\<lparr>ni_attr_count := ucast attr_count, ni_edge_count := ucast edge_count\<rparr>;
               buf = node_data_bytes node1 (take (unat edge_count) edge_info)
                       (take (unat attr_count) attr_info)
           in (case sea_block_append (Some block) (Some buf) (int buf_size) os1 of
                 Undef \<Rightarrow> Undef
               | Done (ret, rid, over, block1, os2) \<Rightarrow>
                   Done (ret, if ret = 0 then rid else None, node1,
                     case block1 of Some b \<Rightarrow> b | None \<Rightarrow> block, os2)))"

text \<open>The buffer of one megabyte, filled from its start on success; \<open>None\<close> for null.\<close>

definition find_node_data :: "sea_block \<Rightarrow> u32 \<Rightarrow> os \<Rightarrow> (byte list option \<times> u32 option \<times> os) outcome" where
  "find_node_data block node_id os =
     (let (ok, os1) = c_malloc (1024 * 1024) os
      in if \<not> ok then Done (None, None, os1)
         else
           (case sea_block_query_by_record_id block node_id (Some (junk_bytes os1 (1024 * 1024)))
                   (1024 * 1024) os1 of
              Undef \<Rightarrow> Undef
            | Done (ret, n, buf, os2) \<Rightarrow> Done (if ret \<noteq> 0 then None else buf, n, os2)))"

text \<open>
  \<open>__graph_db_insert_internal\<close>: the code, the node, the two ids as they stand afterwards,
  the connection and the state.
\<close>

definition graph_data_block ::
    "graph_db_conn \<Rightarrow> u64 \<Rightarrow> os \<Rightarrow> graph_db_conn \<times> os" where
  "graph_data_block conn data_block_id os =
     (case gd_data_block conn of
        Some _ \<Rightarrow> (conn, os)
      | None \<Rightarrow>
        (let (_, os1) = sea_block_create (gd_dir conn) data_block_id (128 * 1024 * 1024) (128 * 1024) os;
             (b, os2) = sea_block_open (gd_dir conn) data_block_id os1
         in (conn\<lparr>gd_data_block := b\<rparr>, os2)))"

definition graph_db_insert_internal ::
    "graph_db_conn \<Rightarrow> node_info \<Rightarrow> graph_attr_info list \<Rightarrow> u16 \<Rightarrow> graph_edge_info list \<Rightarrow> u16 \<Rightarrow>
      u64 \<Rightarrow> u32 \<Rightarrow> bool \<Rightarrow> os \<Rightarrow>
      (int \<times> node_info \<times> u64 \<times> u32 \<times> graph_db_conn \<times> os) outcome" where
  "graph_db_insert_internal conn node attr_info attr_count edge_info edge_count
       node_block_id node_record_id exist_node_flag os =
     (let data_block_id = (if exist_node_flag then node_block_id else 2);
          (conn1, os1) = graph_data_block conn data_block_id os
      in (case gd_data_block conn1 of
            None \<Rightarrow> Done (EINVAL, node, node_block_id, node_record_id, conn1, os1)
          | Some data \<Rightarrow>
            (case create_node_data data node attr_info attr_count edge_info edge_count os1 of
               Undef \<Rightarrow> Undef
             | Done (ret, rid, node1, data1, os2) \<Rightarrow>
               let conn2 = conn1\<lparr>gd_data_block := Some data1\<rparr>
               in if ret \<noteq> 0 then Done (ret, node1, node_block_id, node_record_id, conn2, os2)
                  else if \<not> exist_node_flag then
                    let index_data = \<lparr>gi_block_id = data_block_id,
                                      gi_record_id = (case rid of Some r \<Rightarrow> r | None \<Rightarrow> 0), gi_pad = 0\<rparr>
                    in (case sea_block_append (gd_index_block conn2) (Some (enc_index_node index_data)) 16 os2 of
                          Undef \<Rightarrow> Undef
                        | Done (ret2, irid, over, index1, os3) \<Rightarrow>
                          let conn3 = conn2\<lparr>gd_index_block := index1\<rparr>
                          in if ret2 \<noteq> 0
                             then Done (ret2, node1, node_block_id, node_record_id, conn3, os3)
                             else Done (0, node1, gd_index_block_id conn,
                                    (case irid of Some r \<Rightarrow> r | None \<Rightarrow> 0), conn3, os3))
                  else
                    let index_data = \<lparr>gi_block_id = node_block_id, gi_record_id = node_record_id,
                                      gi_pad = 0\<rparr>
                    in (case gd_index_block conn2 of
                          None \<Rightarrow> Undef
                        | Some index \<Rightarrow>
                          (case sea_block_update index node_record_id (enc_index_node index_data) 16 os2 of
                             Undef \<Rightarrow> Undef
                           | Done (ret2, os3) \<Rightarrow>
                               Done (ret2, node1, node_block_id, node_record_id, conn2, os3))))))"

text \<open>The parameters \<open>edge_free_size\<close> and \<open>attr_free_size\<close> are never read and left out.\<close>

definition graph_db_insert ::
    "graph_db_conn \<Rightarrow> node_info \<Rightarrow> graph_attr_info list \<Rightarrow> u16 \<Rightarrow> graph_edge_info list \<Rightarrow> u16 \<Rightarrow>
      u64 \<Rightarrow> u32 \<Rightarrow> os \<Rightarrow> (int \<times> node_info \<times> u64 \<times> u32 \<times> graph_db_conn \<times> os) outcome" where
  "graph_db_insert conn node attr_info attr_count edge_info edge_count node_block_id node_record_id os =
     graph_db_insert_internal conn node attr_info attr_count edge_info edge_count
       node_block_id node_record_id False os"

definition graph_db_check_update :: "byte list option \<Rightarrow> u16 \<Rightarrow> u16 \<Rightarrow> bool" where
  "graph_db_check_update node attr_count edge_count = False"

definition graph_db_remove :: "graph_db_conn \<Rightarrow> u64 \<Rightarrow> u32 \<Rightarrow> int" where
  "graph_db_remove conn node_block_id node_record_id = 0"

text \<open>
  The index record is read into an uninitialised local; the block of a successful lookup
  stays open.
\<close>

definition graph_db_find ::
    "graph_db_conn \<Rightarrow> u64 \<Rightarrow> u32 \<Rightarrow> os \<Rightarrow> (byte list option \<times> os) outcome" where
  "graph_db_find conn node_block_id node_record_id os =
     (case gd_index_block conn of
        None \<Rightarrow> Undef
      | Some index \<Rightarrow>
        (case sea_block_query_by_record_id index node_record_id (Some (junk_bytes os 16)) 16 os of
           Undef \<Rightarrow> Undef
         | Done (ret, _, buf, os1) \<Rightarrow>
           if ret \<noteq> 0 then Done (None, os1)
           else
             let node_data = dec_index_node (case buf of Some b \<Rightarrow> b | None \<Rightarrow> [])
             in (case sea_block_open (gd_dir conn) (gi_block_id node_data) os1 of
                   (None, os2) \<Rightarrow> Done (None, os2)
                 | (Some block, os2) \<Rightarrow>
                   (let (ok, os3) = c_malloc (1024 * 1024) os2
                    in if \<not> ok then Done (None, os3)
                       else
                         (case sea_block_query_by_record_id block (gi_record_id node_data)
                                 (Some (junk_bytes os3 (1024 * 1024))) (1024 * 1024) os3 of
                            Undef \<Rightarrow> Undef
                          | Done (ret2, _, node, os4) \<Rightarrow>
                            if ret2 \<noteq> 0 then Done (None, sea_block_close block os4)
                            else Done (node, os4))))))"

definition graph_db_update ::
    "graph_db_conn \<Rightarrow> u64 \<Rightarrow> u32 \<Rightarrow> node_info \<Rightarrow> graph_attr_info list \<Rightarrow> u16 \<Rightarrow>
      graph_edge_info list \<Rightarrow> u16 \<Rightarrow> os \<Rightarrow> (int \<times> node_info \<times> graph_db_conn \<times> os) outcome" where
  "graph_db_update conn node_block_id node_record_id node attr_info attr_count edge_info edge_count os =
     (case graph_db_find conn node_block_id node_record_id os of
        Undef \<Rightarrow> Undef
      | Done (info, os1) \<Rightarrow>
        if graph_db_check_update info attr_count edge_count then Done (0, node, conn, os1)
        else
          let ret = graph_db_remove conn node_block_id node_record_id
          in if ret \<noteq> 0 then Done (ret, node, conn, os1)
             else
               (case graph_db_insert_internal conn node attr_info attr_count edge_info edge_count
                       node_block_id node_record_id True os1 of
                  Undef \<Rightarrow> Undef
                | Done (ret2, node1, _, _, conn1, os2) \<Rightarrow> Done (ret2, node1, conn1, os2)))"

section \<open>The byte format\<close>

type_synonym graph_rec = "node_info \<times> graph_edge_info list \<times> graph_attr_info list"

text \<open>A node as a client sees it through the structures laid over the buffer.\<close>

definition dec_node_info :: "byte list \<Rightarrow> node_info" where
  "dec_node_info bs = \<lparr>ni_next_record_id = u32_of_bytes (take 4 bs),
     ni_prev_record_id = u32_of_bytes (take 4 (drop 4 bs)),
     ni_edge_count = u32_of_bytes (take 4 (drop 8 bs)),
     ni_attr_count = u32_of_bytes (take 4 (drop 12 bs))\<rparr>"

fun dec_edges :: "nat \<Rightarrow> byte list \<Rightarrow> graph_edge_info list" where
  "dec_edges 0 bs = []"
| "dec_edges (Suc n) bs =
     \<lparr>ge_direction = hd bs, ge_node_id = u32_of_bytes (take 4 (drop 1 bs))\<rparr> # dec_edges n (drop 5 bs)"

fun dec_attrs :: "nat \<Rightarrow> byte list \<Rightarrow> graph_attr_info list" where
  "dec_attrs 0 bs = []"
| "dec_attrs (Suc n) bs =
     \<lparr>ga_attr_name = take 16 bs, ga_attr_value = take 16 (drop 16 bs)\<rparr> # dec_attrs n (drop 32 bs)"

definition node_view :: "byte list \<Rightarrow> graph_rec" where
  "node_view bs =
     (let n = dec_node_info bs; e = unat (ni_edge_count n); a = unat (ni_attr_count n)
      in (n, dec_edges e (drop 16 bs), dec_attrs a (drop (16 + 5 * e) bs)))"

definition rec_bytes :: "graph_rec \<Rightarrow> byte list" where
  "rec_bytes = (\<lambda>(n, edges, attrs). node_data_bytes n edges attrs)"

definition rec_ok :: "graph_rec \<Rightarrow> bool" where
  "rec_ok = (\<lambda>(n, edges, attrs).
     length edges < 2 ^ 16 \<and> length attrs < 2 ^ 16 \<and> 16 + 5 * length edges + 32 * length attrs \<le> 2 ^ 20
     \<and> ni_edge_count n = of_nat (length edges) \<and> ni_attr_count n = of_nat (length attrs)
     \<and> (\<forall>a \<in> set attrs. length (ga_attr_name a) = 16 \<and> length (ga_attr_value a) = 16))"

lemma length_enc_graph [simp]:
  "length (enc_node_info n) = 16" "length (enc_edge e) = 5" "length (enc_index_node d) = 16"
  by (simp_all add: enc_node_info_def enc_edge_def enc_index_node_def)

lemma dec_index_node [simp]: "dec_index_node (enc_index_node d) = d"
  by (simp add: dec_index_node_def enc_index_node_def)

lemma length_edges [simp]: "length (concat (map enc_edge es)) = 5 * length es"
  by (induction es) simp_all

lemma length_attrs:
  "\<forall>a \<in> set as. length (ga_attr_name a) = 16 \<and> length (ga_attr_value a) = 16 \<Longrightarrow>
    length (concat (map enc_attr as)) = 32 * length as"
  by (induction as) (simp_all add: enc_attr_def)

lemma dec_edges_enc: "dec_edges (length es) (concat (map enc_edge es) @ rest) = es"
  by (induction es) (simp_all add: enc_edge_def)

lemma dec_attrs_enc:
  "\<forall>a \<in> set as. length (ga_attr_name a) = 16 \<and> length (ga_attr_value a) = 16 \<Longrightarrow>
    dec_attrs (length as) (concat (map enc_attr as) @ rest) = as"
  by (induction as) (simp_all add: enc_attr_def)

lemma node_view_bytes:
  assumes "rec_ok r"
  shows "node_view (rec_bytes r @ rest) = r" and "length (rec_bytes r) \<le> 2 ^ 20"
    and "16 \<le> length (rec_bytes r)"
proof -
  obtain n edges attrs where r: "r = (n, edges, attrs)" by (cases r)
  note ok = assms [unfolded r rec_ok_def prod.case]
  have dec: "dec_node_info (enc_node_info n @ x) = n" for x
    by (simp add: dec_node_info_def enc_node_info_def)
  have cnt: "unat (ni_edge_count n) = length edges" "unat (ni_attr_count n) = length attrs"
    using ok by (simp_all add: unat_of_nat)
  have names: "\<forall>a \<in> set attrs. length (ga_attr_name a) = 16 \<and> length (ga_attr_value a) = 16"
    using ok by blast
  show "node_view (rec_bytes r @ rest) = r"
    using dec_edges_enc dec_attrs_enc [of attrs] names
    by (simp add: node_view_def r rec_bytes_def node_data_bytes_def dec cnt Let_def)
  show "length (rec_bytes r) \<le> 2 ^ 20" "16 \<le> length (rec_bytes r)"
    using ok length_attrs [of attrs]
    by (simp_all add: r rec_bytes_def node_data_bytes_def del: length_concat)
qed

section \<open>The database of a name\<close>

definition graph_id :: "byte list \<Rightarrow> u64" where
  "graph_id name = u64_of_bytes (take 8 (bytes_of_string (concat (map hex_byte (md5_ref name)))))"

lemma graph_block_id:
  "length junk = 64 \<Longrightarrow> length name < 2 ^ 32 - 64 \<Longrightarrow> graph_db_get_block_id junk name = Done (graph_id name)"
  by (simp add: graph_db_get_block_id_def md5_ref_hex graph_id_def)

definition graph_ref :: "nat \<Rightarrow> graph_db_index_node_data" where
  "graph_ref k = \<lparr>gi_block_id = 2, gi_record_id = of_nat k, gi_pad = 0\<rparr>"

definition block_named :: "os \<Rightarrow> string \<Rightarrow> u64 \<Rightarrow> nat \<Rightarrow> nat \<Rightarrow> bool" where
  "block_named os dir bid di ii \<longleftrightarrow>
     os_names os (sea_block_data_filename dir bid PATH_MAX) = Some di
     \<and> os_names os (sea_block_index_filename dir bid PATH_MAX) = Some ii"

text \<open>
  A connection with both blocks open, whose data block holds the nodes \<open>rs\<close> and whose
  index block refers to them in order.
\<close>

definition graph_holds :: "string \<Rightarrow> byte list \<Rightarrow> graph_db_conn \<times> os \<Rightarrow> graph_rec list \<Rightarrow> bool" where
  "graph_holds dir name s rs \<longleftrightarrow>
     reliable (snd s) \<and> os_wf (snd s) \<and> gd_dir (fst s) = dir \<and> length dir < 128
     \<and> gd_index_block_id (fst s) = graph_id name \<and> length name < 2 ^ 32 - 64
     \<and> length rs < 2 ^ 32 \<and> (\<forall>r \<in> set rs. rec_ok r)
     \<and> (\<exists>b di ii q d dd dj q'.
          gd_index_block (fst s) = Some b \<and> gd_data_block (fst s) = Some d
          \<and> block_at (snd s) b di ii (map (\<lambda>k. enc_index_node (graph_ref k)) [0..<length rs]) q
          \<and> block_at (snd s) d dd dj (map rec_bytes rs) q'
          \<and> block_named (snd s) dir (graph_id name) di ii \<and> block_named (snd s) dir 2 dd dj
          \<and> {di, ii} \<inter> {dd, dj} = {} \<and> block_fds b \<inter> block_fds d = {})"

lemma graph_holdsI:
  "reliable os \<Longrightarrow> os_wf os \<Longrightarrow> gd_dir c = dir \<Longrightarrow> length dir < 128 \<Longrightarrow>
    gd_index_block_id c = graph_id name \<Longrightarrow> length name < 2 ^ 32 - 64 \<Longrightarrow> length rs < 2 ^ 32 \<Longrightarrow>
    \<forall>r \<in> set rs. rec_ok r \<Longrightarrow> gd_index_block c = Some b \<Longrightarrow> gd_data_block c = Some d \<Longrightarrow>
    block_at os b di ii (map (\<lambda>k. enc_index_node (graph_ref k)) [0..<length rs]) q \<Longrightarrow>
    block_at os d dd dj (map rec_bytes rs) q' \<Longrightarrow>
    block_named os dir (graph_id name) di ii \<Longrightarrow> block_named os dir 2 dd dj \<Longrightarrow>
    {di, ii} \<inter> {dd, dj} = {} \<Longrightarrow> block_fds b \<inter> block_fds d = {} \<Longrightarrow>
    graph_holds dir name (c, os) rs"
  unfolding graph_holds_def fst_conv snd_conv by blast

lemma graph_sizes:
  assumes "length rs < 2 ^ 32" and "\<forall>r \<in> set rs. rec_ok r"
  shows "block_bytes (map rec_bytes rs) < 2 ^ 62"
    and "block_bytes (map (\<lambda>k. enc_index_node (graph_ref k)) [0..<length rs]) < 2 ^ 62"
proof -
  have "block_bytes (map rec_bytes rs) \<le> (16 + 2 ^ 20) * length rs"
    using assms(2) by (induction rs) (auto dest!: node_view_bytes(2))
  then show "block_bytes (map rec_bytes rs) < 2 ^ 62"
    using assms(1) by simp
  have "block_bytes (map (\<lambda>k. enc_index_node (graph_ref k)) ks) = 32 * length ks" for ks
    by (induction ks) simp_all
  then show "block_bytes (map (\<lambda>k. enc_index_node (graph_ref k)) [0..<length rs]) < 2 ^ 62"
    using assms(1) by simp
qed

section \<open>Inserting and finding\<close>

lemma create_node_run:
  assumes rel: "reliable os" and r: "rec_ok (n, edges, attrs)" and b: "block_at os d dd dj ds q"
    and room: "Suc (length ds) < 2 ^ 32" and size: "block_bytes ds < 2 ^ 62"
  shows "\<exists>d' os'. create_node_data d n attrs (of_nat (length attrs)) edges (of_nat (length edges)) os
      = Done (0, Some (of_nat (length ds)), n, d', os')
    \<and> block_at os' d' dd dj (ds @ [rec_bytes (n, edges, attrs)])
        (block_bytes (ds @ [rec_bytes (n, edges, attrs)]))
    \<and> block_frame d {dd, dj} os os' \<and> block_fds d' = block_fds d"
proof -
  let ?r = "(n, edges, attrs)"
  have ok: "length edges < 2 ^ 16" "length attrs < 2 ^ 16"
    "ni_edge_count n = of_nat (length edges)" "ni_attr_count n = of_nat (length attrs)"
    "\<forall>a \<in> set attrs. length (ga_attr_name a) = 16 \<and> length (ga_attr_value a) = 16"
    using r by (auto simp: rec_ok_def)
  have cnt: "unat (of_nat (length edges) :: u16) = length edges" "unat (of_nat (length attrs) :: u16) = length attrs"
    using ok by (simp_all add: unat_of_nat)
  have "(ucast (of_nat (length edges) :: u16) :: u32) = of_nat (length edges)"
    "(ucast (of_nat (length attrs) :: u16) :: u32) = of_nat (length attrs)"
    using cnt by (metis of_nat_unat)+
  then have same: "n\<lparr>ni_attr_count := ucast (of_nat (length attrs) :: u16),
      ni_edge_count := ucast (of_nat (length edges) :: u16)\<rparr> = n"
    using ok by (cases n) simp
  have len: "16 + 5 * length edges + 32 * length attrs = length (rec_bytes ?r)"
    using length_attrs [OF ok(5)] by (simp add: rec_bytes_def node_data_bytes_def del: length_concat)
  have lb: "length (rec_bytes ?r) \<le> 2 ^ 20" "16 \<le> length (rec_bytes ?r)"
    using node_view_bytes [OF r] by simp_all
  then have ne: "rec_bytes ?r \<noteq> []" and lim: "length (rec_bytes ?r) < 2 ^ 31 - 16"
    by auto
  have tk: "reliable (ticked os)" "block_at (ticked os) d dd dj ds q"
    using rel b by simp_all
  obtain d' os' where
    app: "sea_block_append (Some d) (Some (rec_bytes ?r)) (int (length (rec_bytes ?r))) (ticked os)
      = Done (0, Some (of_nat (length ds)), Some (if block_max d \<le> Suc (length ds) then 1 else 0), Some d', os')"
    and at: "block_at os' d' dd dj (ds @ [rec_bytes ?r]) (block_bytes (ds @ [rec_bytes ?r]))"
    and fr: "block_frame d {dd, dj} os os'" and fds: "block_fds d' = block_fds d"
    using block_append_ok [OF tk ne lim room size] by auto
  have "create_node_data d n attrs (of_nat (length attrs)) edges (of_nat (length edges)) os
      = Done (0, Some (of_nat (length ds)), n, d', os')"
    using rel app unfolding create_node_data_def cnt same len Let_def
    by (simp add: rec_bytes_def)
  then show ?thesis
    using at fr fds by blast
qed

lemma graph_insert_run:
  assumes h: "graph_holds dir name (c, os) rs" and r: "rec_ok (n, edges, attrs)"
    and room: "Suc (length rs) < 2 ^ 32"
  shows "\<exists>c' os'. graph_db_insert c n attrs (of_nat (length attrs)) edges (of_nat (length edges)) nb nr os
      = Done (0, n, graph_id name, of_nat (length rs), c', os')
    \<and> graph_holds dir name (c', os') (rs @ [(n, edges, attrs)])"
proof -
  let ?refs = "\<lambda>k. map (\<lambda>k. enc_index_node (graph_ref k)) [0..<k]"
  let ?r = "(n, edges, attrs)"
  obtain b di ii q d dd dj q' where rel: "reliable os" and wf: "os_wf os"
    and cd: "gd_dir c = dir" "gd_index_block_id c = graph_id name" "length dir < 128" "length name < 2 ^ 32 - 64"
    and lr: "length rs < 2 ^ 32" and ok: "\<forall>r \<in> set rs. rec_ok r"
    and cb: "gd_index_block c = Some b" "gd_data_block c = Some d"
    and bat: "block_at os b di ii (?refs (length rs)) q" and dat: "block_at os d dd dj (map rec_bytes rs) q'"
    and nm: "block_named os dir (graph_id name) di ii" "block_named os dir 2 dd dj"
    and dis: "{di, ii} \<inter> {dd, dj} = {}" "block_fds b \<inter> block_fds d = {}"
    using h by (auto simp: graph_holds_def)
  obtain d' os2 where
    cr: "create_node_data d n attrs (of_nat (length attrs)) edges (of_nat (length edges)) os
      = Done (0, Some (of_nat (length rs)), n, d', os2)"
    and dat2: "block_at os2 d' dd dj (map rec_bytes (rs @ [?r])) (block_bytes (map rec_bytes (rs @ [?r])))"
    and fr2: "block_frame d {dd, dj} os os2" and fds2: "block_fds d' = block_fds d"
    using create_node_run [OF rel r dat] room graph_sizes [OF lr ok] by auto
  have rel2: "reliable os2" and wf2: "os_wf os2"
    using block_frame_keeps [OF fr2] rel wf by auto
  have bat2: "block_at os2 b di ii (?refs (length rs)) q"
    using block_frame_other [OF bat fr2] dis by auto
  have e: "enc_index_node (graph_ref k) \<noteq> []" "length (enc_index_node (graph_ref k)) < 2 ^ 31 - 16" for k
    using length_enc_graph(3) [of "graph_ref k"] by (metis list.size(3) zero_neq_numeral, simp)
  obtain b' os3 where
    app: "sea_block_append (Some b) (Some (enc_index_node (graph_ref (length rs)))) 16 os2
      = Done (0, Some (of_nat (length rs)), Some (if block_max b \<le> Suc (length rs) then 1 else 0), Some b', os3)"
    and bat3: "block_at os3 b' di ii (?refs (Suc (length rs))) (block_bytes (?refs (Suc (length rs))))"
    and fr3: "block_frame b {di, ii} os2 os3" and fds3: "block_fds b' = block_fds b"
    using block_append_ok [OF rel2 bat2 e, of "length rs"] room graph_sizes [OF lr ok] by auto
  have dat3: "block_at os3 d' dd dj (map rec_bytes (rs @ [?r])) (block_bytes (map rec_bytes (rs @ [?r])))"
    using block_frame_other [OF dat2 fr3] dis fds2 by auto
  let ?c = "c\<lparr>gd_data_block := Some d', gd_index_block := Some b'\<rparr>"
  have "graph_db_insert c n attrs (of_nat (length attrs)) edges (of_nat (length edges)) nb nr os
      = Done (0, n, graph_id name, of_nat (length rs), ?c, os3)"
    using app by (simp add: graph_db_insert_def graph_db_insert_internal_def graph_data_block_def cb cr
        cd graph_ref_def)
  moreover have "graph_holds dir name (?c, os3) (rs @ [?r])"
    unfolding graph_holds_def
    using block_frame_keeps [OF fr2] block_frame_keeps [OF fr3] rel2 wf2 cd room ok r bat3 dat3 nm dis fds2 fds3
    by (auto simp: block_named_def)
  ultimately show ?thesis by blast
qed

text \<open>
  A lookup through a new connection returns the node in the first bytes of a one-megabyte
  buffer.
\<close>

definition graph_reopen_find :: "string \<Rightarrow> byte list \<Rightarrow> nat \<Rightarrow> os \<Rightarrow> (byte list \<times> os) option" where
  "graph_reopen_find dir name k os =
     (case graph_db_open dir name os of
        Done (Some c, err, os1) \<Rightarrow>
          (case graph_db_find c (gd_index_block_id c) (of_nat k) os1 of
             Done (Some node, os2) \<Rightarrow> Some (node, os2)
           | _ \<Rightarrow> None)
      | _ \<Rightarrow> None)"

lemma graph_find_run:
  assumes h: "graph_holds dir name (c, os) rs" and k: "k < length rs"
  shows "\<exists>rest os'. graph_reopen_find dir name k os = Some (rec_bytes (rs ! k) @ rest, os') \<and> os_ext os os'"
proof -
  let ?refs = "map (\<lambda>k. enc_index_node (graph_ref k)) [0..<length rs]"
  obtain b di ii q d dd dj q' where rel: "reliable os" and wf: "os_wf os"
    and cd: "length dir < 128" "length name < 2 ^ 32 - 64" and lr: "length rs < 2 ^ 32"
    and ok: "\<forall>r \<in> set rs. rec_ok r" and bat: "block_at os b di ii ?refs q"
    and dat: "block_at os d dd dj (map rec_bytes rs) q'"
    and nm: "block_named os dir (graph_id name) di ii" "block_named os dir 2 dd dj"
    using h by (auto simp: graph_holds_def)
  have uk: "unat (of_nat k :: u32) = k"
    using k lr by (simp add: unat_of_nat)
  have ext: "os_ext os (ticked os)" and rel1: "reliable (ticked os)" and wf1: "os_wf (ticked os)"
    using rel wf os_ext_ticked [OF os_ext_refl [OF rel wf]] by simp_all
  have disk: "block_on_disk os dir (graph_id name) di ii ?refs" "block_on_disk os dir 2 dd dj (map rec_bytes rs)"
    using block_at_on_disk [OF bat] block_at_on_disk [OF dat] nm by (simp_all add: block_named_def)
  obtain b2 os1 where o1: "sea_block_open dir (graph_id name) (ticked os) = (Some b2, os1)"
    and at1: "block_at os1 b2 di ii ?refs 0" and e1: "os_ext (ticked os) os1"
    and f1: "block_fds b2 \<subseteq> {os_next_fd (ticked os)..}"
    using block_reopen [OF rel1 wf1, of dir "graph_id name" di ii ?refs] disk(1)
      os_ext_on_disk [OF ext] by auto
  let ?c2 = "\<lparr>gd_dir = dir, gd_index_block_id = graph_id name, gd_index_block = Some b2, gd_data_block = None\<rparr>"
  have gopen: "graph_db_open dir name os = Done (Some ?c2, Some 0, os1)"
    using rel cd o1 by (simp add: graph_db_open_def graph_block_id)
  have ref: "?refs ! unat (of_nat k :: u32) = enc_index_node (graph_ref k)"
    using k by (simp add: uk)
  obtain os2 q2 where q1: "sea_block_query_by_record_id b2 (of_nat k) (Some (junk_bytes os1 16)) 16 os1
      = Done (0, Some 16, Some (enc_index_node (graph_ref k)), os2)"
    and e2: "os_ext (ticked os) os2"
    using block_requery [OF e1 at1 f1, of "of_nat k" 16 "junk_bytes os1 16"] k uk
      graph_sizes [OF lr ok] unfolding ref by auto
  have rel2: "reliable os2" and wf2: "os_wf os2" and d2: "block_on_disk os2 dir 2 dd dj (map rec_bytes rs)"
    using e2 disk(2) os_ext_on_disk [OF e2] os_ext_on_disk [OF ext] by (simp_all add: os_ext_def)
  obtain b3 os3 where o3: "sea_block_open dir 2 os2 = (Some b3, os3)"
    and at3: "block_at os3 b3 dd dj (map rec_bytes rs) 0" and e3: "os_ext os2 os3"
    and f3: "block_fds b3 \<subseteq> {os_next_fd os2..}"
    using block_reopen [OF rel2 wf2 d2] by blast
  have rel3: "reliable os3" and at3': "block_at (ticked os3) b3 dd dj (map rec_bytes rs) 0"
    using e3 at3 by (simp_all add: os_ext_def)
  have rk: "map rec_bytes rs ! unat (of_nat k :: u32) = rec_bytes (rs ! k)"
    using k by (simp add: uk)
  have lb: "length (rec_bytes (rs ! k)) \<le> 2 ^ 20"
    using node_view_bytes(2) k ok nth_mem by blast
  let ?m = "junk_bytes (ticked os3) 1048576"
  obtain os4 q4 where q4: "sea_block_query_by_record_id b3 (of_nat k) (Some ?m) 1048576 (ticked os3)
      = Done (0, Some (of_nat (length (rec_bytes (rs ! k)))), Some (put_at 0 (rec_bytes (rs ! k)) ?m), os4)"
    and e4: "os_ext os2 os4"
    using block_requery [OF os_ext_ticked [OF e3] at3' f3, of "of_nat k" 1048576 ?m] k uk lb
      graph_sizes [OF lr ok] unfolding rk by auto
  have "graph_db_find ?c2 (graph_id name) (of_nat k) os1 = Done (Some (put_at 0 (rec_bytes (rs ! k)) ?m), os4)"
    using q1 o3 q4 rel3 by (simp add: graph_db_find_def graph_ref_def)
  then have "graph_reopen_find dir name k os = Some (put_at 0 (rec_bytes (rs ! k)) ?m, os4)"
    by (simp add: graph_reopen_find_def gopen)
  moreover have "os_ext os os4"
    using os_ext_trans [OF ext os_ext_trans [OF e2 e4]] .
  ultimately show ?thesis
    by (auto simp: put_at_def)
qed

lemma graph_holds_ext:
  assumes h: "graph_holds dir name (c, os) rs" and e: "os_ext os os'"
  shows "graph_holds dir name (c, os') rs"
proof -
  let ?refs = "map (\<lambda>k. enc_index_node (graph_ref k)) [0..<length rs]"
  obtain b di ii q d dd dj q' where wf: "os_wf os"
    and base: "gd_dir c = dir" "length dir < 128" "gd_index_block_id c = graph_id name"
      "length name < 2 ^ 32 - 64" "length rs < 2 ^ 32" "\<forall>r \<in> set rs. rec_ok r"
      "gd_index_block c = Some b" "gd_data_block c = Some d"
      "block_named os dir (graph_id name) di ii" "block_named os dir 2 dd dj"
      "{di, ii} \<inter> {dd, dj} = {}" "block_fds b \<inter> block_fds d = {}"
    and at: "block_at os b di ii ?refs q" "block_at os d dd dj (map rec_bytes rs) q'"
    using h by (auto simp: graph_holds_def)
  have n: "reliable os'" "os_wf os'" "os_names os' = os_names os"
    using e by (simp_all add: os_ext_def)
  show ?thesis
    unfolding graph_holds_def
    using base n os_ext_block_at [OF e wf at(1)] os_ext_block_at [OF e wf at(2)]
    by (auto simp: block_named_def)
qed

section \<open>A connection is a log of nodes\<close>

definition graph_app :: "graph_rec \<Rightarrow> graph_db_conn \<times> os \<Rightarrow> (nat \<times> graph_db_conn \<times> os) option" where
  "graph_app r s =
     (case r of (n, edges, attrs) \<Rightarrow>
        (case graph_db_insert (fst s) n attrs (of_nat (length attrs)) edges (of_nat (length edges)) 0 0 (snd s) of
           Done (ret, _, _, rid, c, os) \<Rightarrow> (if ret = 0 then Some (unat rid, c, os) else None)
         | Undef \<Rightarrow> None))"

definition graph_get ::
    "string \<Rightarrow> byte list \<Rightarrow> nat \<Rightarrow> graph_db_conn \<times> os \<Rightarrow> (graph_rec \<times> graph_db_conn \<times> os) option" where
  "graph_get dir name k s =
     (case graph_reopen_find dir name k (snd s) of
        None \<Rightarrow> None
      | Some (node, os) \<Rightarrow> Some (node_view node, fst s, os))"

definition graph_fits :: "graph_rec list \<Rightarrow> graph_rec \<Rightarrow> bool" where
  "graph_fits rs r \<longleftrightarrow> rec_ok r \<and> Suc (length rs) < 2 ^ 32"

interpretation graph_log: append_log "graph_holds dir name" graph_fits graph_app "graph_get dir name"
  for dir name
proof
  fix s rs r
  assume h: "graph_holds dir name s rs" and f: "graph_fits rs r"
  obtain n edges attrs where r: "r = (n, edges, attrs)" by (cases r)
  have "unat (of_nat (length rs) :: u32) = length rs"
    using f by (simp add: graph_fits_def unat_of_nat)
  then show "\<exists>s'. graph_app r s = Some (length rs, s') \<and> graph_holds dir name s' (rs @ [r])"
    using graph_insert_run [of dir name "fst s" "snd s" rs n edges attrs 0 0] h f
    by (auto simp: graph_app_def graph_fits_def r)
next
  fix s rs k
  assume h: "graph_holds dir name s rs" and k: "k < length rs"
  have h': "graph_holds dir name (fst s, snd s) rs" using h by simp
  obtain rest os' where f: "graph_reopen_find dir name k (snd s) = Some (rec_bytes (rs ! k) @ rest, os')"
    and e: "os_ext (snd s) os'"
    using graph_find_run [OF h' k] by blast
  have "rec_ok (rs ! k)"
    using h k by (auto simp: graph_holds_def)
  moreover have "graph_holds dir name (fst s, os') rs"
    by (rule graph_holds_ext [OF h' e])
  ultimately show "\<exists>s'. graph_get dir name k s = Some (rs ! k, s') \<and> graph_holds dir name s' rs"
    by (simp add: graph_get_def f node_view_bytes)
qed

section \<open>A database from its creation\<close>

lemma hex_digit_code: "n < 16 \<Longrightarrow> 48 \<le> (of_char (hex_digit n) :: nat)"
  by (simp add: hex_digit_def)

lemma graph_id_not_2: "graph_id name \<noteq> 2"
proof -
  obtain b bs where m: "md5_ref name = b # bs"
    using length_md5_ref [of name] by (cases "md5_ref name") simp_all
  have "unat b div 16 < 16"
    using unsigned_less [of b, where 'a = nat] by (simp add: div_less_iff_less_mult)
  moreover define h where "h = hex_digit (unat b div 16)"
  ultimately have "48 \<le> (of_char h :: nat)" and "(of_char h :: nat) < 256"
    using hex_digit_code by simp_all
  moreover have "unat (of_nat (of_char h) :: byte) = of_char h mod 256"
    by (simp only: unat_of_nat len_num1 len_bit0 mult_1_right) simp
  then have "unat (of_char h :: byte) = of_char h mod 256"
    by (simp only: of_nat_of_char)
  ultimately have c: "48 \<le> unat (of_char h :: byte)"
    by simp
  define t where "t = take 7 (of_char (hex_digit (unat b mod 16)) # bytes_of_string (concat (map hex_byte bs)))"
  have "bytes_of_string (concat (map hex_byte (md5_ref name)))
      = of_char h # of_char (hex_digit (unat b mod 16)) # bytes_of_string (concat (map hex_byte bs))"
    unfolding m list.map concat.simps by (simp only: bytes_of_string_def hex_byte_def h_def append.simps list.map)
  then have t: "take 8 (bytes_of_string (concat (map hex_byte (md5_ref name)))) = of_char h # t"
    by (simp only: t_def take_Suc_Cons numeral_eq_Suc pred_numeral_simps BitM.simps)
  have "length (of_char h # t) \<le> 8"
    unfolding t [symmetric] by simp
  then have "le_dec (of_char h # t) < 256 ^ 8"
    using le_dec_less [of "of_char h # t"] power_increasing [of "length (of_char h # t)" 8 "256 :: nat"]
    by linarith
  then have "unat (graph_id name) = le_dec (of_char h # t)"
    unfolding graph_id_def t u64_of_bytes_def by (simp add: unat_of_nat del: le_dec.simps)
  then have "48 \<le> unat (graph_id name)"
    using c by simp
  then show ?thesis
    by auto
qed

lemma block_fresh_ticked [simp]: "block_fresh (ticked os) dir bid = block_fresh os dir bid"
  by (simp add: block_fresh_def)

lemma block_fresh_ext: "os_ext os os' \<Longrightarrow> block_fresh os' dir bid = block_fresh os dir bid"
  by (simp add: os_ext_def block_fresh_def)

text \<open>The first insertion of a connection creates and opens the data block.\<close>

lemma graph_data_block_fresh:
  assumes rel: "reliable os" and wf: "os_wf os" and fresh: "block_fresh os dir 2" and len: "length dir < 128"
    and name: "length name < 2 ^ 32 - 64"
    and c: "gd_dir c = dir" "gd_index_block_id c = graph_id name" "gd_index_block c = Some b" "gd_data_block c = None"
    and bat: "block_at os b di ii [] q" and nm: "block_named os dir (graph_id name) di ii"
  shows "\<exists>c' os'. graph_data_block c 2 os = (c', os') \<and> graph_holds dir name (c', os') []"
proof -
  have dl: "length dir + 48 < PATH_MAX"
    using len by (simp add: PATH_MAX_def)
  obtain os1 dd dj where cr: "sea_block_create dir 2 (128 * 1024 * 1024) (128 * 1024) os = (0, os1)"
    and d1: "block_on_disk os1 dir 2 dd dj []" and r1: "reliable os1" "os_wf os1"
    and n1: "os_names os1 = (os_names os)(sea_block_index_filename dir 2 PATH_MAX \<mapsto> dj,
          sea_block_data_filename dir 2 PATH_MAX \<mapsto> dd)"
    and i1: "\<forall>j < os_next_ino os. os_inodes os1 j = os_inodes os j"
    and new: "os_next_ino os \<le> dj" "os_next_ino os \<le> dd"
    and f1: "\<forall>k. os_fds os k \<noteq> None \<longrightarrow> os_fds os1 k = os_fds os k"
    using block_create_ok [OF rel wf dl fresh, of "128 * 1024 * 1024" "128 * 1024"] by blast
  have ino: "di < os_next_ino os" "ii < os_next_ino os"
    using nm wf by (auto simp: block_named_def os_wf_def)
  have bat1: "block_at os1 b di ii [] q"
    using block_at_fds(1) [OF bat wf] f1 i1 ino by (intro block_at_mono [OF bat]) auto
  obtain d os2 where o2: "sea_block_open dir 2 os1 = (Some d, os2)" and dat: "block_at os2 d dd dj [] 0"
    and e2: "os_ext os1 os2" and fd2: "block_fds d \<subseteq> {os_next_fd os1..}"
    using block_reopen [OF r1 d1] by blast
  have bat2: "block_at os2 b di ii [] q"
    by (rule os_ext_block_at [OF e2 r1(2) bat1])
  have disj: "block_fds b \<inter> block_fds d = {}"
    using block_at_fds(2) [OF bat1 r1(2)] fd2 by (fastforce simp: subset_iff)
  have named: "block_named os2 dir (graph_id name) di ii" "block_named os2 dir 2 dd dj"
    using nm n1 e2 block_filenames_differ [OF dl graph_id_not_2] d1 os_ext_on_disk [OF e2]
    by (auto simp: block_named_def os_ext_def block_on_disk_def)
  have "graph_data_block c 2 os = (c\<lparr>gd_data_block := Some d\<rparr>, os2)"
    by (simp add: graph_data_block_def c cr [simplified] o2)
  moreover have "{di, ii} \<inter> {dd, dj} = {}"
    using ino new by auto
  moreover have "reliable os2" "os_wf os2"
    using e2 by (simp_all add: os_ext_def)
  ultimately have "graph_data_block c 2 os = (c\<lparr>gd_data_block := Some d\<rparr>, os2)"
    and "graph_holds dir name (c\<lparr>gd_data_block := Some d\<rparr>, os2) []"
    using graph_holdsI [of os2 "c\<lparr>gd_data_block := Some d\<rparr>" dir name "[]" b d di ii q dd dj 0]
      c len name bat2 dat named disj by simp_all
  then show ?thesis by blast
qed

lemma graph_app_first:
  assumes "graph_data_block c 2 os = (c', os')" and "gd_data_block c' = Some d"
    and "gd_index_block_id c' = gd_index_block_id c"
  shows "graph_app r (c, os) = graph_app r (c', os')"
proof -
  have "graph_data_block c' 2 os' = (c', os')"
    using assms(2) by (simp add: graph_data_block_def)
  then show ?thesis
    using assms(1,2) unfolding graph_app_def graph_db_insert_def graph_db_insert_internal_def
      fst_conv snd_conv assms(3)
    by (simp split: prod.splits)
qed

text \<open>Creating a database and opening it.\<close>

lemma graph_create_open:
  assumes rel: "reliable os" and wf: "os_wf os" and len: "length dir < 128"
    and fresh: "block_fresh os dir (graph_id name)" "block_fresh os dir 2"
    and name: "length name < 2 ^ 32 - 64"
  shows "\<exists>os1 c os2 b di ii. graph_db_create dir name os = Done (0, os1)
    \<and> graph_db_open dir name os1 = Done (Some c, Some 0, os2)
    \<and> reliable os2 \<and> os_wf os2 \<and> block_fresh os2 dir 2
    \<and> gd_dir c = dir \<and> gd_index_block_id c = graph_id name \<and> gd_index_block c = Some b
    \<and> gd_data_block c = None \<and> block_at os2 b di ii [] 0
    \<and> block_named os2 dir (graph_id name) di ii"
proof -
  have dl: "length dir + 48 < PATH_MAX"
    using len by (simp add: PATH_MAX_def)
  obtain os1 di ii where cr: "sea_block_create dir (graph_id name) (128 * 1024 * 1024) (128 * 1024) os = (0, os1)"
    and d1: "block_on_disk os1 dir (graph_id name) di ii []" and r1: "reliable os1" "os_wf os1"
    and n1: "os_names os1 = (os_names os)(sea_block_index_filename dir (graph_id name) PATH_MAX \<mapsto> ii,
          sea_block_data_filename dir (graph_id name) PATH_MAX \<mapsto> di)"
    and dr1: "os_dirs os1 = insert (sub_dir dir (graph_id name)) (os_dirs os)"
    using block_create_ok [OF rel wf dl fresh(1), of "128 * 1024 * 1024" "128 * 1024"] by blast
  have ne2: "2 \<noteq> graph_id name"
    using graph_id_not_2 [of name] by simp
  have par: "parent_path (sub_dir dir 2) = dir"
    "parent_path (sea_block_data_filename dir (graph_id name) PATH_MAX) = sub_dir dir (graph_id name)"
    "parent_path (sea_block_index_filename dir (graph_id name) PATH_MAX) = sub_dir dir (graph_id name)"
    using parent_path_append [of "dec_str (unat (graph_id name))" "sub_dir dir (graph_id name)"]
      parent_path_append [of "''index''" "sub_dir dir (graph_id name)"]
    by (simp_all add: block_filenames [OF dl])
  have "sub_dir dir (graph_id name) \<noteq> dir"
    by (simp add: sub_dir_def)
  then have "sub_dir dir 2 \<noteq> sea_block_data_filename dir (graph_id name) PATH_MAX"
    "sub_dir dir 2 \<noteq> sea_block_index_filename dir (graph_id name) PATH_MAX"
    using par by metis+
  then have fresh1: "block_fresh os1 dir 2"
    using fresh(2) ne2 n1 dr1 block_filenames_differ [OF dl ne2] by (auto simp: block_fresh_def)
  have t1: "reliable (ticked os1)" "os_wf (ticked os1)"
    using r1 by simp_all
  have e1: "os_ext os1 (ticked os1)"
    by (intro os_ext_ticked os_ext_refl r1)
  obtain b os2 where o2: "sea_block_open dir (graph_id name) (ticked os1) = (Some b, os2)"
    and bat: "block_at os2 b di ii [] 0" and e2: "os_ext (ticked os1) os2"
    using block_reopen [OF t1, of dir "graph_id name" di ii "[]"] d1 os_ext_on_disk [OF e1] by auto
  have named: "block_named os2 dir (graph_id name) di ii"
    using e2 d1 by (simp add: block_named_def os_ext_def block_on_disk_def)
  let ?c = "\<lparr>gd_dir = dir, gd_index_block_id = graph_id name, gd_index_block = Some b, gd_data_block = None\<rparr>"
  have "graph_db_create dir name os = Done (0, os1)"
    using name cr by (simp add: graph_db_create_def graph_block_id)
  moreover have "graph_db_open dir name os1 = Done (Some ?c, Some 0, os2)"
    using name r1 len o2 by (simp add: graph_db_open_def graph_block_id)
  moreover have "block_fresh os2 dir 2"
    using fresh1 block_fresh_ext [OF e2] by simp
  ultimately show ?thesis
    using e2 bat named
    by (intro exI [of _ os1] exI [of _ ?c] exI [of _ os2] exI [of _ b] exI [of _ di] exI [of _ ii])
      (simp add: os_ext_def)
qed

section \<open>Updating\<close>

text \<open>
  The insertion half of an update: the new node becomes a record of the data block, and
  the index record is overwritten with its own address instead of the node's.
\<close>

lemma graph_reinsert_run:
  assumes h: "graph_holds dir name (c, os) rs" and r: "rec_ok (n, edges, attrs)" and k: "k < length rs"
    and room: "Suc (length rs) < 2 ^ 32"
  shows "\<exists>c' os' b' di ii q' d' dd dj.
      graph_db_insert_internal c n attrs (of_nat (length attrs)) edges (of_nat (length edges))
        (graph_id name) (of_nat k) True os = Done (0, n, graph_id name, of_nat k, c', os')
    \<and> gd_index_block c' = Some b'
    \<and> block_at os' b' di ii ((map (\<lambda>k. enc_index_node (graph_ref k)) [0..<length rs])
        [k := enc_index_node \<lparr>gi_block_id = graph_id name, gi_record_id = of_nat k, gi_pad = 0\<rparr>]) q'
    \<and> gd_data_block c' = Some d'
    \<and> (\<exists>os1 q. block_at os1 d' dd dj (map rec_bytes (rs @ [(n, edges, attrs)])) q)"
proof -
  let ?refs = "map (\<lambda>k. enc_index_node (graph_ref k)) [0..<length rs]"
  let ?self = "enc_index_node \<lparr>gi_block_id = graph_id name, gi_record_id = of_nat k, gi_pad = 0\<rparr>"
  obtain b di ii q d dd dj q' where rel: "reliable os" and wf: "os_wf os"
    and cd: "gd_dir c = dir" "gd_index_block_id c = graph_id name"
    and lr: "length rs < 2 ^ 32" and ok: "\<forall>r \<in> set rs. rec_ok r"
    and cb: "gd_index_block c = Some b" "gd_data_block c = Some d"
    and bat: "block_at os b di ii ?refs q" and dat: "block_at os d dd dj (map rec_bytes rs) q'"
    and dis: "{di, ii} \<inter> {dd, dj} = {}" "block_fds b \<inter> block_fds d = {}"
    using h by (auto simp: graph_holds_def)
  obtain d' os2 where
    cr: "create_node_data d n attrs (of_nat (length attrs)) edges (of_nat (length edges)) os
      = Done (0, Some (of_nat (length rs)), n, d', os2)"
    and dat2: "block_at os2 d' dd dj (map rec_bytes (rs @ [(n, edges, attrs)]))
        (block_bytes (map rec_bytes (rs @ [(n, edges, attrs)])))"
    and fr2: "block_frame d {dd, dj} os os2"
    using create_node_run [OF rel r dat] room graph_sizes [OF lr ok] by auto
  have rel2: "reliable os2"
    using block_frame_keeps [OF fr2] rel by auto
  have bat2: "block_at os2 b di ii ?refs q"
    using block_frame_other [OF bat fr2] dis by auto
  have uk: "unat (of_nat k :: u32) = k"
    using k lr by (simp add: unat_of_nat)
  have at: "unat (of_nat k :: u32) < length ?refs" "length ?self = length (?refs ! unat (of_nat k :: u32))"
    using k uk by simp_all
  obtain os3 q3 where up: "sea_block_update b (of_nat k) ?self 16 os2 = Done (0, os3)"
    and bat3: "block_at os3 b di ii (?refs[k := ?self]) q3"
    using block_update_same_length [OF rel2 bat2 at graph_sizes(2) [OF lr ok]] uk by auto
  have "graph_db_insert_internal c n attrs (of_nat (length attrs)) edges (of_nat (length edges))
      (graph_id name) (of_nat k) True os
      = Done (0, n, graph_id name, of_nat k, c\<lparr>gd_data_block := Some d'\<rparr>, os3)"
    by (simp add: graph_db_insert_internal_def graph_data_block_def cb cr up)
  then show ?thesis
    using cb bat3 dat2 by (intro exI [of _ "c\<lparr>gd_data_block := Some d'\<rparr>"] exI) auto
qed

section \<open>Properties\<close>

text \<open>The first session of a database: create it, open it, insert nodes.\<close>

definition graph_session ::
    "string \<Rightarrow> byte list \<Rightarrow> graph_rec list \<Rightarrow> os \<Rightarrow> (nat list \<times> graph_db_conn \<times> os) option" where
  "graph_session dir name rs os =
     (case graph_db_create dir name os of
        Undef \<Rightarrow> None
      | Done (ret, os1) \<Rightarrow>
        (if ret \<noteq> 0 then None
         else
           (case graph_db_open dir name os1 of
              Done (Some c, _, os2) \<Rightarrow> log_append_all graph_app rs (c, os2)
            | _ \<Rightarrow> None)))"

lemma graph_session_run:
  assumes "reliable os" and "os_wf os" and "length dir < 128"
    and "block_fresh os dir (graph_id name)" and "block_fresh os dir 2" and "length name < 2 ^ 32 - 64"
    and "rs \<noteq> []" and "length rs < 2 ^ 32" and "\<forall>r \<in> set rs. rec_ok r"
  shows "\<exists>s. graph_session dir name rs os = Some ([0..<length rs], s) \<and> graph_holds dir name s rs"
proof -
  obtain os1 c os2 b di ii where cr: "graph_db_create dir name os = Done (0, os1)"
    and op: "graph_db_open dir name os1 = Done (Some c, Some 0, os2)"
    and st: "reliable os2" "os_wf os2" "block_fresh os2 dir 2"
    and c: "gd_dir c = dir" "gd_index_block_id c = graph_id name" "gd_index_block c = Some b" "gd_data_block c = None"
    and at: "block_at os2 b di ii [] 0" and nm: "block_named os2 dir (graph_id name) di ii"
    using graph_create_open [OF assms(1-6)] by blast
  obtain c' os3 where db: "graph_data_block c 2 os2 = (c', os3)" and h: "graph_holds dir name (c', os3) []"
    using graph_data_block_fresh [OF st assms(3,6) c at nm] by blast
  have d: "\<exists>d. gd_data_block c' = Some d" and id: "gd_index_block_id c' = gd_index_block_id c"
    using h c by (auto simp: graph_holds_def)
  obtain r rs' where rs: "rs = r # rs'" using assms(7) by (cases rs) auto
  have "graph_app r (c, os2) = graph_app r (c', os3)"
    using graph_app_first [OF db _ id] d by blast
  then have same: "log_append_all graph_app rs (c, os2) = log_append_all graph_app rs (c', os3)"
    by (simp add: rs)
  have "log_fits graph_fits es xs" if "length es + length xs < 2 ^ 32" "\<forall>r \<in> set xs. rec_ok r" for es xs
    using that by (induction xs arbitrary: es) (auto simp: graph_fits_def)
  then have fits: "log_fits graph_fits [] rs"
    using assms(8,9) by simp
  show ?thesis
    using graph_log.app_all_ok [OF h fits] by (auto simp: graph_session_def cr op same)
qed

text \<open>C5: A node inserted into a graph database is found again, with its edges and attributes.  After
  creating a database, opening it and inserting nodes, the ids are 0, 1, 2, ..., and a lookup of
  any of them through a new connection reads back the node, its counts, every edge and every
  attribute.\<close>

theorem graph_insert_find:
  assumes "reliable os" and "os_wf os" and "length dir < 128"
    and "block_fresh os dir (graph_id name)" and "block_fresh os dir 2" and "length name < 2 ^ 32 - 64"
    and "rs \<noteq> []" and "length rs < 2 ^ 32" and "\<forall>r \<in> set rs. rec_ok r" and "k < length rs"
  shows "\<exists>s s'. graph_session dir name rs os = Some ([0..<length rs], s)
    \<and> graph_get dir name k s = Some (rs ! k, s')"
proof -
  obtain s where s: "graph_session dir name rs os = Some ([0..<length rs], s)" "graph_holds dir name s rs"
    using graph_session_run [OF assms(1-9)] by blast
  show ?thesis
    using s graph_log.get_ok [OF s(2) assms(10)] by blast
qed

definition sample_rec :: graph_rec where
  "sample_rec = (\<lparr>ni_next_record_id = 0, ni_prev_record_id = 0, ni_edge_count = 1, ni_attr_count = 0\<rparr>,
     [\<lparr>ge_direction = 1, ge_node_id = 4\<rparr>], [])"

theorem graph_insert_find_witness:
  "\<exists>s s'. graph_session ''/d'' [103] [sample_rec] (fresh_os {''/d''}) = Some ([0], s)
    \<and> graph_get ''/d'' [103] 0 s = Some (sample_rec, s')"
  using graph_insert_find [of "fresh_os {''/d''}" "''/d''" "[103]" "[sample_rec]" 0]
  by (simp add: block_fresh_def sub_dir_def rec_ok_def sample_rec_def)

text \<open>An update makes the node unreachable.  When a node of the database is written again under its
  id, the code reports success and the new node becomes a record of the data block, but the index
  record is overwritten with the id of the index record itself, so it no longer leads to a node.\<close>

theorem graph_update_self_reference:
  assumes "reliable os" and "os_wf os" and "length dir < 128"
    and "block_fresh os dir (graph_id name)" and "block_fresh os dir 2" and "length name < 2 ^ 32 - 64"
    and "Suc (length rs) < 2 ^ 32" and "\<forall>r \<in> set rs. rec_ok r" and "k < length rs"
    and "rec_ok (n, edges, attrs)"
  shows "\<exists>c os1 c' os2 b di ii q. graph_session dir name rs os = Some ([0..<length rs], c, os1)
    \<and> graph_db_insert_internal c n attrs (of_nat (length attrs)) edges (of_nat (length edges))
        (graph_id name) (of_nat k) True os1 = Done (0, n, graph_id name, of_nat k, c', os2)
    \<and> gd_index_block c' = Some b
    \<and> block_at os2 b di ii ((map (\<lambda>k. enc_index_node (graph_ref k)) [0..<length rs])
        [k := enc_index_node \<lparr>gi_block_id = graph_id name, gi_record_id = of_nat k, gi_pad = 0\<rparr>]) q"
proof -
  have ne: "rs \<noteq> []" and len: "length rs < 2 ^ 32" using assms(7,9) by auto
  obtain c os1 where s: "graph_session dir name rs os = Some ([0..<length rs], c, os1)"
    and h: "graph_holds dir name (c, os1) rs"
    using graph_session_run [OF assms(1-6) ne len assms(8)] by force
  show ?thesis
    using s graph_reinsert_run [OF h assms(10,9,7)] by blast
qed

theorem graph_update_self_reference_witness:
  "\<exists>c os1 c' os2 b di ii q. graph_session ''/d'' [103] [sample_rec] (fresh_os {''/d''}) = Some ([0], c, os1)
    \<and> graph_db_insert_internal c (fst sample_rec) [] 0 (fst (snd sample_rec)) 1 (graph_id [103]) 0 True os1
        = Done (0, fst sample_rec, graph_id [103], 0, c', os2)
    \<and> gd_index_block c' = Some b
    \<and> block_at os2 b di ii [enc_index_node \<lparr>gi_block_id = graph_id [103], gi_record_id = 0, gi_pad = 0\<rparr>] q"
  using graph_update_self_reference [of "fresh_os {''/d''}" "''/d''" "[103]" "[sample_rec]" 0
      "fst sample_rec" "fst (snd sample_rec)" "[]"]
  by (simp add: block_fresh_def sub_dir_def rec_ok_def sample_rec_def)

end
