(* ===== verification/SeaSuper.thy ===== *)
theory SeaSuper
  imports SeaGraph
begin

text \<open>
  \<open>super_block.c\<close>: the super block of a controller remembers the id of the block that takes
  new records.  It lives in a structure of uninitialised memory and, as far as the code
  gets, in record 0 of a block of its own.
\<close>

section \<open>Operations\<close>

record controller_super_block =
  csb_controller_name :: "byte list"
  csb_dir :: "byte list"
  csb_block_id :: u64

text \<open>The C string that starts at the first of the bytes; none without a terminator.\<close>

definition c_string :: "byte list \<Rightarrow> byte list outcome" where
  "c_string bs = (if 0 \<in> set bs then Done (takeWhile (\<lambda>b. b \<noteq> 0) bs) else Undef)"

text \<open>
  A string read through a field runs on into the fields behind it until the first zero.
\<close>

definition csb_name_string :: "controller_super_block \<Rightarrow> byte list outcome" where
  "csb_name_string sb = c_string (csb_controller_name sb @ csb_dir sb @ bytes_of_u64 (csb_block_id sb))"

definition csb_dir_string :: "controller_super_block \<Rightarrow> byte list outcome" where
  "csb_dir_string sb = c_string (csb_dir sb @ bytes_of_u64 (csb_block_id sb))"

definition controller_get_block_id :: "byte list \<Rightarrow> byte list \<Rightarrow> u64 outcome" where
  "controller_get_block_id junk db_name =
     (case md5 junk db_name of
        None \<Rightarrow> Undef
      | Some output \<Rightarrow> Done (u64_of_bytes (take 8 (bytes_of_string output))))"

text \<open>The id of the super block's own block, and its directory, as the code derives them.\<close>

definition csb_locate :: "controller_super_block \<Rightarrow> os \<Rightarrow> (u64 \<times> string) outcome" where
  "csb_locate sb os =
     (case csb_name_string sb of
        Undef \<Rightarrow> Undef
      | Done name \<Rightarrow>
        (case controller_get_block_id (junk_bytes os 64) name of
           Undef \<Rightarrow> Undef
         | Done bid \<Rightarrow>
           (case csb_dir_string sb of Undef \<Rightarrow> Undef | Done dir \<Rightarrow> Done (bid, string_of_bytes dir))))"

text \<open>
  The block is opened, created if that failed, and opened again.  The query passes the value
  of the local \<open>block_id\<close>, which is 0, for the destination, and the local stays 0.
\<close>

definition sync_super_block_from_disk ::
    "controller_super_block \<Rightarrow> os \<Rightarrow> (int \<times> controller_super_block \<times> os) outcome" where
  "sync_super_block_from_disk sb os =
     (case csb_locate sb os of
        Undef \<Rightarrow> Undef
      | Done (bid, dir) \<Rightarrow>
        (let (block, os1) = sea_block_open dir bid os;
             os2 = (case block of
                      Some _ \<Rightarrow> os1
                    | None \<Rightarrow> snd (sea_block_create dir bid SEA_BLOCK_MAX_SIZE_DEFAULT SEA_BLOCK_MAX_COUNT_DEFAULT os1))
         in (case sea_block_open dir bid os2 of
               (None, os3) \<Rightarrow> Done (EINVAL, sb, os3)
             | (Some block, os3) \<Rightarrow>
               (case sea_block_query_by_record_id block 0 None 8 os3 of
                  Undef \<Rightarrow> Undef
                | Done (ret, ret_buf_len, _, os4) \<Rightarrow>
                  if ret = 0 \<and> ret_buf_len \<noteq> Some 0 \<and> ret_buf_len \<noteq> None
                  then Done (ret, sb, sea_block_close block os4)
                  else Done (0, sb\<lparr>csb_block_id := bid + 1\<rparr>, sea_block_close block os4)))))"

definition sync_super_block_to_disk ::
    "controller_super_block \<Rightarrow> os \<Rightarrow> (int \<times> os) outcome" where
  "sync_super_block_to_disk sb os =
     (case csb_locate sb os of
        Undef \<Rightarrow> Undef
      | Done (bid, dir) \<Rightarrow>
        (case sea_block_open dir bid os of
           (None, os1) \<Rightarrow> Done (EINVAL, os1)
         | (Some block, os1) \<Rightarrow>
           (case sea_block_update block 0 (bytes_of_u64 (csb_block_id sb)) 8 os1 of
              Undef \<Rightarrow> Undef
            | Done (ret, os2) \<Rightarrow> Done (ret, sea_block_close block os2))))"

text \<open>
  The name and the directory are copied without their terminators into memory that \<open>malloc\<close>
  does not clear; nothing is ever stored through \<open>error\<close>.
\<close>

definition controller_super_block_open_or_create ::
    "string \<Rightarrow> string \<Rightarrow> os \<Rightarrow> (controller_super_block option \<times> int option \<times> os) outcome" where
  "controller_super_block_open_or_create dir db_name os =
     (let (ok, os1) = c_malloc 4136 os
      in if \<not> ok then Done (None, None, os1)
         else if 32 < length db_name \<or> PATH_MAX < length dir then Undef
         else
           let junk = junk_bytes os1 4136;
               sb = \<lparr>csb_controller_name = put_at 0 (bytes_of_string db_name) (take 32 junk),
                     csb_dir = put_at 0 (bytes_of_string dir) (take PATH_MAX (drop 32 junk)),
                     csb_block_id = u64_of_bytes (drop (32 + PATH_MAX) junk)\<rparr>
           in (case sync_super_block_from_disk sb os1 of
                 Undef \<Rightarrow> Undef
               | Done (ret, sb1, os2) \<Rightarrow> Done (Some sb1, None, os2)))"

definition controller_super_block_get_block_id :: "controller_super_block \<Rightarrow> int \<times> u64" where
  "controller_super_block_get_block_id sb = (0, csb_block_id sb)"

definition controller_super_block_expire_block_id ::
    "controller_super_block \<Rightarrow> u64 \<Rightarrow> os \<Rightarrow> (int \<times> controller_super_block \<times> os) outcome" where
  "controller_super_block_expire_block_id sb block_id os =
     (let sb1 = sb\<lparr>csb_block_id := csb_block_id sb + 1\<rparr>
      in (case sync_super_block_to_disk sb1 os of
            Undef \<Rightarrow> Undef
          | Done (ret, os1) \<Rightarrow> Done (0, sb1, os1)))"

definition controller_super_block_close :: "controller_super_block \<Rightarrow> int" where
  "controller_super_block_close sb = 0"

section \<open>Strings in uninitialised memory\<close>

lemma byte_of_char_inject: "(of_char c :: byte) = of_char d \<longleftrightarrow> c = d"
proof -
  have u: "unat (of_char e :: byte) = of_char e" for e :: char
  proof -
    have "(of_char e :: nat) < 256" by simp
    then have "unat (of_nat (of_char e) :: byte) = of_char e" by (simp only: unat_of_nat) simp
    then show ?thesis by (simp only: of_nat_of_char)
  qed
  show ?thesis
  proof
    assume "(of_char c :: byte) = of_char d"
    then have "(of_char c :: nat) = of_char d" using u by metis
    then show "c = d" by simp
  qed simp
qed

lemma string_of_bytes_inverse [simp]: "string_of_bytes (bytes_of_string s) = s"
proof -
  have "char_of (unat (of_char c :: byte)) = c" for c :: char
  proof -
    have "(of_char c :: nat) < 256" by simp
    then have "unat (of_nat (of_char c) :: byte) = of_char c" by (simp only: unat_of_nat) simp
    then have "unat (of_char c :: byte) = of_char c" by (simp only: of_nat_of_char)
    then show ?thesis by simp
  qed
  then show ?thesis by (simp add: string_of_bytes_def bytes_of_string_def comp_def)
qed

lemma c_string_prefix: "0 \<notin> set s \<Longrightarrow> c_string (s @ 0 # xs) = Done s"
proof -
  assume "0 \<notin> set s"
  then have "\<And>x. x \<in> set s \<Longrightarrow> x \<noteq> 0" by blast
  then have "takeWhile (\<lambda>b. b \<noteq> 0) (s @ 0 # xs) = s @ takeWhile (\<lambda>b. b \<noteq> 0) (0 # xs)"
    by (rule takeWhile_append2)
  then show ?thesis by (simp add: c_string_def)
qed

text \<open>The directory and name of a super block as its fields spell them.\<close>

definition csb_names :: "controller_super_block \<Rightarrow> string \<Rightarrow> string \<Rightarrow> bool" where
  "csb_names sb dir name \<longleftrightarrow>
     (\<exists>t1 t2. csb_controller_name sb = bytes_of_string name @ 0 # t1 \<and> csb_dir sb = bytes_of_string dir @ 0 # t2)
     \<and> 0 \<notin> set (bytes_of_string name) \<and> 0 \<notin> set (bytes_of_string dir)"

lemma csb_names_block_id [simp]: "csb_names (sb\<lparr>csb_block_id := b\<rparr>) dir name = csb_names sb dir name"
  by (simp add: csb_names_def)

lemma csb_locate_run:
  assumes "csb_names sb dir name" and "length name \<le> 32"
  shows "csb_locate sb os = Done (graph_id (bytes_of_string name), dir)"
proof -
  obtain t1 t2 where "csb_controller_name sb = bytes_of_string name @ 0 # t1" "csb_dir sb = bytes_of_string dir @ 0 # t2"
    "0 \<notin> set (bytes_of_string name)" "0 \<notin> set (bytes_of_string dir)"
    using assms(1) by (auto simp: csb_names_def)
  then have s: "csb_name_string sb = Done (bytes_of_string name)" "csb_dir_string sb = Done (bytes_of_string dir)"
    by (simp_all add: csb_name_string_def csb_dir_string_def c_string_prefix)
  have "controller_get_block_id (junk_bytes os 64) (bytes_of_string name)
      = graph_db_get_block_id (junk_bytes os 64) (bytes_of_string name)"
    by (simp add: controller_get_block_id_def graph_db_get_block_id_def)
  then show ?thesis
    using assms(2) s by (simp add: csb_locate_def graph_block_id)
qed

section \<open>Opening and expiring\<close>

lemma block_at_errno [simp]: "block_at (os\<lparr>os_errno := e\<rparr>) b di ii ds q = block_at os b di ii ds q"
  by (simp add: block_at_def index_wf_def fd_at_def)

lemma os_ext_errno [simp]: "os_ext a (b\<lparr>os_errno := e\<rparr>) = os_ext a b"
  by (simp add: os_ext_def reliable_def os_wf_def)

text \<open>With an empty block on disk, the id after the block's own is the current one.\<close>

lemma sync_from_disk_empty:
  assumes "reliable os" and "os_wf os" and disk: "block_on_disk os dir bid di ii []"
    and loc: "csb_locate sb os = Done (bid, dir)"
  shows "\<exists>os'. sync_super_block_from_disk sb os = Done (0, sb\<lparr>csb_block_id := bid + 1\<rparr>, os') \<and> os_ext os os'"
proof -
  obtain b1 os1 where o1: "sea_block_open dir bid os = (Some b1, os1)" and e1: "os_ext os os1"
    using block_reopen [OF assms(1-3)] by blast
  have r1: "reliable os1" "os_wf os1" using e1 by (simp_all add: os_ext_def)
  have d1: "block_on_disk os1 dir bid di ii []" using disk os_ext_on_disk [OF e1] by simp
  obtain b2 os2 where o2: "sea_block_open dir bid os1 = (Some b2, os2)" and at2: "block_at os2 b2 di ii [] 0"
    and e2: "os_ext os1 os2" and f2: "block_fds b2 \<subseteq> {os_next_fd os1..}"
    using block_reopen [OF r1 d1] by blast
  have q: "sea_block_query_by_record_id b2 0 None 8 os2 = Done (EINVAL, None, None, os2\<lparr>os_errno := C_EOF\<rparr>)"
    by (rule block_query_missing [OF at2]) simp
  let ?os3 = "sea_block_close b2 (os2\<lparr>os_errno := C_EOF\<rparr>)"
  have "os_ext os1 ?os3"
    by (rule os_ext_close [OF _ _ f2 r1(2)]) (use e2 at2 in simp_all)
  then have "os_ext os ?os3" using e1 os_ext_trans by blast
  then show ?thesis
    using o1 o2 q loc by (simp add: sync_super_block_from_disk_def EINVAL_def)
qed

lemma sync_from_disk_fresh:
  assumes rel: "reliable os" and wf: "os_wf os" and dir: "length dir + 48 < PATH_MAX"
    and fresh: "block_fresh os dir bid" and loc: "csb_locate sb os = Done (bid, dir)"
  shows "\<exists>os' di ii. sync_super_block_from_disk sb os = Done (0, sb\<lparr>csb_block_id := bid + 1\<rparr>, os')
    \<and> block_on_disk os' dir bid di ii [] \<and> reliable os' \<and> os_wf os'
    \<and> os_names os' = (os_names os)(sea_block_index_filename dir bid PATH_MAX \<mapsto> ii,
          sea_block_data_filename dir bid PATH_MAX \<mapsto> di)
    \<and> os_dirs os' = insert (sub_dir dir bid) (os_dirs os) \<and> os_junk os' = os_junk os
    \<and> os_next_ino os \<le> ii \<and> os_next_ino os \<le> di \<and> disk_max os' ii = unat SEA_BLOCK_MAX_COUNT_DEFAULT
    \<and> (\<forall>j < os_next_ino os. os_inodes os' j = os_inodes os j)"
proof -
  let ?os1 = "(ticked (ticked (ticked os)))\<lparr>os_errno := ENOENT\<rparr>"
  have new: "os_names os (sea_block_data_filename dir bid PATH_MAX) = None"
    using fresh by (simp add: block_fresh_def)
  have o1: "sea_block_open dir bid os = (None, ?os1)"
    by (rule block_open_missing [OF rel new])
  have r1: "reliable ?os1" "os_wf ?os1" "block_fresh ?os1 dir bid"
    using rel wf fresh by (simp_all add: reliable_def os_wf_def block_fresh_def ticked_def)
  obtain os2 di ii where c: "sea_block_create dir bid SEA_BLOCK_MAX_SIZE_DEFAULT SEA_BLOCK_MAX_COUNT_DEFAULT ?os1 = (0, os2)"
    and d2: "block_on_disk os2 dir bid di ii []" and r2: "reliable os2" "os_wf os2"
    and n2: "os_names os2 = (os_names ?os1)(sea_block_index_filename dir bid PATH_MAX \<mapsto> ii,
          sea_block_data_filename dir bid PATH_MAX \<mapsto> di)"
    and ds2: "os_dirs os2 = insert (sub_dir dir bid) (os_dirs ?os1)" and j2: "os_junk os2 = os_junk ?os1"
    and m2: "disk_max os2 ii = unat SEA_BLOCK_MAX_COUNT_DEFAULT" and k2: "os_next_ino ?os1 \<le> ii" "os_next_ino ?os1 \<le> di"
      "\<forall>j < os_next_ino ?os1. os_inodes os2 j = os_inodes ?os1 j"
    using block_create_ok [OF r1(1,2) dir r1(3), of SEA_BLOCK_MAX_SIZE_DEFAULT SEA_BLOCK_MAX_COUNT_DEFAULT]
    by (auto simp: SEA_BLOCK_MAX_COUNT_DEFAULT_def)
  obtain b3 os3 where o3: "sea_block_open dir bid os2 = (Some b3, os3)" and at3: "block_at os3 b3 di ii [] 0"
    and e3: "os_ext os2 os3" and f3: "block_fds b3 \<subseteq> {os_next_fd os2..}"
    using block_reopen [OF r2 d2] by blast
  have q: "sea_block_query_by_record_id b3 0 None 8 os3 = Done (EINVAL, None, None, os3\<lparr>os_errno := C_EOF\<rparr>)"
    by (rule block_query_missing [OF at3]) simp
  let ?os4 = "sea_block_close b3 (os3\<lparr>os_errno := C_EOF\<rparr>)"
  have e4: "os_ext os2 ?os4"
    by (rule os_ext_close [OF _ _ f3 r2(2)]) (use e3 at3 in simp_all)
  have "sync_super_block_from_disk sb os = Done (0, sb\<lparr>csb_block_id := bid + 1\<rparr>, ?os4)"
    using o1 c o3 q loc by (simp add: sync_super_block_from_disk_def EINVAL_def)
  moreover have "block_on_disk ?os4 dir bid di ii []"
    using d2 os_ext_on_disk [OF e4] by simp
  moreover have "reliable ?os4" "os_wf ?os4" "os_names ?os4 = os_names os2" "os_dirs ?os4 = os_dirs os2" "os_junk ?os4 = os_junk os2"
    using e4 by (simp_all add: os_ext_def)
  moreover have "os_names ?os1 = os_names os" "os_dirs ?os1 = os_dirs os" "os_junk ?os1 = os_junk os" by simp_all
  moreover have "disk_max ?os4 ii = unat SEA_BLOCK_MAX_COUNT_DEFAULT" "os_next_ino os \<le> ii" "os_next_ino os \<le> di"
    "\<forall>j < os_next_ino os. os_inodes ?os4 j = os_inodes os j"
    using e4 m2 k2 by (simp_all add: os_ext_def disk_max_def)
  ultimately show ?thesis
    using n2 ds2 j2 by (metis (no_types, lifting))
qed

text \<open>Writing the super block back fails: its block has no record to update.\<close>

lemma block_update_missing:
  assumes "block_at os b di ii [] q"
  shows "sea_block_update b r d n os = Done (EINVAL, os\<lparr>os_errno := C_EOF\<rparr>)"
proof -
  obtain dfd ix es fs where "sb_data b = Some \<lparr>sd_fd = dfd\<rparr>" "sb_index b = Some ix"
    "block_files (ix_header ix) es fs []"
    by (rule block_atE [OF assms])
  then show ?thesis
    by (simp add: sea_block_update_def index_query_by_record_id_end block_files_def)
qed

lemma sync_to_disk_empty:
  assumes "reliable os" and "os_wf os" and disk: "block_on_disk os dir bid di ii []"
    and loc: "csb_locate sb os = Done (bid, dir)"
  shows "\<exists>os'. sync_super_block_to_disk sb os = Done (EINVAL, os') \<and> os_ext os os'"
proof -
  obtain b1 os1 where o1: "sea_block_open dir bid os = (Some b1, os1)" and at1: "block_at os1 b1 di ii [] 0"
    and e1: "os_ext os os1" and f1: "block_fds b1 \<subseteq> {os_next_fd os..}"
    using block_reopen [OF assms(1-3)] by blast
  have "os_ext os (sea_block_close b1 (os1\<lparr>os_errno := C_EOF\<rparr>))"
    by (rule os_ext_close [OF _ _ f1 assms(2)]) (use e1 at1 in simp_all)
  then show ?thesis
    using o1 block_update_missing [OF at1] loc by (simp add: sync_super_block_to_disk_def)
qed

text \<open>The memory \<open>malloc\<close> returns is zero right behind the name and behind the directory.\<close>

definition super_memory :: "os \<Rightarrow> string \<Rightarrow> string \<Rightarrow> bool" where
  "super_memory os dir name \<longleftrightarrow> length name < 32 \<and> length dir + 48 < PATH_MAX
     \<and> 0 \<notin> set (bytes_of_string name) \<and> 0 \<notin> set (bytes_of_string dir)
     \<and> os_junk os (length name) = 0 \<and> os_junk os (32 + length dir) = 0"

lemma super_open_fields:
  assumes rel: "reliable os" and mem: "super_memory os dir name"
  shows "\<exists>sb. controller_super_block_open_or_create dir name os =
      (case sync_super_block_from_disk sb (ticked os) of
         Undef \<Rightarrow> Undef | Done (ret, sb1, os2) \<Rightarrow> Done (Some sb1, None, os2))
    \<and> csb_names sb dir name"
proof -
  let ?j = "junk_bytes (ticked os) 4136"
  have jl: "length ?j = 4136" by simp
  have at: "?j ! k = os_junk os k" if "k < 4136" for k
    using that by (simp add: junk_bytes_def)
  have len: "length name < 32" "length dir < 4048" and z: "os_junk os (length name) = 0" "os_junk os (32 + length dir) = 0"
    using mem by (simp_all add: super_memory_def PATH_MAX_def)
  have "drop (length name) (take 32 ?j) = 0 # drop (Suc (length name)) (take 32 ?j)"
    using len z at [of "length name"] by (subst Cons_nth_drop_Suc [symmetric]) simp_all
  moreover have "drop (length dir) (take PATH_MAX (drop 32 ?j)) = 0 # drop (Suc (length dir)) (take PATH_MAX (drop 32 ?j))"
    using len z at [of "32 + length dir"] by (subst Cons_nth_drop_Suc [symmetric]) (simp_all add: PATH_MAX_def)
  ultimately have names: "csb_names \<lparr>csb_controller_name = put_at 0 (bytes_of_string name) (take 32 ?j),
      csb_dir = put_at 0 (bytes_of_string dir) (take PATH_MAX (drop 32 ?j)),
      csb_block_id = u64_of_bytes (drop (32 + PATH_MAX) ?j)\<rparr> dir name"
    using mem unfolding csb_names_def super_memory_def put_at_def by simp
  have "\<not> (32 < length name \<or> PATH_MAX < length dir)"
    using len by (simp add: PATH_MAX_def)
  then show ?thesis
    using rel names unfolding controller_super_block_open_or_create_def Let_def
    by (intro exI conjI) (simp_all del: take_drop)
qed

lemma super_memory_ticked [simp]: "super_memory (ticked os) dir name = super_memory os dir name"
  by (simp add: super_memory_def)

lemma super_open_fresh:
  assumes rel: "reliable os" and wf: "os_wf os" and mem: "super_memory os dir name"
    and fresh: "block_fresh os dir (graph_id (bytes_of_string name))"
  shows "\<exists>sb os' di ii. controller_super_block_open_or_create dir name os = Done (Some sb, None, os')
    \<and> csb_block_id sb = graph_id (bytes_of_string name) + 1 \<and> csb_names sb dir name
    \<and> block_on_disk os' dir (graph_id (bytes_of_string name)) di ii [] \<and> reliable os' \<and> os_wf os'
    \<and> os_names os' = (os_names os)(sea_block_index_filename dir (graph_id (bytes_of_string name)) PATH_MAX \<mapsto> ii,
          sea_block_data_filename dir (graph_id (bytes_of_string name)) PATH_MAX \<mapsto> di)
    \<and> os_dirs os' = insert (sub_dir dir (graph_id (bytes_of_string name))) (os_dirs os)
    \<and> os_junk os' = os_junk os \<and> os_next_ino os \<le> ii \<and> os_next_ino os \<le> di
    \<and> disk_max os' ii = unat SEA_BLOCK_MAX_COUNT_DEFAULT
    \<and> (\<forall>j < os_next_ino os. os_inodes os' j = os_inodes os j)"
proof -
  let ?id = "graph_id (bytes_of_string name)"
  obtain sb where c: "controller_super_block_open_or_create dir name os =
      (case sync_super_block_from_disk sb (ticked os) of
         Undef \<Rightarrow> Undef | Done (ret, sb1, os2) \<Rightarrow> Done (Some sb1, None, os2))" and n: "csb_names sb dir name"
    using super_open_fields [OF rel mem] by blast
  have len: "length name \<le> 32" "length dir + 48 < PATH_MAX" using mem by (simp_all add: super_memory_def)
  have t: "reliable (ticked os)" "os_wf (ticked os)" "block_fresh (ticked os) dir ?id"
    using rel wf fresh by simp_all
  from sync_from_disk_fresh [OF t(1,2) len(2) t(3) csb_locate_run [OF n len(1)]]
  obtain os' di ii where s: "sync_super_block_from_disk sb (ticked os) = Done (0, sb\<lparr>csb_block_id := ?id + 1\<rparr>, os')"
    "block_on_disk os' dir ?id di ii []" "reliable os'" "os_wf os'"
    "os_names os' = (os_names (ticked os))(sea_block_index_filename dir ?id PATH_MAX \<mapsto> ii,
          sea_block_data_filename dir ?id PATH_MAX \<mapsto> di)"
    "os_dirs os' = insert (sub_dir dir ?id) (os_dirs (ticked os))" "os_junk os' = os_junk (ticked os)"
    "os_next_ino (ticked os) \<le> ii" "os_next_ino (ticked os) \<le> di" "disk_max os' ii = unat SEA_BLOCK_MAX_COUNT_DEFAULT"
    "\<forall>j < os_next_ino (ticked os). os_inodes os' j = os_inodes (ticked os) j"
    by blast
  then show ?thesis
    using c n by (intro exI [of _ "sb\<lparr>csb_block_id := ?id + 1\<rparr>"] exI [of _ os'] exI [of _ di] exI [of _ ii]) simp
qed

lemma super_open_again:
  assumes rel: "reliable os" and wf: "os_wf os" and mem: "super_memory os dir name"
    and disk: "block_on_disk os dir (graph_id (bytes_of_string name)) di ii []"
  shows "\<exists>sb os'. controller_super_block_open_or_create dir name os = Done (Some sb, None, os')
    \<and> csb_block_id sb = graph_id (bytes_of_string name) + 1 \<and> csb_names sb dir name \<and> os_ext os os'"
proof -
  let ?id = "graph_id (bytes_of_string name)"
  obtain sb where c: "controller_super_block_open_or_create dir name os =
      (case sync_super_block_from_disk sb (ticked os) of
         Undef \<Rightarrow> Undef | Done (ret, sb1, os2) \<Rightarrow> Done (Some sb1, None, os2))" and n: "csb_names sb dir name"
    using super_open_fields [OF rel mem] by blast
  have len: "length name \<le> 32" using mem by (simp add: super_memory_def)
  have e: "os_ext os (ticked os)" by (intro os_ext_ticked os_ext_refl rel wf)
  have t: "reliable (ticked os)" "os_wf (ticked os)" "block_on_disk (ticked os) dir ?id di ii []"
    using rel wf disk os_ext_on_disk [OF e] by simp_all
  from sync_from_disk_empty [OF t csb_locate_run [OF n len]]
  obtain os' where s: "sync_super_block_from_disk sb (ticked os) = Done (0, sb\<lparr>csb_block_id := ?id + 1\<rparr>, os')"
    "os_ext (ticked os) os'"
    by blast
  have "os_ext os os'" using e s(2) os_ext_trans by blast
  then show ?thesis
    using c n s by (intro exI [of _ "sb\<lparr>csb_block_id := ?id + 1\<rparr>"] exI [of _ os']) simp
qed

text \<open>Expiring changes the structure in memory and no file.\<close>

lemma super_expire_run:
  assumes "reliable os" and "os_wf os" and n: "csb_names sb dir name" and len: "length name \<le> 32"
    and disk: "block_on_disk os dir (graph_id (bytes_of_string name)) di ii []"
  shows "\<exists>os'. controller_super_block_expire_block_id sb bid os
      = Done (0, sb\<lparr>csb_block_id := csb_block_id sb + 1\<rparr>, os') \<and> os_ext os os'"
proof -
  let ?sb = "sb\<lparr>csb_block_id := csb_block_id sb + 1\<rparr>"
  have "csb_locate ?sb os = Done (graph_id (bytes_of_string name), dir)"
    by (rule csb_locate_run) (use n len in simp_all)
  from sync_to_disk_empty [OF assms(1,2) disk this] show ?thesis
    by (auto simp: controller_super_block_expire_block_id_def)
qed

section \<open>Properties\<close>

text \<open>An expired block id comes back after a restart.  A super block opened for the first time hands out
  the id after its own; expiring that id moves the structure in memory on and reports success,
  but opening the super block again, from the files as they then are, hands out the expired id
  once more.\<close>

theorem super_expire_is_lost:
  assumes "reliable os" and "os_wf os" and mem: "super_memory os dir name"
    and "block_fresh os dir (graph_id (bytes_of_string name))"
  shows "\<exists>sb os1 sb1 os2 sb2 os3. controller_super_block_open_or_create dir name os = Done (Some sb, None, os1)
    \<and> controller_super_block_get_block_id sb = (0, graph_id (bytes_of_string name) + 1)
    \<and> controller_super_block_expire_block_id sb (csb_block_id sb) os1 = Done (0, sb1, os2)
    \<and> controller_super_block_get_block_id sb1 = (0, graph_id (bytes_of_string name) + 2)
    \<and> controller_super_block_open_or_create dir name os2 = Done (Some sb2, None, os3)
    \<and> controller_super_block_get_block_id sb2 = (0, graph_id (bytes_of_string name) + 1)"
proof -
  let ?id = "graph_id (bytes_of_string name)"
  have len: "length name \<le> 32" using mem by (simp add: super_memory_def)
  obtain sb os1 di ii where o1: "controller_super_block_open_or_create dir name os = Done (Some sb, None, os1)"
    and id: "csb_block_id sb = ?id + 1" and n: "csb_names sb dir name" and d1: "block_on_disk os1 dir ?id di ii []"
    and r1: "reliable os1" "os_wf os1" and j1: "os_junk os1 = os_junk os"
    using super_open_fresh [OF assms] by blast
  obtain os2 where e2: "controller_super_block_expire_block_id sb (csb_block_id sb) os1
      = Done (0, sb\<lparr>csb_block_id := csb_block_id sb + 1\<rparr>, os2)" and x2: "os_ext os1 os2"
    using super_expire_run [OF r1 n len d1] by blast
  have r2: "reliable os2" "os_wf os2" and j2: "os_junk os2 = os_junk os1"
    using x2 by (simp_all add: os_ext_def)
  have m2: "super_memory os2 dir name"
    using mem j1 j2 by (simp add: super_memory_def)
  have d2: "block_on_disk os2 dir ?id di ii []" using d1 os_ext_on_disk [OF x2] by simp
  obtain sb2 os3 where o3: "controller_super_block_open_or_create dir name os2 = Done (Some sb2, None, os3)"
    and id3: "csb_block_id sb2 = ?id + 1"
    using super_open_again [OF r2 m2 d2] by blast
  have "controller_super_block_get_block_id sb = (0, ?id + 1)" "controller_super_block_get_block_id sb2 = (0, ?id + 1)"
    "controller_super_block_get_block_id (sb\<lparr>csb_block_id := csb_block_id sb + 1\<rparr>) = (0, ?id + 2)"
    by (simp_all add: controller_super_block_get_block_id_def id id3)
  then show ?thesis
    using o1 e2 o3 by blast
qed

theorem super_expire_is_lost_witness:
  "\<exists>sb os1 sb1 os2 sb2 os3. controller_super_block_open_or_create ''/d'' ''c'' (fresh_os {''/d''}) = Done (Some sb, None, os1)
    \<and> controller_super_block_get_block_id sb = (0, graph_id (bytes_of_string ''c'') + 1)
    \<and> controller_super_block_expire_block_id sb (csb_block_id sb) os1 = Done (0, sb1, os2)
    \<and> controller_super_block_get_block_id sb1 = (0, graph_id (bytes_of_string ''c'') + 2)
    \<and> controller_super_block_open_or_create ''/d'' ''c'' os2 = Done (Some sb2, None, os3)
    \<and> controller_super_block_get_block_id sb2 = (0, graph_id (bytes_of_string ''c'') + 1)"
proof (rule super_expire_is_lost)
  show "super_memory (fresh_os {''/d''}) ''/d'' ''c''"
    by (simp add: super_memory_def PATH_MAX_def fresh_os_def bytes_of_string_def)
  show "block_fresh (fresh_os {''/d''}) ''/d'' (graph_id (bytes_of_string ''c''))"
    by (simp add: block_fresh_def sub_dir_def)
qed simp_all

end
