(* ===== verification/SeaKhash.thy ===== *)
theory SeaKhash
  imports SeaOS SeaLog
begin

text \<open>
  The hash table of \<open>khash.h\<close> as \<open>KHASH_MAP_INIT_INT64\<close> instantiates it: open addressing
  with triangular probing, two flag bits per bucket, and a rehash that works in place.  The
  operations come first.  \<open>kh_wf\<close> is the invariant of a table, \<open>kh_map\<close> the finite map it
  stands for; the lemmas show that the probe loops end and what lookup, insertion and
  deletion do to the map.
\<close>

section \<open>The table\<close>

text \<open>
  The flag word of sixteen buckets is one two-bit word per bucket.  A value no one has
  stored is \<open>None\<close>; the key of a bucket no one has filled is never read.
\<close>

record 'v khash =
  kh_n_buckets :: u32
  kh_size :: u32
  kh_n_occupied :: u32
  kh_upper_bound :: u32
  kh_flags :: "2 word list"
  kh_keys :: "u64 list"
  kh_vals :: "'v option list"

definition ac_isempty :: "2 word list \<Rightarrow> u32 \<Rightarrow> bool" where
  "ac_isempty flags i \<longleftrightarrow> bit (flags ! unat i) 1"

definition ac_isdel :: "2 word list \<Rightarrow> u32 \<Rightarrow> bool" where
  "ac_isdel flags i \<longleftrightarrow> bit (flags ! unat i) 0"

definition ac_iseither :: "2 word list \<Rightarrow> u32 \<Rightarrow> bool" where
  "ac_iseither flags i \<longleftrightarrow> flags ! unat i \<noteq> 0"

definition ac_set_isempty_false :: "2 word list \<Rightarrow> u32 \<Rightarrow> 2 word list" where
  "ac_set_isempty_false flags i = flags[unat i := flags ! unat i AND 1]"

definition ac_set_isboth_false :: "2 word list \<Rightarrow> u32 \<Rightarrow> 2 word list" where
  "ac_set_isboth_false flags i = flags[unat i := 0]"

definition ac_set_isdel_true :: "2 word list \<Rightarrow> u32 \<Rightarrow> 2 word list" where
  "ac_set_isdel_true flags i = flags[unat i := flags ! unat i OR 1]"

definition kroundup32 :: "u32 \<Rightarrow> u32" where
  "kroundup32 x =
     (let x = x - 1; x = x OR drop_bit 1 x; x = x OR drop_bit 2 x; x = x OR drop_bit 4 x;
          x = x OR drop_bit 8 x; x = x OR drop_bit 16 x
      in x + 1)"

text \<open>
  \<open>(khint_t)(n * 0.77 + 0.5)\<close>.  For a power of two above 2 the product is never within
  rounding error of a half, so the double computation is this integer division.
\<close>

definition ac_HASH_UPPER :: "u32 \<Rightarrow> u32" where
  "ac_HASH_UPPER n = of_nat ((77 * unat n + 50) div 100)"

definition kh_int64_hash_func :: "u64 \<Rightarrow> u32" where
  "kh_int64_hash_func key = ucast (drop_bit 33 key XOR key XOR push_bit 11 key)"

definition kh_init :: "os \<Rightarrow> 'v khash option \<times> os" where
  "kh_init os =
     (let (ok, os1) = c_malloc 40 os
      in (if ok then Some \<lparr>kh_n_buckets = 0, kh_size = 0, kh_n_occupied = 0, kh_upper_bound = 0,
                          kh_flags = [], kh_keys = [], kh_vals = []\<rparr> else None, os1))"

definition kh_clear :: "'v khash \<Rightarrow> 'v khash" where
  "kh_clear h =
     (if kh_flags h = [] then h
      else h\<lparr>kh_flags := replicate (unat (kh_n_buckets h)) 2, kh_size := 0, kh_n_occupied := 0\<rparr>)"

section \<open>Lookup\<close>

text \<open>
  The loops take fuel; \<open>None\<close> is running out of it.  The probe sequence returns to its
  start after \<open>2 n\<close> steps at the latest, which is the fuel given.
\<close>

fun kh_get_loop :: "nat \<Rightarrow> 'v khash \<Rightarrow> u64 \<Rightarrow> u32 \<Rightarrow> u32 \<Rightarrow> u32 \<Rightarrow> u32 option" where
  "kh_get_loop 0 h key last_i i step = None"
| "kh_get_loop (Suc fuel) h key last_i i step =
     (if \<not> ac_isempty (kh_flags h) i \<and> (ac_isdel (kh_flags h) i \<or> kh_keys h ! unat i \<noteq> key)
      then let step = step + 1; i = (i + step) AND (kh_n_buckets h - 1)
           in if i = last_i then Some (kh_n_buckets h) else kh_get_loop fuel h key last_i i step
      else Some (if ac_iseither (kh_flags h) i then kh_n_buckets h else i))"

definition kh_get :: "'v khash \<Rightarrow> u64 \<Rightarrow> u32 option" where
  "kh_get h key =
     (if kh_n_buckets h \<noteq> 0
      then let i = kh_int64_hash_func key AND (kh_n_buckets h - 1)
           in kh_get_loop (2 * unat (kh_n_buckets h)) h key i i 0
      else Some 0)"

section \<open>Rehashing\<close>

text \<open>The first empty bucket of the new table on the probe path.\<close>

fun kh_free_slot :: "nat \<Rightarrow> 2 word list \<Rightarrow> u32 \<Rightarrow> u32 \<Rightarrow> u32 \<Rightarrow> u32 option" where
  "kh_free_slot 0 new_flags new_mask i step = None"
| "kh_free_slot (Suc fuel) new_flags new_mask i step =
     (if \<not> ac_isempty new_flags i
      then let step = step + 1 in kh_free_slot fuel new_flags new_mask ((i + step) AND new_mask) step
      else Some i)"

text \<open>The kick-out process: a displaced element becomes the next one to place.\<close>

fun kh_kick_out ::
    "nat \<Rightarrow> u32 \<Rightarrow> 'v khash \<Rightarrow> 2 word list \<Rightarrow> u64 \<Rightarrow> 'v option \<Rightarrow> ('v khash \<times> 2 word list) option" where
  "kh_kick_out 0 new_n h new_flags key val = None"
| "kh_kick_out (Suc fuel) new_n h new_flags key val =
     (let new_mask = new_n - 1
      in (case kh_free_slot (2 * unat new_n) new_flags new_mask
                 (kh_int64_hash_func key AND new_mask) 0 of
            None \<Rightarrow> None
          | Some i \<Rightarrow>
            (let new_flags1 = ac_set_isempty_false new_flags i;
                 h1 = h\<lparr>kh_keys := (kh_keys h)[unat i := key], kh_vals := (kh_vals h)[unat i := val]\<rparr>
             in if i < kh_n_buckets h \<and> \<not> ac_iseither (kh_flags h) i
                then kh_kick_out fuel new_n (h1\<lparr>kh_flags := ac_set_isdel_true (kh_flags h) i\<rparr>) new_flags1
                       (kh_keys h ! unat i) (kh_vals h ! unat i)
                else Some (h1, new_flags1))))"

fun kh_rehash :: "nat list \<Rightarrow> u32 \<Rightarrow> 'v khash \<Rightarrow> 2 word list \<Rightarrow> ('v khash \<times> 2 word list) option" where
  "kh_rehash [] new_n h new_flags = Some (h, new_flags)"
| "kh_rehash (j # js) new_n h new_flags =
     (if \<not> ac_iseither (kh_flags h) (of_nat j)
      then (case kh_kick_out (Suc (unat new_n)) new_n
                   (h\<lparr>kh_flags := ac_set_isdel_true (kh_flags h) (of_nat j)\<rparr>) new_flags
                   (kh_keys h ! j) (kh_vals h ! j) of
              None \<Rightarrow> None
            | Some (h1, new_flags1) \<Rightarrow> kh_rehash js new_n h1 new_flags1)
      else kh_rehash js new_n h new_flags)"

text \<open>\<open>realloc\<close> of the arrays: what is added is indeterminate, what is cut off is lost.\<close>

definition kh_realloc :: "u32 \<Rightarrow> 'v khash \<Rightarrow> 'v khash" where
  "kh_realloc n h =
     h\<lparr>kh_keys := take (unat n) (kh_keys h @ replicate (unat n - length (kh_keys h)) 0),
       kh_vals := take (unat n) (kh_vals h @ replicate (unat n - length (kh_vals h)) None)\<rparr>"

definition kh_resize_rehash ::
    "u32 \<Rightarrow> 'v khash \<Rightarrow> os \<Rightarrow> (int \<times> 'v khash \<times> os) option" where
  "kh_resize_rehash new_n h os =
     (case kh_rehash [0..<unat (kh_n_buckets h)] new_n h (replicate (unat new_n) 2) of
        None \<Rightarrow> None
      | Some (h1, new_flags) \<Rightarrow>
        let h2 = (if new_n < kh_n_buckets h1 then kh_realloc new_n h1 else h1)
        in Some (0, h2\<lparr>kh_flags := new_flags, kh_n_buckets := new_n, kh_n_occupied := kh_size h2,
                       kh_upper_bound := ac_HASH_UPPER new_n\<rparr>, os))"

definition kh_resize :: "'v khash \<Rightarrow> u32 \<Rightarrow> os \<Rightarrow> (int \<times> 'v khash \<times> os) option" where
  "kh_resize h new_n_buckets os =
     (let new_n = kroundup32 new_n_buckets;
          new_n = (if new_n < 4 then 4 else new_n)
      in if ac_HASH_UPPER new_n \<le> kh_size h then Some (0, h, os)
         else
           let (ok, os1) = c_malloc (int (4 * (if new_n < 16 then 1 else unat new_n div 16))) os
           in if \<not> ok then Some (- 1, h, os1)
              else if kh_n_buckets h < new_n then
                let (ok2, os2) = c_malloc (int (unat new_n * 8)) os1
                in if \<not> ok2 then Some (- 1, h, os2)
                   else
                     let (ok3, os3) = c_malloc (int (unat new_n * 8)) os2
                     in if \<not> ok3 then Some (- 1, h, os3)
                        else kh_resize_rehash new_n (kh_realloc new_n h) os3
              else kh_resize_rehash new_n h os1)"

section \<open>Insertion and deletion\<close>

text \<open>
  The loop of \<open>kh_put\<close> ends at a bucket with the key, at an empty bucket, or back at its
  start; it yields the last index, the last deleted bucket seen and whether it went round.
\<close>

fun kh_put_loop :: "nat \<Rightarrow> 'v khash \<Rightarrow> u64 \<Rightarrow> u32 \<Rightarrow> u32 \<Rightarrow> u32 \<Rightarrow> u32 \<Rightarrow> (u32 \<times> u32 \<times> bool) option" where
  "kh_put_loop 0 h key last_i i step site = None"
| "kh_put_loop (Suc fuel) h key last_i i step site =
     (if \<not> ac_isempty (kh_flags h) i \<and> (ac_isdel (kh_flags h) i \<or> kh_keys h ! unat i \<noteq> key)
      then let site = (if ac_isdel (kh_flags h) i then i else site);
               step = step + 1; i = (i + step) AND (kh_n_buckets h - 1)
           in if i = last_i then Some (i, site, True) else kh_put_loop fuel h key last_i i step site
      else Some (i, site, False))"

definition kh_put_slot :: "'v khash \<Rightarrow> u64 \<Rightarrow> u32 option" where
  "kh_put_slot h key =
     (let n = kh_n_buckets h; i = kh_int64_hash_func key AND (n - 1)
      in if ac_isempty (kh_flags h) i then Some i
         else
           (case kh_put_loop (2 * unat n) h key i i 0 n of
              None \<Rightarrow> None
            | Some (i, site, round) \<Rightarrow>
              let x = (if round then site else n)
              in Some (if x = n
                       then (if ac_isempty (kh_flags h) i \<and> site \<noteq> n then site else i)
                       else x)))"

definition kh_put_at :: "'v khash \<Rightarrow> u64 \<Rightarrow> u32 \<Rightarrow> int \<times> 'v khash" where
  "kh_put_at h key x =
     (if ac_isempty (kh_flags h) x then
        (1, h\<lparr>kh_keys := (kh_keys h)[unat x := key], kh_flags := ac_set_isboth_false (kh_flags h) x,
              kh_size := kh_size h + 1, kh_n_occupied := kh_n_occupied h + 1\<rparr>)
      else if ac_isdel (kh_flags h) x then
        (2, h\<lparr>kh_keys := (kh_keys h)[unat x := key], kh_flags := ac_set_isboth_false (kh_flags h) x,
              kh_size := kh_size h + 1\<rparr>)
      else (0, h))"

definition kh_put_grow :: "'v khash \<Rightarrow> os \<Rightarrow> (int \<times> 'v khash \<times> os) option" where
  "kh_put_grow h os =
     (if kh_upper_bound h \<le> kh_n_occupied h
      then if push_bit 1 (kh_size h) < kh_n_buckets h
           then kh_resize h (kh_n_buckets h - 1) os
           else kh_resize h (kh_n_buckets h + 1) os
      else Some (0, h, os))"

text \<open>Returns the bucket, the value stored through \<open>ret\<close> and the table.\<close>

definition kh_put :: "'v khash \<Rightarrow> u64 \<Rightarrow> os \<Rightarrow> (u32 \<times> int \<times> 'v khash \<times> os) option" where
  "kh_put h key os =
     (case kh_put_grow h os of
        None \<Rightarrow> None
      | Some (r, h1, os1) \<Rightarrow>
        if r < 0 then Some (kh_n_buckets h1, - 1, h1, os1)
        else
          (case kh_put_slot h1 key of
             None \<Rightarrow> None
           | Some x \<Rightarrow> let (ret, h2) = kh_put_at h1 key x in Some (x, ret, h2, os1)))"

definition kh_del :: "'v khash \<Rightarrow> u32 \<Rightarrow> 'v khash" where
  "kh_del h x =
     (if x \<noteq> kh_n_buckets h \<and> \<not> ac_iseither (kh_flags h) x
      then h\<lparr>kh_flags := ac_set_isdel_true (kh_flags h) x, kh_size := kh_size h - 1\<rparr>
      else h)"

text \<open>The macro \<open>kh_value\<close>: an index outside the array is undefined.\<close>

definition kh_value :: "'v khash \<Rightarrow> u32 \<Rightarrow> 'v option outcome" where
  "kh_value h x = (if unat x < length (kh_vals h) then Done (kh_vals h ! unat x) else Undef)"

definition kh_set_value :: "'v khash \<Rightarrow> u32 \<Rightarrow> 'v \<Rightarrow> 'v khash outcome" where
  "kh_set_value h x v =
     (if unat x < length (kh_vals h) then Done (h\<lparr>kh_vals := (kh_vals h)[unat x := Some v]\<rparr>) else Undef)"


section \<open>The probe sequence\<close>

definition tri :: "nat \<Rightarrow> nat" where
  "tri s = s * (s + 1) div 2"

definition probe :: "nat \<Rightarrow> nat \<Rightarrow> nat \<Rightarrow> nat" where
  "probe m k s = (k + tri s) mod 2 ^ m"

lemma tri_simps [simp]: "tri 0 = 0" "tri (Suc s) = tri s + Suc s"
proof -
  have "Suc s * (Suc s + 1) = s * (s + 1) + Suc s * 2"
    by (simp add: algebra_simps)
  then show "tri (Suc s) = tri s + Suc s"
    unfolding tri_def by simp
qed (simp add: tri_def)

lemma two_tri: "2 * tri s = s * (s + 1)"
  by (induction s) (auto simp: algebra_simps)

lemma probe_less [simp]: "probe m k s < 2 ^ m"
  by (simp add: probe_def)

lemma probe_Suc: "probe m k (Suc s) = (probe m k s + Suc s) mod 2 ^ m"
  unfolding probe_def tri_simps mod_add_left_eq by (simp add: ac_simps)

text \<open>Different steps below the table size probe different buckets.\<close>

lemma probe_less_ne:
  assumes "a < b" and "b < 2 ^ m"
  shows "probe m k a \<noteq> probe m k b"
proof
  assume eq: "probe m k a = probe m k b"
  obtain d where d: "b = a + Suc d"
    using assms(1) less_iff_Suc_add by auto
  have mono: "tri (a + e) = tri a + (e * (2 * a + e + 1)) div 2" for e
  proof -
    have "2 * tri (a + e) = 2 * tri a + e * (2 * a + e + 1)"
      using two_tri [of a] two_tri [of "a + e"] by (simp add: algebra_simps)
    then show ?thesis by arith
  qed
  have le: "tri a \<le> tri b"
    unfolding d mono by simp
  have "2 ^ m dvd (k + tri b) - (k + tri a)"
    using eq le unfolding probe_def by (metis add_le_cancel_left mod_eq_dvd_iff_nat)
  then have "2 ^ m dvd tri b - tri a" by simp
  then have "2 * 2 ^ m dvd 2 * (tri b - tri a)"
    by simp
  also have "2 * (tri b - tri a) = Suc d * (2 * a + Suc d + 1)"
    using two_tri [of a] two_tri [of b] unfolding d by (simp add: algebra_simps)
  finally have dvd: "2 ^ Suc m dvd Suc d * (2 * a + Suc d + 1)"
    by simp
  show False
  proof (cases "even (Suc d)")
    case True
    then have "coprime (2 ^ Suc m) (2 * a + Suc d + 1)"
      by (simp add: coprime_commute)
    then have "2 ^ Suc m dvd Suc d"
      using dvd coprime_dvd_mult_left_iff by blast
    then have "2 ^ Suc m \<le> Suc d"
      by (rule dvd_imp_le) simp
    then show False using assms d by simp
  next
    case False
    then have "coprime (2 ^ Suc m) (Suc d)"
      by (simp add: coprime_commute)
    then have "2 ^ Suc m dvd 2 * a + Suc d + 1"
      using dvd coprime_dvd_mult_right_iff by blast
    then have "2 ^ Suc m \<le> 2 * a + Suc d + 1"
      by (rule dvd_imp_le) simp
    then show False using assms d by simp
  qed
qed

lemma probe_inj: "inj_on (probe m k) {..<2 ^ m}"
  unfolding inj_on_def by (metis lessThan_iff linorder_neqE_nat probe_less_ne)

text \<open>So the first \<open>2 ^ m\<close> probes reach every bucket.\<close>

lemma probe_surj: "j < 2 ^ m \<Longrightarrow> \<exists>s < 2 ^ m. probe m k s = j"
proof -
  assume j: "j < 2 ^ m"
  have "probe m k ` {..<2 ^ m} = {..<2 ^ m}"
    by (rule card_subset_eq) (auto simp: card_image [OF probe_inj])
  then show ?thesis using j by (metis (no_types, lifting) image_iff lessThan_iff)
qed

lemma word_and_pow: "m < 32 \<Longrightarrow> unat ((x :: u32) AND (2 ^ m - 1)) = unat x mod 2 ^ m"
proof -
  assume m: "m < 32"
  have "x AND (2 ^ m - 1) = take_bit m x"
    by (simp add: take_bit_eq_mask mask_eq_exp_minus_1)
  then show ?thesis
    using m by (simp only: unsigned_take_bit_eq) (simp add: take_bit_eq_mod)
qed

lemma unat_word_eq_pow: "m < 32 \<Longrightarrow> unat (2 ^ m :: u32) = 2 ^ m" "m < 32 \<Longrightarrow> (2 ^ m :: u32) \<noteq> 0"
proof -
  assume m: "m < 32"
  then have "(2 :: nat) ^ m < 2 ^ 32" by (intro power_strict_increasing) simp_all
  then have "unat (of_nat (2 ^ m) :: u32) = 2 ^ m" by (subst unat_of_nat) simp
  then show "unat (2 ^ m :: u32) = 2 ^ m" by simp
  then show "(2 ^ m :: u32) \<noteq> 0" by (metis power_not_zero unsigned_0 zero_neq_numeral)
qed

lemma mod_pow_mod: "m \<le> k \<Longrightarrow> (x mod 2 ^ k) mod 2 ^ m = x mod (2 ^ m :: nat)"
  by (simp add: le_imp_power_dvd mod_mod_cancel)

lemma probe_word_start:
  "m < 32 \<Longrightarrow> unat ((w :: u32) AND (2 ^ m - 1)) = probe m (unat w) 0"
  by (simp add: word_and_pow probe_def)

lemma probe_word_step:
  assumes "m < 32" and "unat (i :: u32) = probe m k s" and "unat (step :: u32) = s" and "Suc s < 2 ^ 32"
  shows "unat ((i + (step + 1)) AND (2 ^ m - 1)) = probe m k (Suc s)" and "unat (step + 1) = Suc s"
proof -
  show s: "unat (step + 1) = Suc s"
    using assms by (simp add: unat_word_ariths)
  have "unat (i + (step + 1)) mod 2 ^ m = ((unat i + unat (step + 1)) mod 2 ^ 32) mod 2 ^ m"
    by (simp add: unat_word_ariths(1) [of i "step + 1"])
  also have "\<dots> = (probe m k s + Suc s) mod 2 ^ m"
    using mod_pow_mod [of m 32 "probe m k s + Suc s"] assms s by simp
  finally show "unat ((i + (step + 1)) AND (2 ^ m - 1)) = probe m k (Suc s)"
    using assms by (simp add: word_and_pow probe_Suc)
qed

section \<open>The invariant and the map\<close>

abbreviation kh_hash :: "u64 \<Rightarrow> nat" where
  "kh_hash key \<equiv> unat (kh_int64_hash_func key)"

text \<open>Bucket \<open>j\<close> holds \<open>key\<close>.\<close>

definition kh_has :: "nat \<Rightarrow> 'v khash \<Rightarrow> nat \<Rightarrow> u64 \<Rightarrow> bool" where
  "kh_has m h j key \<longleftrightarrow> j < 2 ^ m \<and> kh_flags h ! j = 0 \<and> kh_keys h ! j = key"

definition kh_shape :: "nat \<Rightarrow> 'v khash \<Rightarrow> bool" where
  "kh_shape m h \<longleftrightarrow> 2 \<le> m \<and> m < 31 \<and> kh_n_buckets h = 2 ^ m \<and> length (kh_flags h) = 2 ^ m
     \<and> length (kh_keys h) = 2 ^ m \<and> length (kh_vals h) = 2 ^ m
     \<and> (\<forall>j < 2 ^ m. kh_flags h ! j \<in> {0, 1, 2})"

definition kh_reach :: "nat \<Rightarrow> 'v khash \<Rightarrow> bool" where
  "kh_reach m h \<longleftrightarrow> (\<forall>j key. kh_has m h j key \<longrightarrow>
     (\<exists>s < 2 ^ m. probe m (kh_hash key) s = j \<and> (\<forall>t < s. kh_flags h ! probe m (kh_hash key) t \<noteq> 2)))
     \<and> (\<forall>i j key. kh_has m h i key \<longrightarrow> kh_has m h j key \<longrightarrow> i = j)"

definition kh_count :: "nat \<Rightarrow> 'v khash \<Rightarrow> bool" where
  "kh_count m h \<longleftrightarrow> unat (kh_size h) = card {j. j < 2 ^ m \<and> kh_flags h ! j = 0}
     \<and> unat (kh_n_occupied h) = card {j. j < 2 ^ m \<and> kh_flags h ! j \<noteq> 2}
     \<and> kh_upper_bound h = ac_HASH_UPPER (2 ^ m)
     \<and> unat (kh_n_occupied h) \<le> (77 * 2 ^ m + 50) div 100"

definition kh_wf :: "nat \<Rightarrow> 'v khash \<Rightarrow> bool" where
  "kh_wf m h \<longleftrightarrow> kh_shape m h \<and> kh_reach m h \<and> kh_count m h"

definition kh_map :: "nat \<Rightarrow> 'v khash \<Rightarrow> u64 \<Rightarrow> 'v option option" where
  "kh_map m h key = (if \<exists>j. kh_has m h j key then Some (kh_vals h ! (THE j. kh_has m h j key)) else None)"

lemma kh_map_has: "kh_reach m h \<Longrightarrow> kh_has m h j key \<Longrightarrow> kh_map m h key = Some (kh_vals h ! j)"
proof -
  assume r: "kh_reach m h" and j: "kh_has m h j key"
  then have "(THE j. kh_has m h j key) = j"
    unfolding kh_reach_def by (intro the_equality) blast+
  then show ?thesis using j by (auto simp: kh_map_def)
qed

lemma kh_map_none: "kh_map m h key = None \<longleftrightarrow> \<not> (\<exists>j. kh_has m h j key)"
  by (simp add: kh_map_def)

lemma flag_bits [simp]:
  "bit (0 :: 2 word) n = False" "bit (1 :: 2 word) (Suc 0) = False" "bit (1 :: 2 word) 0 = True"
  "bit (2 :: 2 word) (Suc 0) = True" "bit (2 :: 2 word) 0 = False"
  by (simp_all add: bit_iff_odd)

lemma kh_flag_cases:
  assumes "kh_shape m h" and "unat i < 2 ^ m"
  shows "ac_isempty (kh_flags h) i \<longleftrightarrow> kh_flags h ! unat i = 2"
    and "ac_isdel (kh_flags h) i \<longleftrightarrow> kh_flags h ! unat i = 1"
    and "ac_iseither (kh_flags h) i \<longleftrightarrow> kh_flags h ! unat i \<noteq> 0"
proof -
  have "kh_flags h ! unat i \<in> {0, 1, 2}"
    using assms by (simp add: kh_shape_def)
  then show "ac_isempty (kh_flags h) i \<longleftrightarrow> kh_flags h ! unat i = 2"
    "ac_isdel (kh_flags h) i \<longleftrightarrow> kh_flags h ! unat i = 1"
    "ac_iseither (kh_flags h) i \<longleftrightarrow> kh_flags h ! unat i \<noteq> 0"
    by (auto simp: ac_isempty_def ac_isdel_def ac_iseither_def)
qed

section \<open>Lookup\<close>

text \<open>A bucket at which the probing for \<open>key\<close> stops: empty, or holding the key.\<close>

definition kh_stop :: "'v khash \<Rightarrow> u64 \<Rightarrow> nat \<Rightarrow> bool" where
  "kh_stop h key j \<longleftrightarrow> kh_flags h ! j = 2 \<or> (kh_flags h ! j = 0 \<and> kh_keys h ! j = key)"

lemma kh_continue:
  assumes "kh_shape m h" and "unat i < 2 ^ m"
  shows "\<not> ac_isempty (kh_flags h) i \<and> (ac_isdel (kh_flags h) i \<or> kh_keys h ! unat i \<noteq> key)
    \<longleftrightarrow> \<not> kh_stop h key (unat i)"
proof -
  have "kh_flags h ! unat i \<in> {0, 1, 2}"
    using assms by (simp add: kh_shape_def)
  then show ?thesis
    using kh_flag_cases [OF assms] by (auto simp: kh_stop_def)
qed

lemma kh_get_loop_run:
  assumes sh: "kh_shape m h" and stop: "kh_stop h key (probe m k s0)" and s0: "s0 < 2 ^ m"
    and before: "\<forall>s < s0. \<not> kh_stop h key (probe m k s)" and st: "unat st = probe m k 0"
  shows "s \<le> s0 \<Longrightarrow> unat i = probe m k s \<Longrightarrow> unat step = s \<Longrightarrow> s0 - s < fuel \<Longrightarrow>
    kh_get_loop fuel h key st i step = Some (if kh_flags h ! probe m k s0 = 0 then of_nat (probe m k s0) else kh_n_buckets h)"
proof (induction fuel arbitrary: s i step)
  case (Suc fuel)
  have m: "m < 32" "kh_n_buckets h - 1 = 2 ^ m - 1"
    using sh by (simp_all add: kh_shape_def)
  have i: "unat i < 2 ^ m" using Suc.prems by simp
  note cont = kh_continue [OF sh i, of key] and fl = kh_flag_cases [OF sh i]
  show ?case
  proof (cases "s = s0")
    case True
    then have ii: "of_nat (probe m k s0) = i"
      using Suc.prems by (metis of_nat_unat ucast_id)
    have "kh_stop h key (unat i)"
      using stop True Suc.prems by simp
    then show ?thesis
      unfolding kh_get_loop.simps cont using fl ii Suc.prems True by simp
  next
    case False
    then have lt: "s < s0" using Suc.prems by simp
    have big: "Suc s < 2 ^ 32"
      using lt s0 m power_strict_increasing [of m 32 "2 :: nat"] by linarith
    note step = probe_word_step [OF m(1) Suc.prems(2,3) big]
    have "probe m k (Suc s) \<noteq> probe m k 0"
      using probe_less_ne [of 0 "Suc s" m k] lt s0 by simp
    then have ne: "(i + (step + 1)) AND (2 ^ m - 1) \<noteq> st"
      using step st by metis
    have "\<not> kh_stop h key (unat i)"
      using before lt Suc.prems by simp
    then show ?thesis
      using cont ne Suc.IH [OF _ step] lt Suc.prems m by (simp add: Let_def)
  qed
qed simp

text \<open>The first stop on the probe path.\<close>

lemma kh_first_stop:
  assumes "s < 2 ^ m" and "kh_stop h key (probe m k s)"
  obtains s0 where "s0 \<le> s" "s0 < 2 ^ m" "kh_stop h key (probe m k s0)" "\<forall>t < s0. \<not> kh_stop h key (probe m k t)"
proof -
  define s0 where "s0 = (LEAST s. kh_stop h key (probe m k s))"
  have "kh_stop h key (probe m k s0)" "s0 \<le> s"
    unfolding s0_def using assms(2) by (rule LeastI, intro Least_le)
  moreover have "\<forall>t < s0. \<not> kh_stop h key (probe m k t)"
    unfolding s0_def using not_less_Least by blast
  ultimately show ?thesis using assms that by simp
qed

text \<open>Where the probing for \<open>key\<close> ends in a well-formed table with an empty bucket.\<close>

lemma kh_stop_cases:
  assumes wf: "kh_reach m h" and e: "\<exists>j < 2 ^ m. kh_flags h ! j = 2"
  obtains s0 where "s0 < 2 ^ m" "kh_stop h key (probe m (kh_hash key) s0)"
    "\<forall>t < s0. \<not> kh_stop h key (probe m (kh_hash key) t)"
    "\<forall>j. kh_has m h j key \<longrightarrow> probe m (kh_hash key) s0 = j"
    "\<not> (\<exists>j. kh_has m h j key) \<longrightarrow> kh_flags h ! probe m (kh_hash key) s0 = 2"
proof (cases "\<exists>j. kh_has m h j key")
  case True
  then obtain j where j: "kh_has m h j key" by blast
  then obtain s where s: "s < 2 ^ m" "probe m (kh_hash key) s = j"
    "\<forall>t < s. kh_flags h ! probe m (kh_hash key) t \<noteq> 2"
    using wf unfolding kh_reach_def by blast
  have "kh_stop h key (probe m (kh_hash key) s)"
    using j s by (simp add: kh_stop_def kh_has_def)
  then obtain s0 where s0: "s0 \<le> s" "s0 < 2 ^ m" "kh_stop h key (probe m (kh_hash key) s0)"
    "\<forall>t < s0. \<not> kh_stop h key (probe m (kh_hash key) t)"
    using kh_first_stop [OF s(1)] by metis
  have at: "kh_has m h (probe m (kh_hash key) s0) key"
  proof (cases "s0 = s")
    case False
    then show ?thesis using s0 s(3) by (auto simp: kh_stop_def kh_has_def)
  qed (simp add: s j)
  then have "\<forall>j. kh_has m h j key \<longrightarrow> probe m (kh_hash key) s0 = j"
    using wf unfolding kh_reach_def by blast
  then show ?thesis using that s0 True by blast
next
  case False
  obtain j where j: "j < 2 ^ m" "kh_flags h ! j = 2" using e by blast
  obtain s where "s < 2 ^ m" "probe m (kh_hash key) s = j" using probe_surj [OF j(1)] by blast
  then obtain s0 where s0: "s0 < 2 ^ m" "kh_stop h key (probe m (kh_hash key) s0)"
    "\<forall>t < s0. \<not> kh_stop h key (probe m (kh_hash key) t)"
    using kh_first_stop [of s m h key "kh_hash key"] j by (metis kh_stop_def)
  moreover have "kh_flags h ! probe m (kh_hash key) s0 = 2"
    using s0(2) False by (auto simp: kh_stop_def kh_has_def)
  ultimately show ?thesis using that False by blast
qed

lemma kh_wf_has_empty:
  assumes "kh_shape m h" and "kh_count m h"
  shows "\<exists>j < 2 ^ m. kh_flags h ! j = 2"
proof (rule ccontr)
  assume "\<not> ?thesis"
  then have "{j. j < 2 ^ m \<and> kh_flags h ! j \<noteq> 2} = {..<2 ^ m :: nat}" by auto
  then have "2 ^ m \<le> (77 * 2 ^ m + 50) div (100 :: nat)"
    using assms(2) by (simp add: kh_count_def)
  moreover have "(2 :: nat) ^ 2 \<le> 2 ^ m"
    using assms(1) by (intro power_increasing) (simp_all add: kh_shape_def)
  ultimately show False by simp
qed

text \<open>Looking a key up: its bucket, or the number of buckets when the key is absent.\<close>

lemma kh_get_run:
  assumes wf: "kh_wf m h"
  shows "kh_has m h j key \<Longrightarrow> kh_get h key = Some (of_nat j)"
    and "\<not> (\<exists>j. kh_has m h j key) \<Longrightarrow> kh_get h key = Some (kh_n_buckets h)"
proof -
  have sh: "kh_shape m h" and r: "kh_reach m h" and e: "\<exists>j < 2 ^ m. kh_flags h ! j = 2"
    using wf kh_wf_has_empty by (auto simp: kh_wf_def)
  have m: "m < 32" "kh_n_buckets h = 2 ^ m"
    using sh by (simp_all add: kh_shape_def)
  have n: "unat (kh_n_buckets h) = 2 ^ m" "kh_n_buckets h \<noteq> 0"
    using m by (simp_all add: unat_word_eq_pow)
  obtain s0 where s0: "s0 < 2 ^ m" "kh_stop h key (probe m (kh_hash key) s0)"
    "\<forall>t < s0. \<not> kh_stop h key (probe m (kh_hash key) t)"
    "\<forall>j. kh_has m h j key \<longrightarrow> probe m (kh_hash key) s0 = j"
    "\<not> (\<exists>j. kh_has m h j key) \<longrightarrow> kh_flags h ! probe m (kh_hash key) s0 = 2"
    by (rule kh_stop_cases [OF r e, where key = key])
  let ?i = "kh_int64_hash_func key AND (2 ^ m - 1)"
  have st: "unat ?i = probe m (kh_hash key) 0"
    by (rule probe_word_start [OF m(1)])
  have "kh_get h key = kh_get_loop (2 * 2 ^ m) h key ?i ?i 0"
    using n m by (simp add: kh_get_def Let_def)
  also have "\<dots> = Some (if kh_flags h ! probe m (kh_hash key) s0 = 0
      then of_nat (probe m (kh_hash key) s0) else kh_n_buckets h)"
    by (rule kh_get_loop_run [OF sh s0(2,1,3) st _ st, of 0]) (use s0(1) in simp_all)
  finally have g: "kh_get h key = Some (if kh_flags h ! probe m (kh_hash key) s0 = 0
      then of_nat (probe m (kh_hash key) s0) else kh_n_buckets h)" .
  show "kh_has m h j key \<Longrightarrow> kh_get h key = Some (of_nat j)"
    using g s0(4) by (auto simp: kh_has_def)
  show "\<not> (\<exists>j. kh_has m h j key) \<Longrightarrow> kh_get h key = Some (kh_n_buckets h)"
    using g s0(5) by simp
qed

section \<open>Insertion without growth\<close>

lemma kh_put_loop_run:
  assumes sh: "kh_shape m h" and stop: "kh_stop h key (probe m k s0)" and s0: "s0 < 2 ^ m"
    and before: "\<forall>s < s0. \<not> kh_stop h key (probe m k s)" and st: "unat st = probe m k 0"
  shows "s \<le> s0 \<Longrightarrow> unat i = probe m k s \<Longrightarrow> unat step = s \<Longrightarrow> s0 - s < fuel \<Longrightarrow>
    \<exists>i' site'. kh_put_loop fuel h key st i step site = Some (i', site', False) \<and> unat i' = probe m k s0
      \<and> (site' = site \<or> (\<exists>t < s0. unat site' = probe m k t \<and> kh_flags h ! probe m k t = 1))"
proof (induction fuel arbitrary: s i step site)
  case (Suc fuel)
  have m: "m < 32" "kh_n_buckets h - 1 = 2 ^ m - 1"
    using sh by (simp_all add: kh_shape_def)
  have i: "unat i < 2 ^ m" using Suc.prems by simp
  note cont = kh_continue [OF sh i, of key] and fl = kh_flag_cases [OF sh i]
  show ?case
  proof (cases "s = s0")
    case True
    then have "kh_stop h key (unat i)"
      using stop Suc.prems by simp
    then show ?thesis
      unfolding kh_put_loop.simps cont using Suc.prems True by simp
  next
    case False
    then have lt: "s < s0" using Suc.prems by simp
    have big: "Suc s < 2 ^ 32"
      using lt s0 m power_strict_increasing [of m 32 "2 :: nat"] by linarith
    note step = probe_word_step [OF m(1) Suc.prems(2,3) big]
    have "probe m k (Suc s) \<noteq> probe m k 0"
      using probe_less_ne [of 0 "Suc s" m k] lt s0 by simp
    then have ne: "(i + (step + 1)) AND (2 ^ m - 1) \<noteq> st"
      using step st by metis
    have go: "\<not> kh_stop h key (unat i)"
      using before lt Suc.prems by simp
    have fu: "s0 - Suc s < fuel" using lt Suc.prems(4) by arith
    let ?site = "if ac_isdel (kh_flags h) i then i else site"
    obtain i' site' where r: "kh_put_loop fuel h key st ((i + (step + 1)) AND (2 ^ m - 1)) (step + 1) ?site
        = Some (i', site', False)" "unat i' = probe m k s0"
      "site' = ?site \<or> (\<exists>t < s0. unat site' = probe m k t \<and> kh_flags h ! probe m k t = 1)"
      using Suc.IH [OF _ step fu, of ?site] lt by auto
    have "site' = site \<or> (\<exists>t < s0. unat site' = probe m k t \<and> kh_flags h ! probe m k t = 1)"
      using r(3) fl Suc.prems(2) lt by (auto split: if_splits)
    moreover have "kh_put_loop (Suc fuel) h key st i step site = Some (i', site', False)"
      unfolding kh_put_loop.simps cont using go r(1) ne m by (simp add: Let_def)
    ultimately show ?thesis
      using r(2) by blast
  qed
qed simp

definition kh_free_for :: "nat \<Rightarrow> 'v khash \<Rightarrow> u64 \<Rightarrow> nat \<Rightarrow> bool" where
  "kh_free_for m h key j \<longleftrightarrow> kh_flags h ! j \<noteq> 0 \<and>
     (\<exists>s < 2 ^ m. probe m (kh_hash key) s = j \<and> (\<forall>t < s. kh_flags h ! probe m (kh_hash key) t \<noteq> 2))"

lemma kh_put_slot_run:
  assumes wf: "kh_wf m h"
  shows "\<exists>x. kh_put_slot h key = Some x \<and> unat x < 2 ^ m \<and> (\<forall>j. kh_has m h j key \<longrightarrow> unat x = j)
    \<and> (\<not> (\<exists>j. kh_has m h j key) \<longrightarrow> kh_free_for m h key (unat x))"
proof -
  have sh: "kh_shape m h" and r: "kh_reach m h" and e: "\<exists>j < 2 ^ m. kh_flags h ! j = 2"
    using wf kh_wf_has_empty by (auto simp: kh_wf_def)
  have m: "m < 32" "kh_n_buckets h = 2 ^ m"
    using sh by (simp_all add: kh_shape_def)
  have n: "unat (kh_n_buckets h) = 2 ^ m"
    using m by (simp add: unat_word_eq_pow)
  obtain s0 where s0: "s0 < 2 ^ m" "kh_stop h key (probe m (kh_hash key) s0)"
    "\<forall>t < s0. \<not> kh_stop h key (probe m (kh_hash key) t)"
    "\<forall>j. kh_has m h j key \<longrightarrow> probe m (kh_hash key) s0 = j"
    "\<not> (\<exists>j. kh_has m h j key) \<longrightarrow> kh_flags h ! probe m (kh_hash key) s0 = 2"
    by (rule kh_stop_cases [OF r e, where key = key])
  have path: "\<forall>t < s0. kh_flags h ! probe m (kh_hash key) t \<noteq> 2"
    using s0(3) by (auto simp: kh_stop_def)
  let ?i = "kh_int64_hash_func key AND (2 ^ m - 1)"
  have st: "unat ?i = probe m (kh_hash key) 0"
    by (rule probe_word_start [OF m(1)])
  have lt: "unat ?i < 2 ^ m" by (simp add: st)
  obtain i' site' where l: "kh_put_loop (2 * 2 ^ m) h key ?i ?i 0 (2 ^ m) = Some (i', site', False)"
    "unat i' = probe m (kh_hash key) s0"
    "site' = 2 ^ m \<or> (\<exists>t < s0. unat site' = probe m (kh_hash key) t \<and> kh_flags h ! probe m (kh_hash key) t = 1)"
    using kh_put_loop_run [OF sh s0(2,1,3) st _ st, of 0 "2 * 2 ^ m" "2 ^ m"] s0(1) by auto
  have e': "ac_isempty (kh_flags h) i' \<longleftrightarrow> kh_flags h ! unat i' = 2"
    using kh_flag_cases [OF sh] l(2) by simp
  show ?thesis
  proof (cases "kh_flags h ! unat ?i = 2")
    case True
    then have "s0 = 0"
      using s0(3) st unfolding kh_stop_def by (metis gr0I)
    then have "kh_put_slot h key = Some ?i" "\<forall>j. kh_has m h j key \<longrightarrow> unat ?i = j"
      using True s0(4) kh_flag_cases [OF sh lt] m st by (simp_all add: kh_put_slot_def)
    moreover have "kh_free_for m h key (unat ?i)"
      unfolding kh_free_for_def using True st by (intro conjI exI [of _ 0]) simp_all
    ultimately show ?thesis using lt by blast
  next
    case False
    let ?x = "if ac_isempty (kh_flags h) i' \<and> site' \<noteq> 2 ^ m then site' else i'"
    have "kh_put_slot h key = Some ?x"
      using False kh_flag_cases [OF sh lt] m n l(1) by (simp add: kh_put_slot_def)
    moreover have "\<exists>s \<le> s0. unat ?x = probe m (kh_hash key) s"
      using l(2,3) by (auto intro: less_imp_le)
    then have "\<exists>s < 2 ^ m. probe m (kh_hash key) s = unat ?x \<and> (\<forall>t < s. kh_flags h ! probe m (kh_hash key) t \<noteq> 2)"
    proof -
      obtain s where "s \<le> s0" "unat ?x = probe m (kh_hash key) s"
        using \<open>\<exists>s \<le> s0. unat ?x = probe m (kh_hash key) s\<close> by blast
      then show ?thesis using path s0(1) by (intro exI [of _ s]) simp
    qed
    moreover have "\<forall>j. kh_has m h j key \<longrightarrow> unat ?x = j"
      using s0(4) l(2) e' by (auto simp: kh_has_def)
    moreover have "kh_flags h ! unat ?x \<noteq> 0" if "\<not> (\<exists>j. kh_has m h j key)"
      using s0(5) that l(2,3) e' by auto
    moreover have "unat ?x < 2 ^ m"
      using calculation(2) by (metis probe_less)
    ultimately show ?thesis
      unfolding kh_free_for_def by blast
  qed
qed

text \<open>Filling a free bucket on the path of a new key.\<close>

lemma kh_put_at_run:
  assumes wf: "kh_wf m h" and room: "kh_n_occupied h < kh_upper_bound h"
    and x: "unat x < 2 ^ m" "kh_free_for m h key (unat x)" and new: "\<not> (\<exists>j. kh_has m h j key)"
  shows "\<exists>ret h'. kh_put_at h key x = (ret, h') \<and> ret \<in> {1, 2} \<and> kh_wf m h' \<and> kh_vals h' = kh_vals h
    \<and> (\<forall>j k. kh_has m h' j k \<longleftrightarrow> (if k = key then j = unat x else kh_has m h j k))"
proof -
  have sh: "kh_shape m h" and r: "kh_reach m h" and c: "kh_count m h"
    using wf by (auto simp: kh_wf_def)
  have m31: "m < 31" and lens: "length (kh_flags h) = 2 ^ m" "length (kh_keys h) = 2 ^ m"
    using sh by (simp_all add: kh_shape_def)
  have fx: "kh_flags h ! unat x \<in> {1, 2}"
    using sh x by (auto simp: kh_shape_def kh_free_for_def)
  note fl = kh_flag_cases [OF sh x(1)]
  define ret :: int where "ret = (if kh_flags h ! unat x = 2 then 1 else 2)"
  define h' where "h' = h\<lparr>kh_keys := (kh_keys h)[unat x := key], kh_flags := (kh_flags h)[unat x := 0],
      kh_size := kh_size h + 1,
      kh_n_occupied := kh_n_occupied h + (if kh_flags h ! unat x = 2 then 1 else 0)\<rparr>"
  have put: "kh_put_at h key x = (ret, h')"
    using fx fl by (auto simp: kh_put_at_def ret_def h'_def ac_set_isboth_false_def)
  have has: "kh_has m h' j k \<longleftrightarrow> (if k = key then j = unat x else kh_has m h j k)" for j k
    using new x(1) lens fx by (auto simp: kh_has_def h'_def nth_list_update)
  have fl': "kh_flags h' ! j = (if j = unat x then 0 else kh_flags h ! j)" if "j < 2 ^ m" for j
    using that lens by (simp add: h'_def nth_list_update)
  have ne: "kh_flags h' ! probe m k t \<noteq> 2" if "kh_flags h ! probe m k t \<noteq> 2" for k t
    using that by (simp add: fl')
  have sh': "kh_shape m h'"
    using sh fl' by (simp add: kh_shape_def h'_def)
  have "kh_reach m h'"
  proof -
    have "\<exists>s < 2 ^ m. probe m (kh_hash k) s = j \<and> (\<forall>t < s. kh_flags h' ! probe m (kh_hash k) t \<noteq> 2)"
      if "kh_has m h' j k" for j k
    proof (cases "k = key")
      case True
      then show ?thesis using that x(2) ne by (auto simp: has kh_free_for_def)
    next
      case False
      then have "kh_has m h j k" using that by (simp add: has)
      then show ?thesis using r ne unfolding kh_reach_def by blast
    qed
    moreover have "i = j" if "kh_has m h' i k" "kh_has m h' j k" for i j k
      using that r unfolding has kh_reach_def by (metis (full_types))
    ultimately show ?thesis unfolding kh_reach_def by blast
  qed
  moreover have "kh_count m h'"
  proof -
    let ?live = "{j. j < 2 ^ m \<and> kh_flags h ! j = 0}" and ?occ = "{j. j < 2 ^ m \<and> kh_flags h ! j \<noteq> 2}"
    have live': "{j. j < 2 ^ m \<and> kh_flags h' ! j = 0} = insert (unat x) ?live"
      and occ': "{j. j < 2 ^ m \<and> kh_flags h' ! j \<noteq> 2} = insert (unat x) ?occ"
      using x(1) fl' by (auto split: if_splits)
    have "card ?live \<le> card {..<2 ^ m :: nat}" "card ?occ \<le> card {..<2 ^ m :: nat}"
      by (intro card_mono; auto)+
    then have le: "card ?live \<le> 2 ^ m" "card ?occ \<le> 2 ^ m" by simp_all
    have "(2 :: nat) ^ m \<le> 2 ^ 30" using m31 by (intro power_increasing) simp_all
    then have small: "Suc (card ?live) < 2 ^ 32" "Suc (card ?occ) < 2 ^ 32" using le by simp_all
    have "(77 * 2 ^ m + 50) div 100 < (2 :: nat) ^ 32"
      using \<open>(2 :: nat) ^ m \<le> 2 ^ 30\<close> by simp
    then have ub: "unat (ac_HASH_UPPER (2 ^ m)) = (77 * 2 ^ m + 50) div 100"
      using m31 by (simp add: ac_HASH_UPPER_def unat_word_eq_pow unat_of_nat)
    have "unat (kh_size h') = Suc (card ?live)"
      using c small by (simp add: kh_count_def h'_def unat_word_ariths)
    moreover have "card (insert (unat x) ?live) = Suc (card ?live)"
      using fx by (subst card_insert_disjoint) auto
    moreover have "unat (kh_n_occupied h') = card (insert (unat x) ?occ)"
    proof (cases "kh_flags h ! unat x = 2")
      case True
      then have "card (insert (unat x) ?occ) = Suc (card ?occ)"
        by (subst card_insert_disjoint) auto
      then show ?thesis using True c small by (simp add: kh_count_def h'_def unat_word_ariths)
    next
      case False
      then have "insert (unat x) ?occ = ?occ" using x(1) by auto
      then show ?thesis using False c by (simp add: kh_count_def h'_def)
    qed
    moreover have "card (insert (unat x) ?occ) \<le> Suc (card ?occ)"
      by (rule card_insert_le_m1) simp_all
    then have "card (insert (unat x) ?occ) \<le> (77 * 2 ^ m + 50) div 100"
      using room c ub by (simp add: kh_count_def word_less_nat_alt)
    ultimately show ?thesis
      using c unfolding kh_count_def live' occ' by (simp add: h'_def)
  qed
  ultimately have "kh_wf m h'" using sh' by (simp add: kh_wf_def)
  moreover have "kh_vals h' = kh_vals h" by (simp add: h'_def)
  moreover have "ret \<in> {1, 2}" by (simp add: ret_def)
  ultimately show ?thesis
    using put has by blast
qed

section \<open>The rehash\<close>

text \<open>
  In the middle of a rehash into \<open>2 ^ m\<close> buckets, a bucket index is taken by an element that
  still waits (its old flag is live) or by one that has been placed (its new flag is live);
  together with the element in hand they are the elements of the table.
\<close>

definition kh_spots :: "nat \<Rightarrow> 'v khash \<Rightarrow> 2 word list \<Rightarrow> nat set" where
  "kh_spots m h nf = {i. i < 2 ^ m \<and> (i < length (kh_flags h) \<and> kh_flags h ! i = 0 \<or> nf ! i = 0)}"

definition kh_pair :: "'v khash \<Rightarrow> nat \<Rightarrow> u64 \<times> 'v option" where
  "kh_pair h i = (kh_keys h ! i, kh_vals h ! i)"

definition kh_placed :: "nat \<Rightarrow> 'v khash \<Rightarrow> 2 word list \<Rightarrow> bool" where
  "kh_placed m h nf \<longleftrightarrow> (\<forall>i < 2 ^ m. nf ! i = 0 \<longrightarrow>
     (\<exists>s < 2 ^ m. probe m (kh_hash (kh_keys h ! i)) s = i
        \<and> (\<forall>t < s. nf ! probe m (kh_hash (kh_keys h ! i)) t = 0)))"

definition kh_mid :: "nat \<Rightarrow> (u64 \<times> 'v option) set \<Rightarrow> 'v khash \<Rightarrow> 2 word list \<Rightarrow> (u64 \<times> 'v option) set \<Rightarrow> bool" where
  "kh_mid m S h nf P \<longleftrightarrow> 2 \<le> m \<and> m < 31 \<and> length (kh_flags h) = unat (kh_n_buckets h)
     \<and> unat (kh_n_buckets h) \<le> 2 ^ m \<and> length (kh_keys h) = 2 ^ m \<and> length (kh_vals h) = 2 ^ m
     \<and> length nf = 2 ^ m \<and> (\<forall>i < 2 ^ m. nf ! i \<in> {0, 2})
     \<and> (\<forall>i < length (kh_flags h). nf ! i = 0 \<longrightarrow> kh_flags h ! i \<noteq> 0)
     \<and> inj_on (\<lambda>i. kh_keys h ! i) (kh_spots m h nf)
     \<and> kh_pair h ` kh_spots m h nf \<union> P = S \<and> fst ` P \<inter> (\<lambda>i. kh_keys h ! i) ` kh_spots m h nf = {}
     \<and> kh_placed m h nf \<and> finite S \<and> card S < 2 ^ m"

lemma finite_spots [simp]: "finite (kh_spots m h nf)"
  by (rule finite_subset [of _ "{..<2 ^ m}"]) (auto simp: kh_spots_def)

lemma kh_mid_room:
  assumes "kh_mid m S h nf P"
  shows "\<exists>i < 2 ^ m. nf ! i = 2"
proof (rule ccontr)
  assume "\<not> ?thesis"
  then have all: "kh_spots m h nf = {..<2 ^ m}"
    using assms by (force simp: kh_spots_def kh_mid_def)
  have "inj_on (kh_pair h) (kh_spots m h nf)"
    using assms by (auto simp: kh_mid_def kh_pair_def inj_on_def)
  then have "card (kh_pair h ` kh_spots m h nf) = 2 ^ m"
    by (simp add: card_image all)
  moreover have "card (kh_pair h ` kh_spots m h nf) \<le> card S"
    using assms by (intro card_mono) (auto simp: kh_mid_def)
  ultimately show False
    using assms by (simp add: kh_mid_def)
qed

text \<open>The search for a free bucket.\<close>

lemma kh_free_slot_run:
  assumes m: "m < 32" and s0: "s0 < 2 ^ m" and nf: "\<forall>i < 2 ^ m. nf ! i \<in> {0, 2}"
    and stop: "nf ! probe m k s0 = 2" and before: "\<forall>s < s0. nf ! probe m k s = 0"
  shows "s \<le> s0 \<Longrightarrow> unat i = probe m k s \<Longrightarrow> unat step = s \<Longrightarrow> s0 - s < fuel \<Longrightarrow>
    kh_free_slot fuel nf (2 ^ m - 1) i step = Some (of_nat (probe m k s0))"
proof (induction fuel arbitrary: s i step)
  case (Suc fuel)
  show ?case
  proof (cases "s = s0")
    case True
    then have "of_nat (probe m k s0) = i"
      using Suc.prems by (metis of_nat_unat ucast_id)
    then show ?thesis
      using True stop Suc.prems by (simp add: ac_isempty_def)
  next
    case False
    then have lt: "s < s0" using Suc.prems by simp
    have big: "Suc s < 2 ^ 32"
      using lt s0 m power_strict_increasing [of m 32 "2 :: nat"] by linarith
    note step = probe_word_step [OF m Suc.prems(2,3) big]
    have fu: "s0 - Suc s < fuel" using lt Suc.prems(4) by arith
    have "nf ! unat i = 0" using before lt Suc.prems by simp
    then show ?thesis
      using Suc.IH [OF _ step fu] lt by (simp add: ac_isempty_def Let_def)
  qed
qed simp

lemma kh_free_slot_ok:
  assumes mid: "kh_mid m S h nf P"
  shows "\<exists>i s0. kh_free_slot (2 * unat (2 ^ m :: u32)) nf (2 ^ m - 1) (kh_int64_hash_func key AND (2 ^ m - 1)) 0 = Some i
    \<and> s0 < 2 ^ m \<and> unat i = probe m (kh_hash key) s0 \<and> nf ! unat i = 2
    \<and> (\<forall>t < s0. nf ! probe m (kh_hash key) t = 0)"
proof -
  let ?k = "kh_hash key"
  have m: "m < 32" and nf: "\<forall>i < 2 ^ m. nf ! i \<in> {0, 2}"
    using mid by (auto simp: kh_mid_def)
  obtain j where "j < 2 ^ m" "nf ! j = 2" using kh_mid_room [OF mid] by blast
  then obtain s where s: "s < 2 ^ m" "nf ! probe m ?k s = 2" using probe_surj by metis
  define s0 where "s0 = (LEAST s. nf ! probe m ?k s = 2)"
  have s0: "nf ! probe m ?k s0 = 2" "s0 \<le> s"
    unfolding s0_def using s(2) by (rule LeastI, intro Least_le)
  have "nf ! probe m ?k t = 0" if "t < s0" for t
    using nf not_less_Least [OF that [unfolded s0_def]] by (metis insert_iff probe_less singletonD)
  moreover have "s0 < 2 ^ m" using s0 s by simp
  moreover have "(2 :: nat) ^ m < 2 ^ 32" using m by (intro power_strict_increasing) simp_all
  then have "probe m ?k s0 < 2 ^ 32"
    by (rule less_trans [OF probe_less])
  then have "unat (of_nat (probe m ?k s0) :: u32) = probe m ?k s0"
    by (simp add: unat_of_nat)
  ultimately show ?thesis
    using kh_free_slot_run [OF m _ nf s0(1) _ _ probe_word_start [OF m], of 0 "2 * unat (2 ^ m :: u32)"] s0 m
    by (intro exI [of _ "of_nat (probe m ?k s0)"] exI [of _ s0]) (simp add: unat_word_eq_pow)
qed

text \<open>Storing an element in bucket \<open>i\<close>.\<close>

definition kh_store :: "nat \<Rightarrow> u64 \<Rightarrow> 'v option \<Rightarrow> 'v khash \<Rightarrow> 'v khash" where
  "kh_store i key val h = h\<lparr>kh_keys := (kh_keys h)[i := key], kh_vals := (kh_vals h)[i := val]\<rparr>"

lemma kh_store_keys:
  assumes "i < length (kh_keys h)" and "inj_on (\<lambda>j. kh_keys h ! j) A" and "key \<notin> (\<lambda>j. kh_keys h ! j) ` A"
  shows "inj_on (\<lambda>j. kh_keys (kh_store i key val h) ! j) (insert i A)"
  using assms by (auto simp: kh_store_def inj_on_def nth_list_update)

lemma kh_store_pairs:
  assumes "i < length (kh_keys h)" and "length (kh_vals h) = length (kh_keys h)"
  shows "kh_pair (kh_store i key val h) ` insert i A = insert (key, val) (kh_pair h ` (A - {i}))"
proof -
  have "kh_pair (kh_store i key val h) i = (key, val)"
    using assms by (simp add: kh_pair_def kh_store_def)
  moreover have "kh_pair (kh_store i key val h) ` (A - {i}) = kh_pair h ` (A - {i})"
    by (rule image_cong) (simp_all add: kh_pair_def kh_store_def)
  ultimately show ?thesis
    by (metis image_insert insert_Diff_single)
qed

lemma kh_store_placed:
  assumes "kh_placed m h nf" and "i < 2 ^ m" and "length nf = 2 ^ m" and "length (kh_keys h) = 2 ^ m"
    and "s0 < 2 ^ m" "i = probe m (kh_hash key) s0" "\<forall>t < s0. nf ! probe m (kh_hash key) t = 0" and "nf ! i = 2"
  shows "kh_placed m (kh_store i key val h) (nf[i := 0])"
  unfolding kh_placed_def
proof (intro allI impI)
  fix j assume j: "j < 2 ^ m" and z: "nf[i := 0] ! j = 0"
  have up: "nf[i := 0] ! probe m k t = 0" if "nf ! probe m k t = 0" for k t
    using that assms(2,3) by (cases "probe m k t = i") simp_all
  show "\<exists>s < 2 ^ m. probe m (kh_hash (kh_keys (kh_store i key val h) ! j)) s = j
      \<and> (\<forall>t < s. nf[i := 0] ! probe m (kh_hash (kh_keys (kh_store i key val h) ! j)) t = 0)"
  proof (cases "j = i")
    case True
    then have "kh_keys (kh_store i key val h) ! j = key"
      using assms(2,4) by (simp add: kh_store_def)
    then show ?thesis using assms(5-7) True up by auto
  next
    case False
    then have "kh_keys (kh_store i key val h) ! j = kh_keys h ! j" "nf ! j = 0"
      using z by (simp_all add: kh_store_def)
    then show ?thesis using assms(1) j up unfolding kh_placed_def by metis
  qed
qed

text \<open>One placement keeps the invariant, with the displaced element, if any, in hand.\<close>

lemma kh_mid_step:
  assumes mid: "kh_mid m S h nf {(key, val)}" and i: "i < 2 ^ m" "nf ! i = 2"
    and path: "s0 < 2 ^ m" "i = probe m (kh_hash key) s0" "\<forall>t < s0. nf ! probe m (kh_hash key) t = 0"
  shows "i < length (kh_flags h) \<Longrightarrow> kh_flags h ! i = 0 \<Longrightarrow>
      kh_mid m S (kh_store i key val h\<lparr>kh_flags := (kh_flags h)[i := 1]\<rparr>) (nf[i := 0]) {kh_pair h i}"
    and "\<not> (i < length (kh_flags h) \<and> kh_flags h ! i = 0) \<Longrightarrow>
      kh_mid m S (kh_store i key val h) (nf[i := 0]) {}"
proof -
  let ?A = "kh_spots m h nf"
  let ?h = "kh_store i key val h"
  have len: "length (kh_keys h) = 2 ^ m" "length (kh_vals h) = 2 ^ m" "length nf = 2 ^ m"
    and inj: "inj_on (\<lambda>j. kh_keys h ! j) ?A" and key: "key \<notin> (\<lambda>j. kh_keys h ! j) ` ?A"
    and S: "insert (key, val) (kh_pair h ` ?A) = S" and pl: "kh_placed m h nf"
    and old: "\<forall>j < length (kh_flags h). nf ! j = 0 \<longrightarrow> kh_flags h ! j \<noteq> 0"
    using mid by (auto simp: kh_mid_def)
  have il: "i < length (kh_keys h)" using i len by simp
  have nf': "nf[i := 0] ! j \<in> {0, 2}" if "j < 2 ^ m" for j
    using mid that i len by (cases "j = i") (simp_all add: kh_mid_def)
  have placed: "kh_placed m ?h (nf[i := 0])"
    by (rule kh_store_placed [OF pl i(1) len(3,1) path i(2)])
  have inj': "inj_on (\<lambda>j. kh_keys ?h ! j) (insert i ?A)"
    by (rule kh_store_keys [OF il inj key])
  have pairs: "kh_pair ?h ` insert i ?A = insert (key, val) (kh_pair h ` (?A - {i}))"
    by (rule kh_store_pairs) (use il len in simp_all)
  show "kh_mid m S (?h\<lparr>kh_flags := (kh_flags h)[i := 1]\<rparr>) (nf[i := 0]) {kh_pair h i}"
    if live: "i < length (kh_flags h)" "kh_flags h ! i = 0"
  proof -
    let ?h2 = "?h\<lparr>kh_flags := (kh_flags h)[i := 1]\<rparr>"
    have mem: "i \<in> ?A" using live i by (simp add: kh_spots_def)
    have spots: "kh_spots m ?h2 (nf[i := 0]) = insert i ?A"
      using i len live by (auto simp: kh_spots_def kh_store_def nth_list_update)
    have pr: "kh_pair ?h2 = kh_pair ?h"
      by (simp add: kh_pair_def fun_eq_iff)
    have pl2: "kh_placed m ?h2 (nf[i := 0])"
      using placed by (simp add: kh_placed_def)
    have un: "kh_pair ?h2 ` insert i ?A \<union> {kh_pair h i} = S"
    proof -
      have "insert (kh_pair h i) (kh_pair h ` (?A - {i})) = kh_pair h ` ?A"
        using mem by (metis image_insert insert_Diff)
      then show ?thesis
        unfolding pr pairs S [symmetric] by blast
    qed
    have "kh_keys h ! i \<noteq> key"
      using key mem by blast
    moreover have "kh_keys h ! i \<noteq> kh_keys h ! j" if "j \<in> ?A" "j \<noteq> i" for j
      using inj mem that by (auto simp: inj_on_def)
    ultimately have "kh_keys h ! i \<noteq> kh_keys ?h2 ! j" if "j \<in> insert i ?A" for j
      using that il by (cases "j = i") (auto simp: kh_store_def)
    then have "kh_keys h ! i \<notin> (\<lambda>j. kh_keys ?h2 ! j) ` insert i ?A"
      by blast
    then have dis: "fst ` {kh_pair h i} \<inter> (\<lambda>j. kh_keys ?h2 ! j) ` insert i ?A = {}"
      unfolding image_insert image_empty kh_pair_def fst_conv by blast
    have old2: "kh_flags ?h2 ! j \<noteq> 0" if "j < length (kh_flags ?h2)" "nf[i := 0] ! j = 0" for j
      using old that by (cases "j = i") simp_all
    show ?thesis
      unfolding kh_mid_def spots
      using mid nf' old2 inj' un dis pl2 unfolding kh_mid_def
      by (intro conjI allI impI) (simp_all add: kh_store_def)
  qed
  show "kh_mid m S ?h (nf[i := 0]) {}"
    if free: "\<not> (i < length (kh_flags h) \<and> kh_flags h ! i = 0)"
  proof -
    have mem: "i \<notin> ?A" using free i by (auto simp: kh_spots_def)
    have spots: "kh_spots m ?h (nf[i := 0]) = insert i ?A"
      using i len by (auto simp: kh_spots_def kh_store_def nth_list_update)
    have un: "kh_pair ?h ` insert i ?A = S"
      unfolding pairs using S mem by simp
    have old2: "kh_flags ?h ! j \<noteq> 0" if "j < length (kh_flags ?h)" "nf[i := 0] ! j = 0" for j
      using old that free by (cases "j = i") (simp_all add: kh_store_def)
    show ?thesis
      unfolding kh_mid_def spots
      using mid nf' old2 inj' un placed unfolding kh_mid_def
      by (intro conjI allI impI) (simp_all add: kh_store_def)
  qed
qed

text \<open>The kick-out process ends and places everything it has in hand.\<close>

definition kh_same :: "'v khash \<Rightarrow> 'v khash \<Rightarrow> bool" where
  "kh_same h h' \<longleftrightarrow> kh_n_buckets h' = kh_n_buckets h \<and> kh_size h' = kh_size h
     \<and> length (kh_flags h') = length (kh_flags h)
     \<and> (\<forall>j < length (kh_flags h). kh_flags h ! j \<noteq> 0 \<longrightarrow> kh_flags h' ! j \<noteq> 0)"

lemma kh_same_trans: "kh_same a b \<Longrightarrow> kh_same b c \<Longrightarrow> kh_same a c"
  by (simp add: kh_same_def)

lemma kh_kick_out_run:
  "kh_mid m S h nf {(key, val)} \<Longrightarrow> card {i. i < 2 ^ m \<and> nf ! i = 2} < fuel \<Longrightarrow>
    \<exists>h' nf'. kh_kick_out fuel (2 ^ m) h nf key val = Some (h', nf') \<and> kh_mid m S h' nf' {} \<and> kh_same h h'"
proof (induction fuel arbitrary: h nf key val)
  case (Suc fuel)
  note mid = Suc.prems(1)
  obtain i s0 where fs: "kh_free_slot (2 * unat (2 ^ m :: u32)) nf (2 ^ m - 1)
      (kh_int64_hash_func key AND (2 ^ m - 1)) 0 = Some i"
    and s0: "s0 < 2 ^ m" "unat i = probe m (kh_hash key) s0" and e: "nf ! unat i = 2"
    and path: "\<forall>t < s0. nf ! probe m (kh_hash key) t = 0"
    using kh_free_slot_ok [OF mid, of key] by blast
  have i: "unat i < 2 ^ m" by (simp add: s0)
  have lnf: "length nf = 2 ^ m" and lf: "length (kh_flags h) = unat (kh_n_buckets h)"
    using mid by (simp_all add: kh_mid_def)
  have nf1: "ac_set_isempty_false nf i = nf[unat i := 0]"
    by (simp add: ac_set_isempty_false_def e)
  note step = kh_mid_step [OF mid i e s0 path]
  have cond: "i < kh_n_buckets h \<and> \<not> ac_iseither (kh_flags h) i
      \<longleftrightarrow> unat i < length (kh_flags h) \<and> kh_flags h ! unat i = 0"
    by (simp add: lf word_less_nat_alt ac_iseither_def)
  have st: "h\<lparr>kh_keys := (kh_keys h)[unat i := key], kh_vals := (kh_vals h)[unat i := val]\<rparr> = kh_store (unat i) key val h"
    by (simp add: kh_store_def)
  show ?case
  proof (cases "unat i < length (kh_flags h) \<and> kh_flags h ! unat i = 0")
    case True
    let ?h2 = "kh_store (unat i) key val h\<lparr>kh_flags := (kh_flags h)[unat i := 1]\<rparr>"
    have "{j. j < 2 ^ m \<and> nf[unat i := 0] ! j = 2} = {j. j < 2 ^ m \<and> nf ! j = 2} - {unat i}"
      using lnf i by (auto simp: nth_list_update split: if_splits)
    then have "card {j. j < 2 ^ m \<and> nf[unat i := 0] ! j = 2} < fuel"
      using Suc.prems(2) i e card_Diff1_less [of "{j. j < 2 ^ m \<and> nf ! j = 2}" "unat i"] by simp
    moreover have "kh_mid m S ?h2 (nf[unat i := 0]) {(kh_keys h ! unat i, kh_vals h ! unat i)}"
      using step(1) True by (simp add: kh_pair_def)
    ultimately obtain h' nf' where r: "kh_kick_out fuel (2 ^ m) ?h2 (nf[unat i := 0])
        (kh_keys h ! unat i) (kh_vals h ! unat i) = Some (h', nf')" "kh_mid m S h' nf' {}" "kh_same ?h2 h'"
      using Suc.IH by blast
    have "kh_same h ?h2"
      using True by (auto simp: kh_same_def kh_store_def nth_list_update)
    then have "kh_same h h'" using r(3) kh_same_trans by blast
    moreover have "ac_set_isdel_true (kh_flags h) i = (kh_flags h)[unat i := 1]"
      using True by (simp add: ac_set_isdel_true_def)
    ultimately show ?thesis
      using fs r True unfolding kh_kick_out.simps Let_def by (simp add: cond nf1 st)
  next
    case False
    have "kh_same h (kh_store (unat i) key val h)"
      by (simp add: kh_same_def kh_store_def)
    then show ?thesis
      using step(2) [OF False] unfolding kh_kick_out.simps Let_def fs option.case cond if_not_P [OF False]
      by (simp add: nf1 st)
  qed
qed simp

text \<open>The loop over the old buckets leaves none of them live.\<close>

lemma kh_take_in_hand:
  assumes mid: "kh_mid m S h nf {}" and j: "j < length (kh_flags h)" "kh_flags h ! j = 0"
  shows "kh_mid m S (h\<lparr>kh_flags := (kh_flags h)[j := 1]\<rparr>) nf {kh_pair h j}"
proof -
  let ?h = "h\<lparr>kh_flags := (kh_flags h)[j := 1]\<rparr>"
  have j2: "j < 2 ^ m" and nj: "nf ! j \<noteq> 0"
    using mid j by (auto simp: kh_mid_def)
  have mem: "j \<in> kh_spots m h nf" using j j2 by (simp add: kh_spots_def)
  have spots: "kh_spots m ?h nf = kh_spots m h nf - {j}"
    using j j2 nj by (auto simp: kh_spots_def nth_list_update split: if_splits)
  have pr: "kh_pair ?h = kh_pair h"
    by (simp add: kh_pair_def fun_eq_iff)
  have inj: "inj_on (\<lambda>i. kh_keys h ! i) (kh_spots m h nf)"
    using mid by (simp add: kh_mid_def)
  have "insert (kh_pair h j) (kh_pair h ` (kh_spots m h nf - {j})) = kh_pair h ` kh_spots m h nf"
    using mem by (metis image_insert insert_Diff)
  then have un: "kh_pair ?h ` (kh_spots m h nf - {j}) \<union> {kh_pair h j} = S"
    using mid by (simp add: kh_mid_def pr)
  have "kh_keys h ! j \<notin> (\<lambda>i. kh_keys h ! i) ` (kh_spots m h nf - {j})"
    using inj mem by (auto simp: inj_on_def)
  then have dis: "fst ` {kh_pair h j} \<inter> (\<lambda>i. kh_keys ?h ! i) ` (kh_spots m h nf - {j}) = {}"
    unfolding image_insert image_empty kh_pair_def fst_conv by simp
  have inj2: "inj_on (\<lambda>i. kh_keys ?h ! i) (kh_spots m h nf - {j})"
    using inj by (auto intro: inj_on_subset)
  have old: "kh_flags ?h ! i \<noteq> 0" if "i < length (kh_flags ?h)" "nf ! i = 0" for i
    using mid that nj by (cases "i = j") (simp_all add: kh_mid_def)
  have pl: "kh_placed m ?h nf"
    using mid by (simp add: kh_mid_def kh_placed_def)
  show ?thesis
    unfolding kh_mid_def spots
    using mid inj2 un dis old pl unfolding kh_mid_def by (intro conjI allI impI) simp_all
qed

lemma kh_rehash_run:
  "kh_mid m S h nf {} \<Longrightarrow> set js \<subseteq> {..<length (kh_flags h)} \<Longrightarrow>
    \<exists>h' nf'. kh_rehash js (2 ^ m) h nf = Some (h', nf') \<and> kh_mid m S h' nf' {} \<and> kh_same h h'
      \<and> (\<forall>j \<in> set js. kh_flags h' ! j \<noteq> 0)"
proof (induction js arbitrary: h nf)
  case Nil
  then show ?case by (simp add: kh_same_def)
next
  case (Cons j js)
  note mid = Cons.prems(1)
  have j: "j < length (kh_flags h)" using Cons.prems(2) by simp
  have m: "m < 32" and n: "length (kh_flags h) \<le> 2 ^ m"
    using mid by (simp_all add: kh_mid_def)
  have "(2 :: nat) ^ m < 2 ^ 32" using m by (intro power_strict_increasing) simp_all
  then have uj: "unat (of_nat j :: u32) = j"
    using j n by (simp add: unat_of_nat)
  have e: "ac_iseither (kh_flags h) (of_nat j) \<longleftrightarrow> kh_flags h ! j \<noteq> 0"
    by (simp add: ac_iseither_def uj)
  obtain h1 nf1 where r: "kh_rehash (j # js) (2 ^ m) h nf = kh_rehash js (2 ^ m) h1 nf1"
    and mid1: "kh_mid m S h1 nf1 {}" and same1: "kh_same h h1" and j1: "kh_flags h1 ! j \<noteq> 0"
  proof (cases "kh_flags h ! j = 0")
    case True
    let ?h = "h\<lparr>kh_flags := (kh_flags h)[j := 1]\<rparr>"
    have fl: "ac_set_isdel_true (kh_flags h) (of_nat j) = (kh_flags h)[j := 1]"
      by (simp add: ac_set_isdel_true_def uj True)
    have "card {i. i < 2 ^ m \<and> nf ! i = 2} \<le> card {..<2 ^ m :: nat}"
      by (intro card_mono) auto
    then have fu: "card {i. i < 2 ^ m \<and> nf ! i = 2} < Suc (unat (2 ^ m :: u32))"
      using m by (simp add: unat_word_eq_pow)
    obtain h1 nf1 where k: "kh_kick_out (Suc (unat (2 ^ m :: u32))) (2 ^ m) ?h nf (kh_keys h ! j) (kh_vals h ! j)
        = Some (h1, nf1)" "kh_mid m S h1 nf1 {}" "kh_same ?h h1"
      using kh_kick_out_run [OF kh_take_in_hand [OF mid j True, unfolded kh_pair_def] fu] by blast
    have "kh_same h ?h"
      using j True by (auto simp: kh_same_def nth_list_update)
    then have "kh_same h h1" using k(3) kh_same_trans by blast
    moreover have "kh_flags h1 ! j \<noteq> 0"
      using k(3) j by (simp add: kh_same_def)
    ultimately show ?thesis
      using that k True by (simp add: e fl del: kh_kick_out.simps)
  next
    case False
    then show ?thesis
      using that [of h nf] mid by (simp add: e kh_same_def)
  qed
  have "set js \<subseteq> {..<length (kh_flags h1)}"
    using Cons.prems(2) same1 by (simp add: kh_same_def)
  then obtain h' nf' where r': "kh_rehash js (2 ^ m) h1 nf1 = Some (h', nf')" "kh_mid m S h' nf' {}"
    "kh_same h1 h'" "\<forall>j \<in> set js. kh_flags h' ! j \<noteq> 0"
    using Cons.IH [OF mid1] by blast
  have "kh_flags h' ! j \<noteq> 0"
    using r'(3) same1 j1 j by (simp add: kh_same_def)
  then show ?case
    using r r' kh_same_trans [OF same1] by auto
qed

section \<open>Growing the table\<close>

definition kh_live :: "'v khash \<Rightarrow> nat set" where
  "kh_live h = {j. j < length (kh_flags h) \<and> kh_flags h ! j = 0}"

text \<open>What the rehash needs of the old table: a well-formed one, or one with no bucket at all.\<close>

definition kh_base :: "'v khash \<Rightarrow> bool" where
  "kh_base h \<longleftrightarrow> length (kh_flags h) = unat (kh_n_buckets h) \<and> length (kh_keys h) = unat (kh_n_buckets h)
     \<and> length (kh_vals h) = unat (kh_n_buckets h)
     \<and> inj_on (\<lambda>j. kh_keys h ! j) (kh_live h) \<and> unat (kh_size h) = card (kh_live h)"

lemma kh_wf_live: "kh_shape m h \<Longrightarrow> kh_live h = {j. j < 2 ^ m \<and> kh_flags h ! j = 0}"
  by (simp add: kh_live_def kh_shape_def)

lemma kh_wf_base:
  assumes "kh_wf m h"
  shows "kh_base h"
proof -
  have sh: "kh_shape m h" and r: "kh_reach m h" and c: "kh_count m h"
    using assms by (auto simp: kh_wf_def)
  have "inj_on (\<lambda>j. kh_keys h ! j) (kh_live h)"
    using r unfolding kh_wf_live [OF sh] inj_on_def kh_reach_def kh_has_def by blast
  then show ?thesis
    using sh c by (simp add: kh_base_def kh_shape_def kh_count_def kh_wf_live [OF sh, unfolded kh_shape_def] unat_word_eq_pow)
qed

lemma kh_rehash_done:
  assumes mid: "kh_mid m S h nf {}" and old: "\<forall>j < length (kh_flags h). kh_flags h ! j \<noteq> 0"
    and sz: "unat (kh_size h) = card S" and ub: "card S \<le> (77 * 2 ^ m + 50) div 100"
    and h': "h' = h\<lparr>kh_flags := nf, kh_n_buckets := 2 ^ m, kh_n_occupied := kh_size h, kh_upper_bound := ac_HASH_UPPER (2 ^ m)\<rparr>"
  shows "kh_wf m h'" and "kh_pair h' ` kh_live h' = S"
proof -
  have m: "2 \<le> m" "m < 31" and lens: "length (kh_keys h) = 2 ^ m" "length (kh_vals h) = 2 ^ m" "length nf = 2 ^ m"
    and vals: "\<forall>i < 2 ^ m. nf ! i \<in> {0, 2}" and pl: "kh_placed m h nf"
    and inj: "inj_on (\<lambda>i. kh_keys h ! i) (kh_spots m h nf)" and S: "kh_pair h ` kh_spots m h nf = S"
    using mid by (simp_all add: kh_mid_def)
  have spots: "kh_spots m h nf = {j. j < 2 ^ m \<and> nf ! j = 0}"
    using old by (auto simp: kh_spots_def)
  have two: "nf ! j = 0" if "j < 2 ^ m" "nf ! j \<noteq> 2" for j
    using vals that by auto
  have occ: "{j. j < 2 ^ m \<and> nf ! j \<noteq> 2} = {j. j < 2 ^ m \<and> nf ! j = 0}"
    using two by force
  have pr: "kh_pair h' = kh_pair h"
    by (simp add: kh_pair_def fun_eq_iff h')
  have sh: "kh_shape m h'"
    using m lens vals by (auto simp: kh_shape_def h')
  have live: "kh_live h' = kh_spots m h nf"
    unfolding kh_wf_live [OF sh] spots by (simp add: h')
  have "inj_on (kh_pair h) (kh_spots m h nf)"
    using inj by (auto simp: kh_pair_def inj_on_def)
  then have card: "card S = card (kh_spots m h nf)"
    unfolding S [symmetric] by (rule card_image)
  have "kh_reach m h'"
  proof -
    have "\<exists>s < 2 ^ m. probe m (kh_hash key) s = j \<and> (\<forall>t < s. kh_flags h' ! probe m (kh_hash key) t \<noteq> 2)"
      if "kh_has m h' j key" for j key
    proof -
      have "j < 2 ^ m" "nf ! j = 0" "kh_keys h ! j = key"
        using that by (simp_all add: kh_has_def h')
      then obtain s where "s < 2 ^ m" "probe m (kh_hash key) s = j" "\<forall>t < s. nf ! probe m (kh_hash key) t = 0"
        using pl unfolding kh_placed_def by blast
      then show ?thesis by (auto simp: h')
    qed
    moreover have "i = j" if "kh_has m h' i key" "kh_has m h' j key" for i j key
      using inj that by (auto simp: kh_has_def h' inj_on_def spots)
    ultimately show ?thesis unfolding kh_reach_def by blast
  qed
  moreover have "kh_count m h'"
    using sz ub card by (simp add: kh_count_def h' spots occ)
  ultimately show "kh_wf m h'"
    using sh by (simp add: kh_wf_def)
  show "kh_pair h' ` kh_live h' = S"
    unfolding live pr by (rule S)
qed

text \<open>The rehash into a table of at least the same size keeps the elements.\<close>

lemma kh_resize_rehash_run:
  assumes base: "kh_base h" and m: "2 \<le> m" "m < 31" "unat (kh_n_buckets h) \<le> 2 ^ m"
    and ub: "unat (kh_size h) < (77 * 2 ^ m + 50) div 100"
    and h0: "h0 = h \<and> unat (kh_n_buckets h) = 2 ^ m \<or> h0 = kh_realloc (2 ^ m) h"
  shows "\<exists>h'. kh_resize_rehash (2 ^ m) h0 os = Some (0, h', os) \<and> kh_wf m h'
    \<and> kh_pair h' ` kh_live h' = kh_pair h ` kh_live h \<and> kh_n_occupied h' = kh_size h \<and> kh_size h' = kh_size h"
proof -
  let ?S = "kh_pair h ` kh_live h" and ?nf = "replicate (2 ^ m) 2 :: 2 word list"
  have u: "unat (2 ^ m :: u32) = 2 ^ m"
    using m by (simp add: unat_word_eq_pow)
  have lens: "length (kh_flags h) = unat (kh_n_buckets h)" "length (kh_keys h) = unat (kh_n_buckets h)"
    "length (kh_vals h) = unat (kh_n_buckets h)" and inj: "inj_on (\<lambda>j. kh_keys h ! j) (kh_live h)"
    and sz: "unat (kh_size h) = card (kh_live h)"
    using base by (simp_all add: kh_base_def)
  have fields: "kh_flags h0 = kh_flags h" "kh_n_buckets h0 = kh_n_buckets h" "kh_size h0 = kh_size h"
    using h0 by (auto simp: kh_realloc_def)
  have l0: "length (kh_keys h0) = 2 ^ m" "length (kh_vals h0) = 2 ^ m"
    using h0 lens m(3) u by (auto simp: kh_realloc_def)
  have same: "kh_keys h0 ! j = kh_keys h ! j" "kh_vals h0 ! j = kh_vals h ! j" if "j < length (kh_flags h)" for j
    using h0 lens m(3) that u by (auto simp: kh_realloc_def nth_append)
  have live: "kh_live h0 = kh_live h" by (simp add: kh_live_def fields)
  have pairs: "kh_pair h0 ` kh_live h = ?S"
    by (rule image_cong) (simp_all add: kh_pair_def same kh_live_def)
  have spots: "kh_spots m h0 ?nf = kh_live h"
    using lens m(3) by (auto simp: kh_spots_def kh_live_def fields)
  have "inj_on (kh_pair h) (kh_live h)"
    using inj by (auto simp: kh_pair_def inj_on_def)
  then have card: "card ?S = card (kh_live h)"
    by (rule card_image)
  have fin: "finite ?S" by (simp add: kh_live_def)
  have inj0: "inj_on (\<lambda>j. kh_keys h0 ! j) (kh_live h)"
    using inj by (auto simp: inj_on_def same kh_live_def)
  have "card ?S < (77 * 2 ^ m + 50) div 100"
    using card ub sz by simp
  then have "card ?S < 2 ^ m" by simp
  then have mid: "kh_mid m ?S h0 ?nf {}"
    unfolding kh_mid_def spots using m l0 lens inj0 pairs fin
    by (simp add: fields kh_placed_def)
  have "set [0..<unat (kh_n_buckets h0)] \<subseteq> {..<length (kh_flags h0)}"
    using lens by (auto simp: fields)
  then obtain h1 nf where r: "kh_rehash [0..<unat (kh_n_buckets h0)] (2 ^ m) h0 ?nf = Some (h1, nf)"
    and mid1: "kh_mid m ?S h1 nf {}" and s1: "kh_same h0 h1"
    and old: "\<forall>j \<in> set [0..<unat (kh_n_buckets h0)]. kh_flags h1 ! j \<noteq> 0"
    using kh_rehash_run [OF mid] by blast
  let ?h' = "h1\<lparr>kh_flags := nf, kh_n_buckets := 2 ^ m, kh_n_occupied := kh_size h1, kh_upper_bound := ac_HASH_UPPER (2 ^ m)\<rparr>"
  have n1: "\<not> 2 ^ m < kh_n_buckets h1"
    using s1 m(3) u by (simp add: kh_same_def fields word_less_nat_alt)
  have "\<forall>j < length (kh_flags h1). kh_flags h1 ! j \<noteq> 0"
    using old s1 lens by (simp add: kh_same_def fields)
  moreover have "unat (kh_size h1) = card ?S"
    using s1 card sz by (simp add: kh_same_def fields)
  ultimately have "kh_wf m ?h'" "kh_pair ?h' ` kh_live ?h' = ?S"
    using kh_rehash_done [OF mid1 _ _ _ refl] card ub sz by simp_all
  moreover have "kh_size h1 = kh_size h"
    using s1 by (simp add: kh_same_def fields)
  ultimately show ?thesis
    using r n1 by (intro exI [of _ ?h']) (simp add: kh_resize_rehash_def u)
qed

lemma kh_roundup_table: "\<forall>m \<in> set [2..<31]. kroundup32 (2 ^ m - 1) = 2 ^ m \<and> kroundup32 (2 ^ m + 1) = 2 ^ Suc m"
  by (simp add: kroundup32_def upt_rec)

lemma kh_roundup:
  assumes "2 \<le> m" and "m < 31"
  shows "kroundup32 (2 ^ m - 1) = 2 ^ m" and "kroundup32 (2 ^ m + 1) = 2 ^ Suc m"
proof -
  have "m \<in> set [2..<31]" using assms by (simp only: set_upt atLeastLessThan_iff)
  from bspec [OF kh_roundup_table this]
  show "kroundup32 (2 ^ m - 1) = 2 ^ m" "kroundup32 (2 ^ m + 1) = 2 ^ Suc m" by blast+
qed

section \<open>The table as a map\<close>

definition kh_empty :: "'v khash \<Rightarrow> bool" where
  "kh_empty h \<longleftrightarrow> kh_n_buckets h = 0 \<and> kh_size h = 0 \<and> kh_n_occupied h = 0 \<and> kh_upper_bound h = 0
     \<and> kh_flags h = [] \<and> kh_keys h = [] \<and> kh_vals h = []"

definition kh_tab :: "'v khash \<Rightarrow> (u64 \<rightharpoonup> 'v option) \<Rightarrow> bool" where
  "kh_tab h M \<longleftrightarrow> (kh_empty h \<or> (\<exists>m. kh_wf m h)) \<and> (\<forall>k v. M k = Some v \<longleftrightarrow> (k, v) \<in> kh_pair h ` kh_live h)"

lemma kh_tab_init: "kh_empty h \<Longrightarrow> kh_tab h Map.empty"
  by (simp add: kh_tab_def kh_live_def kh_empty_def)

lemma kh_tab_base: "kh_tab h M \<Longrightarrow> kh_base h"
proof -
  assume t: "kh_tab h M"
  have "kh_base h" if "kh_empty h"
    using that by (simp add: kh_empty_def kh_base_def kh_live_def)
  then show ?thesis using t kh_wf_base unfolding kh_tab_def by blast
qed

lemma kh_tab_size:
  assumes "kh_tab h M"
  shows "unat (kh_size h) = card (dom M)" and "finite (dom M)"
proof -
  have b: "kh_base h" by (rule kh_tab_base [OF assms])
  have "dom M = (\<lambda>j. kh_keys h ! j) ` kh_live h"
    using assms unfolding kh_tab_def kh_pair_def dom_def by (auto simp: image_iff)
  moreover have "finite (kh_live h)" by (simp add: kh_live_def)
  ultimately show "unat (kh_size h) = card (dom M)" and "finite (dom M)"
    using b by (simp_all add: kh_base_def card_image)
qed

lemma kh_tab_pairs: "kh_tab h M \<Longrightarrow> kh_wf m h' \<Longrightarrow> kh_pair h' ` kh_live h' = kh_pair h ` kh_live h \<Longrightarrow> kh_tab h' M"
  by (auto simp: kh_tab_def)

lemma kh_wf_pairs:
  assumes "kh_wf m h"
  shows "(k, w) \<in> kh_pair h ` kh_live h \<longleftrightarrow> (\<exists>j. kh_has m h j k \<and> kh_vals h ! j = w)"
proof -
  have live: "kh_live h = {j. j < 2 ^ m \<and> kh_flags h ! j = 0}"
    using assms by (simp add: kh_wf_def kh_wf_live)
  show ?thesis
    unfolding live kh_pair_def kh_has_def by auto
qed

lemma kh_wf_tab_has:
  assumes wf: "kh_wf m h" and t: "kh_tab h M"
  shows "kh_has m h j k \<Longrightarrow> M k = Some (kh_vals h ! j)" and "k \<in> dom M \<longleftrightarrow> (\<exists>j. kh_has m h j k)"
    and "M k = Some v \<longleftrightarrow> (\<exists>j. kh_has m h j k \<and> kh_vals h ! j = v)"
proof -
  show *: "M k = Some v \<longleftrightarrow> (\<exists>j. kh_has m h j k \<and> kh_vals h ! j = v)" for v
    using t unfolding kh_tab_def kh_wf_pairs [OF wf] by blast
  show "kh_has m h j k \<Longrightarrow> M k = Some (kh_vals h ! j)" using * by blast
  show "k \<in> dom M \<longleftrightarrow> (\<exists>j. kh_has m h j k)" using * by blast
qed

text \<open>Lookup: the value of a present key; no bucket at all for an absent one.\<close>

lemma kh_get_tab:
  assumes t: "kh_tab h M"
  shows "M key = Some v \<Longrightarrow> \<exists>x. kh_get h key = Some x \<and> kh_value h x = Done v"
    and "M key = None \<Longrightarrow> \<exists>x. kh_get h key = Some x \<and> kh_value h x = Undef"
proof -
  have "\<exists>x. kh_get h key = Some x \<and> kh_value h x = (case M key of Some v \<Rightarrow> Done v | None \<Rightarrow> Undef)"
  proof (cases "kh_empty h")
    case True
    then have "M key = None" using t by (cases "M key") (auto simp: kh_tab_def kh_empty_def kh_live_def)
    then show ?thesis using True by (simp add: kh_get_def kh_empty_def kh_value_def)
  next
    case False
    then obtain m where wf: "kh_wf m h" using t by (auto simp: kh_tab_def)
    then have sh: "m < 31" "kh_n_buckets h = 2 ^ m" "length (kh_vals h) = 2 ^ m"
      by (simp_all add: kh_wf_def kh_shape_def)
    show ?thesis
    proof (cases "\<exists>j. kh_has m h j key")
      case True
      then obtain j where j: "kh_has m h j key" by blast
      have "(2 :: nat) ^ m < 2 ^ 32" using sh by (intro power_strict_increasing) simp_all
      then have "unat (of_nat j :: u32) = j" "j < 2 ^ m"
        using j by (simp_all add: kh_has_def unat_of_nat)
      then show ?thesis
        using kh_get_run(1) [OF wf j] kh_wf_tab_has(1) [OF wf t j] sh by (simp add: kh_value_def)
    next
      case False
      then have "M key = None" using kh_wf_tab_has(2) [OF wf t, of key] by auto
      then show ?thesis
        using kh_get_run(2) [OF wf False] sh by (simp add: kh_value_def unat_word_eq_pow)
    qed
  qed
  then show "M key = Some v \<Longrightarrow> \<exists>x. kh_get h key = Some x \<and> kh_value h x = Done v"
    and "M key = None \<Longrightarrow> \<exists>x. kh_get h key = Some x \<and> kh_value h x = Undef"
    by (auto split: option.splits)
qed

text \<open>Making room before an insertion: the map stays, and an empty bucket is left over.\<close>

lemma kh_resize_run:
  assumes t: "kh_tab h M" and rel: "reliable os" and r: "kroundup32 nn = 2 ^ m" and m: "2 \<le> m" "m < 31"
    and le: "unat (kh_n_buckets h) \<le> 2 ^ m" and ub: "unat (kh_size h) < (77 * 2 ^ m + 50) div 100"
  shows "\<exists>h' n. kh_resize h nn os = Some (0, h', (ticked ^^ n) os) \<and> kh_wf m h' \<and> kh_tab h' M
    \<and> kh_n_occupied h' = kh_size h \<and> kh_size h' = kh_size h"
proof -
  have u: "unat (2 ^ m :: u32) = 2 ^ m" using m by (simp add: unat_word_eq_pow)
  have p: "(2 :: nat) ^ 2 \<le> 2 ^ m" "(2 :: nat) ^ m \<le> 2 ^ 30" using m by (intro power_increasing; simp)+
  then have four: "\<not> (2 ^ m :: u32) < 4" by (simp add: word_less_nat_alt u)
  have "(77 * 2 ^ m + 50) div 100 < (2 :: nat) ^ 32" using p by simp
  then have hu: "unat (ac_HASH_UPPER (2 ^ m)) = (77 * 2 ^ m + 50) div 100"
    by (simp add: ac_HASH_UPPER_def u unat_of_nat)
  have go: "\<not> ac_HASH_UPPER (2 ^ m) \<le> kh_size h"
    using ub by (simp add: word_le_nat_alt hu)
  note base = kh_tab_base [OF t]
  note run = kh_resize_rehash_run [OF base m le ub]
  show ?thesis
  proof (cases "kh_n_buckets h < 2 ^ m")
    case True
    obtain h' where "kh_resize_rehash (2 ^ m) (kh_realloc (2 ^ m) h) (ticked (ticked (ticked os)))
        = Some (0, h', ticked (ticked (ticked os)))" "kh_wf m h'" "kh_pair h' ` kh_live h' = kh_pair h ` kh_live h"
      "kh_n_occupied h' = kh_size h" "kh_size h' = kh_size h"
      using run by blast
    then show ?thesis
      using True rel four go kh_tab_pairs [OF t]
      by (intro exI [of _ h'] exI [of _ 3]) (simp add: kh_resize_def r eval_nat_numeral Let_def u)
  next
    case False
    then have "unat (kh_n_buckets h) = 2 ^ m"
      using le by (simp add: word_less_nat_alt u)
    then obtain h' where "kh_resize_rehash (2 ^ m) h (ticked os) = Some (0, h', ticked os)" "kh_wf m h'"
      "kh_pair h' ` kh_live h' = kh_pair h ` kh_live h"
      "kh_n_occupied h' = kh_size h" "kh_size h' = kh_size h"
      using run by blast
    then show ?thesis
      using False rel four go kh_tab_pairs [OF t]
      by (intro exI [of _ h'] exI [of _ 1]) (simp add: kh_resize_def r Let_def u)
  qed
qed

lemma kh_put_grow_run:
  assumes t: "kh_tab h M" and rel: "reliable os" and small: "card (dom M) < 2 ^ 28"
  shows "\<exists>h' n m. kh_put_grow h os = Some (0, h', (ticked ^^ n) os) \<and> kh_wf m h' \<and> kh_tab h' M
    \<and> kh_n_occupied h' < kh_upper_bound h'"
proof -
  have sz: "unat (kh_size h) < 2 ^ 28"
    using kh_tab_size [OF t] small by simp
  have up: "unat (kh_upper_bound h') = (77 * 2 ^ m + 50) div 100" if "kh_wf m h'" for m and h' :: "'a khash"
  proof -
    have m: "m < 31" "kh_upper_bound h' = ac_HASH_UPPER (2 ^ m)"
      using that by (simp_all add: kh_wf_def kh_shape_def kh_count_def)
    then have "(2 :: nat) ^ m \<le> 2 ^ 30" by (intro power_increasing) simp_all
    then have "(77 * 2 ^ m + 50) div 100 < (2 :: nat) ^ 32" by simp
    then show ?thesis using m by (simp add: ac_HASH_UPPER_def unat_word_eq_pow unat_of_nat)
  qed
  have fin: ?thesis if g: "kh_put_grow h os = kh_resize h nn os" and r: "kroundup32 nn = 2 ^ m" and m: "2 \<le> m" "m < 31"
    and le: "unat (kh_n_buckets h) \<le> 2 ^ m" and ub: "unat (kh_size h) < (77 * 2 ^ m + 50) div 100" for nn m
  proof -
    obtain h' n where h': "kh_resize h nn os = Some (0, h', (ticked ^^ n) os)" "kh_wf m h'" "kh_tab h' M"
      "kh_n_occupied h' = kh_size h"
      using kh_resize_run [OF t rel r m le ub] by blast
    then show ?thesis
      using up [OF h'(2)] ub g by (auto simp: word_less_nat_alt)
  qed
  show ?thesis
  proof (cases "kh_empty h")
    case True
    have "kh_resize h 1 os = kh_resize h 3 os"
      by (simp add: kh_resize_def kroundup32_def)
    then have "kh_put_grow h os = kh_resize h 3 os"
      using True by (simp add: kh_put_grow_def kh_empty_def)
    then show ?thesis
      using True by (intro fin [of 3 2]) (simp_all add: kroundup32_def kh_empty_def)
  next
    case False
    then obtain m where wf: "kh_wf m h" using t by (auto simp: kh_tab_def)
    then have m: "2 \<le> m" "m < 31" and nb: "kh_n_buckets h = 2 ^ m"
      and occ: "unat (kh_size h) \<le> unat (kh_n_occupied h)" "unat (kh_n_occupied h) \<le> (77 * 2 ^ m + 50) div 100"
      by (auto simp: kh_wf_def kh_shape_def kh_count_def intro!: card_mono)
    have u: "unat (2 ^ m :: u32) = 2 ^ m" using m by (simp add: unat_word_eq_pow)
    have p: "(2 :: nat) ^ 2 \<le> 2 ^ m" using m by (intro power_increasing) simp_all
    have dbl: "unat (push_bit 1 (kh_size h)) = 2 * unat (kh_size h)"
      using sz by (simp add: push_bit_eq_mult unat_word_ariths)
    consider "kh_n_occupied h < kh_upper_bound h"
      | "kh_upper_bound h \<le> kh_n_occupied h" "2 * unat (kh_size h) < 2 ^ m"
      | "kh_upper_bound h \<le> kh_n_occupied h" "2 ^ m \<le> 2 * unat (kh_size h)"
      by fastforce
    then show ?thesis
    proof cases
      case 1
      then have "\<not> kh_upper_bound h \<le> kh_n_occupied h" by simp
      then have "kh_put_grow h os = Some (0, h, (ticked ^^ 0) os)"
        unfolding kh_put_grow_def if_not_P by simp
      then show ?thesis
        using wf t 1 by blast
    next
      case 2
      show ?thesis
        by (rule fin [of "2 ^ m - 1" m])
          (use 2 m nb dbl u p kh_roundup [OF m] in \<open>simp_all add: kh_put_grow_def word_less_nat_alt\<close>)
    next
      case 3
      then have "(2 :: nat) ^ m < 2 ^ 30" using sz by simp
      then have m30: "m < 30" by (rule power_less_imp_less_exp [rotated]) simp
      show ?thesis
        by (rule fin [of "2 ^ m + 1" "Suc m"])
          (use 3 m m30 nb dbl u p occ kh_roundup [OF m] in \<open>simp_all add: kh_put_grow_def word_less_nat_alt\<close>)
    qed
  qed
qed

text \<open>
  Insertion: a present key reports 0 and its bucket; a new one reports a positive value and
  becomes part of the map, with whatever its bucket held for a value.
\<close>

lemma kh_put_tab:
  assumes t: "kh_tab h M" and rel: "reliable os" and small: "card (dom M) < 2 ^ 28"
  shows "\<exists>x ret h' n v. kh_put h key os = Some (x, ret, h', (ticked ^^ n) os) \<and> kh_tab h' (M(key \<mapsto> v))
    \<and> kh_value h' x = Done v \<and> (if key \<in> dom M then ret = 0 \<and> M key = Some v else ret \<in> {1, 2})
    \<and> (\<forall>w. \<exists>h''. kh_set_value h' x w = Done h'' \<and> kh_tab h'' (M(key \<mapsto> Some w)))"
proof -
  obtain h1 n m where g: "kh_put_grow h os = Some (0, h1, (ticked ^^ n) os)" and wf: "kh_wf m h1"
    and t1: "kh_tab h1 M" and room: "kh_n_occupied h1 < kh_upper_bound h1"
    using kh_put_grow_run [OF assms] by blast
  obtain x where x: "kh_put_slot h1 key = Some x" "unat x < 2 ^ m" "\<forall>j. kh_has m h1 j key \<longrightarrow> unat x = j"
    "\<not> (\<exists>j. kh_has m h1 j key) \<longrightarrow> kh_free_for m h1 key (unat x)"
    using kh_put_slot_run [OF wf] by blast
  have sh: "kh_shape m h1" using wf by (simp add: kh_wf_def)
  obtain ret h' where p: "kh_put_at h1 key x = (ret, h')" and wf': "kh_wf m h'" and v: "kh_vals h' = kh_vals h1"
    and has: "\<forall>j k. kh_has m h' j k \<longleftrightarrow> (if k = key then j = unat x else kh_has m h1 j k)"
    and ret: "if key \<in> dom M then ret = 0 else ret \<in> {1, 2}"
  proof (cases "\<exists>j. kh_has m h1 j key")
    case True
    then have j: "kh_has m h1 (unat x) key" using x(3) by blast
    have "kh_flags h1 ! unat x = 0" using j by (simp add: kh_has_def)
    then have "kh_put_at h1 key x = (0, h1)"
      using kh_flag_cases [OF sh x(2)] by (simp add: kh_put_at_def)
    moreover have "kh_has m h1 i k \<longleftrightarrow> (if k = key then i = unat x else kh_has m h1 i k)" for i k
      by (metis j x(3))
    moreover have "key \<in> dom M"
      using True kh_wf_tab_has(2) [OF wf t1] by blast
    ultimately show ?thesis
      using that [of 0 h1] wf by simp
  next
    case False
    have ff: "kh_free_for m h1 key (unat x)" using x(4) False by blast
    have "key \<notin> dom M"
      using False kh_wf_tab_has(2) [OF wf t1] by blast
    then show ?thesis
      using kh_put_at_run [OF wf room x(2) ff False] that by (metis (no_types, lifting))
  qed
  have lv: "unat x < length (kh_vals h')"
    using wf' x(2) by (simp add: kh_wf_def kh_shape_def)
  let ?M = "M(key \<mapsto> kh_vals h' ! unat x)"
  have tab': "kh_tab h' ?M"
    unfolding kh_tab_def kh_wf_pairs [OF wf'] using wf' has kh_wf_tab_has(3) [OF wf t1] by (auto simp: v)
  have "\<exists>h''. kh_set_value h' x w = Done h'' \<and> kh_tab h'' (M(key \<mapsto> Some w))" for w
  proof -
    let ?h = "h'\<lparr>kh_vals := (kh_vals h')[unat x := Some w]\<rparr>"
    have wfh: "kh_wf m ?h"
      using wf' by (simp add: kh_wf_def kh_shape_def kh_reach_def kh_count_def kh_has_def)
    have hs: "kh_has m ?h = kh_has m h'"
      by (simp add: kh_has_def fun_eq_iff)
    have vs: "kh_vals ?h ! j = (if j = unat x then Some w else kh_vals h1 ! j)" if "kh_has m h' j k" for j k
      using lv by (simp add: v)
    have ne: "j \<noteq> unat x" if "kh_has m h1 j k" "k \<noteq> key" for j k
      using that has unfolding kh_has_def by metis
    have "(\<exists>j. kh_has m h' j k \<and> kh_vals ?h ! j = z) \<longleftrightarrow> (M(key \<mapsto> Some w)) k = Some z" for k z
    proof (cases "k = key")
      case True
      then show ?thesis using has lv by auto
    next
      case False
      then have "(\<exists>j. kh_has m h' j k \<and> kh_vals ?h ! j = z) \<longleftrightarrow> (\<exists>j. kh_has m h1 j k \<and> kh_vals h1 ! j = z)"
        using has vs ne by (metis (no_types, lifting))
      then show ?thesis using False kh_wf_tab_has(3) [OF wf t1] by simp
    qed
    then have "kh_tab ?h (M(key \<mapsto> Some w))"
      unfolding kh_tab_def kh_wf_pairs [OF wfh] hs using wfh by blast
    then show ?thesis using lv by (simp add: kh_set_value_def)
  qed
  moreover have "kh_put h key os = Some (x, ret, h', (ticked ^^ n) os)"
    by (simp add: kh_put_def g x(1) p)
  moreover have "kh_value h' x = Done (kh_vals h' ! unat x)"
    using lv by (simp add: kh_value_def)
  moreover have "if key \<in> dom M then ret = 0 \<and> M key = Some (kh_vals h' ! unat x) else ret \<in> {1, 2}"
  proof (cases "key \<in> dom M")
    case True
    then obtain j where j: "kh_has m h1 j key" using kh_wf_tab_has(2) [OF wf t1] by blast
    have "M key = Some (kh_vals h' ! unat x)"
      using kh_wf_tab_has(1) [OF wf t1 j] x(3) j v by auto
    then show ?thesis using True ret by simp
  qed (use ret in simp)
  ultimately show ?thesis
    using tab' by blast
qed

section \<open>The table is a finite map\<close>

text \<open>The use the macros are made for: put a key, then assign its value.\<close>

definition kh_insert :: "u64 \<Rightarrow> 'v \<Rightarrow> 'v khash \<times> os \<Rightarrow> ('v khash \<times> os) option" where
  "kh_insert key v s =
     (case kh_put (fst s) key (snd s) of
        None \<Rightarrow> None
      | Some (x, ret, h, os) \<Rightarrow>
        if ret < 0 then None
        else (case kh_set_value h x v of Undef \<Rightarrow> None | Done h1 \<Rightarrow> Some (h1, os)))"

definition kh_lookup :: "'v khash \<times> os \<Rightarrow> u64 \<Rightarrow> 'v option" where
  "kh_lookup s key =
     (case kh_get (fst s) key of
        None \<Rightarrow> None
      | Some x \<Rightarrow> if x = kh_n_buckets (fst s) then None
                 else (case kh_value (fst s) x of Undef \<Rightarrow> None | Done v \<Rightarrow> v))"

definition kh_rep :: "'v khash \<times> os \<Rightarrow> (u64 \<rightharpoonup> 'v) \<Rightarrow> bool" where
  "kh_rep s M \<longleftrightarrow> reliable (snd s) \<and> kh_tab (fst s) (map_option Some \<circ> M)"

lemma reliable_ticks [simp]: "reliable ((ticked ^^ n) os) = reliable os"
  by (induction n) simp_all

lemma kh_value_bound: "kh_tab h M \<Longrightarrow> kh_value h (kh_n_buckets h) = Undef"
  by (drule kh_tab_base) (simp add: kh_value_def kh_base_def)

interpretation khash_map: map_store kh_rep "2 ^ 28" kh_insert kh_lookup
proof
  fix s :: "'a khash \<times> os" and M k v
  assume r: "kh_rep s M" and c: "card (dom M) < 2 ^ 28"
  have d: "dom (map_option Some \<circ> M) = dom M" by (auto simp: dom_def)
  have up: "(map_option Some \<circ> M)(k \<mapsto> Some v) = map_option Some \<circ> M(k \<mapsto> v)" by auto
  have "kh_tab (fst s) (map_option Some \<circ> M)" "reliable (snd s)" using r by (simp_all add: kh_rep_def)
  from kh_put_tab [OF this, unfolded d, OF c, of k]
  obtain x ret h' n where p: "kh_put (fst s) k (snd s) = Some (x, ret, h', (ticked ^^ n) (snd s))"
    "if k \<in> dom M then ret = 0 else ret \<in> {1, 2}"
    "\<forall>w. \<exists>h''. kh_set_value h' x w = Done h'' \<and> kh_tab h'' ((map_option Some \<circ> M)(k \<mapsto> Some w))"
    unfolding d by (metis (no_types, lifting))
  have "\<not> ret < 0" using p(2) by (auto split: if_splits)
  obtain h'' where "kh_set_value h' x v = Done h''" "kh_tab h'' (map_option Some \<circ> M(k \<mapsto> v))"
    using p(3) up by metis
  then show "\<exists>s'. kh_insert k v s = Some s' \<and> kh_rep s' (M(k \<mapsto> v))"
    using p(1) \<open>\<not> ret < 0\<close> r by (simp add: kh_insert_def kh_rep_def)
next
  fix s :: "'a khash \<times> os" and M k
  assume "kh_rep s M"
  then have t: "kh_tab (fst s) (map_option Some \<circ> M)" by (simp add: kh_rep_def)
  show "kh_lookup s k = M k"
  proof (cases "M k")
    case None
    then obtain x where "kh_get (fst s) k = Some x" "kh_value (fst s) x = Undef"
      using kh_get_tab(2) [OF t, of k] by auto
    then show ?thesis using None by (simp add: kh_lookup_def)
  next
    case (Some v)
    then obtain x where x: "kh_get (fst s) k = Some x" "kh_value (fst s) x = Done (Some v)"
      using kh_get_tab(1) [OF t, of k "Some v"] by auto
    then have "x \<noteq> kh_n_buckets (fst s)" using kh_value_bound [OF t] by auto
    then show ?thesis using Some x by (simp add: kh_lookup_def)
  qed
next
  fix s :: "'a khash \<times> os" and M
  assume "kh_rep s M"
  then have "finite (dom (map_option Some \<circ> M))" unfolding kh_rep_def using kh_tab_size(2) by blast
  then show "finite (dom M)" by (simp add: dom_def)
qed

section \<open>Properties\<close>

text \<open>C32: A hash table is a finite map.  Inserting any sequence of at most \<open>2 ^ 28\<close> pairs into a new
  table ends without running out of buckets, through any number of rehashes, and afterwards a
  lookup of every key gives the value inserted for it last, and nothing for a key that was
  never inserted.\<close>

theorem khash_is_map:
  assumes "reliable os" and "length kvs \<le> 2 ^ 28"
  shows "\<exists>h os1 s. kh_init os = (Some h, os1) \<and> store_all kh_insert kvs (h, os1) = Some s
    \<and> (\<forall>k. kh_lookup s k = map_of (rev kvs) k)"
proof -
  let ?h = "\<lparr>kh_n_buckets = 0, kh_size = 0, kh_n_occupied = 0, kh_upper_bound = 0, kh_flags = [], kh_keys = [], kh_vals = []\<rparr>"
  have h: "kh_init os = (Some ?h, ticked os)" "kh_empty ?h"
    using assms(1) by (simp_all add: kh_init_def kh_empty_def)
  have r: "kh_rep (?h, ticked os) Map.empty"
    using assms(1) kh_tab_init [OF h(2)] by (simp add: kh_rep_def comp_def)
  show ?thesis
    using h(1) khash_map.store_all_look [OF r, of kvs] assms(2) by auto
qed

theorem khash_is_map_witness:
  "\<exists>h os1 s. kh_init (fresh_os {}) = (Some h, os1)
    \<and> store_all kh_insert [(5, ''a''), (9, ''b''), (5, ''c'')] (h, os1) = Some s
    \<and> (\<forall>k. kh_lookup s k = map_of [(5, ''c''), (9, ''b''), (5, ''a'')] k)"
  using khash_is_map [of "fresh_os {}" "[(5, ''a''), (9, ''b''), (5, ''c'')]"] by simp

text \<open>Looking up ends and finds exactly the bucket of the key.  In a well-formed table the probe loop
  of \<open>kh_get\<close> ends within the fuel of two rounds; it yields the bucket that holds the key, or
  the number of buckets when no bucket does.\<close>

theorem kh_get_finds:
  assumes "kh_wf m h"
  shows "kh_get h key = Some (if \<exists>j. kh_has m h j key then of_nat (THE j. kh_has m h j key) else kh_n_buckets h)"
proof (cases "\<exists>j. kh_has m h j key")
  case True
  then obtain j where j: "kh_has m h j key" by blast
  then have "(THE j. kh_has m h j key) = j"
    using assms unfolding kh_wf_def kh_reach_def by (intro the_equality) blast+
  then show ?thesis using kh_get_run(1) [OF assms j] True by simp
qed (use kh_get_run(2) [OF assms] in simp)

text \<open>The table of four buckets that holds the key 1 in bucket 1.\<close>

definition kh_one :: "string khash" where
  "kh_one = \<lparr>kh_n_buckets = 4, kh_size = 1, kh_n_occupied = 1, kh_upper_bound = 3,
     kh_flags = [2, 0, 2, 2], kh_keys = [0, 1, 0, 0], kh_vals = [None, Some ''v'', None, None]\<rparr>"

lemma less_4_cases: "(j :: nat) < 4 \<longleftrightarrow> j = 0 \<or> j = 1 \<or> j = 2 \<or> j = 3"
  by arith

lemma kh_one_has: "kh_has 2 kh_one j key \<longleftrightarrow> j = 1 \<and> key = 1"
  by (auto simp: kh_has_def kh_one_def less_4_cases)

lemma kh_one_wf: "kh_wf 2 kh_one"
proof -
  have sets: "{j. j < 4 \<and> kh_flags kh_one ! j = 0} = {1}" "{j. j < 4 \<and> kh_flags kh_one ! j \<noteq> 2} = {1}"
    by (auto simp: kh_one_def less_4_cases)
  have p: "probe 2 (kh_hash 1) 0 = 1" and up: "ac_HASH_UPPER 4 = 3"
    by code_simp+
  have "kh_shape 2 kh_one"
    by (auto simp: kh_shape_def kh_one_def less_4_cases)
  moreover have "kh_reach 2 kh_one"
    unfolding kh_reach_def kh_one_has using p by (intro conjI allI impI exI [of _ 0]) auto
  moreover have "kh_count 2 kh_one"
    using sets up by (simp add: kh_count_def) (simp add: kh_one_def)
  ultimately show ?thesis by (simp add: kh_wf_def)
qed

theorem kh_get_finds_witness: "kh_get kh_one 1 = Some 1 \<and> kh_get kh_one 2 = Some 4"
  using kh_get_finds [OF kh_one_wf, of 1] kh_get_finds [OF kh_one_wf, of 2]
  unfolding kh_one_has by (simp add: kh_one_def)

end
