(* ===== verification/SeaPhone.thy ===== *)
theory SeaPhone
  imports SeaKhash
begin

text \<open>
  \<open>phone_list.c\<close>: the table from block ids to the nodes that hold the block.  The
  operations come first; \<open>phone_rep\<close> says which ids a list knows, and the lemmas follow a
  put through the hash table.
\<close>

section \<open>Operations\<close>

record phone_entry =
  pe_block_id :: u64
  pe_node_len :: u32
  pe_entry :: u32
  pe_node :: "u32 list"

record phone_list =
  pl_node_cap :: u32
  pl_header :: "phone_entry khash option"

definition phone_min :: "u32 \<Rightarrow> u32 \<Rightarrow> u32" where
  "phone_min a b = (if b < a then a else b)"

definition phone_list_create :: "u32 \<Rightarrow> os \<Rightarrow> phone_list option \<times> os" where
  "phone_list_create node_cap os =
     (let (ok, os1) = c_malloc 16 os
      in if \<not> ok then (None, os1)
         else let (header, os2) = kh_init os1
              in (Some \<lparr>pl_node_cap = node_cap, pl_header = header\<rparr>, os2))"

text \<open>
  \<open>node\<close> is the memory from the pointer on, as 32-bit words; reading past it is undefined.
  A result of \<open>kh_put\<close> other than 0 is returned as it is, and the entry is freed.
\<close>

definition phone_list_put ::
    "phone_list \<Rightarrow> u64 \<Rightarrow> u32 list \<Rightarrow> u32 \<Rightarrow> os \<Rightarrow> (int \<times> phone_list \<times> os) outcome" where
  "phone_list_put list block_id node node_len os =
     (let node_count = (if 0 < node_len then phone_min (pl_node_cap list) node_len else pl_node_cap list);
          (ok, os1) = c_malloc (16 + 4 * int (unat node_count)) os
      in if \<not> ok then Done (EINVAL, list, os1)
         else if length node < unat node_count then Undef
         else
           (case pl_header list of
              None \<Rightarrow> Undef
            | Some header \<Rightarrow>
              (case kh_put header block_id os1 of
                 None \<Rightarrow> Undef
               | Some (x, ret, header1, os2) \<Rightarrow>
                 if ret \<noteq> 0 then Done (ret, list\<lparr>pl_header := Some header1\<rparr>, os2)
                 else
                   (case kh_set_value header1 x \<lparr>pe_block_id = block_id, pe_node_len = node_count,
                            pe_entry = x, pe_node = take (unat node_count) node\<rparr> of
                      Undef \<Rightarrow> Undef
                    | Done header2 \<Rightarrow> Done (0, list\<lparr>pl_header := Some header2\<rparr>, os2)))))"

text \<open>
  The lookup does not compare the bucket with the end of the table, and \<open>memcpy\<close> is given
  the number of nodes for a number of bytes.  Returns the code, the caller's memory and the
  value stored through \<open>ret_node_len\<close>.
\<close>

definition phone_list_get ::
    "phone_list \<Rightarrow> u64 \<Rightarrow> byte list \<Rightarrow> u32 \<Rightarrow> (int \<times> byte list \<times> u32 option) outcome" where
  "phone_list_get list block_id node node_len =
     (case pl_header list of
        None \<Rightarrow> Undef
      | Some header \<Rightarrow>
        (case kh_get header block_id of
           None \<Rightarrow> Undef
         | Some k \<Rightarrow>
           if node_len = 0 then Done (ENOENT, node, None)
           else
             (case kh_value header k of
                Done (Some entry) \<Rightarrow>
                  (let node_count = phone_min (pl_node_cap list) node_len;
                       src = concat (map bytes_of_u32 (pe_node entry))
                   in if length src < unat node_count \<or> length node < unat node_count then Undef
                      else Done (0, put_at 0 (take (unat node_count) src) node, Some node_count))
              | _ \<Rightarrow> Undef)))"

definition phone_list_save :: "string \<Rightarrow> int \<Rightarrow> int" where "phone_list_save path path_len = 0"
definition phone_list_load :: "string \<Rightarrow> int \<Rightarrow> int" where "phone_list_load path path_len = 0"
definition phone_list_init :: int where "phone_list_init = 0"
definition phone_list_fini :: int where "phone_list_fini = 0"

section \<open>What a put does\<close>

definition phone_rep :: "phone_list \<Rightarrow> (u64 \<rightharpoonup> phone_entry option) \<Rightarrow> bool" where
  "phone_rep list M \<longleftrightarrow> (\<exists>h. pl_header list = Some h \<and> kh_tab h M)"

lemma phone_list_create_run:
  assumes "reliable os"
  shows "\<exists>list. phone_list_create cap os = (Some list, ticked (ticked os)) \<and> phone_rep list Map.empty
    \<and> pl_node_cap list = cap"
proof -
  let ?h = "\<lparr>kh_n_buckets = 0, kh_size = 0, kh_n_occupied = 0, kh_upper_bound = 0, kh_flags = [], kh_keys = [], kh_vals = []\<rparr>"
  have "kh_tab ?h Map.empty"
    by (rule kh_tab_init) (simp add: kh_empty_def)
  then show ?thesis
    using assms by (intro exI [of _ "\<lparr>pl_node_cap = cap, pl_header = Some ?h\<rparr>"])
      (simp add: phone_list_create_def kh_init_def phone_rep_def)
qed

definition phone_count :: "phone_list \<Rightarrow> u32 \<Rightarrow> u32" where
  "phone_count list node_len = (if 0 < node_len then phone_min (pl_node_cap list) node_len else pl_node_cap list)"

text \<open>
  A put of an unknown id makes the id known, without a value, and reports a positive number;
  only a put of a known id stores the nodes.
\<close>

lemma phone_list_put_run:
  assumes rep: "phone_rep list M" and rel: "reliable os" and small: "card (dom M) < 2 ^ 28"
    and len: "unat (phone_count list node_len) \<le> length node"
  shows "\<exists>ret list' n v. phone_list_put list block_id node node_len os = Done (ret, list', (ticked ^^ n) os)
    \<and> phone_rep list' (M(block_id \<mapsto> v)) \<and> pl_node_cap list' = pl_node_cap list
    \<and> (if block_id \<in> dom M then ret = 0 \<and> (\<exists>x. v = Some \<lparr>pe_block_id = block_id,
           pe_node_len = phone_count list node_len, pe_entry = x,
           pe_node = take (unat (phone_count list node_len)) node\<rparr>)
       else ret \<in> {1, 2})"
proof -
  obtain h where h: "pl_header list = Some h" "kh_tab h M" using rep by (auto simp: phone_rep_def)
  have rel1: "reliable (ticked os)" using rel by simp
  obtain x ret h' n v where p: "kh_put h block_id (ticked os) = Some (x, ret, h', (ticked ^^ n) (ticked os))"
    "kh_tab h' (M(block_id \<mapsto> v))" "if block_id \<in> dom M then ret = 0 \<and> M block_id = Some v else ret \<in> {1, 2}"
    "\<forall>w. \<exists>h''. kh_set_value h' x w = Done h'' \<and> kh_tab h'' (M(block_id \<mapsto> Some w))"
    using kh_put_tab [OF h(2) rel1 small, of block_id] by blast
  have t: "(ticked ^^ n) (ticked os) = (ticked ^^ Suc n) os"
    by (simp add: funpow_swap1)
  have fld: "(if 0 < node_len then phone_min (pl_node_cap list) node_len else pl_node_cap list) = phone_count list node_len"
    by (simp add: phone_count_def)
  note d = phone_list_put_def [of list block_id node node_len os, unfolded fld Let_def]
  show ?thesis
  proof (cases "block_id \<in> dom M")
    case True
    let ?e = "\<lparr>pe_block_id = block_id, pe_node_len = phone_count list node_len, pe_entry = x,
           pe_node = take (unat (phone_count list node_len)) node\<rparr>"
    obtain h'' where s: "kh_set_value h' x ?e = Done h''" "kh_tab h'' (M(block_id \<mapsto> Some ?e))"
      using p(4) by blast
    have "phone_list_put list block_id node node_len os
        = Done (0, list\<lparr>pl_header := Some h''\<rparr>, (ticked ^^ Suc n) os)"
      using rel len h(1) p(1,3) s True unfolding d t by (simp add: t)
    moreover have "phone_rep (list\<lparr>pl_header := Some h''\<rparr>) (M(block_id \<mapsto> Some ?e))"
      using s(2) by (simp add: phone_rep_def)
    ultimately show ?thesis
      using True by (intro exI [of _ 0] exI [of _ "list\<lparr>pl_header := Some h''\<rparr>"] exI [of _ "Suc n"]
          exI [of _ "Some ?e"]) simp
  next
    case False
    then have r: "ret \<in> {1, 2}" using p(3) by simp
    have "phone_list_put list block_id node node_len os
        = Done (ret, list\<lparr>pl_header := Some h'\<rparr>, (ticked ^^ Suc n) os)"
      using rel len h(1) p(1) r unfolding d by (auto simp: t)
    moreover have "phone_rep (list\<lparr>pl_header := Some h'\<rparr>) (M(block_id \<mapsto> v))"
      using p(2) by (simp add: phone_rep_def)
    ultimately show ?thesis
      using False r by (intro exI [of _ ret] exI [of _ "list\<lparr>pl_header := Some h'\<rparr>"] exI [of _ "Suc n"]
          exI [of _ v]) simp
  qed
qed

lemma phone_list_get_run:
  assumes rep: "phone_rep list M" and e: "M block_id = Some (Some entry)" and nz: "node_len \<noteq> 0"
    and len: "unat (phone_min (pl_node_cap list) node_len) \<le> 4 * length (pe_node entry)"
      "unat (phone_min (pl_node_cap list) node_len) \<le> length node"
  shows "phone_list_get list block_id node node_len
    = Done (0, put_at 0 (take (unat (phone_min (pl_node_cap list) node_len)) (concat (map bytes_of_u32 (pe_node entry)))) node,
        Some (phone_min (pl_node_cap list) node_len))"
proof -
  obtain h where h: "pl_header list = Some h" "kh_tab h M" using rep by (auto simp: phone_rep_def)
  obtain x where "kh_get h block_id = Some x" "kh_value h x = Done (Some entry)"
    using kh_get_tab(1) [OF h(2) e] by blast
  moreover have "length (concat (map bytes_of_u32 (pe_node entry))) = 4 * length (pe_node entry)"
    by (subst length_concat_equal [of _ 4]) auto
  ultimately show ?thesis
    using h nz len by (simp add: phone_list_get_def Let_def del: length_concat)
qed

section \<open>Properties\<close>

text \<open>The first put of a block id is lost, the second one is kept.  On any list, putting nodes under
  an id it does not know returns a positive number and stores nothing; putting again under the
  same id returns 0, and a lookup then copies as many bytes of the nodes as it reports nodes.\<close>

theorem phone_second_put_counts:
  assumes "phone_rep list M" and "reliable os" and "Suc (card (dom M)) < 2 ^ 28" and new: "block_id \<notin> dom M"
    and len: "0 < node_len" "unat (phone_min (pl_node_cap list) node_len) \<le> length node"
      "unat (phone_min (pl_node_cap list) node_len) \<le> length mem"
  shows "\<exists>ret list1 os1 list2 os2. phone_list_put list block_id node node_len os = Done (ret, list1, os1) \<and> 0 < ret
    \<and> phone_list_put list1 block_id node node_len os1 = Done (0, list2, os2)
    \<and> phone_list_get list2 block_id mem node_len = Done (0,
        put_at 0 (take (unat (phone_min (pl_node_cap list) node_len)) (concat (map bytes_of_u32 node))) mem,
        Some (phone_min (pl_node_cap list) node_len))"
proof -
  let ?c = "phone_min (pl_node_cap list) node_len"
  have fin: "finite (dom M)"
    using assms(1) kh_tab_size(2) unfolding phone_rep_def by blast
  have c: "phone_count list' node_len = ?c" if "pl_node_cap list' = pl_node_cap list" for list'
    using len(1) that by (simp add: phone_count_def)
  have small: "card (dom M) < 2 ^ 28" using assms(3) by simp
  have l0: "unat (phone_count list node_len) \<le> length node" using len c by simp
  obtain ret list1 n v where p1: "phone_list_put list block_id node node_len os = Done (ret, list1, (ticked ^^ n) os)"
    "phone_rep list1 (M(block_id \<mapsto> v))" "pl_node_cap list1 = pl_node_cap list" "ret \<in> {1, 2}"
    using phone_list_put_run [OF assms(1,2) small l0, of block_id] unfolding if_not_P [OF new] by blast
  have l1: "unat (phone_count list1 node_len) \<le> length node" using len c p1(3) by simp
  have "card (dom (M(block_id \<mapsto> v))) < 2 ^ 28"
    using fin new assms(3) by simp
  from phone_list_put_run [OF p1(2) _ this l1, of "(ticked ^^ n) os" block_id] assms(2)
  obtain list2 n2 x where p2: "phone_list_put list1 block_id node node_len ((ticked ^^ n) os)
      = Done (0, list2, (ticked ^^ n2) ((ticked ^^ n) os))"
    "phone_rep list2 (M(block_id \<mapsto> Some \<lparr>pe_block_id = block_id, pe_node_len = ?c, pe_entry = x, pe_node = take (unat ?c) node\<rparr>))"
    "pl_node_cap list2 = pl_node_cap list1"
    by (auto simp: c [OF p1(3)])
  have w: "length (concat (map bytes_of_u32 xs)) = 4 * length xs" for xs
    by (subst length_concat_equal [of _ 4]) auto
  have "concat (map bytes_of_u32 node) = concat (map bytes_of_u32 (take (unat ?c) node)) @ concat (map bytes_of_u32 (drop (unat ?c) node))"
    by (metis append_take_drop_id concat_append map_append)
  then have tk: "take (unat ?c) (concat (map bytes_of_u32 (take (unat ?c) node))) = take (unat ?c) (concat (map bytes_of_u32 node))"
    using w [of "take (unat ?c) node"] len(2) by (simp del: length_concat)
  have "phone_list_get list2 block_id mem node_len = Done (0,
      put_at 0 (take (unat ?c) (concat (map bytes_of_u32 (take (unat ?c) node)))) mem, Some ?c)"
    using phone_list_get_run [OF p2(2), of block_id _ node_len mem] len p2(3) p1(3) by simp
  moreover have "0 < ret" using p1(4) by auto
  ultimately show ?thesis
    using p1(1) p2(1) tk by auto
qed

theorem phone_second_put_counts_witness:
  "\<exists>list os0 ret list1 os1 list2 os2. phone_list_create 3 (fresh_os {}) = (Some list, os0)
    \<and> phone_list_put list 7 [1, 2, 3] 1 os0 = Done (ret, list1, os1) \<and> 0 < ret
    \<and> phone_list_put list1 7 [1, 2, 3] 1 os1 = Done (0, list2, os2)
    \<and> phone_list_get list2 7 [0, 0, 0, 0] 1 = Done (0, [1, 0, 0, 0], Some 3)"
proof -
  obtain list where l: "phone_list_create 3 (fresh_os {}) = (Some list, ticked (ticked (fresh_os {})))"
    "phone_rep list Map.empty" "pl_node_cap list = 3"
    using phone_list_create_run [of "fresh_os {}" 3] by auto
  have m: "phone_min 3 1 = 3" by (simp add: phone_min_def)
  have r: "put_at 0 (take (unat (3 :: u32)) (concat (map bytes_of_u32 [1, 2, 3]))) [0, 0, 0, 0] = [1, 0, 0, 0]"
    by code_simp
  have "\<exists>ret list1 os1 list2 os2. phone_list_put list 7 [1, 2, 3] 1 (ticked (ticked (fresh_os {}))) = Done (ret, list1, os1)
      \<and> 0 < ret \<and> phone_list_put list1 7 [1, 2, 3] 1 os1 = Done (0, list2, os2)
      \<and> phone_list_get list2 7 [0, 0, 0, 0] 1 = Done (0, [1, 0, 0, 0], Some 3)"
    by (rule phone_second_put_counts [OF l(2), of "ticked (ticked (fresh_os {}))" 7 1 "[1, 2, 3]" "[0, 0, 0, 0]",
          unfolded l(3) m r]) simp_all
  then show ?thesis
    using l(1) by blast
qed

end
