(* ===== verification/DhtId.thy ===== *)
theory DhtId
  imports SeaPrelude
begin

text \<open>
  The ids and socket addresses of \<open>dht.c\<close>.  An id is 20 bytes; the comparison functions come
  first, then the big-endian number an id stands for, and what the functions mean for it:
  \<open>id_cmp\<close> is the numeric order, \<open>xorcmp\<close> the order of XOR distances to a reference, and
  \<open>common_bits\<close> the length of the common prefix.
\<close>

section \<open>Ids\<close>

type_synonym dht_id = "byte list"

text \<open>\<open>memcmp\<close>, by the sign of its result.\<close>

fun memcmp :: "byte list \<Rightarrow> byte list \<Rightarrow> int" where
  "memcmp (x # xs) (y # ys) = (if x < y then - 1 else if y < x then 1 else memcmp xs ys)"
| "memcmp _ _ = 0"

definition zeroes :: dht_id where "zeroes = replicate 20 0"

definition v4prefix :: "byte list" where
  "v4prefix = [0, 0, 0, 0, 0, 0, 0, 0, 0, 0, 0xFF, 0xFF, 0, 0, 0, 0]"

definition id_cmp :: "dht_id \<Rightarrow> dht_id \<Rightarrow> int" where
  "id_cmp id1 id2 = memcmp (take 20 id1) (take 20 id2)"

text \<open>The loops of \<open>lowbit\<close> count \<open>i\<close> and \<open>j\<close> down; \<open>-1\<close> is the end of either.\<close>

fun lowbit_byte :: "dht_id \<Rightarrow> nat \<Rightarrow> int" where
  "lowbit_byte nid 0 = - 1"
| "lowbit_byte nid (Suc i) = (if nid ! i \<noteq> 0 then int i else lowbit_byte nid i)"

fun lowbit_bit :: "byte \<Rightarrow> nat \<Rightarrow> int" where
  "lowbit_bit b 0 = - 1"
| "lowbit_bit b (Suc j) = (if b AND drop_bit j 0x80 \<noteq> 0 then int j else lowbit_bit b j)"

definition lowbit :: "dht_id \<Rightarrow> int" where
  "lowbit nid =
     (let i = lowbit_byte nid 20
      in if i < 0 then - 1 else 8 * i + lowbit_bit (nid ! nat i) 8)"

text \<open>
  The loop of \<open>common_bits\<close> shifts a non-zero byte left until its top bit is set: at most
  seven times, so eight rounds of fuel are enough.
\<close>

fun leading_zeros :: "nat \<Rightarrow> byte \<Rightarrow> nat" where
  "leading_zeros 0 x = 0"
| "leading_zeros (Suc fuel) x = (if x AND 0x80 = 0 then Suc (leading_zeros fuel (push_bit 1 x)) else 0)"

fun first_diff :: "dht_id \<Rightarrow> dht_id \<Rightarrow> nat \<Rightarrow> nat" where
  "first_diff (x # xs) (y # ys) i = (if x \<noteq> y then i else first_diff xs ys (Suc i))"
| "first_diff _ _ i = i"

definition common_bits :: "dht_id \<Rightarrow> dht_id \<Rightarrow> nat" where
  "common_bits id1 id2 =
     (let i = first_diff (take 20 id1) (take 20 id2) 0
      in if i = 20 then 160
         else 8 * i + leading_zeros 8 (id1 ! i XOR id2 ! i))"

fun xorcmp_loop :: "byte list \<Rightarrow> byte list \<Rightarrow> byte list \<Rightarrow> int" where
  "xorcmp_loop (x # xs) (y # ys) (r # rs) =
     (if x = y then xorcmp_loop xs ys rs
      else if x XOR r < y XOR r then - 1 else 1)"
| "xorcmp_loop _ _ _ = 0"

definition xorcmp :: "dht_id \<Rightarrow> dht_id \<Rightarrow> dht_id \<Rightarrow> int" where
  "xorcmp id1 id2 ref = xorcmp_loop (take 20 id1) (take 20 id2) (take 20 ref)"

section \<open>Socket addresses\<close>

text \<open>
  A \<open>struct sockaddr\<close> is its bytes in the layout of Linux: two bytes of family, two of port
  in network order, then the IPv4 address, or four bytes of flow information and the IPv6
  address.  \<open>sockaddr_storage\<close> has 128 bytes.
\<close>

type_synonym sockaddr = "byte list"

definition AF_INET :: nat where "AF_INET = 2"
definition AF_INET6 :: nat where "AF_INET6 = 10"

definition sizeof_sockaddr_storage :: nat where "sizeof_sockaddr_storage = 128"

definition sa_family :: "sockaddr \<Rightarrow> nat" where "sa_family sa = le_dec (take 2 sa)"
definition sin_port :: "sockaddr \<Rightarrow> byte list" where "sin_port sa = take 2 (drop 2 sa)"
definition sin_addr :: "sockaddr \<Rightarrow> byte list" where "sin_addr sa = take 4 (drop 4 sa)"
definition sin6_addr :: "sockaddr \<Rightarrow> byte list" where "sin6_addr sa = take 16 (drop 8 sa)"

text \<open>A socket address as the code builds it from a node entry: cleared memory, then the fields.\<close>

definition make_sockaddr_in :: "byte list \<Rightarrow> byte list \<Rightarrow> sockaddr" where
  "make_sockaddr_in addr port = le_enc 2 AF_INET @ port @ addr @ replicate 8 0"

definition make_sockaddr_in6 :: "byte list \<Rightarrow> byte list \<Rightarrow> sockaddr" where
  "make_sockaddr_in6 addr port = le_enc 2 AF_INET6 @ port @ replicate 4 0 @ addr @ replicate 4 0"

definition is_martian :: "sockaddr \<Rightarrow> bool" where
  "is_martian sa =
     (if sa_family sa = AF_INET then
        (let address = sin_addr sa
         in sin_port sa = [0, 0] \<or> address ! 0 = 0 \<or> address ! 0 = 127 \<or> address ! 0 AND 0xE0 = 0xE0)
      else if sa_family sa = AF_INET6 then
        (let address = sin6_addr sa
         in sin_port sa = [0, 0] \<or> address ! 0 = 0xFF
            \<or> (address ! 0 = 0xFE \<and> address ! 1 AND 0xC0 = 0x80)
            \<or> (memcmp (take 15 address) (take 15 zeroes) = 0 \<and> (address ! 15 = 0 \<or> address ! 15 = 1))
            \<or> memcmp (take 12 address) (take 12 v4prefix) = 0)
      else False)"

text \<open>\<open>htons\<close> and the port of an address as a number; \<open>memcpy\<close> of a short stores it little-endian.\<close>

definition htons :: "nat \<Rightarrow> nat" where
  "htons p = (p mod 256) * 256 + (p div 256) mod 256"

section \<open>The number of an id\<close>

fun id_val :: "byte list \<Rightarrow> nat" where
  "id_val [] = 0"
| "id_val (b # bs) = unat b * 256 ^ length bs + id_val bs"

definition id_xor :: "byte list \<Rightarrow> byte list \<Rightarrow> byte list" where
  "id_xor a b = map2 (XOR) a b"

text \<open>The XOR distance of two ids.\<close>

definition xor_dist :: "dht_id \<Rightarrow> dht_id \<Rightarrow> nat" where
  "xor_dist a b = id_val (id_xor a b)"

abbreviation is_id :: "dht_id \<Rightarrow> bool" where "is_id x \<equiv> length x = 20"

lemma unat_byte: "unat (b :: byte) < 256"
  using unsigned_less [of b, where 'a = nat] by simp

lemma id_val_less: "id_val bs < 256 ^ length bs"
proof (induction bs)
  case (Cons b bs)
  have "unat b * 256 ^ length bs + id_val bs < (unat b + 1) * 256 ^ length bs"
    using Cons by simp
  also have "\<dots> \<le> 256 * 256 ^ length bs"
    using unat_byte [of b] by (intro mult_right_mono) simp_all
  finally show ?case by simp
qed simp

lemma id_val_lex:
  assumes "length xs = length ys" and "unat x < unat (y :: byte)"
  shows "id_val (x # xs) < id_val (y # ys)"
proof -
  have "id_val (x # xs) < (unat x + 1) * 256 ^ length xs"
    using id_val_less [of xs] by simp
  also have "\<dots> \<le> unat y * 256 ^ length xs"
    using assms(2) by (intro mult_right_mono) simp_all
  also have "\<dots> \<le> id_val (y # ys)" by (simp add: assms(1))
  finally show ?thesis .
qed

lemma id_val_inject: "length xs = length ys \<Longrightarrow> id_val xs = id_val ys \<longleftrightarrow> xs = ys"
proof (induction xs ys rule: list_induct2)
  case (Cons x xs y ys)
  show ?case
  proof (cases "x = y")
    case False
    then have "unat x < unat y \<or> unat y < unat x"
      by (metis linorder_neqE_nat unsigned_word_eqI)
    then show ?thesis
      using id_val_lex [of xs ys x y] id_val_lex [of ys xs y x] Cons.hyps False by auto
  qed (use Cons in simp)
qed simp

lemma memcmp_val:
  "length xs = length ys \<Longrightarrow>
    memcmp xs ys = (if id_val xs < id_val ys then - 1 else if id_val ys < id_val xs then 1 else 0)"
proof (induction xs ys rule: list_induct2)
  case (Cons x xs y ys)
  consider "x < y" | "y < x" | "x = y" by fastforce
  then show ?case
  proof cases
    case 1
    then have "id_val (x # xs) < id_val (y # ys)"
      using Cons.hyps by (intro id_val_lex) (simp_all add: word_less_nat_alt)
    then show ?thesis using 1 by simp
  next
    case 2
    then have "id_val (y # ys) < id_val (x # xs)"
      using Cons.hyps by (intro id_val_lex) (simp_all add: word_less_nat_alt)
    then show ?thesis using 2 by auto
  qed (use Cons in simp)
qed simp

text \<open>\<open>id_cmp\<close> compares the numbers.\<close>

lemma id_cmp_val:
  assumes "is_id a" and "is_id b"
  shows "id_cmp a b < 0 \<longleftrightarrow> id_val a < id_val b" and "id_cmp a b \<le> 0 \<longleftrightarrow> id_val a \<le> id_val b"
    and "id_cmp a b = 0 \<longleftrightarrow> a = b"
  using assms memcmp_val [of a b] id_val_inject [of a b] by (auto simp: id_cmp_def)

lemma byte_xor_inject: "x XOR r = y XOR r \<longleftrightarrow> x = (y :: byte)"
proof
  assume "x XOR r = y XOR r"
  then have "(x XOR r) XOR r = (y XOR r) XOR r" by simp
  then show "x = y" by (simp only: xor.assoc xor_self_eq xor.right_neutral)
qed simp

lemma length_id_xor [simp]: "length (id_xor a b) = min (length a) (length b)"
  by (simp add: id_xor_def)

lemma xorcmp_loop_val:
  "length xs = length rs \<Longrightarrow> length ys = length rs \<Longrightarrow>
    xorcmp_loop xs ys rs =
      (if id_val (id_xor xs rs) < id_val (id_xor ys rs) then - 1
       else if id_val (id_xor ys rs) < id_val (id_xor xs rs) then 1 else 0)"
proof (induction xs ys rs rule: xorcmp_loop.induct)
  case (1 x xs y ys r rs)
  show ?case
  proof (cases "x = y")
    case True
    then show ?thesis using 1 by (simp add: id_xor_def)
  next
    case False
    have ne: "x XOR r \<noteq> y XOR r"
      using False by (simp add: byte_xor_inject)
    then consider "x XOR r < y XOR r" | "y XOR r < x XOR r" by fastforce
    then show ?thesis
    proof cases
      case 1
      then have "id_val ((x XOR r) # id_xor xs rs) < id_val ((y XOR r) # id_xor ys rs)"
        using "1.prems" by (intro id_val_lex) (simp_all add: word_less_nat_alt)
      then show ?thesis using 1 False by (simp add: id_xor_def)
    next
      case 2
      then have "id_val ((y XOR r) # id_xor ys rs) < id_val ((x XOR r) # id_xor xs rs)"
        using "1.prems" by (intro id_val_lex) (simp_all add: word_less_nat_alt)
      then show ?thesis using 2 False by (auto simp: id_xor_def)
    qed
  qed
qed (auto simp: id_xor_def)

lemma xorcmp_val:
  assumes "is_id a" and "is_id b" and "is_id r"
  shows "xorcmp a b r = (if xor_dist a r < xor_dist b r then - 1 else if xor_dist b r < xor_dist a r then 1 else 0)"
  using assms xorcmp_loop_val [of a r b] by (simp add: xorcmp_def xor_dist_def)

lemma id_xor_inject:
  "length a = length r \<Longrightarrow> length b = length r \<Longrightarrow> id_xor a r = id_xor b r \<longleftrightarrow> a = b"
proof (induction a b r rule: xorcmp_loop.induct)
  case (1 x xs y ys r rs)
  show ?case using 1 by (auto simp: id_xor_def byte_xor_inject)
qed (auto simp: id_xor_def)

lemma xor_dist_inject: "is_id a \<Longrightarrow> is_id b \<Longrightarrow> is_id r \<Longrightarrow> xor_dist a r = xor_dist b r \<longleftrightarrow> a = b"
  by (simp add: xor_dist_def id_val_inject id_xor_inject)

end
