(* ===== verification/DhtState.thy ===== *)
theory DhtState
  imports DhtId "HOL-Library.Monad_Syntax"
begin

text \<open>
  The state of the DHT (the static variables of \<open>dht.c\<close>) as one record, with the
  environment it draws on: \<open>random\<close>, \<open>calloc\<close>, \<open>sendto\<close>, \<open>/dev/urandom\<close>, the contents of
  uninitialised locals, the packets sent and the callbacks made.  Then the accessors of the
  bucket table.  A linked list is a list; a pointer into it is a position.  A function that
  may call \<open>abort\<close> returns an option, \<open>None\<close> being the abort.
\<close>

section \<open>Structures\<close>

record node =
  n_id :: dht_id
  n_ss :: sockaddr
  n_sslen :: nat
  n_time :: int
  n_reply_time :: int
  n_pinged_time :: int
  n_pinged :: int

record bucket =
  b_af :: nat
  b_first :: dht_id
  b_count :: int
  b_max_count :: int
  b_time :: int
  b_nodes :: "node list"
  b_cached :: sockaddr
  b_cachedlen :: nat

record search_node =
  sn_id :: dht_id
  sn_ss :: sockaddr
  sn_sslen :: nat
  sn_request_time :: int
  sn_reply_time :: int
  sn_pinged :: int
  sn_token :: "byte list"
  sn_token_len :: int
  sn_replied :: bool
  sn_acked :: bool

definition SEARCH_NODES :: nat where "SEARCH_NODES = 14"

text \<open>The array \<open>nodes\<close> up to \<open>numnodes\<close> is the list of its entries.\<close>

record search =
  sr_tid :: u16
  sr_af :: nat
  sr_step_time :: int
  sr_id :: dht_id
  sr_port :: nat
  sr_done :: bool
  sr_nodes :: "search_node list"

record peer =
  p_time :: int
  p_ip :: "byte list"
  p_len :: nat
  p_port :: nat

definition DHT_MAX_PEERS :: nat where "DHT_MAX_PEERS = 2048"
definition DHT_MAX_HASHES :: int where "DHT_MAX_HASHES = 16384"
definition DHT_MAX_SEARCHES :: int where "DHT_MAX_SEARCHES = 1024"
definition DHT_SEARCH_EXPIRE_TIME :: int where "DHT_SEARCH_EXPIRE_TIME = 62 * 60"
definition DHT_INFLIGHT_QUERIES :: nat where "DHT_INFLIGHT_QUERIES = 4"
definition DHT_SEARCH_RETRANSMIT :: int where "DHT_SEARCH_RETRANSMIT = 10"
definition DHT_MAX_BLACKLISTED :: nat where "DHT_MAX_BLACKLISTED = 10"
definition MAX_TOKEN_BUCKET_TOKENS :: int where "MAX_TOKEN_BUCKET_TOKENS = 400"

text \<open>\<open>numpeers\<close> is the length of the list of peers.\<close>

record storage =
  st_id :: dht_id
  st_maxpeers :: nat
  st_peers :: "peer list"

record packet =
  pk_socket :: int
  pk_data :: "byte list"
  pk_confirm :: bool
  pk_to :: sockaddr
  pk_tolen :: nat

record dht_event =
  ev_event :: nat
  ev_info_hash :: dht_id
  ev_data :: "byte list"

definition DHT_EVENT_VALUES :: nat where "DHT_EVENT_VALUES = 1"
definition DHT_EVENT_VALUES6 :: nat where "DHT_EVENT_VALUES6 = 2"
definition DHT_EVENT_SEARCH_DONE :: nat where "DHT_EVENT_SEARCH_DONE = 3"
definition DHT_EVENT_SEARCH_DONE6 :: nat where "DHT_EVENT_SEARCH_DONE6 = 4"

record dht =
  d_socket :: int
  d_socket6 :: int
  d_search_time :: int
  d_confirm_nodes_time :: int
  d_rotate_secrets_time :: int
  d_myid :: dht_id
  d_have_v :: bool
  d_my_v :: "byte list"
  d_secret :: "byte list"
  d_oldsecret :: "byte list"
  d_buckets :: "bucket list"
  d_buckets6 :: "bucket list"
  d_storage :: "storage list"
  d_numstorage :: int
  d_searches :: "search list"
  d_numsearches :: int
  d_search_id :: u16
  d_blacklist :: "sockaddr list"
  d_next_blacklisted :: nat
  d_now :: int
  d_mybucket_grow_time :: int
  d_mybucket6_grow_time :: int
  d_expire_stuff_time :: int
  d_token_bucket_time :: int
  d_token_bucket_tokens :: int
  d_errno :: int
  d_random :: "nat \<Rightarrow> nat"
  d_random_pos :: nat
  d_alloc :: "nat \<Rightarrow> bool"
  d_alloc_pos :: nat
  d_urandom :: "nat \<Rightarrow> int \<times> byte list"
  d_urandom_pos :: nat
  d_stack :: "nat \<Rightarrow> byte"
  d_stack_pos :: nat
  d_sendto :: "nat \<Rightarrow> int"
  d_sent :: "packet list"
  d_events :: "dht_event list"

section \<open>The environment\<close>

definition c_random :: "dht \<Rightarrow> nat \<times> dht" where
  "c_random d = (d_random d (d_random_pos d), d\<lparr>d_random_pos := Suc (d_random_pos d)\<rparr>)"

definition c_calloc :: "dht \<Rightarrow> bool \<times> dht" where
  "c_calloc d = (d_alloc d (d_alloc_pos d), d\<lparr>d_alloc_pos := Suc (d_alloc_pos d)\<rparr>)"

text \<open>\<open>dht_random_bytes\<close> of \<open>dht_list.c\<close>: the result of \<open>read\<close> and the bytes it stored.\<close>

definition dht_random_bytes :: "nat \<Rightarrow> dht \<Rightarrow> int \<times> byte list \<times> dht" where
  "dht_random_bytes n d =
     (let (rc, bs) = d_urandom d (d_urandom_pos d)
      in (rc, take n bs, d\<lparr>d_urandom_pos := Suc (d_urandom_pos d)\<rparr>))"

text \<open>What an uninitialised array of \<open>n\<close> bytes holds.\<close>

definition stack_bytes :: "nat \<Rightarrow> dht \<Rightarrow> byte list \<times> dht" where
  "stack_bytes n d =
     (map (\<lambda>i. d_stack d (d_stack_pos d + i)) [0..<n], d\<lparr>d_stack_pos := d_stack_pos d + n\<rparr>)"

text \<open>\<open>memcpy\<close> of \<open>n\<close> bytes onto an array.\<close>

definition copy_onto :: "byte list \<Rightarrow> byte list \<Rightarrow> nat \<Rightarrow> byte list" where
  "copy_onto dst src n = take n src @ drop n dst"

definition dht_callback :: "bool \<Rightarrow> nat \<Rightarrow> dht_id \<Rightarrow> byte list \<Rightarrow> dht \<Rightarrow> dht" where
  "dht_callback callback event info_hash data d =
     (if callback
      then d\<lparr>d_events := d_events d @ [\<lparr>ev_event = event, ev_info_hash = info_hash, ev_data = data\<rparr>]\<rparr>
      else d)"

section \<open>Buckets\<close>

definition dht_table :: "nat \<Rightarrow> dht \<Rightarrow> bucket list" where
  "dht_table af d = (if af = AF_INET then d_buckets d else d_buckets6 d)"

definition set_table :: "nat \<Rightarrow> bucket list \<Rightarrow> dht \<Rightarrow> dht" where
  "set_table af bs d = (if af = AF_INET then d\<lparr>d_buckets := bs\<rparr> else d\<lparr>d_buckets6 := bs\<rparr>)"

definition in_bucket :: "dht_id \<Rightarrow> bucket list \<Rightarrow> nat \<Rightarrow> bool" where
  "in_bucket nid bs k \<longleftrightarrow>
     id_cmp (b_first (bs ! k)) nid \<le> 0 \<and> (length bs \<le> Suc k \<or> id_cmp nid (b_first (bs ! Suc k)) < 0)"

fun find_bucket_loop :: "dht_id \<Rightarrow> bucket list \<Rightarrow> nat" where
  "find_bucket_loop nid (b # c # bs) =
     (if id_cmp nid (b_first c) < 0 then 0 else Suc (find_bucket_loop nid (c # bs)))"
| "find_bucket_loop nid bs = 0"

definition find_bucket :: "dht_id \<Rightarrow> bucket list \<Rightarrow> nat option" where
  "find_bucket nid bs = (if bs = [] then None else Some (find_bucket_loop nid bs))"

definition previous_bucket :: "bucket list \<Rightarrow> nat \<Rightarrow> nat option" where
  "previous_bucket bs k = (if k = 0 \<or> length bs \<le> k then None else Some (k - 1))"

fun find_node_loop :: "dht_id \<Rightarrow> node list \<Rightarrow> nat option" where
  "find_node_loop nid [] = None"
| "find_node_loop nid (n # ns) =
     (if id_cmp (n_id n) nid = 0 then Some 0 else map_option Suc (find_node_loop nid ns))"

text \<open>A node of the table is given by the position of its bucket and its own.\<close>

definition find_node :: "dht_id \<Rightarrow> bucket list \<Rightarrow> (nat \<times> nat) option" where
  "find_node nid bs =
     (case find_bucket nid bs of
        None \<Rightarrow> None
      | Some k \<Rightarrow> (case find_node_loop nid (b_nodes (bs ! k)) of None \<Rightarrow> None | Some j \<Rightarrow> Some (k, j)))"

definition random_node :: "bucket \<Rightarrow> dht \<Rightarrow> nat option \<times> dht" where
  "random_node b d =
     (if b_count b = 0 then (None, d)
      else let (r, d1) = c_random d;
               nn = nat (int r mod b_count b)
           in (if nn < length (b_nodes b) then Some nn else None, d1))"

definition set_bit_of :: "nat \<Rightarrow> dht_id \<Rightarrow> dht_id" where
  "set_bit_of n nid = nid[n div 8 := nid ! (n div 8) OR drop_bit (n mod 8) 0x80]"

definition bucket_bit :: "bucket list \<Rightarrow> nat \<Rightarrow> int" where
  "bucket_bit bs k =
     (let bit1 = lowbit (b_first (bs ! k));
          bit2 = (if Suc k < length bs then lowbit (b_first (bs ! Suc k)) else - 1)
      in max bit1 bit2 + 1)"

definition bucket_middle :: "bucket list \<Rightarrow> nat \<Rightarrow> dht_id option" where
  "bucket_middle bs k =
     (let n = bucket_bit bs k
      in if 160 \<le> n then None else Some (set_bit_of (nat n) (b_first (bs ! k))))"

fun random_bytes_from :: "nat \<Rightarrow> dht \<Rightarrow> byte list \<times> dht" where
  "random_bytes_from 0 d = ([], d)"
| "random_bytes_from (Suc n) d =
     (let (r, d1) = c_random d; (rs, d2) = random_bytes_from n d1 in (of_nat r # rs, d2))"

text \<open>\<open>random() & 0xFF >> (bit % 8)\<close> is \<open>random() & (0xFF >> (bit % 8))\<close>.\<close>

definition bucket_random :: "bucket list \<Rightarrow> nat \<Rightarrow> dht \<Rightarrow> dht_id \<times> dht" where
  "bucket_random bs k d =
     (let n = bucket_bit bs k; first = b_first (bs ! k)
      in if 160 \<le> n then (first, d)
         else
           let m = nat n;
               (r, d1) = c_random d;
               mid = ((first ! (m div 8)) AND (NOT (drop_bit (m mod 8) 0xFF)))
                     OR (of_nat r AND drop_bit (m mod 8) 0xFF);
               (rest, d2) = random_bytes_from (20 - Suc (m div 8)) d1
           in (take (m div 8) first @ [mid] @ rest, d2))"

definition node_good :: "dht \<Rightarrow> node \<Rightarrow> bool" where
  "node_good d n \<longleftrightarrow> n_pinged n \<le> 2 \<and> d_now d - 7200 \<le> n_reply_time n \<and> d_now d - 900 \<le> n_time n"

definition update_node :: "nat \<Rightarrow> nat \<times> nat \<Rightarrow> (node \<Rightarrow> node) \<Rightarrow> dht \<Rightarrow> dht" where
  "update_node af kj f d =
     (let bs = dht_table af d; b = bs ! fst kj
      in set_table af (bs[fst kj := b\<lparr>b_nodes := (b_nodes b)[snd kj := f (b_nodes b ! snd kj)]\<rparr>]) d)"

section \<open>Transaction ids\<close>

definition make_tid :: "string \<Rightarrow> u16 \<Rightarrow> byte list" where
  "make_tid prefix seqno = bytes_of_string (take 2 prefix) @ bytes_of_u16 seqno"

definition tid_match :: "byte list \<Rightarrow> string \<Rightarrow> bool" where
  "tid_match tid prefix \<longleftrightarrow> take 2 tid = bytes_of_string (take 2 prefix)"

definition tid_seqno :: "byte list \<Rightarrow> u16" where
  "tid_seqno tid = u16_of_bytes (take 2 (drop 2 tid))"

section \<open>The blacklist\<close>

text \<open>The hook \<open>dht_blacklisted\<close> of \<open>dht_list.c\<close> says no; \<open>abort\<close> on an impossible length.\<close>

definition dht_blacklisted :: "sockaddr \<Rightarrow> nat \<Rightarrow> bool" where "dht_blacklisted sa salen = False"

definition node_blacklisted :: "sockaddr \<Rightarrow> nat \<Rightarrow> dht \<Rightarrow> bool option" where
  "node_blacklisted sa salen d =
     (if sizeof_sockaddr_storage < salen then None
      else if dht_blacklisted sa salen then Some True
      else Some (list_ex (\<lambda>b. memcmp (take salen b) (take salen sa) = 0) (take DHT_MAX_BLACKLISTED (d_blacklist d))))"

section \<open>Node lists\<close>

definition append_nodes :: "node list \<Rightarrow> node list \<Rightarrow> node list" where
  "append_nodes n1 n2 = n1 @ n2"

text \<open>
  \<open>insert_node\<close>: \<open>-1\<close> without a table, 0 and the full bucket, or 1 and the table with the
  node at the head of its bucket.
\<close>

definition insert_node :: "node \<Rightarrow> dht \<Rightarrow> int \<times> nat \<times> dht" where
  "insert_node n d =
     (let af = sa_family (n_ss n); bs = dht_table af d
      in case find_bucket (n_id n) bs of
           None \<Rightarrow> (- 1, 0, d)
         | Some k \<Rightarrow>
           (let b = bs ! k
            in if b_max_count b \<le> b_count b then (0, k, d)
               else (1, k, set_table af (bs[k := b\<lparr>b_nodes := n # b_nodes b, b_count := b_count b + 1\<rparr>]) d)))"

end
