(* ===== verification/DhtMsg.thy ===== *)
theory DhtMsg
  imports DhtState
begin

text \<open>
  The messages of \<open>dht.c\<close>: how they are put together and sent, and how they are parsed.  A
  sender builds its packet from format strings and copied fields, within the size of its
  buffer; the parser looks for keys anywhere in the packet.
\<close>

section \<open>Building a packet\<close>

datatype msg_part = Fmt string | Copy "byte list"

text \<open>
  \<open>snprintf\<close> writes a terminator: a format that would end exactly at the end of the buffer
  passes the check with its last character replaced by a zero.
\<close>

definition add_part :: "nat \<Rightarrow> byte list \<Rightarrow> msg_part \<Rightarrow> byte list option" where
  "add_part sz buf p =
     (case p of
        Fmt s \<Rightarrow>
          (if sz < length buf + length s then None
           else if s \<noteq> [] \<and> length buf + length s = sz then Some (buf @ bytes_of_string (butlast s) @ [0])
           else Some (buf @ bytes_of_string s))
      | Copy bs \<Rightarrow> (if sz < length buf + length bs then None else Some (buf @ bs)))"

fun add_parts :: "nat \<Rightarrow> byte list \<Rightarrow> msg_part list \<Rightarrow> byte list option" where
  "add_parts sz buf [] = Some buf"
| "add_parts sz buf (p # ps) = (case add_part sz buf p of None \<Rightarrow> None | Some buf1 \<Rightarrow> add_parts sz buf1 ps)"

definition add_v :: "dht \<Rightarrow> msg_part list" where
  "add_v d = (if d_have_v d then [Copy (d_my_v d)] else [])"

definition EPERM :: int where "EPERM = 1"
definition ENOSPC :: int where "ENOSPC = 28"
definition EAFNOSUPPORT :: int where "EAFNOSUPPORT = 97"
definition EBUSY :: int where "EBUSY = 16"

definition dht_send :: "byte list \<Rightarrow> bool \<Rightarrow> sockaddr \<Rightarrow> nat \<Rightarrow> dht \<Rightarrow> (int \<times> dht) option" where
  "dht_send buf confirm sa salen d =
     (if salen = 0 then None
      else
        (case node_blacklisted sa salen d of
           None \<Rightarrow> None
         | Some True \<Rightarrow> Some (- 1, d\<lparr>d_errno := EPERM\<rparr>)
         | Some False \<Rightarrow>
           (let s = (if sa_family sa = AF_INET then d_socket d
                     else if sa_family sa = AF_INET6 then d_socket6 d else - 1)
            in if s < 0 then Some (- 1, d\<lparr>d_errno := EAFNOSUPPORT\<rparr>)
               else Some (d_sendto d (length (d_sent d)),
                      d\<lparr>d_sent := d_sent d @ [\<lparr>pk_socket = s, pk_data = buf, pk_confirm = confirm,
                                               pk_to = sa, pk_tolen = salen\<rparr>]\<rparr>))))"

text \<open>The common end of the senders: the packet goes out unless its buffer was too small.\<close>

definition send_parts :: "nat \<Rightarrow> msg_part list \<Rightarrow> bool \<Rightarrow> sockaddr \<Rightarrow> nat \<Rightarrow> dht \<Rightarrow> (int \<times> dht) option" where
  "send_parts sz parts confirm sa salen d =
     (case add_parts sz [] parts of
        None \<Rightarrow> Some (- 1, d\<lparr>d_errno := ENOSPC\<rparr>)
      | Some buf \<Rightarrow> dht_send buf confirm sa salen d)"

definition tid_fmt :: "string \<Rightarrow> byte list \<Rightarrow> msg_part" where
  "tid_fmt prefix tid = Fmt (prefix @ dec_str (length tid) @ '':'')"

section \<open>The senders\<close>

text \<open>Counted byte strings are passed as lists: \<open>tid\<close> with \<open>tid_len\<close> is \<open>tid\<close>.\<close>

definition send_ping :: "sockaddr \<Rightarrow> nat \<Rightarrow> byte list \<Rightarrow> dht \<Rightarrow> (int \<times> dht) option" where
  "send_ping sa salen tid d =
     send_parts 512 ([Fmt ''d1:ad2:id20:'', Copy (d_myid d), tid_fmt ''e1:q4:ping1:t'' tid, Copy tid]
       @ add_v d @ [Fmt ''1:y1:qe'']) False sa salen d"

definition send_pong :: "sockaddr \<Rightarrow> nat \<Rightarrow> byte list \<Rightarrow> dht \<Rightarrow> (int \<times> dht) option" where
  "send_pong sa salen tid d =
     send_parts 512 ([Fmt ''d1:rd2:id20:'', Copy (d_myid d), tid_fmt ''e1:t'' tid, Copy tid]
       @ add_v d @ [Fmt ''1:y1:re'']) False sa salen d"

definition WANT4 :: int where "WANT4 = 1"
definition WANT6 :: int where "WANT6 = 2"

definition want_parts :: "int \<Rightarrow> msg_part list" where
  "want_parts want =
     (if 0 < want
      then [Fmt (''4:wantl'' @ (if want AND WANT4 \<noteq> 0 then ''2:n4'' else [])
                 @ (if want AND WANT6 \<noteq> 0 then ''2:n6'' else []) @ ''e'')]
      else [])"

definition send_find_node ::
    "sockaddr \<Rightarrow> nat \<Rightarrow> byte list \<Rightarrow> dht_id \<Rightarrow> int \<Rightarrow> bool \<Rightarrow> dht \<Rightarrow> (int \<times> dht) option" where
  "send_find_node sa salen tid target want confirm d =
     send_parts 512 ([Fmt ''d1:ad2:id20:'', Copy (d_myid d), Fmt ''6:target20:'', Copy (take 20 target)]
       @ want_parts want @ [tid_fmt ''e1:q9:find_node1:t'' tid, Copy tid]
       @ add_v d @ [Fmt ''1:y1:qe'']) confirm sa salen d"

text \<open>
  The peers go out as a slice of at most 50 of the circular list, from a random start; only
  addresses of the wanted length count.
\<close>

definition peer_parts :: "nat \<Rightarrow> peer \<Rightarrow> msg_part list" where
  "peer_parts len p =
     [Fmt (dec_str (len + 2) @ '':''), Copy (take len (p_ip p)), Copy (le_enc 2 (htons (p_port p)))]"

fun peer_slice :: "nat \<Rightarrow> nat \<Rightarrow> peer list \<Rightarrow> msg_part list" where
  "peer_slice len k [] = []"
| "peer_slice len k (p # ps) =
     (if p_len p = len
      then peer_parts len p @ (if Suc k < 50 then peer_slice len (Suc k) ps else [])
      else if k < 50 then peer_slice len k ps else [])"

definition counted :: "string \<Rightarrow> byte list \<Rightarrow> msg_part list" where
  "counted key bs = (if bs = [] then [] else [Fmt (key @ dec_str (length bs) @ '':''), Copy bs])"

definition send_nodes_peers ::
    "sockaddr \<Rightarrow> nat \<Rightarrow> byte list \<Rightarrow> byte list \<Rightarrow> byte list \<Rightarrow> nat \<Rightarrow> storage option \<Rightarrow> byte list \<Rightarrow> dht \<Rightarrow>
      (int \<times> dht) option" where
  "send_nodes_peers sa salen tid nodes nodes6 af st token d =
     (let (values, d1) =
            (case st of
               Some s \<Rightarrow>
                 (if st_peers s \<noteq> []
                  then let (r, d1) = c_random d; j0 = r mod length (st_peers s)
                       in ([Fmt ''6:valuesl''] @ peer_slice (if af = AF_INET then 4 else 16) 0 (rotate j0 (st_peers s))
                             @ [Fmt ''e''], d1)
                  else ([], d))
             | None \<Rightarrow> ([], d))
      in send_parts 2048 ([Fmt ''d1:rd2:id20:'', Copy (d_myid d)] @ counted ''5:nodes'' nodes
           @ counted ''6:nodes6'' nodes6 @ counted ''5:token'' token @ values
           @ [tid_fmt ''e1:t'' tid, Copy tid] @ add_v d @ [Fmt ''1:y1:re'']) False sa salen d1)"

definition send_get_peers ::
    "sockaddr \<Rightarrow> nat \<Rightarrow> byte list \<Rightarrow> dht_id \<Rightarrow> int \<Rightarrow> bool \<Rightarrow> dht \<Rightarrow> (int \<times> dht) option" where
  "send_get_peers sa salen tid infohash want confirm d =
     send_parts 512 ([Fmt ''d1:ad2:id20:'', Copy (d_myid d), Fmt ''9:info_hash20:'', Copy (take 20 infohash)]
       @ want_parts want @ [tid_fmt ''e1:q9:get_peers1:t'' tid, Copy tid]
       @ add_v d @ [Fmt ''1:y1:qe'']) confirm sa salen d"

text \<open>The flag of \<open>sendto\<close> is set when \<open>confirm\<close> is not: the other senders do the opposite.\<close>

definition send_announce_peer ::
    "sockaddr \<Rightarrow> nat \<Rightarrow> byte list \<Rightarrow> dht_id \<Rightarrow> nat \<Rightarrow> byte list \<Rightarrow> bool \<Rightarrow> dht \<Rightarrow> (int \<times> dht) option" where
  "send_announce_peer sa salen tid infohash port token confirm d =
     send_parts 512 ([Fmt ''d1:ad2:id20:'', Copy (d_myid d), Fmt ''9:info_hash20:'', Copy (take 20 infohash),
         Fmt (''4:porti'' @ dec_str port @ ''e5:token'' @ dec_str (length token) @ '':''), Copy token,
         tid_fmt ''e1:q13:announce_peer1:t'' tid, Copy tid]
       @ add_v d @ [Fmt ''1:y1:qe'']) (\<not> confirm) sa salen d"

definition send_peer_announced :: "sockaddr \<Rightarrow> nat \<Rightarrow> byte list \<Rightarrow> dht \<Rightarrow> (int \<times> dht) option" where
  "send_peer_announced sa salen tid d =
     send_parts 512 ([Fmt ''d1:rd2:id20:'', Copy (d_myid d), tid_fmt ''e1:t'' tid, Copy tid]
       @ add_v d @ [Fmt ''1:y1:re'']) False sa salen d"

definition send_error :: "sockaddr \<Rightarrow> nat \<Rightarrow> byte list \<Rightarrow> nat \<Rightarrow> string \<Rightarrow> dht \<Rightarrow> (int \<times> dht) option" where
  "send_error sa salen tid code message d =
     send_parts 512 ([Fmt (''d1:eli'' @ dec_str code @ ''e'' @ dec_str (length message) @ '':''),
         Copy (bytes_of_string message), tid_fmt ''e1:t'' tid, Copy tid]
       @ add_v d @ [Fmt ''1:y1:ee'']) False sa salen d"

section \<open>The closest nodes\<close>

text \<open>
  The walk over a list sorted by distance to \<open>ref\<close>: the position of the id itself, or the
  first position whose id is farther away.  \<open>insert_search_node\<close> walks in the same way.
\<close>

datatype closest_pos = Known nat | Before nat

fun closest_loop :: "dht_id \<Rightarrow> dht_id \<Rightarrow> dht_id list \<Rightarrow> nat \<Rightarrow> closest_pos" where
  "closest_loop nid ref [] i = Before i"
| "closest_loop nid ref (x # xs) i =
     (if id_cmp nid x = 0 then Known i
      else if xorcmp nid x ref < 0 then Before i
      else closest_loop nid ref xs (Suc i))"

definition insert_closest_node :: "byte list list \<Rightarrow> dht_id \<Rightarrow> node \<Rightarrow> byte list list option" where
  "insert_closest_node nodes nid n =
     (let fam = sa_family (n_ss n)
      in if fam \<noteq> AF_INET \<and> fam \<noteq> AF_INET6 then None
         else
           (case closest_loop (n_id n) nid (map (take 20) nodes) 0 of
              Known i \<Rightarrow> Some nodes
            | Before i \<Rightarrow>
              (if i = 8 then Some nodes
               else let entry = n_id n @ (if fam = AF_INET then sin_addr (n_ss n) else sin6_addr (n_ss n))
                                  @ sin_port (n_ss n)
                    in Some (take 8 (take i nodes @ entry # drop i nodes)))))"

fun buffer_closest_nodes :: "dht \<Rightarrow> byte list list \<Rightarrow> dht_id \<Rightarrow> node list \<Rightarrow> byte list list option" where
  "buffer_closest_nodes d nodes nid [] = Some nodes"
| "buffer_closest_nodes d nodes nid (n # ns) =
     (if node_good d n
      then (case insert_closest_node nodes nid n of
              None \<Rightarrow> None | Some nodes1 \<Rightarrow> buffer_closest_nodes d nodes1 nid ns)
      else buffer_closest_nodes d nodes nid ns)"

definition closest_in_table :: "dht \<Rightarrow> dht_id \<Rightarrow> bucket list \<Rightarrow> byte list list option" where
  "closest_in_table d nid bs =
     (case find_bucket nid bs of
        None \<Rightarrow> Some []
      | Some k \<Rightarrow>
        do { n1 \<leftarrow> buffer_closest_nodes d [] nid (b_nodes (bs ! k));
             n2 \<leftarrow> (if Suc k < length bs then buffer_closest_nodes d n1 nid (b_nodes (bs ! Suc k)) else Some n1);
             (case previous_bucket bs k of
                None \<Rightarrow> Some n2 | Some p \<Rightarrow> buffer_closest_nodes d n2 nid (b_nodes (bs ! p))) })"

definition send_closest_nodes ::
    "sockaddr \<Rightarrow> nat \<Rightarrow> byte list \<Rightarrow> dht_id \<Rightarrow> int \<Rightarrow> nat \<Rightarrow> storage option \<Rightarrow> byte list \<Rightarrow> dht \<Rightarrow> (int \<times> dht) option" where
  "send_closest_nodes sa salen tid nid want af st token d =
     (let want = (if want \<le> 0 then (if sa_family sa = AF_INET then WANT4 else WANT6) else want)
      in do { nodes \<leftarrow> (if want AND WANT4 \<noteq> 0 then closest_in_table d nid (d_buckets d) else Some []);
              nodes6 \<leftarrow> (if want AND WANT6 \<noteq> 0 then closest_in_table d nid (d_buckets6 d) else Some []);
              send_nodes_peers sa salen tid (concat nodes) (concat nodes6) af st token d })"

end
