(* ===== verification/DhtStorage.thy ===== *)
theory DhtStorage
  imports DhtMsg
begin

text \<open>
  The peers stored for the info hashes, the announce tokens, the rate limit of \<open>dht.c\<close>, and
  the hash and the random bytes \<open>dht_list.c\<close> supplies.
\<close>

section \<open>Storage\<close>

fun find_storage_loop :: "dht_id \<Rightarrow> storage list \<Rightarrow> nat option" where
  "find_storage_loop nid [] = None"
| "find_storage_loop nid (s # ss) =
     (if id_cmp nid (st_id s) = 0 then Some 0 else map_option Suc (find_storage_loop nid ss))"

definition find_storage :: "dht_id \<Rightarrow> dht \<Rightarrow> nat option" where
  "find_storage nid d = find_storage_loop nid (d_storage d)"

definition same_peer :: "byte list \<Rightarrow> nat \<Rightarrow> nat \<Rightarrow> peer \<Rightarrow> bool" where
  "same_peer ip len port p \<longleftrightarrow> p_port p = port \<and> p_len p = len \<and> memcmp (take len (p_ip p)) (take len ip) = 0"

fun find_peer :: "byte list \<Rightarrow> nat \<Rightarrow> nat \<Rightarrow> peer list \<Rightarrow> nat" where
  "find_peer ip len port [] = 0"
| "find_peer ip len port (p # ps) = (if same_peer ip len port p then 0 else Suc (find_peer ip len port ps))"

text \<open>
  The peers of one hash: refresh the time of a known peer, or append one, growing the array
  to the next power of two up to \<open>DHT_MAX_PEERS\<close>.  \<open>ok\<close> is the outcome of \<open>realloc\<close>.
\<close>

definition storage_put :: "int \<Rightarrow> byte list \<Rightarrow> nat \<Rightarrow> nat \<Rightarrow> bool \<Rightarrow> storage \<Rightarrow> int \<times> storage" where
  "storage_put now ip len port ok st =
     (let i = find_peer ip len port (st_peers st)
      in if i < length (st_peers st)
         then (0, st\<lparr>st_peers := (st_peers st)[i := (st_peers st ! i)\<lparr>p_time := now\<rparr>]\<rparr>)
         else
           let new = \<lparr>p_time = now, p_ip = take len ip, p_len = len, p_port = port\<rparr>
           in if st_maxpeers st \<le> i
              then (if DHT_MAX_PEERS \<le> st_maxpeers st then (0, st)
                    else if \<not> ok then (- 1, st)
                    else (1, st\<lparr>st_maxpeers := min (if st_maxpeers st = 0 then 2 else 2 * st_maxpeers st) DHT_MAX_PEERS,
                                st_peers := st_peers st @ [new]\<rparr>))
              else (1, st\<lparr>st_peers := st_peers st @ [new]\<rparr>))"

text \<open>Whether \<open>storage_put\<close> calls \<open>realloc\<close>, and so draws an outcome.\<close>

definition storage_grows :: "byte list \<Rightarrow> nat \<Rightarrow> nat \<Rightarrow> storage \<Rightarrow> bool" where
  "storage_grows ip len port st \<longleftrightarrow>
     find_peer ip len port (st_peers st) = length (st_peers st)
     \<and> st_maxpeers st \<le> length (st_peers st) \<and> st_maxpeers st < DHT_MAX_PEERS"

definition storage_put_at :: "nat \<Rightarrow> byte list \<Rightarrow> nat \<Rightarrow> nat \<Rightarrow> dht \<Rightarrow> int \<times> dht" where
  "storage_put_at k ip len port d =
     (let st = d_storage d ! k;
          (ok, d1) = (if storage_grows ip len port st then c_calloc d else (True, d));
          (rc, st1) = storage_put (d_now d) ip len port ok st
      in (rc, d1\<lparr>d_storage := (d_storage d1)[k := st1]\<rparr>))"

definition storage_store :: "dht_id \<Rightarrow> sockaddr \<Rightarrow> nat \<Rightarrow> dht \<Rightarrow> int \<times> dht" where
  "storage_store nid sa port d =
     (if sa_family sa \<noteq> AF_INET \<and> sa_family sa \<noteq> AF_INET6 then (- 1, d)
      else
        let len = (if sa_family sa = AF_INET then 4 else 16);
            ip = (if sa_family sa = AF_INET then sin_addr sa else sin6_addr sa)
        in case find_storage nid d of
             Some k \<Rightarrow> storage_put_at k ip len port d
           | None \<Rightarrow>
             (if DHT_MAX_HASHES \<le> d_numstorage d then (- 1, d)
              else
                let (ok, d1) = c_calloc d
                in if \<not> ok then (- 1, d1)
                   else storage_put_at 0 ip len port
                          (d1\<lparr>d_storage := \<lparr>st_id = take 20 nid, st_maxpeers = 0, st_peers = []\<rparr> # d_storage d1,
                              d_numstorage := d_numstorage d1 + 1\<rparr>)))"

text \<open>
  Expiry overwrites an old peer by the last one and looks at the same place again.
\<close>

definition peer_old :: "int \<Rightarrow> peer \<Rightarrow> bool" where
  "peer_old now p \<longleftrightarrow> p_time p < now - 32 * 60"

function expire_peers :: "int \<Rightarrow> peer list \<Rightarrow> nat \<Rightarrow> peer list" where
  "expire_peers now ps i =
     (if i < length ps
      then (if peer_old now (ps ! i)
            then expire_peers now (butlast (if i \<noteq> length ps - 1 then ps[i := ps ! (length ps - 1)] else ps)) i
            else expire_peers now ps (Suc i))
      else ps)"
  by pat_completeness auto

termination
  by (relation "measure (\<lambda>(now, ps, i). 2 * length ps - i)") auto

declare expire_peers.simps [simp del]

fun expire_storage_loop :: "int \<Rightarrow> storage list \<Rightarrow> int \<Rightarrow> storage list \<times> int" where
  "expire_storage_loop now [] num = ([], num)"
| "expire_storage_loop now (st # sts) num =
     (let ps = expire_peers now (st_peers st) 0
      in if ps = [] then expire_storage_loop now sts (if num - 1 < 0 then 0 else num - 1)
         else let (rest, num1) = expire_storage_loop now sts num in (st\<lparr>st_peers := ps\<rparr> # rest, num1))"

definition expire_storage :: "dht \<Rightarrow> int \<times> dht" where
  "expire_storage d =
     (let (sts, num) = expire_storage_loop (d_now d) (d_storage d) (d_numstorage d)
      in (1, d\<lparr>d_storage := sts, d_numstorage := num\<rparr>))"

section \<open>Secrets and tokens\<close>

text \<open>A short read of \<open>/dev/urandom\<close> leaves the rest of the secret as it was.\<close>

definition rotate_secrets :: "dht \<Rightarrow> int \<times> dht" where
  "rotate_secrets d =
     (let (r, d1) = c_random d;
          d2 = d1\<lparr>d_rotate_secrets_time := d_now d1 + 900 + int (r mod 1800), d_oldsecret := d_secret d1\<rparr>;
          (rc, bs, d3) = dht_random_bytes 8 d2;
          d4 = d3\<lparr>d_secret := copy_onto (d_secret d3) bs (length bs)\<rparr>
      in (if rc < 0 then - 1 else 1, d4))"

definition TOKEN_SIZE :: nat where "TOKEN_SIZE = 8"

text \<open>
  \<open>dht_hash\<close> of \<open>dht_list.c\<close> prepares a key from its arguments; the call of \<open>crypt\<close> that was
  to fill \<open>hash_return\<close> is commented out, so the array stays as it was.
\<close>

definition crypt_happy :: "byte \<Rightarrow> byte" where
  "crypt_happy c = word_of_int (sgn (sint c) * (\<bar>sint c\<bar> mod 0x60) + 0x20)"

definition dht_hash_key :: "byte list \<Rightarrow> byte list \<Rightarrow> byte list \<Rightarrow> byte list" where
  "dht_hash_key v1 v2 v3 =
     map (\<lambda>i. crypt_happy (v1 ! i)) [0..<min 2 (length v1)]
     @ map (\<lambda>i. crypt_happy (v2 ! i)) [0..<min 4 (length v1)]
     @ map (\<lambda>i. crypt_happy (v3 ! i)) [0..<min 2 (length v1)]"

definition dht_hash :: "byte list \<Rightarrow> byte list \<Rightarrow> byte list \<Rightarrow> byte list \<Rightarrow> byte list" where
  "dht_hash hash_return v1 v2 v3 = (let key = dht_hash_key v1 v2 v3 in hash_return)"

definition make_token :: "sockaddr \<Rightarrow> bool \<Rightarrow> byte list \<Rightarrow> dht \<Rightarrow> byte list option" where
  "make_token sa old token_return d =
     (if sa_family sa = AF_INET
      then Some (dht_hash token_return (if old then d_oldsecret d else d_secret d) (sin_addr sa) (rev (sin_port sa)))
      else if sa_family sa = AF_INET6
      then Some (dht_hash token_return (if old then d_oldsecret d else d_secret d) (sin6_addr sa) (rev (sin_port sa)))
      else None)"

definition token_match :: "byte list \<Rightarrow> sockaddr \<Rightarrow> dht \<Rightarrow> (bool \<times> dht) option" where
  "token_match token sa d =
     (if length token \<noteq> TOKEN_SIZE then Some (False, d)
      else
        let (t, d1) = stack_bytes TOKEN_SIZE d
        in do { t1 \<leftarrow> make_token sa False t d1;
                if memcmp t1 token = 0 then Some (True, d1)
                else do { t2 \<leftarrow> make_token sa True t1 d1; Some (memcmp t2 token = 0, d1) } })"

section \<open>The rate limit\<close>

definition token_bucket :: "dht \<Rightarrow> bool \<times> dht" where
  "token_bucket d =
     (let d1 = (if d_token_bucket_tokens d = 0
                then d\<lparr>d_token_bucket_tokens := min MAX_TOKEN_BUCKET_TOKENS (100 * (d_now d - d_token_bucket_time d)),
                       d_token_bucket_time := d_now d\<rparr>
                else d)
      in if d_token_bucket_tokens d1 = 0 then (False, d1)
         else (True, d1\<lparr>d_token_bucket_tokens := d_token_bucket_tokens d1 - 1\<rparr>))"

end
