(* ===== verification/DhtSearch.thy ===== *)
theory DhtSearch
  imports DhtStorage
begin

text \<open>
  The pings of \<open>dht.c\<close> and its searches: the bounded sorted list of candidates, the requests
  to them, the announcements at the end, and the blacklist, which takes nodes out of searches.
  A search is given by its position in the list \<open>searches\<close>.
\<close>

section \<open>Pings\<close>

definition update_bucket :: "nat \<Rightarrow> nat \<Rightarrow> (bucket \<Rightarrow> bucket) \<Rightarrow> dht \<Rightarrow> dht" where
  "update_bucket af k f d = (let bs = dht_table af d in set_table af (bs[k := f (bs ! k)]) d)"

definition send_cached_ping :: "nat \<Rightarrow> nat \<Rightarrow> dht \<Rightarrow> (int \<times> dht) option" where
  "send_cached_ping af k d =
     (let b = dht_table af d ! k
      in if sa_family (b_cached b) = 0 then Some (0, d)
         else
           do { (rc, d1) \<leftarrow> send_ping (b_cached b) (b_cachedlen b) (make_tid ''pn'' 0) d;
                Some (rc, update_bucket af k (\<lambda>b. b\<lparr>b_cached := copy_onto (b_cached b) [0, 0] 2, b_cachedlen := 0\<rparr>) d1) })"

text \<open>The bucket to ping is given, or that of the node; without a table the call crashes.\<close>

definition pinged :: "nat \<Rightarrow> nat \<times> nat \<Rightarrow> nat option \<Rightarrow> dht \<Rightarrow> dht option" where
  "pinged af kj b d =
     (let d1 = update_node af kj (\<lambda>n. n\<lparr>n_pinged := n_pinged n + 1, n_pinged_time := d_now d\<rparr>) d;
          n = b_nodes (dht_table af d1 ! fst kj) ! snd kj
      in if 3 \<le> n_pinged n
         then
           (case b of
              Some k \<Rightarrow> map_option snd (send_cached_ping af k d1)
            | None \<Rightarrow>
              (case find_bucket (n_id n) (dht_table (sa_family (n_ss n)) d1) of
                 None \<Rightarrow> None
               | Some k \<Rightarrow> map_option snd (send_cached_ping (sa_family (n_ss n)) k d1)))
         else Some d1)"

section \<open>The candidates of a search\<close>

fun find_search_loop :: "u16 \<Rightarrow> nat \<Rightarrow> search list \<Rightarrow> nat option" where
  "find_search_loop tid af [] = None"
| "find_search_loop tid af (sr # srs) =
     (if sr_tid sr = tid \<and> sr_af sr = af then Some 0 else map_option Suc (find_search_loop tid af srs))"

definition find_search :: "u16 \<Rightarrow> nat \<Rightarrow> dht \<Rightarrow> nat option" where
  "find_search tid af d = find_search_loop tid af (d_searches d)"

definition search_node_zero :: search_node where
  "search_node_zero = \<lparr>sn_id = zeroes, sn_ss = replicate 128 0, sn_sslen = 0, sn_request_time = 0,
     sn_reply_time = 0, sn_pinged = 0, sn_token = [], sn_token_len = 0, sn_replied = False, sn_acked = False\<rparr>"

text \<open>The label \<open>found\<close>: the address, the reply and the token go into the entry.\<close>

definition search_found ::
    "sockaddr \<Rightarrow> nat \<Rightarrow> bool \<Rightarrow> byte list option \<Rightarrow> int \<Rightarrow> search_node \<Rightarrow> search_node" where
  "search_found sa salen replied token now n =
     (let n1 = n\<lparr>sn_ss := copy_onto (sn_ss n) sa salen, sn_sslen := salen\<rparr>;
          n2 = (if replied
                then n1\<lparr>sn_replied := True, sn_reply_time := now, sn_request_time := 0, sn_pinged := 0\<rparr> else n1)
      in case token of
           None \<Rightarrow> n2
         | Some t \<Rightarrow>
           (if 40 \<le> length t then n2
            else n2\<lparr>sn_token := copy_onto (sn_token n2) t (length t), sn_token_len := int (length t)\<rparr>))"

text \<open>
  \<open>insert_search_node\<close>: the position of the entry, \<open>None\<close> where the code returns NULL, and
  the search.
\<close>

definition insert_search_node ::
    "dht_id \<Rightarrow> sockaddr \<Rightarrow> nat \<Rightarrow> bool \<Rightarrow> byte list option \<Rightarrow> int \<Rightarrow> search \<Rightarrow> nat option \<times> search" where
  "insert_search_node nid sa salen replied token now sr =
     (if sa_family sa \<noteq> sr_af sr then (None, sr)
      else
        (case closest_loop nid (sr_id sr) (map sn_id (sr_nodes sr)) 0 of
           Known i \<Rightarrow>
             (Some i, sr\<lparr>sr_nodes := (sr_nodes sr)[i := search_found sa salen replied token now (sr_nodes sr ! i)]\<rparr>)
         | Before i \<Rightarrow>
             (if i = SEARCH_NODES then (None, sr)
              else
                let n = search_found sa salen replied token now (search_node_zero\<lparr>sn_id := take 20 nid\<rparr>)
                in (Some i, sr\<lparr>sr_nodes := take SEARCH_NODES (take i (sr_nodes sr) @ n # drop i (sr_nodes sr))\<rparr>))))"

definition flush_search_node :: "nat \<Rightarrow> search \<Rightarrow> search" where
  "flush_search_node i sr = sr\<lparr>sr_nodes := take i (sr_nodes sr) @ drop (Suc i) (sr_nodes sr)\<rparr>"

definition update_search :: "nat \<Rightarrow> (search \<Rightarrow> search) \<Rightarrow> dht \<Rightarrow> dht" where
  "update_search si f d = d\<lparr>d_searches := (d_searches d)[si := f (d_searches d ! si)]\<rparr>"

definition update_search_node :: "nat \<Rightarrow> nat \<Rightarrow> (search_node \<Rightarrow> search_node) \<Rightarrow> dht \<Rightarrow> dht" where
  "update_search_node si i f d =
     update_search si (\<lambda>sr. sr\<lparr>sr_nodes := (sr_nodes sr)[i := f (sr_nodes sr ! i)]\<rparr>) d"

definition insert_into_search ::
    "dht_id \<Rightarrow> sockaddr \<Rightarrow> nat \<Rightarrow> nat \<Rightarrow> bool \<Rightarrow> byte list option \<Rightarrow> dht \<Rightarrow> nat option \<times> dht" where
  "insert_into_search nid sa salen si replied token d =
     (let (i, sr) = insert_search_node nid sa salen replied token (d_now d) (d_searches d ! si)
      in (i, update_search si (\<lambda>_. sr) d))"

fun expire_searches_loop :: "bool \<Rightarrow> search list \<Rightarrow> dht \<Rightarrow> search list \<times> dht" where
  "expire_searches_loop callback [] d = ([], d)"
| "expire_searches_loop callback (sr # srs) d =
     (if sr_step_time sr < d_now d - DHT_SEARCH_EXPIRE_TIME
      then
        let d1 = d\<lparr>d_numsearches := d_numsearches d - 1\<rparr>;
            d2 = (if sr_done sr then d1
                  else dht_callback callback
                         (if sr_af sr = AF_INET then DHT_EVENT_SEARCH_DONE else DHT_EVENT_SEARCH_DONE6) (sr_id sr) [] d1)
        in expire_searches_loop callback srs d2
      else let (rest, d1) = expire_searches_loop callback srs d in (sr # rest, d1))"

definition expire_searches :: "bool \<Rightarrow> dht \<Rightarrow> dht" where
  "expire_searches callback d =
     (let (srs, d1) = expire_searches_loop callback (d_searches d) d in d1\<lparr>d_searches := srs\<rparr>)"

section \<open>Requests\<close>

definition search_due :: "int \<Rightarrow> search_node \<Rightarrow> bool" where
  "search_due now n \<longleftrightarrow>
     sn_pinged n < 3 \<and> \<not> sn_replied n \<and> sn_request_time n < now - DHT_SEARCH_RETRANSMIT"

text \<open>Without a given node the last one that is due is taken: the loop does not stop at the first.\<close>

fun search_pick :: "int \<Rightarrow> search_node list \<Rightarrow> nat \<Rightarrow> nat option \<Rightarrow> nat option" where
  "search_pick now [] i acc = acc"
| "search_pick now (n # ns) i acc = search_pick now ns (Suc i) (if search_due now n then Some i else acc)"

text \<open>Mark the node of the routing table with this id, if there is one, as pinged.\<close>

definition pinged_if_known :: "search_node \<Rightarrow> dht \<Rightarrow> dht option" where
  "pinged_if_known n d =
     (let af = sa_family (sn_ss n)
      in case find_node (sn_id n) (dht_table af d) of None \<Rightarrow> Some d | Some kj \<Rightarrow> pinged af kj None d)"

definition search_send_get_peers :: "nat \<Rightarrow> nat option \<Rightarrow> dht \<Rightarrow> (nat \<times> dht) option" where
  "search_send_get_peers si i d =
     (let sr = d_searches d ! si;
          i1 = (case i of None \<Rightarrow> search_pick (d_now d) (sr_nodes sr) 0 None | Some i \<Rightarrow> Some i)
      in case i1 of
           None \<Rightarrow> Some (0, d)
         | Some j \<Rightarrow>
           (let n = sr_nodes sr ! j
            in if \<not> search_due (d_now d) n then Some (0, d)
               else
                 do { (rc, d1) \<leftarrow> send_get_peers (sn_ss n) (sn_sslen n) (make_tid ''gp'' (sr_tid sr)) (sr_id sr) (- 1)
                                    (d_now d - DHT_SEARCH_RETRANSMIT \<le> sn_reply_time n) d;
                      d2 \<leftarrow> Some (update_search_node si j
                                    (\<lambda>n. n\<lparr>sn_pinged := sn_pinged n + 1, sn_request_time := d_now d1\<rparr>) d1);
                      d3 \<leftarrow> pinged_if_known n d2;
                      Some (1, d3) }))"

fun add_search_node_loop :: "dht_id \<Rightarrow> sockaddr \<Rightarrow> nat \<Rightarrow> nat list \<Rightarrow> dht \<Rightarrow> dht option" where
  "add_search_node_loop nid sa salen [] d = Some d"
| "add_search_node_loop nid sa salen (si # sis) d =
     (let sr = d_searches d ! si
      in if sr_af sr = sa_family sa \<and> length (sr_nodes sr) < SEARCH_NODES
         then
           let (i, d1) = insert_into_search nid sa salen si False None d
           in case i of
                None \<Rightarrow> add_search_node_loop nid sa salen sis d1
              | Some j \<Rightarrow>
                do { (s, d2) \<leftarrow> search_send_get_peers si (Some j) d1;
                     add_search_node_loop nid sa salen sis d2 }
         else add_search_node_loop nid sa salen sis d)"

definition add_search_node :: "dht_id \<Rightarrow> sockaddr \<Rightarrow> nat \<Rightarrow> dht \<Rightarrow> dht option" where
  "add_search_node nid sa salen d = add_search_node_loop nid sa salen [0..<length (d_searches d)] d"

section \<open>A step of a search\<close>

text \<open>The first eight nodes that are not dead have replied.\<close>

fun all_done_loop :: "search_node list \<Rightarrow> nat \<Rightarrow> bool" where
  "all_done_loop [] j = True"
| "all_done_loop (n # ns) j =
     (if 8 \<le> j then True
      else if 3 \<le> sn_pinged n then all_done_loop ns j
      else if \<not> sn_replied n then False
      else all_done_loop ns (Suc j))"

fun announce_loop :: "nat \<Rightarrow> nat list \<Rightarrow> nat \<Rightarrow> bool \<Rightarrow> dht \<Rightarrow> (bool \<times> dht) option" where
  "announce_loop si [] j all_acked d = Some (all_acked, d)"
| "announce_loop si (i # is) j all_acked d =
     (if 8 \<le> j then Some (all_acked, d)
      else
        let sr = d_searches d ! si; n = sr_nodes sr ! i
        in if 3 \<le> sn_pinged n then announce_loop si is j all_acked d
           else
             let d1 = (if sn_token_len n = 0 then update_search_node si i (\<lambda>n. n\<lparr>sn_acked := True\<rparr>) d else d)
             in if sn_token_len n = 0 \<or> sn_acked n then announce_loop si is (Suc j) all_acked d1
                else
                  do { (rc, d2) \<leftarrow> send_announce_peer (sn_ss n) sizeof_sockaddr_storage (make_tid ''ap'' (sr_tid sr))
                                     (sr_id sr) (sr_port sr) (take (nat (sn_token_len n)) (sn_token n))
                                     (d_now d1 - 15 \<le> sn_reply_time n) d1;
                       d3 \<leftarrow> Some (update_search_node si i
                                     (\<lambda>n. n\<lparr>sn_pinged := sn_pinged n + 1, sn_request_time := d_now d2\<rparr>) d2);
                       d4 \<leftarrow> pinged_if_known n d3;
                       announce_loop si is (Suc j) False d4 })"

fun requests_loop :: "nat \<Rightarrow> nat list \<Rightarrow> nat \<Rightarrow> dht \<Rightarrow> dht option" where
  "requests_loop si [] j d = Some d"
| "requests_loop si (i # is) j d =
     do { (s, d1) \<leftarrow> search_send_get_peers si (Some i) d;
          (if DHT_INFLIGHT_QUERIES \<le> j + s then Some d1 else requests_loop si is (j + s) d1) }"

definition search_finish :: "nat \<Rightarrow> bool \<Rightarrow> dht \<Rightarrow> dht" where
  "search_finish si callback d =
     (let d1 = update_search si (\<lambda>sr. sr\<lparr>sr_done := True\<rparr>) d; sr = d_searches d1 ! si;
          d2 = dht_callback callback
                 (if sr_af sr = AF_INET then DHT_EVENT_SEARCH_DONE else DHT_EVENT_SEARCH_DONE6) (sr_id sr) [] d1
      in update_search si (\<lambda>sr. sr\<lparr>sr_step_time := d_now d2\<rparr>) d2)"

definition search_step :: "nat \<Rightarrow> bool \<Rightarrow> dht \<Rightarrow> dht option" where
  "search_step si callback d =
     (let sr = d_searches d ! si;
          stamp = (\<lambda>d. update_search si (\<lambda>sr. sr\<lparr>sr_step_time := d_now d\<rparr>) d)
      in if all_done_loop (sr_nodes sr) 0
         then
           (if sr_port sr = 0 then Some (search_finish si callback d)
            else
              do { (all_acked, d1) \<leftarrow> announce_loop si [0..<length (sr_nodes sr)] 0 True d;
                   Some (if all_acked then search_finish si callback d1 else stamp d1) })
         else if d_now d \<le> sr_step_time sr + DHT_SEARCH_RETRANSMIT then Some d
         else
           do { d1 \<leftarrow> requests_loop si [0..<length (sr_nodes sr)] 0 d;
                Some (stamp d1) })"

section \<open>Starting a search\<close>

fun oldest_done :: "search list \<Rightarrow> nat \<Rightarrow> (nat \<times> int) option \<Rightarrow> (nat \<times> int) option" where
  "oldest_done [] i acc = acc"
| "oldest_done (sr # srs) i acc =
     oldest_done srs (Suc i)
       (if sr_done sr \<and> (case acc of None \<Rightarrow> True | Some (k, t) \<Rightarrow> sr_step_time sr < t)
        then Some (i, sr_step_time sr) else acc)"

definition search_zero :: search where
  "search_zero = \<lparr>sr_tid = 0, sr_af = 0, sr_step_time = 0, sr_id = zeroes, sr_port = 0, sr_done = False, sr_nodes = []\<rparr>"

text \<open>
  The position of the slot; the outer option is the crash: when no slot can be allocated the
  code reads \<open>oldest->done\<close>, though no search may be done and \<open>oldest\<close> be NULL.
\<close>

definition new_search :: "dht \<Rightarrow> (nat option \<times> dht) option" where
  "new_search d =
     (let oldest = oldest_done (d_searches d) 0 None;
          fallback = (\<lambda>d. case oldest of None \<Rightarrow> None | Some (k, t) \<Rightarrow> Some (Some k, d))
      in if (case oldest of None \<Rightarrow> False | Some (k, t) \<Rightarrow> t < d_now d - DHT_SEARCH_EXPIRE_TIME)
         then Some (map_option fst oldest, d)
         else if d_numsearches d < DHT_MAX_SEARCHES
         then
           let (ok, d1) = c_calloc d
           in if ok then Some (Some 0, d1\<lparr>d_searches := search_zero # d_searches d1, d_numsearches := d_numsearches d1 + 1\<rparr>)
              else fallback d1
         else fallback d)"

fun insert_nodes :: "node list \<Rightarrow> int \<Rightarrow> search \<Rightarrow> search" where
  "insert_nodes [] now sr = sr"
| "insert_nodes (n # ns) now sr =
     insert_nodes ns now (snd (insert_search_node (n_id n) (n_ss n) (n_sslen n) False None now sr))"

definition insert_search_bucket :: "bucket \<Rightarrow> int \<Rightarrow> search \<Rightarrow> search" where
  "insert_search_bucket b now sr = insert_nodes (b_nodes b) now sr"

text \<open>
  Reusing an old search: the first doubtful node is flushed and the walk starts again.
\<close>

definition node_doubtful :: "int \<Rightarrow> search_node \<Rightarrow> bool" where
  "node_doubtful now n \<longleftrightarrow> 3 \<le> sn_pinged n \<or> sn_reply_time n < now - 7200"

definition node_reset :: "search_node \<Rightarrow> search_node" where
  "node_reset n = n\<lparr>sn_pinged := 0, sn_token_len := 0, sn_replied := False, sn_acked := False\<rparr>"

function reuse_loop :: "int \<Rightarrow> search_node list \<Rightarrow> nat \<Rightarrow> search_node list" where
  "reuse_loop now ns i =
     (if i < length ns
      then (if node_doubtful now (ns ! i) then reuse_loop now (take i ns @ drop (Suc i) ns) 0
            else reuse_loop now (ns[i := node_reset (ns ! i)]) (Suc i))
      else ns)"
  by pat_completeness auto

termination
  by (relation "measures [\<lambda>(now, ns, i). length ns, \<lambda>(now, ns, i). length ns - i]") auto

declare reuse_loop.simps [simp del]

fun same_search :: "dht_id \<Rightarrow> nat \<Rightarrow> search list \<Rightarrow> nat option" where
  "same_search nid af [] = None"
| "same_search nid af (sr # srs) =
     (if sr_af sr = af \<and> id_cmp (sr_id sr) nid = 0 then Some 0 else map_option Suc (same_search nid af srs))"

fun local_values :: "dht_id \<Rightarrow> peer list \<Rightarrow> dht \<Rightarrow> dht" where
  "local_values nid [] d = d"
| "local_values nid (p # ps) d =
     local_values nid ps
       (if p_len p = 4 then
          dht_callback True DHT_EVENT_VALUES nid (take 4 (p_ip p) @ le_enc 2 (htons (p_port p))) d
        else if p_len p = 16 then
          dht_callback True DHT_EVENT_VALUES6 nid (take 16 (p_ip p) @ le_enc 2 (htons (p_port p))) d
        else d)"

definition search_slot :: "dht_id \<Rightarrow> nat \<Rightarrow> dht \<Rightarrow> (nat option \<times> dht) option" where
  "search_slot nid af d =
     (case same_search nid af (d_searches d) of
        Some si \<Rightarrow>
          Some (Some si,
            update_search si (\<lambda>sr. sr\<lparr>sr_done := False, sr_nodes := reuse_loop (d_now d) (sr_nodes sr) 0\<rparr>) d)
      | None \<Rightarrow>
          do { (slot, d1) \<leftarrow> new_search d;
               (case slot of
                  None \<Rightarrow> Some (None, d1)
                | Some si \<Rightarrow>
                  Some (Some si,
                    update_search si (\<lambda>sr. sr\<lparr>sr_af := af, sr_tid := d_search_id d1, sr_step_time := 0,
                        sr_id := take 20 nid, sr_done := False, sr_nodes := []\<rparr>)
                      (d1\<lparr>d_search_id := d_search_id d1 + 1\<rparr>))) })"

definition fill_search :: "nat \<Rightarrow> nat \<Rightarrow> nat \<Rightarrow> dht \<Rightarrow> dht option" where
  "fill_search si af k d =
     (let bs = dht_table af d; now = d_now d;
          sr1 = insert_search_bucket (bs ! k) now (d_searches d ! si);
          sr2 = (if length (sr_nodes sr1) < SEARCH_NODES
                 then
                   let sr = (if Suc k < length bs then insert_search_bucket (bs ! Suc k) now sr1 else sr1)
                   in case previous_bucket bs k of None \<Rightarrow> sr | Some p \<Rightarrow> insert_search_bucket (bs ! p) now sr
                 else sr1)
      in if length (sr_nodes sr2) < SEARCH_NODES
         then (case find_bucket (d_myid d) bs of
                 None \<Rightarrow> None
               | Some m \<Rightarrow> Some (update_search si (\<lambda>_. insert_search_bucket (bs ! m) now sr2) d))
         else Some (update_search si (\<lambda>_. sr2) d))"

definition dht_search :: "dht_id \<Rightarrow> int \<Rightarrow> nat \<Rightarrow> bool \<Rightarrow> dht \<Rightarrow> (int \<times> dht) option" where
  "dht_search nid port af callback d =
     (case find_bucket nid (dht_table af d) of
        None \<Rightarrow> Some (- 1, d\<lparr>d_errno := EAFNOSUPPORT\<rparr>)
      | Some k \<Rightarrow>
        (let d1 = (if callback
                   then (case find_storage nid d of
                           None \<Rightarrow> d | Some s \<Rightarrow> local_values nid (st_peers (d_storage d ! s)) d)
                   else d);
             duplicate = (case same_search nid af (d_searches d1) of
                            None \<Rightarrow> False | Some si \<Rightarrow> \<not> sr_done (d_searches d1 ! si))
         in do { (slot, d2) \<leftarrow> search_slot nid af d1;
                 (case slot of
                    None \<Rightarrow> Some (- 1, d2\<lparr>d_errno := ENOSPC\<rparr>)
                  | Some si \<Rightarrow>
                    do { d3 \<leftarrow> fill_search si af k
                                 (update_search si (\<lambda>sr. sr\<lparr>sr_port := nat (port mod 65536)\<rparr>) d2);
                         d4 \<leftarrow> search_step si callback d3;
                         Some (if duplicate then 0 else 1, d4\<lparr>d_search_time := d_now d4\<rparr>) }) }))"

section \<open>The blacklist\<close>

text \<open>After a flush the next node has moved to place \<open>i\<close>, and the loop goes on behind it.\<close>

function flush_loop :: "dht_id \<Rightarrow> search \<Rightarrow> nat \<Rightarrow> search" where
  "flush_loop nid sr i =
     (if i < length (sr_nodes sr)
      then flush_loop nid (if id_cmp (sn_id (sr_nodes sr ! i)) nid = 0 then flush_search_node i sr else sr) (Suc i)
      else sr)"
  by pat_completeness auto

termination
  by (relation "measure (\<lambda>(nid, sr, i). length (sr_nodes sr) - i)") (auto simp: flush_search_node_def)

declare flush_loop.simps [simp del]

definition blacklist_node :: "dht_id option \<Rightarrow> sockaddr \<Rightarrow> nat \<Rightarrow> dht \<Rightarrow> dht option" where
  "blacklist_node nid sa salen d =
     do { d1 \<leftarrow> (case nid of
                   None \<Rightarrow> Some d
                 | Some i \<Rightarrow>
                   do { d1 \<leftarrow> (case find_node i (dht_table (sa_family sa) d) of
                                 None \<Rightarrow> Some d
                               | Some kj \<Rightarrow>
                                 pinged (sa_family sa) kj None
                                   (update_node (sa_family sa) kj (\<lambda>n. n\<lparr>n_pinged := 3\<rparr>) d));
                        Some (d1\<lparr>d_searches := map (\<lambda>sr. flush_loop i sr 0) (d_searches d1)\<rparr>) });
          Some (d1\<lparr>d_blacklist := (d_blacklist d1)[d_next_blacklisted d1 :=
                      copy_onto (d_blacklist d1 ! d_next_blacklisted d1) sa salen],
                   d_next_blacklisted := (d_next_blacklisted d1 + 1) mod DHT_MAX_BLACKLISTED\<rparr>) }"

end
