(* ===== verification/DhtTable.thy ===== *)
theory DhtTable
  imports DhtSearch
begin

text \<open>
  The routing table of \<open>dht.c\<close>: a full bucket that holds our own id is split, other buckets
  turn new nodes away.  The loops may in principle not end, so they are partial functions;
  \<open>None\<close> is an abort or no return.
\<close>

section \<open>Splitting\<close>

definition bucket_new :: bucket where
  "bucket_new = \<lparr>b_af = 0, b_first = zeroes, b_count = 0, b_max_count = 0, b_time = 0, b_nodes = [],
     b_cached = replicate 128 0, b_cachedlen = 0\<rparr>"

text \<open>The nodes of the split bucket are returned for reinsertion.\<close>

definition split_bucket_helper :: "nat \<Rightarrow> nat \<Rightarrow> dht \<Rightarrow> (int \<times> node list \<times> dht) option" where
  "split_bucket_helper af k d =
     (let bs = dht_table af d
      in if \<not> in_bucket (d_myid d) bs k then Some (- 1, [], d)
         else
           (case bucket_middle bs k of
              None \<Rightarrow> Some (- 1, [], d)
            | Some new_id \<Rightarrow>
              (let (ok, d1) = c_calloc d
               in if \<not> ok then Some (- 1, [], d1)
                  else
                    do { (rc, d2) \<leftarrow> send_cached_ping af k d1;
                         (let bs2 = dht_table af d2; b = bs2 ! k;
                              new = bucket_new\<lparr>b_af := b_af b, b_first := new_id, b_time := b_time b\<rparr>;
                              b1 = b\<lparr>b_nodes := [], b_count := 0\<rparr>;
                              bs3 = take k bs2 @ b1 # new # drop (Suc k) bs2;
                              half = max (b_max_count b div 2) 8;
                              bs4 = (if in_bucket (d_myid d2) bs3 k
                                     then bs3[Suc k := new\<lparr>b_max_count := b_max_count b\<rparr>,
                                              k := b1\<lparr>b_max_count := half\<rparr>]
                                     else bs3[Suc k := new\<lparr>b_max_count := half\<rparr>])
                          in Some (1, b_nodes b, set_table af bs4 d2)) })))"

text \<open>
  The loop of \<open>split_bucket\<close> has the node in hand \<open>n\<close> and the list \<open>nodes\<close>; here \<open>n\<close> is the
  head of the list.  A node whose bucket is full is kept in hand while that bucket is split.
\<close>

partial_function (option) split_loop :: "nat \<Rightarrow> node list \<Rightarrow> dht \<Rightarrow> dht option" where
  "split_loop af nodes d =
     (case nodes of
        [] \<Rightarrow> Some d
      | n # rest \<Rightarrow>
        (let (rc, k, d1) = insert_node n d
         in if rc \<noteq> 0 then split_loop af rest d1
            else if \<not> in_bucket (d_myid d1) (dht_table (sa_family (n_ss n)) d1) k then split_loop af rest d1
            else
              Option.bind (split_bucket_helper (sa_family (n_ss n)) k d1)
                (\<lambda>(rc, insert, d2).
                   if rc < 0 then split_loop af rest d2
                   else split_loop af (n # append_nodes rest insert) d2)))"

definition split_bucket :: "nat \<Rightarrow> nat \<Rightarrow> dht \<Rightarrow> (int \<times> dht) option" where
  "split_bucket af k d =
     do { (rc, nodes, d1) \<leftarrow> split_bucket_helper af k d;
          (if rc < 0 then Some (- 1, d1)
           else do { d2 \<leftarrow> split_loop af nodes d1; Some (1, d2) }) }"

section \<open>Learning about a node\<close>

definition node_new :: "dht_id \<Rightarrow> sockaddr \<Rightarrow> nat \<Rightarrow> nat \<Rightarrow> int \<Rightarrow> node" where
  "node_new nid sa salen confirm now =
     \<lparr>n_id = take 20 nid, n_ss = copy_onto (replicate 128 0) sa salen, n_sslen = salen,
      n_time = (if confirm \<noteq> 0 then now else 0), n_reply_time = (if 2 \<le> confirm then now else 0),
      n_pinged_time = 0, n_pinged = 0\<rparr>"

definition node_known :: "sockaddr \<Rightarrow> nat \<Rightarrow> nat \<Rightarrow> int \<Rightarrow> node \<Rightarrow> node" where
  "node_known sa salen confirm now n =
     (if confirm \<noteq> 0 \<or> n_time n < now - 15 * 60
      then
        let n1 = n\<lparr>n_ss := copy_onto (n_ss n) sa salen\<rparr>;
            n2 = (if confirm \<noteq> 0 then n1\<lparr>n_time := now\<rparr> else n1)
        in if 2 \<le> confirm then n2\<lparr>n_reply_time := now, n_pinged := 0, n_pinged_time := 0\<rparr> else n2
      else n)"

text \<open>A bad node is overwritten; its \<open>sslen\<close> stays.\<close>

definition node_bad :: "int \<Rightarrow> node \<Rightarrow> bool" where
  "node_bad now n \<longleftrightarrow> 3 \<le> n_pinged n \<and> n_pinged_time n < now - 15"

definition node_replaced :: "dht_id \<Rightarrow> sockaddr \<Rightarrow> nat \<Rightarrow> nat \<Rightarrow> int \<Rightarrow> node \<Rightarrow> node" where
  "node_replaced nid sa salen confirm now n =
     n\<lparr>n_id := take 20 nid, n_ss := copy_onto (n_ss n) sa salen,
       n_time := (if confirm \<noteq> 0 then now else 0), n_reply_time := (if 2 \<le> confirm then now else 0),
       n_pinged_time := 0, n_pinged := 0\<rparr>"

fun first_pos :: "(node \<Rightarrow> bool) \<Rightarrow> node list \<Rightarrow> nat option" where
  "first_pos P [] = None"
| "first_pos P (n # ns) = (if P n then Some 0 else map_option Suc (first_pos P ns))"

definition confirm_search :: "nat \<Rightarrow> dht_id \<Rightarrow> sockaddr \<Rightarrow> nat \<Rightarrow> dht \<Rightarrow> dht option" where
  "confirm_search confirm nid sa salen d = (if confirm = 2 then add_search_node nid sa salen d else Some d)"

text \<open>
  A full bucket: the first dubious node that was not pinged in the last 15 seconds gets a
  ping.  The result says whether there is a dubious node at all.
\<close>

definition ping_dubious :: "nat \<Rightarrow> nat \<Rightarrow> dht \<Rightarrow> (bool \<times> dht) option" where
  "ping_dubious af k d =
     (let ns = b_nodes (dht_table af d ! k)
      in case first_pos (\<lambda>n. \<not> node_good d n \<and> n_pinged_time n < d_now d - 15) ns of
           None \<Rightarrow> Some (list_ex (\<lambda>n. \<not> node_good d n) ns, d)
         | Some j \<Rightarrow>
           do { (rc, d1) \<leftarrow> send_ping (n_ss (ns ! j)) (n_sslen (ns ! j)) (make_tid ''pn'' 0) d;
                Some (True, update_node af (k, j)
                              (\<lambda>n. n\<lparr>n_pinged := n_pinged n + 1, n_pinged_time := d_now d1\<rparr>) d1) })"

text \<open>What a visit of the bucket comes to: a result, or \<open>again\<close> after a split.\<close>

datatype visit = Stop bool dht | Again dht

definition cache_node :: "nat \<Rightarrow> sockaddr \<Rightarrow> nat \<Rightarrow> bucket \<Rightarrow> bucket" where
  "cache_node confirm sa salen b =
     (if confirm \<noteq> 0 \<or> sa_family (b_cached b) = 0
      then b\<lparr>b_cached := copy_onto (b_cached b) sa salen, b_cachedlen := salen\<rparr> else b)"

definition new_node_full :: "dht_id \<Rightarrow> sockaddr \<Rightarrow> nat \<Rightarrow> nat \<Rightarrow> nat \<Rightarrow> bool \<Rightarrow> dht \<Rightarrow> visit option" where
  "new_node_full nid sa salen confirm k mybucket d =
     do { (dubious, d1) \<leftarrow> ping_dubious (sa_family sa) k d;
          (if mybucket \<and> \<not> dubious
           then do { (rc, d2) \<leftarrow> split_bucket (sa_family sa) k d1;
                     Some (if 0 < rc then Again d2 else Stop False d2) }
           else do { d2 \<leftarrow> confirm_search confirm nid sa salen
                             (update_bucket (sa_family sa) k (cache_node confirm sa salen) d1);
                     Some (Stop False d2) }) }"

definition grow_stamp :: "nat \<Rightarrow> dht \<Rightarrow> dht" where
  "grow_stamp af d =
     (if af = AF_INET then d\<lparr>d_mybucket_grow_time := d_now d\<rparr> else d\<lparr>d_mybucket6_grow_time := d_now d\<rparr>)"

definition add_node :: "nat \<Rightarrow> nat \<Rightarrow> node \<Rightarrow> dht \<Rightarrow> dht" where
  "add_node af k n d = update_bucket af k (\<lambda>b. b\<lparr>b_nodes := n # b_nodes b, b_count := b_count b + 1\<rparr>) d"

definition new_node_visit :: "dht_id \<Rightarrow> sockaddr \<Rightarrow> nat \<Rightarrow> nat \<Rightarrow> nat \<Rightarrow> dht \<Rightarrow> visit option" where
  "new_node_visit nid sa salen confirm k d =
     (let af = sa_family sa; now = d_now d;
          mybucket = in_bucket (d_myid d) (dht_table af d) k;
          d1 = (if confirm = 2 then update_bucket af k (\<lambda>b. b\<lparr>b_time := now\<rparr>) d else d);
          ns = b_nodes (dht_table af d1 ! k)
      in case find_node_loop nid ns of
           Some j \<Rightarrow>
             do { d2 \<leftarrow> confirm_search confirm nid sa salen (update_node af (k, j) (node_known sa salen confirm now) d1);
                  Some (Stop True d2) }
         | None \<Rightarrow>
           (let d2 = (if mybucket then grow_stamp af d1 else d1)
            in case first_pos (node_bad now) ns of
                 Some j \<Rightarrow>
                   do { d3 \<leftarrow> confirm_search confirm nid sa salen
                                (update_node af (k, j) (node_replaced nid sa salen confirm now) d2);
                        Some (Stop True d3) }
               | None \<Rightarrow>
                 (if b_max_count (dht_table af d2 ! k) \<le> b_count (dht_table af d2 ! k)
                  then new_node_full nid sa salen confirm k mybucket d2
                  else
                    let (ok, d3) = c_calloc d2
                    in if \<not> ok then Some (Stop False d3)
                       else do { d4 \<leftarrow> confirm_search confirm nid sa salen
                                          (add_node af k (node_new nid sa salen confirm now) d3);
                                 Some (Stop True d4) })))"

text \<open>The result is whether a node was returned.\<close>

partial_function (option) new_node ::
    "dht_id \<Rightarrow> sockaddr \<Rightarrow> nat \<Rightarrow> nat \<Rightarrow> dht \<Rightarrow> (bool \<times> dht) option" where
  "new_node nid sa salen confirm d =
     (case find_bucket nid (dht_table (sa_family sa) d) of
        None \<Rightarrow> Some (False, d)
      | Some k \<Rightarrow>
        (if id_cmp nid (d_myid d) = 0 \<or> is_martian sa then Some (False, d)
         else
           Option.bind (node_blacklisted sa salen d)
             (\<lambda>black.
                if black then Some (False, d)
                else
                  Option.bind (new_node_visit nid sa salen confirm k d)
                    (\<lambda>v. case v of Stop r d1 \<Rightarrow> Some (r, d1) | Again d1 \<Rightarrow> new_node nid sa salen confirm d1))))"

section \<open>Expiry\<close>

text \<open>
  Nodes that did not answer four requests go, first at the head of the list, then behind
  every node that stays.
\<close>

definition node_dead :: "node \<Rightarrow> bool" where "node_dead n \<longleftrightarrow> 4 \<le> n_pinged n"

fun expire_head :: "node list \<Rightarrow> int \<Rightarrow> node list \<times> int" where
  "expire_head [] c = ([], c)"
| "expire_head (n # ns) c = (if node_dead n then expire_head ns (c - 1) else (n # ns, c))"

lemma length_expire_head: "length (fst (expire_head ns c)) \<le> length ns"
  by (induction ns c rule: expire_head.induct) auto

function expire_behind :: "node list \<Rightarrow> int \<Rightarrow> node list \<times> int" where
  "expire_behind [] c = ([], c)"
| "expire_behind (n # ns) c =
     (let (ns1, c1) = expire_head ns c; (ns2, c2) = expire_behind ns1 c1 in (n # ns2, c2))"
  by pat_completeness auto

termination
proof (relation "measure (\<lambda>(ns, c). length ns)")
  fix n ns c x xa y assume "x = expire_head ns c" and "(xa, y) = x"
  then show "((xa, y), n # ns, c) \<in> measure (\<lambda>(ns, c). length ns)"
    using length_expire_head [of ns c] by (metis case_prod_conv fst_conv in_measure le_imp_less_Suc length_Cons)
qed simp

fun expire_buckets_loop :: "nat \<Rightarrow> nat list \<Rightarrow> dht \<Rightarrow> dht option" where
  "expire_buckets_loop af [] d = Some d"
| "expire_buckets_loop af (k # ks) d =
     (let b = dht_table af d ! k;
          (ns, c) = expire_head (b_nodes b) (b_count b);
          (ns1, c1) = expire_behind ns c;
          d1 = update_bucket af k (\<lambda>b. b\<lparr>b_nodes := ns1, b_count := c1\<rparr>) d
      in if length ns1 \<noteq> length (b_nodes b)
         then do { (rc, d2) \<leftarrow> send_cached_ping af k d1; expire_buckets_loop af ks d2 }
         else expire_buckets_loop af ks d1)"

definition expire_buckets :: "nat \<Rightarrow> dht \<Rightarrow> dht option" where
  "expire_buckets af d =
     do { d1 \<leftarrow> expire_buckets_loop af [0..<length (dht_table af d)] d;
          (let (r, d2) = c_random d1
           in Some (d2\<lparr>d_expire_stuff_time := d_now d2 + 120 + int (r mod 240)\<rparr>)) }"

end
