(* ===== verification/DhtParse.thy ===== *)
theory DhtParse
  imports DhtMsg
begin

text \<open>
  \<open>parse_message\<close> of \<open>dht.c\<close>.  A pointer into the buffer is the list of the bytes from there
  on, so that \<open>CHECK\<close> compares lengths; the terminator behind the buffer is passed apart.
\<close>

section \<open>The parsed message\<close>

definition PARSE_TID_LEN :: nat where "PARSE_TID_LEN = 16"
definition PARSE_TOKEN_LEN :: nat where "PARSE_TOKEN_LEN = 128"
definition PARSE_NODES_LEN :: nat where "PARSE_NODES_LEN = 26 * 16"
definition PARSE_NODES6_LEN :: nat where "PARSE_NODES6_LEN = 38 * 16"
definition PARSE_VALUES_LEN :: nat where "PARSE_VALUES_LEN = 2048"
definition PARSE_VALUES6_LEN :: nat where "PARSE_VALUES6_LEN = 2048"

text \<open>An array with its length is the list of the bytes in use.\<close>

record parsed_message =
  m_tid :: "byte list"
  m_id :: dht_id
  m_info_hash :: dht_id
  m_target :: dht_id
  m_port :: nat
  m_implied_port :: nat
  m_token :: "byte list"
  m_nodes :: "byte list"
  m_nodes6 :: "byte list"
  m_values :: "byte list"
  m_values6 :: "byte list"
  m_want :: int

definition parsed_zero :: parsed_message where
  "parsed_zero = \<lparr>m_tid = [], m_id = zeroes, m_info_hash = zeroes, m_target = zeroes, m_port = 0,
     m_implied_port = 0, m_token = [], m_nodes = [], m_nodes6 = [], m_values = [], m_values6 = [], m_want = 0\<rparr>"

definition ERROR :: int where "ERROR = 0"
definition REPLY :: int where "REPLY = 1"
definition PING :: int where "PING = 2"
definition FIND_NODE :: int where "FIND_NODE = 3"
definition GET_PEERS :: int where "GET_PEERS = 4"
definition ANNOUNCE_PEER :: int where "ANNOUNCE_PEER = 5"

section \<open>Searching and reading numbers\<close>

text \<open>The bytes from the first occurrence on.\<close>

fun dht_memmem :: "byte list \<Rightarrow> byte list \<Rightarrow> byte list option" where
  "dht_memmem h n =
     (if length h < length n then None
      else if take (length n) h = n then Some h
      else case h of [] \<Rightarrow> None | x # xs \<Rightarrow> dht_memmem xs n)"

declare dht_memmem.simps [simp del]

text \<open>What follows the key.\<close>

definition find_key :: "byte list \<Rightarrow> string \<Rightarrow> byte list option" where
  "find_key buf key =
     (case dht_memmem buf (bytes_of_string key) of None \<Rightarrow> None | Some p \<Rightarrow> Some (drop (length key) p))"

definition isdigit :: "byte \<Rightarrow> bool" where "isdigit c \<longleftrightarrow> 48 \<le> c \<and> c \<le> 57"
definition isspace :: "byte \<Rightarrow> bool" where "isspace c \<longleftrightarrow> c = 32 \<or> (9 \<le> c \<and> c \<le> 13)"

definition digits_val :: "byte list \<Rightarrow> int" where
  "digits_val ds = foldl (\<lambda>v c. 10 * v + int (unat c - 48)) 0 ds"

text \<open>\<open>strtol\<close> in base 10 with saturation at the ends of \<open>long\<close>; no digits, no progress.\<close>

definition strtol :: "byte list \<Rightarrow> int \<times> byte list" where
  "strtol p =
     (let p1 = dropWhile isspace p;
          neg = (p1 \<noteq> [] \<and> hd p1 = 45);
          p2 = (if p1 \<noteq> [] \<and> (hd p1 = 45 \<or> hd p1 = 43) then tl p1 else p1);
          ds = takeWhile isdigit p2
      in if ds = [] then (0, p)
         else (max (- (2 ^ 63)) (min (2 ^ 63 - 1) (if neg then - digits_val ds else digits_val ds)),
               dropWhile isdigit p2))"

definition at_char :: "byte list \<Rightarrow> byte \<Rightarrow> bool" where
  "at_char q c \<longleftrightarrow> q \<noteq> [] \<and> hd q = c"

section \<open>The fields\<close>

text \<open>A field is read by an update of the message; \<open>None\<close> is the jump to \<open>overflow\<close>.\<close>

definition parse_fixed :: "byte list \<Rightarrow> string \<Rightarrow> (byte list \<Rightarrow> parsed_message \<Rightarrow> parsed_message) \<Rightarrow>
    parsed_message \<Rightarrow> parsed_message option" where
  "parse_fixed buf key set_field m =
     (case find_key buf key of
        None \<Rightarrow> Some m
      | Some p \<Rightarrow> (if length p < 20 then None else Some (set_field (take 20 p) m)))"

definition parse_counted :: "byte list \<Rightarrow> string \<Rightarrow> nat \<Rightarrow> (byte list \<Rightarrow> parsed_message \<Rightarrow> parsed_message) \<Rightarrow>
    parsed_message \<Rightarrow> parsed_message option" where
  "parse_counted buf key bound set_field m =
     (case find_key buf key of
        None \<Rightarrow> Some m
      | Some p \<Rightarrow>
        (let (l, q) = strtol p
         in if at_char q 58 \<and> 0 < l \<and> l < int bound
            then (if length (tl q) < nat l then None else Some (set_field (take (nat l) (tl q)) m))
            else Some m))"

definition parse_number :: "byte list \<Rightarrow> string \<Rightarrow> (nat \<Rightarrow> parsed_message \<Rightarrow> parsed_message) \<Rightarrow>
    parsed_message \<Rightarrow> parsed_message" where
  "parse_number buf key set_field m =
     (case find_key buf key of
        None \<Rightarrow> m
      | Some p \<Rightarrow>
        (let (l, q) = strtol p
         in if at_char q 101 \<and> 0 < l \<and> l < 0x10000 then set_field (nat l) m else m))"

lemma length_strtol: "length (snd (strtol p)) \<le> length p"
proof -
  have a: "length (dropWhile isdigit (tl (dropWhile isspace p))) \<le> length p"
    using length_dropWhile_le [of isdigit "tl (dropWhile isspace p)"] length_dropWhile_le [of isspace p]
    by simp
  have b: "length (dropWhile isdigit (dropWhile isspace p)) \<le> length p"
    using length_dropWhile_le [of isdigit "dropWhile isspace p"] length_dropWhile_le [of isspace p]
    by simp
  show ?thesis using a b by (simp add: strtol_def Let_def)
qed

lemma values_shorter:
  assumes "(l, q) = strtol p" and "at_char q 58"
  shows "length q - Suc n < length p"
proof -
  have "length q \<le> length p" using length_strtol [of p] assms(1) by (metis snd_conv)
  moreover have "q \<noteq> []" using assms(2) by (simp add: at_char_def)
  then have "0 < length q" by simp
  ultimately show ?thesis by linarith
qed

text \<open>The values: strings of 6 bytes and of 18, each kind as long as it fits.\<close>

function values_loop :: "byte list \<Rightarrow> byte list \<Rightarrow> byte list \<Rightarrow> (byte list \<times> byte list) option" where
  "values_loop p vs vs6 =
     (let (l, q) = strtol p
      in if at_char q 58 \<and> 0 < l
         then
           (if length (tl q) < nat l then None
            else
              let v = take (nat l) (tl q); p1 = drop (nat l) (tl q)
              in if l = 6 then
                   (if PARSE_VALUES_LEN < length vs + 6 then values_loop p1 vs vs6
                    else values_loop p1 (vs @ v) vs6)
                 else if l = 18 then
                   (if PARSE_VALUES6_LEN < length vs6 + 18 then values_loop p1 vs vs6
                    else values_loop p1 vs (vs6 @ v))
                 else values_loop p1 vs vs6)
         else Some (vs, vs6))"
  by pat_completeness auto

termination
  using values_shorter [where n = 6] values_shorter [where n = 18]
  by (relation "measure (\<lambda>(p, vs, vs6). length p)") (auto simp: values_shorter)

declare values_loop.simps [simp del]

definition parse_values :: "byte list \<Rightarrow> parsed_message \<Rightarrow> parsed_message option" where
  "parse_values buf m =
     (case find_key buf ''6:valuesl'' of
        None \<Rightarrow> Some m
      | Some p \<Rightarrow>
        (case values_loop p [] [] of
           None \<Rightarrow> None
         | Some (vs, vs6) \<Rightarrow> Some (m\<lparr>m_values := vs, m_values6 := vs6\<rparr>)))"

text \<open>
  The flags of \<open>want\<close>: the guard of the loop keeps a string inside the buffer, so its
  \<open>CHECK\<close> cannot fail.
\<close>

function want_loop :: "byte list \<Rightarrow> int \<Rightarrow> int" where
  "want_loop p want =
     (case p of
        c # x # p1 \<Rightarrow>
          (if 48 < c \<and> c \<le> 57 \<and> x = 58 \<and> unat c - 48 < length p1
           then want_loop (drop (unat c - 48) p1)
                  (if c = 50 \<and> take 2 p1 = bytes_of_string ''n4'' then want OR WANT4
                   else if c = 50 \<and> take 2 p1 = bytes_of_string ''n6'' then want OR WANT6 else want)
           else want)
      | _ \<Rightarrow> want)"
  by pat_completeness auto

termination
  by (relation "measure (\<lambda>(p, want). length p)") auto

declare want_loop.simps [simp del]

definition parse_want :: "byte list \<Rightarrow> parsed_message \<Rightarrow> parsed_message" where
  "parse_want buf m =
     (case find_key buf ''4:wantl'' of None \<Rightarrow> m | Some p \<Rightarrow> m\<lparr>m_want := want_loop p 0\<rparr>)"

definition has_key :: "byte list \<Rightarrow> string \<Rightarrow> bool" where
  "has_key buf key \<longleftrightarrow> find_key buf key \<noteq> None"

definition parse_type :: "byte list \<Rightarrow> int" where
  "parse_type buf =
     (if has_key buf ''1:y1:r'' then REPLY
      else if has_key buf ''1:y1:e'' then ERROR
      else if \<not> has_key buf ''1:y1:q'' then - 1
      else if has_key buf ''1:q4:ping'' then PING
      else if has_key buf ''1:q9:find_node'' then FIND_NODE
      else if has_key buf ''1:q9:get_peers'' then GET_PEERS
      else if has_key buf ''1:q13:announce_peer'' then ANNOUNCE_PEER
      else - 1)"

definition parse_fields :: "byte list \<Rightarrow> parsed_message \<Rightarrow> parsed_message option" where
  "parse_fields buf m =
     do { m \<leftarrow> parse_counted buf ''1:t'' PARSE_TID_LEN (\<lambda>x. m_tid_update (\<lambda>_. x)) m;
          m \<leftarrow> parse_fixed buf ''2:id20:'' (\<lambda>x. m_id_update (\<lambda>_. x)) m;
          m \<leftarrow> parse_fixed buf ''9:info_hash20:'' (\<lambda>x. m_info_hash_update (\<lambda>_. x)) m;
          m \<leftarrow> Some (parse_number buf ''4:porti'' (\<lambda>x. m_port_update (\<lambda>_. x)) m);
          m \<leftarrow> Some (parse_number buf ''12:implied_porti'' (\<lambda>x. m_implied_port_update (\<lambda>_. x)) m);
          m \<leftarrow> parse_fixed buf ''6:target20:'' (\<lambda>x. m_target_update (\<lambda>_. x)) m;
          m \<leftarrow> parse_counted buf ''5:token'' PARSE_TOKEN_LEN (\<lambda>x. m_token_update (\<lambda>_. x)) m;
          m \<leftarrow> parse_counted buf ''5:nodes'' (Suc PARSE_NODES_LEN) (\<lambda>x. m_nodes_update (\<lambda>_. x)) m;
          m \<leftarrow> parse_counted buf ''6:nodes6'' (Suc PARSE_NODES6_LEN) (\<lambda>x. m_nodes6_update (\<lambda>_. x)) m;
          m \<leftarrow> parse_values buf m;
          Some (parse_want buf m) }"

definition parse_message :: "byte list \<Rightarrow> byte \<Rightarrow> parsed_message \<Rightarrow> int \<times> parsed_message" where
  "parse_message buf nul m =
     (if nul \<noteq> 0 then (- 1, m)
      else case parse_fields buf m of None \<Rightarrow> (- 1, m) | Some m1 \<Rightarrow> (parse_type buf, m1))"

end
