(* ===== verification/DhtPeriodic.thy ===== *)
theory DhtPeriodic
  imports DhtTable DhtParse
begin

text \<open>
  The entry points of \<open>dht.c\<close>: start and stop, the handling of a packet, the maintenance of
  the table, \<open>dht_periodic\<close>, which composes them, and the wrappers of \<open>dht_list.c\<close>.
\<close>

section \<open>Start and stop\<close>

definition EINVAL_dht :: int where "EINVAL_dht = 22"

definition dht_init_table :: "nat \<Rightarrow> bool \<Rightarrow> dht \<Rightarrow> bool \<times> dht" where
  "dht_init_table af wanted d =
     (if wanted
      then let (ok, d1) = c_calloc d
           in if ok then (True, set_table af [bucket_new\<lparr>b_max_count := 128, b_af := af\<rparr>] d1) else (False, d1)
      else (True, d))"

definition dht_init_clock :: "dht_id \<Rightarrow> byte list option \<Rightarrow> int \<Rightarrow> dht \<Rightarrow> dht" where
  "dht_init_clock nid v t d =
     (let d1 = d\<lparr>d_myid := take 20 nid\<rparr>;
          d2 = (case v of
                  Some vs \<Rightarrow> d1\<lparr>d_my_v := bytes_of_string ''1:v4:'' @ take 4 vs, d_have_v := True\<rparr>
                | None \<Rightarrow> d1\<lparr>d_have_v := False\<rparr>);
          (r, d3) = c_random (d2\<lparr>d_now := t, d_mybucket_grow_time := t, d_mybucket6_grow_time := t\<rparr>);
          (r1, d4) = c_random (d3\<lparr>d_confirm_nodes_time := t + int (r mod 3)\<rparr>)
      in d4\<lparr>d_search_id := of_nat r1, d_search_time := 0, d_next_blacklisted := 0, d_token_bucket_time := t,
            d_token_bucket_tokens := MAX_TOKEN_BUCKET_TOKENS, d_secret := replicate 8 0\<rparr>)"

definition dht_init :: "int \<Rightarrow> int \<Rightarrow> dht_id \<Rightarrow> byte list option \<Rightarrow> int \<Rightarrow> dht \<Rightarrow> (int \<times> dht) option" where
  "dht_init s s6 nid v t d =
     (if 0 \<le> d_socket d \<or> 0 \<le> d_socket6 d \<or> d_buckets d \<noteq> [] \<or> d_buckets6 d \<noteq> []
      then Some (- 1, d\<lparr>d_errno := EBUSY\<rparr>)
      else
        let (ok, d1) = dht_init_table AF_INET (0 \<le> s)
                         (d\<lparr>d_searches := [], d_numsearches := 0, d_storage := [], d_numstorage := 0\<rparr>)
        in if \<not> ok then Some (- 1, d1)
           else
             let (ok6, d2) = dht_init_table AF_INET6 (0 \<le> s6) d1
             in if \<not> ok6 then Some (- 1, d2)
                else
                  let (rc, d3) = rotate_secrets (dht_init_clock nid v t d2)
                  in if rc < 0 then Some (- 1, d3\<lparr>d_buckets := [], d_buckets6 := []\<rparr>)
                     else
                       do { d4 \<leftarrow> expire_buckets AF_INET (d3\<lparr>d_socket := s, d_socket6 := s6\<rparr>);
                            d5 \<leftarrow> expire_buckets AF_INET6 d4;
                            Some (1, d5) })"

definition dht_uninit :: "dht \<Rightarrow> int \<times> dht" where
  "dht_uninit d =
     (if d_socket d < 0 \<and> d_socket6 d < 0 then (- 1, d\<lparr>d_errno := EINVAL_dht\<rparr>)
      else (1, d\<lparr>d_socket := - 1, d_socket6 := - 1, d_buckets := [], d_buckets6 := [],
                d_storage := [], d_searches := []\<rparr>))"

section \<open>Counting and listing nodes\<close>

text \<open>Good, dubious, cached and incoming.\<close>

definition dht_nodes :: "nat \<Rightarrow> dht \<Rightarrow> nat \<times> nat \<times> nat \<times> nat \<times> nat" where
  "dht_nodes af d =
     (let bs = dht_table af d; ns = concat (map b_nodes bs);
          good = length (filter (node_good d) ns);
          dubious = length (filter (\<lambda>n. \<not> node_good d n) ns);
          cached = length (filter (\<lambda>b. 0 < sa_family (b_cached b)) bs);
          incoming = length (filter (\<lambda>n. node_good d n \<and> n_reply_time n < n_time n) ns)
      in (good + dubious, good, dubious, cached, incoming))"

fun collect_good :: "dht \<Rightarrow> nat \<Rightarrow> nat \<Rightarrow> node list \<Rightarrow> sockaddr list \<Rightarrow> sockaddr list" where
  "collect_good d sz num [] acc = acc"
| "collect_good d sz num (n # ns) acc =
     (if length acc < num
      then collect_good d sz num ns (if node_good d n then acc @ [take sz (n_ss n)] else acc)
      else acc)"

fun collect_others :: "dht \<Rightarrow> nat \<Rightarrow> nat \<Rightarrow> bucket list \<Rightarrow> nat list \<Rightarrow> sockaddr list \<Rightarrow> sockaddr list" where
  "collect_others d sz num bs [] acc = acc"
| "collect_others d sz num bs (k # ks) acc =
     (if length acc < num
      then collect_others d sz num bs ks
             (if in_bucket (d_myid d) bs k then acc else collect_good d sz num (b_nodes (bs ! k)) acc)
      else acc)"

definition get_nodes_of :: "nat \<Rightarrow> nat \<Rightarrow> nat \<Rightarrow> dht \<Rightarrow> sockaddr list" where
  "get_nodes_of af sz num d =
     (let bs = dht_table af d
      in case find_bucket (d_myid d) bs of
           None \<Rightarrow> []
         | Some k \<Rightarrow> collect_others d sz num bs [0..<length bs] (collect_good d sz num (b_nodes (bs ! k)) []))"

definition dht_get_nodes :: "nat \<Rightarrow> nat \<Rightarrow> dht \<Rightarrow> nat \<times> sockaddr list \<times> sockaddr list" where
  "dht_get_nodes num num6 d =
     (let sin = get_nodes_of AF_INET 16 num d; sin6 = get_nodes_of AF_INET6 28 num6 d
      in (length sin + length sin6, sin, sin6))"

definition dht_insert_node :: "dht_id \<Rightarrow> sockaddr \<Rightarrow> nat \<Rightarrow> dht \<Rightarrow> (int \<times> dht) option" where
  "dht_insert_node nid sa salen d =
     (if sa_family sa \<noteq> AF_INET \<and> sa_family sa \<noteq> AF_INET6 then Some (- 1, d\<lparr>d_errno := EAFNOSUPPORT\<rparr>)
      else do { (r, d1) \<leftarrow> new_node nid sa salen 0 d; Some (if r then 1 else 0, d1) })"

definition dht_ping_node :: "sockaddr \<Rightarrow> nat \<Rightarrow> dht \<Rightarrow> (int \<times> dht) option" where
  "dht_ping_node sa salen d = send_ping sa salen (make_tid ''pn'' 0) d"

section \<open>Maintenance\<close>

text \<open>
  The bucket to query: a neighbour when this one is empty, and now and then at random.
\<close>

definition one_in_eight :: "dht \<Rightarrow> bool \<times> dht" where
  "one_in_eight d = (let (r, d1) = c_random d in (r mod 8 = 0, d1))"

definition choose_bucket :: "bucket list \<Rightarrow> nat \<Rightarrow> dht \<Rightarrow> nat \<times> dht" where
  "choose_bucket bs k d =
     (let (go, d1) = (if Suc k < length bs
                      then (if b_count (bs ! k) = 0 then (True, d) else one_in_eight d) else (False, d));
          q = (if go then Suc k else k);
          (back, d2) = (if b_count (bs ! q) = 0 then (True, d1) else one_in_eight d1)
      in case (if back then previous_bucket bs k else None) of
           None \<Rightarrow> (q, d2)
         | Some r \<Rightarrow> (if 0 < b_count (bs ! r) then (r, d2) else (q, d2)))"

definition query_node :: "nat \<Rightarrow> nat \<Rightarrow> nat \<Rightarrow> dht_id \<Rightarrow> int \<Rightarrow> dht \<Rightarrow> dht option" where
  "query_node af q j nid want d =
     (let n = b_nodes (dht_table af d ! q) ! j
      in do { (rc, d1) \<leftarrow> send_find_node (n_ss n) (n_sslen n) (make_tid ''fn'' 0) nid want
                             (d_now d - 15 \<le> n_reply_time n) d;
              pinged af (q, j) (Some q) d1 })"

definition both_sockets :: "dht \<Rightarrow> bool" where
  "both_sockets d \<longleftrightarrow> 0 \<le> d_socket d \<and> 0 \<le> d_socket6 d"

definition neighbourhood_maintenance :: "nat \<Rightarrow> dht \<Rightarrow> (bool \<times> dht) option" where
  "neighbourhood_maintenance af d =
     (let bs = dht_table af d
      in case find_bucket (d_myid d) bs of
           None \<Rightarrow> Some (False, d)
         | Some k \<Rightarrow>
           (let (r, d1) = c_random d;
                nid = (d_myid d)[19 := of_nat r];
                (q, d2) = choose_bucket bs k d1;
                want = (if both_sockets d2 then WANT4 OR WANT6 else - 1);
                (j, d3) = random_node (bs ! q) d2
            in case j of
                 None \<Rightarrow> Some (True, d3)
               | Some j \<Rightarrow> do { d4 \<leftarrow> query_node af q j nid want d3; Some (True, d4) }))"

definition maintenance_want :: "nat \<Rightarrow> dht_id \<Rightarrow> dht \<Rightarrow> int \<times> dht" where
  "maintenance_want af nid d =
     (if both_sockets d
      then
        let other = dht_table (if af = AF_INET then AF_INET6 else AF_INET) d
        in if (case find_bucket nid other of
                 None \<Rightarrow> False | Some o' \<Rightarrow> b_count (other ! o') < b_max_count (other ! o'))
           then (WANT4 OR WANT6, d)
           else let (r, d1) = c_random d in (if r mod 37 = 0 then WANT4 OR WANT6 else - 1, d1)
      else (- 1, d))"

text \<open>The division by \<open>max_count / 8\<close> crashes when a bucket has room for fewer than eight.\<close>

fun bucket_maintenance_loop :: "nat \<Rightarrow> nat list \<Rightarrow> dht \<Rightarrow> (bool \<times> dht) option" where
  "bucket_maintenance_loop af [] d = Some (False, d)"
| "bucket_maintenance_loop af (k # ks) d =
     (let bs = dht_table af d; b = bs ! k
      in if b_max_count b div 8 = 0 then None
         else if b_time b < d_now d - max (600 div (b_max_count b div 8)) 30
         then
           let (nid, d1) = bucket_random bs k d;
               (q, d2) = choose_bucket bs k d1;
               (j, d3) = random_node (bs ! q) d2
           in (case j of
                 None \<Rightarrow> bucket_maintenance_loop af ks d3
               | Some j \<Rightarrow>
                 (let (want, d4) = maintenance_want af nid d3
                  in do { d5 \<leftarrow> query_node af q j nid want d4; Some (True, d5) }))
         else bucket_maintenance_loop af ks d)"

definition bucket_maintenance :: "nat \<Rightarrow> dht \<Rightarrow> (bool \<times> dht) option" where
  "bucket_maintenance af d = bucket_maintenance_loop af [0..<length (dht_table af d)] d"

section \<open>Handling a packet\<close>

definition chunks :: "nat \<Rightarrow> byte list \<Rightarrow> byte list list" where
  "chunks n xs = map (\<lambda>i. take n (drop (i * n) xs)) [0..<length xs div n]"

text \<open>The nodes of a reply: each goes to the table and, if it is of the search's family, to the search.\<close>

definition learn_node :: "nat option \<Rightarrow> dht_id \<Rightarrow> sockaddr \<Rightarrow> nat \<Rightarrow> dht \<Rightarrow> dht option" where
  "learn_node sr nid sa af d =
     (if id_cmp nid (d_myid d) = 0 then Some d
      else
        do { (r, d1) \<leftarrow> new_node nid sa (length sa) 0 d;
             (case sr of
                None \<Rightarrow> Some d1
              | Some si \<Rightarrow>
                Some (if sr_af (d_searches d1 ! si) = af
                      then snd (insert_into_search nid sa (length sa) si False None d1) else d1)) })"

fun nodes4_loop :: "nat option \<Rightarrow> byte list list \<Rightarrow> dht \<Rightarrow> dht option" where
  "nodes4_loop sr [] d = Some d"
| "nodes4_loop sr (ni # nis) d =
     do { d1 \<leftarrow> learn_node sr (take 20 ni) (make_sockaddr_in (take 4 (drop 20 ni)) (take 2 (drop 24 ni))) AF_INET d;
          nodes4_loop sr nis d1 }"

fun nodes6_loop :: "nat option \<Rightarrow> byte list list \<Rightarrow> dht \<Rightarrow> dht option" where
  "nodes6_loop sr [] d = Some d"
| "nodes6_loop sr (ni # nis) d =
     do { d1 \<leftarrow> learn_node sr (take 20 ni) (make_sockaddr_in6 (take 16 (drop 20 ni)) (take 2 (drop 36 ni))) AF_INET6 d;
          nodes6_loop sr nis d1 }"

definition handle_nodes :: "parsed_message \<Rightarrow> sockaddr \<Rightarrow> nat \<Rightarrow> nat option \<Rightarrow> dht \<Rightarrow> dht option" where
  "handle_nodes m from fromlen sr d =
     do { (r, d1) \<leftarrow> new_node (m_id m) from fromlen 2 d;
          d2 \<leftarrow> nodes4_loop sr (chunks 26 (m_nodes m)) d1;
          d3 \<leftarrow> nodes6_loop sr (chunks 38 (m_nodes6 m)) d2;
          (case sr of
             None \<Rightarrow> Some d3
           | Some si \<Rightarrow> map_option snd (search_send_get_peers si None d3)) }"

definition handle_values :: "parsed_message \<Rightarrow> sockaddr \<Rightarrow> nat \<Rightarrow> nat \<Rightarrow> bool \<Rightarrow> dht \<Rightarrow> dht" where
  "handle_values m from fromlen si callback d =
     (let (i, d1) = insert_into_search (m_id m) from fromlen si True (Some (m_token m)) d;
          nid = sr_id (d_searches d1 ! si);
          d2 = (if m_values m \<noteq> [] then dht_callback callback DHT_EVENT_VALUES nid (m_values m) d1 else d1)
      in (if m_values6 m \<noteq> [] then dht_callback callback DHT_EVENT_VALUES6 nid (m_values6 m) d2 else d2))"

definition handle_found :: "parsed_message \<Rightarrow> sockaddr \<Rightarrow> nat \<Rightarrow> bool \<Rightarrow> dht \<Rightarrow> dht option" where
  "handle_found m from fromlen callback d =
     (let gp = tid_match (m_tid m) ''gp'';
          sr = (if gp then find_search (tid_seqno (m_tid m)) (sa_family from) d else None)
      in do { d1 \<leftarrow>
                (if length (m_nodes m) mod 26 \<noteq> 0 \<or> length (m_nodes6 m) mod 38 \<noteq> 0
                 then blacklist_node (Some (m_id m)) from fromlen d
                 else if gp \<and> sr = None then map_option snd (new_node (m_id m) from fromlen 1 d)
                 else handle_nodes m from fromlen sr d);
              (case sr of
                 None \<Rightarrow> Some d1
               | Some si \<Rightarrow> Some (handle_values m from fromlen si callback d1)) })"

fun find_search_node :: "dht_id \<Rightarrow> search_node list \<Rightarrow> nat option" where
  "find_search_node nid [] = None"
| "find_search_node nid (n # ns) =
     (if id_cmp (sn_id n) nid = 0 then Some 0 else map_option Suc (find_search_node nid ns))"

definition handle_announced :: "parsed_message \<Rightarrow> sockaddr \<Rightarrow> nat \<Rightarrow> dht \<Rightarrow> dht option" where
  "handle_announced m from fromlen d =
     (case find_search (tid_seqno (m_tid m)) (sa_family from) d of
        None \<Rightarrow> map_option snd (new_node (m_id m) from fromlen 1 d)
      | Some si \<Rightarrow>
        do { (r, d1) \<leftarrow> new_node (m_id m) from fromlen 2 d;
             d2 \<leftarrow> Some
               (case find_search_node (m_id m) (sr_nodes (d_searches d1 ! si)) of
                  None \<Rightarrow> d1
                | Some i \<Rightarrow>
                  update_search_node si i
                    (\<lambda>n. n\<lparr>sn_request_time := 0, sn_reply_time := d_now d1, sn_acked := True, sn_pinged := 0\<rparr>) d1);
             map_option snd (search_send_get_peers si None d2) })"

definition handle_reply :: "parsed_message \<Rightarrow> sockaddr \<Rightarrow> nat \<Rightarrow> bool \<Rightarrow> dht \<Rightarrow> dht option" where
  "handle_reply m from fromlen callback d =
     (if length (m_tid m) \<noteq> 4 then blacklist_node (Some (m_id m)) from fromlen d
      else if tid_match (m_tid m) ''pn'' then map_option snd (new_node (m_id m) from fromlen 2 d)
      else if tid_match (m_tid m) ''fn'' \<or> tid_match (m_tid m) ''gp'' then handle_found m from fromlen callback d
      else if tid_match (m_tid m) ''ap'' then handle_announced m from fromlen d
      else Some d)"

definition handle_get_peers :: "parsed_message \<Rightarrow> sockaddr \<Rightarrow> nat \<Rightarrow> dht \<Rightarrow> dht option" where
  "handle_get_peers m from fromlen d =
     do { (r, d1) \<leftarrow> new_node (m_id m) from fromlen 1 d;
          (if id_cmp (m_info_hash m) zeroes = 0
           then map_option snd (send_error from fromlen (m_tid m) 203 ''Get_peers with no info_hash'' d1)
           else
             let (t, d2) = stack_bytes TOKEN_SIZE d1
             in do { token \<leftarrow> make_token from False t d2;
                     (case find_storage (m_info_hash m) d2 of
                        Some k \<Rightarrow>
                          (if st_peers (d_storage d2 ! k) \<noteq> []
                           then map_option snd (send_closest_nodes from fromlen (m_tid m) (m_info_hash m) (m_want m)
                                                  (sa_family from) (Some (d_storage d2 ! k)) token d2)
                           else map_option snd (send_closest_nodes from fromlen (m_tid m) (m_info_hash m) (m_want m)
                                                  0 None token d2))
                      | None \<Rightarrow> map_option snd (send_closest_nodes from fromlen (m_tid m) (m_info_hash m) (m_want m)
                                                  0 None token d2)) }) }"

definition announced_port :: "parsed_message \<Rightarrow> sockaddr \<Rightarrow> nat" where
  "announced_port m from =
     (if m_implied_port m \<noteq> 0 \<and> (sa_family from = AF_INET \<or> sa_family from = AF_INET6)
      then htons (le_dec (sin_port from)) else m_port m)"

definition handle_announce_peer :: "parsed_message \<Rightarrow> sockaddr \<Rightarrow> nat \<Rightarrow> dht \<Rightarrow> dht option" where
  "handle_announce_peer m from fromlen d =
     do { (r, d1) \<leftarrow> new_node (m_id m) from fromlen 1 d;
          (if id_cmp (m_info_hash m) zeroes = 0
           then map_option snd (send_error from fromlen (m_tid m) 203 ''Announce_peer with no info_hash'' d1)
           else
             do { (good, d2) \<leftarrow> token_match (m_token m) from d1;
                  (if \<not> good
                   then map_option snd (send_error from fromlen (m_tid m) 203 ''Announce_peer with wrong token'' d2)
                   else if announced_port m from = 0
                   then map_option snd (send_error from fromlen (m_tid m) 203
                                          ''Announce_peer with forbidden port number'' d2)
                   else
                     let (rc, d3) = storage_store (m_info_hash m) from (announced_port m from) d2
                     in map_option snd (send_peer_announced from fromlen (m_tid m) d3)) }) }"

definition handle_message :: "int \<Rightarrow> parsed_message \<Rightarrow> sockaddr \<Rightarrow> nat \<Rightarrow> bool \<Rightarrow> dht \<Rightarrow> dht option" where
  "handle_message message m from fromlen callback d =
     (if message = REPLY then handle_reply m from fromlen callback d
      else if message = PING then
        do { (r, d1) \<leftarrow> new_node (m_id m) from fromlen 1 d;
             map_option snd (send_pong from fromlen (m_tid m) d1) }
      else if message = FIND_NODE then
        do { (r, d1) \<leftarrow> new_node (m_id m) from fromlen 1 d;
             map_option snd (send_closest_nodes from fromlen (m_tid m) (m_target m) (m_want m) 0 None [] d1) }
      else if message = GET_PEERS then handle_get_peers m from fromlen d
      else if message = ANNOUNCE_PEER then handle_announce_peer m from fromlen d
      else Some d)"

text \<open>
  The part of \<open>dht_periodic\<close> that reads the packet: an unterminated one ends the call,
  every other path leads to the label \<open>dontread\<close>.
\<close>

definition read_packet ::
    "byte list \<Rightarrow> byte \<Rightarrow> sockaddr \<Rightarrow> nat \<Rightarrow> bool \<Rightarrow> dht \<Rightarrow> (bool \<times> dht) option" where
  "read_packet buf nul from fromlen callback d =
     (if buf = [] then Some (True, d)
      else if is_martian from then Some (True, d)
      else
        do { black \<leftarrow> node_blacklisted from fromlen d;
             (if black then Some (True, d)
              else if nul \<noteq> 0 then Some (False, d\<lparr>d_errno := EINVAL_dht\<rparr>)
              else
                let (message, m) = parse_message buf nul parsed_zero
                in if message < 0 \<or> message = ERROR \<or> id_cmp (m_id m) zeroes = 0 then Some (True, d)
                   else if id_cmp (m_id m) (d_myid d) = 0 then Some (True, d)
                   else
                     let (ok, d1) = (if REPLY < message then token_bucket d else (True, d))
                     in if \<not> ok then Some (True, d1)
                        else do { d2 \<leftarrow> handle_message message m from fromlen callback d1; Some (True, d2) }) })"

section \<open>The periodic work\<close>

fun step_searches :: "bool \<Rightarrow> nat list \<Rightarrow> dht \<Rightarrow> dht option" where
  "step_searches callback [] d = Some d"
| "step_searches callback (si # sis) d =
     (let sr = d_searches d ! si
      in if \<not> sr_done sr \<and> sr_step_time sr + DHT_SEARCH_RETRANSMIT div 2 + 1 \<le> d_now d
         then do { d1 \<leftarrow> search_step si callback d; step_searches callback sis d1 }
         else step_searches callback sis d)"

fun next_search_time :: "search list \<Rightarrow> dht \<Rightarrow> dht" where
  "next_search_time [] d = d"
| "next_search_time (sr # srs) d =
     (if \<not> sr_done sr
      then
        let (r, d1) = c_random d; tm = sr_step_time sr + DHT_SEARCH_RETRANSMIT + int r mod DHT_SEARCH_RETRANSMIT
        in next_search_time srs
             (if d_search_time d1 = 0 \<or> tm < d_search_time d1 then d1\<lparr>d_search_time := tm\<rparr> else d1)
      else next_search_time srs d)"

definition periodic_expire :: "bool \<Rightarrow> dht \<Rightarrow> dht option" where
  "periodic_expire callback d =
     (let d1 = (if d_rotate_secrets_time d \<le> d_now d then snd (rotate_secrets d) else d)
      in if d_expire_stuff_time d1 \<le> d_now d1
         then do { d2 \<leftarrow> expire_buckets AF_INET d1;
                   d3 \<leftarrow> expire_buckets AF_INET6 d2;
                   Some (expire_searches callback (snd (expire_storage d3))) }
         else Some d1)"

definition periodic_searches :: "bool \<Rightarrow> dht \<Rightarrow> dht option" where
  "periodic_searches callback d =
     (if 0 < d_search_time d \<and> d_search_time d \<le> d_now d
      then do { d1 \<leftarrow> step_searches callback [0..<length (d_searches d)] d;
                Some (next_search_time (d_searches d1) (d1\<lparr>d_search_time := 0\<rparr>)) }
      else Some d)"

definition periodic_confirm :: "dht \<Rightarrow> dht option" where
  "periodic_confirm d =
     (if d_confirm_nodes_time d \<le> d_now d
      then
        do { (s4, d1) \<leftarrow> bucket_maintenance AF_INET d;
             (s6, d2) \<leftarrow> bucket_maintenance AF_INET6 d1;
             (soon, d3) \<leftarrow>
               (if s4 \<or> s6 then Some (True, d2)
                else
                  do { (n4, d3) \<leftarrow> (if d_now d2 - 150 \<le> d_mybucket_grow_time d2
                                    then neighbourhood_maintenance AF_INET d2 else Some (False, d2));
                       (n6, d4) \<leftarrow> (if d_now d3 - 150 \<le> d_mybucket6_grow_time d3
                                    then neighbourhood_maintenance AF_INET6 d3 else Some (False, d3));
                       Some (n4 \<or> n6, d4) });
             (let (r, d4) = c_random d3
              in Some (d4\<lparr>d_confirm_nodes_time :=
                            d_now d4 + (if soon then 5 + int (r mod 10) else 60 + int (r mod 120))\<rparr>)) }
      else Some d)"

definition periodic_sleep :: "dht \<Rightarrow> int" where
  "periodic_sleep d =
     (let t = (if d_now d < d_confirm_nodes_time d then d_confirm_nodes_time d - d_now d else 0)
      in if 0 < d_search_time d
         then (if d_search_time d \<le> d_now d then 0
               else if d_search_time d - d_now d < t then d_search_time d - d_now d else t)
         else t)"

text \<open>The result, \<open>*tosleep\<close> and the state; \<open>t\<close> is the time of day.\<close>

definition dht_periodic ::
    "byte list \<Rightarrow> byte \<Rightarrow> sockaddr \<Rightarrow> nat \<Rightarrow> int \<Rightarrow> bool \<Rightarrow> int \<Rightarrow> dht \<Rightarrow> (int \<times> int \<times> dht) option" where
  "dht_periodic buf nul from fromlen tosleep callback t d =
     do { (go, d1) \<leftarrow> read_packet buf nul from fromlen callback (d\<lparr>d_now := t\<rparr>);
          (if \<not> go then Some (- 1, tosleep, d1)
           else
             do { d2 \<leftarrow> periodic_expire callback d1;
                  d3 \<leftarrow> periodic_searches callback d2;
                  d4 \<leftarrow> periodic_confirm d3;
                  Some (1, periodic_sleep d4, d4) }) }"

section \<open>The wrappers of \<open>dht_list.c\<close>\<close>

definition dht_list_hash :: dht_id where
  "dht_list_hash = [0x54, 0x57, 0x87, 0x89, 0xdf, 0xc4, 0x23, 0xee, 0xf6, 0x03,
                    0x1f, 0x81, 0x94, 0xa9, 0x3a, 0x16, 0x98, 0x8b, 0x72, 0x7b]"

text \<open>
  \<open>get_data_callback\<close> takes the data of any event for a socket address and reads its address,
  the four bytes at offset 4.  A completed search has no data: the read crashes.  The values
  found locally are in an array of 18 bytes, of which an IPv4 value fills six; \<open>rest\<close> is what
  the array holds behind it.
\<close>

definition get_data_callback :: "byte list \<Rightarrow> dht_event \<Rightarrow> byte list option" where
  "get_data_callback rest e =
     (if ev_data e = [] then None else Some (take 4 (drop 4 (ev_data e @ rest))))"

fun get_data_callbacks :: "byte list \<Rightarrow> dht_event list \<Rightarrow> byte list \<Rightarrow> byte list option" where
  "get_data_callbacks rest [] ip = Some ip"
| "get_data_callbacks rest (e # es) ip =
     Option.bind (get_data_callback rest e) (get_data_callbacks rest es)"

text \<open>The search is for a fixed hash, and the result is always an error; \<open>ip\<close> is \<open>*ip\<close>.\<close>

definition dht_list_get_node :: "nat \<Rightarrow> nat \<Rightarrow> byte list \<Rightarrow> dht \<Rightarrow> (int \<times> byte list \<times> dht) option" where
  "dht_list_get_node block_id record_id ip d =
     do { (rc, d1) \<leftarrow> dht_search dht_list_hash 0 AF_INET True d;
          (let (rest, d2) = stack_bytes 12 d1
           in do { ip1 \<leftarrow> get_data_callbacks rest (drop (length (d_events d)) (d_events d1)) ip;
                   Some (EINVAL_dht, ip1, d2) }) }"

end
