(* ===== verification/SeaController.thy ===== *)
theory SeaController
  imports SeaSuper SeaPhone DhtPeriodic
begin

text \<open>
  \<open>controller.c\<close> and \<open>controller_data.c\<close>: a controller owns a super block, the block that takes
  new records, and a phone list; it reads and writes records locally and turns to another
  node when that fails.
\<close>

section \<open>What the controller acts on\<close>

text \<open>
  The operating system, the DHT of the process, the network library \<open>nng\<close> and the place of
  the stack.  \<open>nng\<close> is not part of the program: \<open>w_rv\<close> gives the result code of each call to
  it, \<open>w_sent\<close> collects the messages handed to it with their destinations.

  Two places of the code read behind the end of an object.  What such a read finds is a parameter:
  \<open>w_behind\<close> are the words that may be read behind the local \<open>node\<close> of a write, \<open>w_behind_body\<close>
  the bytes that may be read behind the body of a request.  C promises none; a read that
  goes further is \<open>Undef\<close>.
\<close>

record world =
  w_os :: os
  w_dht :: dht
  w_rv :: "nat \<Rightarrow> int"
  w_calls :: nat
  w_sent :: "(string \<times> byte list) list"
  w_stack_addr :: u64
  w_behind :: "u32 list"
  w_behind_body :: "byte list"

definition nng_call :: "world \<Rightarrow> int \<times> world" where
  "nng_call w = (w_rv w (w_calls w), w\<lparr>w_calls := Suc (w_calls w)\<rparr>)"

section \<open>Messages between nodes\<close>

definition DATA_SERVER_METHOD_GET :: u8 where "DATA_SERVER_METHOD_GET = 1"
definition DATA_SERVER_METHOD_PUT :: u8 where "DATA_SERVER_METHOD_PUT = 2"
definition DATA_SERVER_ERROR_NONE :: u16 where "DATA_SERVER_ERROR_NONE = 0"
definition DATA_SERVER_ERROR_GET :: u16 where "DATA_SERVER_ERROR_GET = 1"
definition DATA_SERVER_ERROR_PUT :: u16 where "DATA_SERVER_ERROR_PUT = 2"
definition DATA_SERVER_ERROR_UNKNOWN :: u16 where "DATA_SERVER_ERROR_UNKNOWN = 3"

record data_server_hdr =
  dh_method :: u8
  dh_error :: u16
  dh_len :: u32
  dh_block_id :: u64
  dh_record_id :: u64

text \<open>The layout in memory: 24 bytes, one of padding behind the method; \<open>data\<close> follows.\<close>

definition enc_hdr :: "data_server_hdr \<Rightarrow> byte list" where
  "enc_hdr h = [dh_method h, 0] @ bytes_of_u16 (dh_error h) @ bytes_of_u32 (dh_len h)
     @ bytes_of_u64 (dh_block_id h) @ bytes_of_u64 (dh_record_id h)"

definition dec_hdr :: "byte list \<Rightarrow> data_server_hdr" where
  "dec_hdr bs = \<lparr>dh_method = hd bs, dh_error = u16_of_bytes (take 2 (drop 2 bs)),
     dh_len = u32_of_bytes (take 4 (drop 4 bs)), dh_block_id = u64_of_bytes (take 8 (drop 8 bs)),
     dh_record_id = u64_of_bytes (take 8 (drop 16 bs))\<rparr>"


definition data_min :: "u32 \<Rightarrow> u32 \<Rightarrow> u32" where
  "data_min a b = (if b < a then b else a)"

section \<open>The client\<close>

text \<open>\<open>NIPQUAD\<close> takes the bytes of the address in memory order.\<close>

definition ip_text :: "u32 \<Rightarrow> string" where
  "ip_text ip =
     (let q = map (\<lambda>b. dec_str (unat b)) (bytes_of_u32 ip)
      in q ! 0 @ ''.'' @ q ! 1 @ ''.'' @ q ! 2 @ ''.'' @ q ! 3)"

text \<open>
  Failures of the network are printed and passed over.  A message that does arrive is
  undefined behaviour: \<open>nng_recv\<close> stores its size through the pointer \<open>recv_hdr_len\<close>, for which
  the callers pass a number of bytes.
\<close>

definition data_client :: "u32 \<Rightarrow> byte list \<Rightarrow> u32 \<Rightarrow> world \<Rightarrow> (int \<times> world) outcome" where
  "data_client ip hdr len w =
     (let url = snprintf_str 256 (''tcp://'' @ ip_text ip @ '':'' @ dec_str 8889);
          (_, w1) = nng_call w;
          (_, w2) = nng_call w1;
          (rv, w3) = nng_call w2
      in if length hdr < unat len then Undef
         else
           let w4 = (if rv = 0 then w3\<lparr>w_sent := w_sent w3 @ [(url, take (unat len) hdr)]\<rparr> else w3);
               (rv2, w5) = nng_call w4
           in if rv2 = 0 then Undef else Done (0, w5))"

text \<open>
  A failed allocation of \<open>hdr\<close> jumps over the declaration of \<open>recv_hdr\<close>, which is then freed.
  The reply is read from \<open>recv_hdr\<close>, memory \<open>malloc\<close> does not clear.  The results: the code,
  the value stored through \<open>ret_buf_len\<close>, the caller's buffer.
\<close>

definition controller_data_get ::
    "u32 \<Rightarrow> u64 \<Rightarrow> u32 \<Rightarrow> byte list \<Rightarrow> u32 \<Rightarrow> world \<Rightarrow> (int \<times> u32 option \<times> byte list \<times> world) outcome" where
  "controller_data_get ip block_id record_id buf buf_len w =
     (let (ok, os1) = c_malloc 24 (w_os w)
      in if \<not> ok then Undef
         else
           let hdr = \<lparr>dh_method = DATA_SERVER_METHOD_GET, dh_error = 0, dh_len = 24, dh_block_id = block_id,
                      dh_record_id = ucast record_id\<rparr>;
               (ok2, os2) = c_malloc (1024 * 1024 * 10) os1
           in if \<not> ok2 then Done (0, None, buf, w\<lparr>w_os := os2\<rparr>)
              else
                (case data_client ip (enc_hdr hdr) 24 (w\<lparr>w_os := os2\<rparr>) of
                   Undef \<Rightarrow> Undef
                 | Done (ret, w1) \<Rightarrow>
                   let recv = dec_hdr (junk_bytes os2 24)
                   in if ret \<noteq> 0 \<or> dh_error recv \<noteq> 0 then Done (ret, None, buf, w1)
                      else
                        let n = data_min (dh_len recv - 24) buf_len
                        in if length buf < unat n \<or> 1024 * 1024 * 10 < unat n + 24 then Undef
                           else Done (0, Some n, put_at 0 (map (os_junk os2) [24..<24 + unat n]) buf, w1)))"

definition controller_data_send ::
    "byte list \<Rightarrow> u32 \<Rightarrow> u32 \<Rightarrow> world \<Rightarrow> (int \<times> u64 option \<times> u32 option \<times> world) outcome" where
  "controller_data_send buf buf_len ip w =
     (let (ok, os1) = c_malloc (uint buf_len + 24) (w_os w)
      in if \<not> ok \<or> length buf < unat buf_len then Undef
         else
           let hdr = \<lparr>dh_method = DATA_SERVER_METHOD_PUT, dh_error = 0, dh_len = buf_len + 24, dh_block_id = 0,
                      dh_record_id = 0\<rparr>;
               (ok2, os2) = c_malloc 24 os1
           in if \<not> ok2 then Done (0, None, None, w\<lparr>w_os := os2\<rparr>)
              else
                (case data_client ip (enc_hdr hdr @ take (unat buf_len) buf) (buf_len + 24) (w\<lparr>w_os := os2\<rparr>) of
                   Undef \<Rightarrow> Undef
                 | Done (ret, w1) \<Rightarrow>
                   let recv = dec_hdr (junk_bytes os2 24)
                   in if ret \<noteq> 0 \<or> dh_error recv \<noteq> 0 then Done (ret, None, None, w1)
                      else Done (0, Some (dh_block_id recv), Some (ucast (dh_record_id recv)), w1)))"

section \<open>Looking for another node\<close>

text \<open>
  \<open>dht_list_get_nodes\<close> has an \<open>int\<close> where its caller passes the address of a number and where
  \<open>dht_get_nodes\<close> expects one: the address survives only when its upper half is the sign of its
  lower half.  \<open>addr\<close> is that address, \<open>num\<close> the number stored there.
\<close>

definition dht_list_get_nodes ::
    "u64 \<Rightarrow> nat \<Rightarrow> nat \<Rightarrow> dht \<Rightarrow> (int \<times> sockaddr list \<times> sockaddr list) outcome" where
  "dht_list_get_nodes addr num num6 d =
     (if scast (ucast addr :: u32) \<noteq> addr then Undef
      else case dht_get_nodes num num6 d of (_, sin, sin6) \<Rightarrow> Done (0, sin, sin6))"

text \<open>The address found is assigned to the parameter; nothing is stored through it.\<close>

definition dht_list_get_free_node :: "u64 \<Rightarrow> dht \<Rightarrow> int outcome" where
  "dht_list_get_free_node addr d =
     (case dht_list_get_nodes addr 1 0 d of Undef \<Rightarrow> Undef | Done (ret, _, _) \<Rightarrow> Done ret)"

section \<open>The controller\<close>

definition SEA_CONTROLLER_LOCAL_NODE :: u32 where "SEA_CONTROLLER_LOCAL_NODE = 0"

definition DATA_DIR :: string where "DATA_DIR = ''/Users/zhangxinlong/tmp/controller''"

record sea_controller =
  sc_super_block :: controller_super_block
  sc_block :: "sea_block option"
  sc_phone_list :: "phone_list option"

definition sea_controller_create :: "string \<Rightarrow> os \<Rightarrow> (sea_controller option \<times> os) outcome" where
  "sea_controller_create dir os =
     (let (ok, os1) = c_malloc 24 os
      in if \<not> ok then Done (None, os1)
         else
           let (phones, os2) = phone_list_create 3 os1
           in (case controller_super_block_open_or_create dir ''controller'' os2 of
                 Undef \<Rightarrow> Undef
               | Done (None, _, os3) \<Rightarrow> Done (None, os3)
               | Done (Some sb, _, os3) \<Rightarrow>
                   Done (Some \<lparr>sc_super_block = sb, sc_block = None, sc_phone_list = phones\<rparr>, os3)))"

text \<open>Destroying a controller frees it and leaves an open block open.\<close>

definition sea_controller_destroy :: "sea_controller \<Rightarrow> int" where
  "sea_controller_destroy c = controller_super_block_close (sc_super_block c)"

definition sea_controller_read_from_local ::
    "u64 \<Rightarrow> u32 \<Rightarrow> byte list \<Rightarrow> int \<Rightarrow> os \<Rightarrow> (int \<times> u32 option \<times> byte list \<times> os) outcome" where
  "sea_controller_read_from_local block_id record_id buf buf_len os =
     (case sea_block_open DATA_DIR block_id os of
        (None, os1) \<Rightarrow> Done (EINVAL, None, buf, os1)
      | (Some block, os1) \<Rightarrow>
        (case sea_block_query_by_record_id block record_id (Some buf) buf_len os1 of
           Undef \<Rightarrow> Undef
         | Done (ret, n, buf1, os2) \<Rightarrow>
             Done (ret, n, (case buf1 of None \<Rightarrow> buf | Some m \<Rightarrow> m), sea_block_close block os2)))"

text \<open>
  First the own blocks, then the node the DHT names.  A value stored through \<open>ret_buf_len\<close> by
  the first attempt stays unless the second replaces it.
\<close>

definition sea_controller_read ::
    "u64 \<Rightarrow> u32 \<Rightarrow> byte list \<Rightarrow> u32 \<Rightarrow> world \<Rightarrow> (int \<times> u32 option \<times> byte list \<times> world) outcome" where
  "sea_controller_read block_id record_id buf buf_len w =
     (case sea_controller_read_from_local block_id record_id buf (sint buf_len) (w_os w) of
        Undef \<Rightarrow> Undef
      | Done (ret, n, buf1, os1) \<Rightarrow>
        let w1 = w\<lparr>w_os := os1\<rparr>
        in if ret = 0 then Done (ret, n, buf1, w1)
           else
             (case dht_list_get_node (unat block_id) (unat record_id) [0, 0, 0, 0] (w_dht w1) of
                None \<Rightarrow> Undef
              | Some (ret2, ip, d1) \<Rightarrow>
                let w2 = w1\<lparr>w_dht := d1\<rparr>
                in if ret2 \<noteq> 0 then Done (ret2, n, buf1, w2)
                   else
                     (case controller_data_get (u32_of_bytes ip) block_id record_id buf1 buf_len w2 of
                        Undef \<Rightarrow> Undef
                      | Done (ret3, n3, buf3, w3) \<Rightarrow> Done (ret3, (case n3 of None \<Rightarrow> n | _ \<Rightarrow> n3), buf3, w3))))"

text \<open>
  The memory from the address of the local \<open>node\<close> on: the variable, one word, and what may be
  read behind it.  \<open>phone_list_put\<close> copies three words from there, whatever number it is given.
\<close>

definition node_memory :: "u32 list \<Rightarrow> u32 list" where
  "node_memory behind = SEA_CONTROLLER_LOCAL_NODE # behind"

text \<open>
  The block of the current id is opened, created if that failed, and opened again, so that
  one open handle of an existing block is lost.
\<close>

definition open_current_block :: "u64 \<Rightarrow> os \<Rightarrow> sea_block option \<times> os" where
  "open_current_block block_id os =
     (let (block, os1) = sea_block_open DATA_DIR block_id os;
          os2 = (case block of
                   Some _ \<Rightarrow> os1
                 | None \<Rightarrow> snd (sea_block_create DATA_DIR block_id SEA_BLOCK_MAX_SIZE_DEFAULT
                                  SEA_BLOCK_MAX_COUNT_DEFAULT os1))
      in sea_block_open DATA_DIR block_id os2)"

text \<open>A block that reports itself full is closed and its id expired.\<close>

definition retire_block :: "sea_controller \<Rightarrow> u64 \<Rightarrow> os \<Rightarrow> (sea_controller \<times> os) outcome" where
  "retire_block c block_id os =
     (case controller_super_block_expire_block_id (sc_super_block c) block_id os of
        Undef \<Rightarrow> Undef
      | Done (_, sb, os1) \<Rightarrow>
          Done (c\<lparr>sc_super_block := sb, sc_block := None\<rparr>,
                (case sc_block c of None \<Rightarrow> os1 | Some b \<Rightarrow> sea_block_close b os1)))"

definition sea_controller_write_local ::
    "u32 list \<Rightarrow> sea_controller \<Rightarrow> byte list option \<Rightarrow> int \<Rightarrow> os \<Rightarrow>
      (int \<times> u64 option \<times> u32 option \<times> sea_controller \<times> os) outcome" where
  "sea_controller_write_local behind c buf buf_len os =
     (let (ret, bid) = controller_super_block_get_block_id (sc_super_block c)
      in if ret \<noteq> 0 then Done (ret, None, None, c, os)
         else
           let (block, os1) = (case sc_block c of Some b \<Rightarrow> (Some b, os) | None \<Rightarrow> open_current_block bid os);
               c1 = c\<lparr>sc_block := block\<rparr>
           in (case block of
                 None \<Rightarrow> Done (ENOENT, Some bid, None, c1, os1)
               | Some _ \<Rightarrow>
                 (case sea_block_append block buf buf_len os1 of
                    Undef \<Rightarrow> Undef
                  | Done (ret1, rid, over, block2, os2) \<Rightarrow>
                    let c2 = c1\<lparr>sc_block := block2\<rparr>
                    in if ret1 \<noteq> 0 then Done (ret1, Some bid, rid, c2, os2)
                       else
                         (case sc_phone_list c of
                            None \<Rightarrow> Undef
                          | Some phones \<Rightarrow>
                            (case phone_list_put phones bid (node_memory behind) 1 os2 of
                               Undef \<Rightarrow> Undef
                             | Done (_, phones1, os3) \<Rightarrow>
                               let c3 = c2\<lparr>sc_phone_list := Some phones1\<rparr>
                               in if over = Some 0 \<or> over = None then Done (0, Some bid, rid, c3, os3)
                                  else
                                    (case retire_block c3 bid os3 of
                                       Undef \<Rightarrow> Undef
                                     | Done (c4, os4) \<Rightarrow> Done (0, Some bid, rid, c4, os4)))))))"

text \<open>
  First locally, then to the node the DHT names, whose address \<open>ip\<close> is never assigned.
\<close>

definition sea_controller_write ::
    "sea_controller \<Rightarrow> byte list option \<Rightarrow> int \<Rightarrow> world \<Rightarrow>
      (int \<times> u64 option \<times> u32 option \<times> sea_controller \<times> world) outcome" where
  "sea_controller_write c buf buf_len w =
     (case sea_controller_write_local (w_behind w) c buf buf_len (w_os w) of
        Undef \<Rightarrow> Undef
      | Done (ret, bid, rid, c1, os1) \<Rightarrow>
        let w1 = w\<lparr>w_os := os1\<rparr>
        in if ret = 0 then Done (0, bid, rid, c1, w1)
           else
             (case dht_list_get_free_node (w_stack_addr w1) (w_dht w1) of
                Undef \<Rightarrow> Undef
              | Done ret2 \<Rightarrow>
                if ret2 \<noteq> 0 then Done (ret2, bid, rid, c1, w1)
                else
                  (let mem = (case buf of None \<Rightarrow> [] | Some m \<Rightarrow> m)
                   in
                     (case controller_data_send mem (word_of_int buf_len) (u32_of_bytes (junk_bytes (w_os w1) 4)) w1 of
                        Undef \<Rightarrow> Undef
                      | Done (ret3, bid3, rid3, w3) \<Rightarrow>
                          Done (ret3, (case bid3 of None \<Rightarrow> bid | _ \<Rightarrow> bid3),
                            (case rid3 of None \<Rightarrow> rid | _ \<Rightarrow> rid3), c1, w3)))))"

end
