(* ===== verification/SeaServer.thy ===== *)
theory SeaServer
  imports SeaController
begin

text \<open>
  The REST front end, \<open>rest/server.c\<close>: a request to store or to fetch a record arrives over
  HTTP and ends in the controller; a second server answers other nodes.  The HTTP library
  is not part of the program: its calls return what \<open>nng_call\<close> says, and a response is the
  record of what was put into it.
\<close>

section \<open>Record ids in a URI\<close>

text \<open>
  \<open>strtok\<close> with one delimiter: the token and the rest of the string, from which the next call
  continues.
\<close>

definition strtok :: "char \<Rightarrow> string \<Rightarrow> (string \<times> string) option" where
  "strtok c s =
     (let t = dropWhile (\<lambda>x. x = c) s
      in if t = [] then None
         else Some (takeWhile (\<lambda>x. x \<noteq> c) t, drop 1 (dropWhile (\<lambda>x. x \<noteq> c) t)))"

definition is_space :: "char \<Rightarrow> bool" where
  "is_space c \<longleftrightarrow> (of_char c :: nat) \<in> {32, 9, 10, 11, 12, 13}"

text \<open>\<open>atol\<close>: undefined when the number is not a \<open>long\<close>.\<close>

definition c_atol :: "string \<Rightarrow> int outcome" where
  "c_atol s =
     (let t = dropWhile is_space s;
          v = (case t of
                 [] \<Rightarrow> 0
               | c # cs \<Rightarrow> if c = CHR ''-'' then - int (SeaPrelude.digits_val 0 cs)
                           else if c = CHR ''+'' then int (SeaPrelude.digits_val 0 cs) else int (SeaPrelude.digits_val 0 t))
      in if - (2 ^ 63) \<le> v \<and> v < 2 ^ 63 then Done v else Undef)"

definition get_block_id_and_record_id :: "string \<Rightarrow> (int \<times> u64 option \<times> u32 option) outcome" where
  "get_block_id_and_record_id uri =
     (case strtok CHR ''='' uri of
        None \<Rightarrow> Done (EINVAL, None, None)
      | Some (_, rest) \<Rightarrow>
        (case strtok CHR ''='' rest of
           None \<Rightarrow> Done (EINVAL, None, None)
         | Some (id_str, _) \<Rightarrow>
           (case strtok CHR ''_'' id_str of
              None \<Rightarrow> Done (EINVAL, None, None)
            | Some (block_str, rest2) \<Rightarrow>
              (case strtok CHR ''_'' rest2 of
                 None \<Rightarrow> Done (EINVAL, None, None)
               | Some (record_id_str, _) \<Rightarrow>
                 (case (c_atol record_id_str, c_atol block_str) of
                    (Done r, Done b) \<Rightarrow> Done (0, Some (word_of_int b), Some (word_of_int r))
                  | _ \<Rightarrow> Undef)))))"

section \<open>The two handlers\<close>

record http_res =
  hr_type :: string
  hr_status :: nat
  hr_data :: "byte list"

text \<open>A handler finishes with a response or with the code of a failed call.\<close>

datatype http_reply = Reply http_res | Finish int

definition NNG_HTTP_STATUS_OK :: nat where "NNG_HTTP_STATUS_OK = 200"

text \<open>
  The setters of a response; the handlers ignore whether those after the first three worked.
\<close>

definition set_type :: "string \<Rightarrow> http_res \<Rightarrow> world \<Rightarrow> http_res \<times> world" where
  "set_type t res w = (let (rv, w1) = nng_call w in (if rv = 0 then res\<lparr>hr_type := t\<rparr> else res, w1))"

definition copy_data :: "byte list \<Rightarrow> http_res \<Rightarrow> world \<Rightarrow> http_res \<times> world" where
  "copy_data d res w = (let (rv, w1) = nng_call w in (if rv = 0 then res\<lparr>hr_data := d\<rparr> else res, w1))"

definition sea_get :: "u64 \<Rightarrow> u32 \<Rightarrow> byte list \<Rightarrow> int \<Rightarrow> world \<Rightarrow> (int \<times> u32 option \<times> byte list \<times> world) outcome" where
  "sea_get block_id record_id buf buf_len w = sea_controller_read block_id record_id buf (word_of_int buf_len) w"

definition sea_put ::
    "sea_controller \<Rightarrow> byte list option \<Rightarrow> int \<Rightarrow> world \<Rightarrow>
      (int \<times> u64 option \<times> u32 option \<times> sea_controller \<times> world) outcome" where
  "sea_put controller buf buf_len w = sea_controller_write controller buf buf_len w"

text \<open>When the response cannot be allocated, the uninitialised pointer to it is freed.\<close>

definition rest_handle_get :: "string \<Rightarrow> world \<Rightarrow> (http_reply \<times> world) outcome" where
  "rest_handle_get uri w =
     (let (rv, w1) = nng_call w
      in if rv \<noteq> 0 then Undef
         else
           let (rv, w2) = nng_call w1
           in if rv \<noteq> 0 then Done (Finish rv, w2)
              else
                let (rv, w3) = nng_call w2;
                    res = \<lparr>hr_type = ''text/plain'', hr_status = NNG_HTTP_STATUS_OK, hr_data = []\<rparr>
                in if rv \<noteq> 0 then Done (Finish rv, w3)
                   else
                     (case get_block_id_and_record_id uri of
                        Undef \<Rightarrow> Undef
                      | Done (rv, bid, rid) \<Rightarrow>
                        if rv \<noteq> 0 then Done (Reply res, w3)
                        else
                          (case sea_get (case bid of None \<Rightarrow> 101010 | Some b \<Rightarrow> b) (case rid of None \<Rightarrow> 1 | Some r \<Rightarrow> r)
                                  (replicate (1024 * 128) 0) (1024 * 128) w3 of
                             Undef \<Rightarrow> Undef
                           | Done (ret, n, buf, w4) \<Rightarrow>
                             if ret \<noteq> 0 then Done (Reply res, w4)
                             else
                               let (res1, w5) = set_type ''image/png'' res w4;
                                   (res2, w6) = copy_data (take (case n of None \<Rightarrow> 0 | Some k \<Rightarrow> unat k) buf) res1 w5
                               in Done (Reply res2, w6))))"

definition id_json :: "u64 \<Rightarrow> u32 \<Rightarrow> string" where
  "id_json block_id record_id =
     snprintf_str 1024 (''{\"id\":\"'' @ dec_str (unat block_id) @ ''_'' @ dec_str (unat record_id) @ ''\"}'')"

text \<open>
  Printing a string reads up to the first zero byte.  A body comes with its length, so
  \<open>printf\<close> needs a zero in it or in what may be read behind it; a missing body is \<open>NULL\<close>.
\<close>

definition print_body :: "byte list \<Rightarrow> world \<Rightarrow> unit outcome" where
  "print_body body w = (if body = [] \<or> 0 \<notin> set (body @ w_behind_body w) then Undef else Done ())"

definition rest_handle_post ::
    "byte list \<Rightarrow> sea_controller \<Rightarrow> world \<Rightarrow> (http_reply \<times> sea_controller \<times> world) outcome" where
  "rest_handle_post body c w =
     (let (rv, w1) = nng_call w
      in if rv \<noteq> 0 then Undef
         else
           let (rv, w2) = nng_call w1
           in if rv \<noteq> 0 then Done (Finish rv, c, w2)
              else
                let (rv, w3) = nng_call w2
                in if rv \<noteq> 0 then Done (Finish rv, c, w3)
                   else
                     let (rv, w4) = nng_call w3;
                         res = \<lparr>hr_type = ''text/plain'', hr_status = NNG_HTTP_STATUS_OK, hr_data = body\<rparr>
                     in if rv \<noteq> 0 then Done (Finish rv, c, w4)
                        else
                          (case sea_put c (if body = [] then None else Some body) (as_int32 (int (length body))) w4 of
                             Undef \<Rightarrow> Undef
                           | Done (ret, bid, rid, c1, w5) \<Rightarrow>
                             (case print_body body w5 of
                                Undef \<Rightarrow> Undef
                              | Done _ \<Rightarrow>
                                if ret \<noteq> 0 then Done (Reply res, c1, w5)
                                else
                                  let (res1, w6) = copy_data (bytes_of_string
                                        (id_json (case bid of None \<Rightarrow> 0 | Some b \<Rightarrow> b) (case rid of None \<Rightarrow> 0 | Some r \<Rightarrow> r))) res w5
                                  in Done (Reply res1, c1, w6))))"

section \<open>Answering other nodes\<close>

text \<open>
  \<open>buf\<close> is the message, of \<open>size\<close> bytes; the reply is a header and the memory behind it.  A
  message is stored with the length of its header included, from the end of the header on.
\<close>

definition store_low_half :: "u32 \<Rightarrow> u64 \<Rightarrow> u64" where
  "store_low_half r old = u64_of_bytes (put_at 0 (bytes_of_u32 r) (bytes_of_u64 old))"

definition data_server_process ::
    "byte list \<Rightarrow> data_server_hdr \<times> byte list \<Rightarrow> u32 \<Rightarrow> sea_controller \<Rightarrow> world \<Rightarrow>
      (int \<times> (data_server_hdr \<times> byte list) \<times> u32 \<times> sea_controller \<times> world) outcome" where
  "data_server_process buf send send_size c w =
     (if length buf < 8 then Undef
      else
        let hdr = dec_hdr buf; (h, mem) = send
        in if dh_len hdr \<noteq> of_nat (length buf)
           then Done (EINVAL, (h\<lparr>dh_error := DATA_SERVER_ERROR_UNKNOWN\<rparr>, mem), 24, c, w)
           else
             let h1 = h\<lparr>dh_method := dh_method hdr, dh_error := DATA_SERVER_ERROR_NONE\<rparr>
             in if dh_method hdr = DATA_SERVER_METHOD_GET then
                  (if length buf < 24 then Undef
                   else
                     let h2 = h1\<lparr>dh_block_id := dh_block_id hdr, dh_record_id := dh_record_id hdr\<rparr>
                     in (case sea_controller_read (dh_block_id hdr) (ucast (dh_record_id hdr)) mem (send_size - 24) w of
                           Undef \<Rightarrow> Undef
                         | Done (ret, n, mem1, w1) \<Rightarrow>
                           if ret = 0 then Done (ret, (h2, mem1), 24 + (case n of None \<Rightarrow> 0 | Some k \<Rightarrow> k), c, w1)
                           else Done (ret, (h2\<lparr>dh_error := DATA_SERVER_ERROR_GET\<rparr>, mem1), 24, c, w1)))
                else if dh_method hdr = DATA_SERVER_METHOD_PUT then
                  (case sea_controller_write c (Some (drop 24 buf)) (sint (dh_len hdr)) w of
                     Undef \<Rightarrow> Undef
                   | Done (ret, bid, rid, c1, w1) \<Rightarrow>
                     let h2 = (case bid of None \<Rightarrow> h1 | Some b \<Rightarrow> h1\<lparr>dh_block_id := b\<rparr>);
                         h3 = (case rid of None \<Rightarrow> h2 | Some r \<Rightarrow> h2\<lparr>dh_record_id := store_low_half r (dh_record_id h2)\<rparr>)
                     in if ret = 0 then Done (ret, (h3, mem), 24, c1, w1)
                        else Done (ret, (h3\<lparr>dh_error := DATA_SERVER_ERROR_PUT\<rparr>, mem), 24, c1, w1))
                else Done (EINVAL, (h1\<lparr>dh_error := DATA_SERVER_ERROR_UNKNOWN\<rparr>, mem), 24, c, w))"

text \<open>
  One round of \<open>data_server_handle\<close>.  The message that goes back is the request; sending it
  passes its memory on, and the call that follows frees it again.
\<close>

datatype server_round = Exits | Goes_on "data_server_hdr \<times> byte list" sea_controller world

definition data_server_round ::
    "byte list \<Rightarrow> data_server_hdr \<times> byte list \<Rightarrow> sea_controller \<Rightarrow> world \<Rightarrow> server_round outcome" where
  "data_server_round msg send c w =
     (let (rv, w1) = nng_call w
      in if rv \<noteq> 0 then Done Exits
         else
           (case data_server_process msg send (1024 * 1024 * 10) c w1 of
              Undef \<Rightarrow> Undef
            | Done (_, send1, n, c1, w2) \<Rightarrow>
              if n = 0 then Done (Goes_on send1 c1 w2)
              else let (rv, w3) = nng_call w2 in if rv \<noteq> 0 then Done Exits else Undef))"

section \<open>Starting the server\<close>

definition REST_URL :: "u16 \<Rightarrow> string" where
  "REST_URL port = ''http://127.0.0.1:'' @ dec_str (unat port) @ ''/api/sea''"

text \<open>Calls of the library that must all succeed: the name and the code of the first that fails.\<close>

fun nng_calls :: "string list \<Rightarrow> world \<Rightarrow> (string \<times> int) option \<times> world" where
  "nng_calls [] w = (None, w)"
| "nng_calls (c # cs) w =
     (let (rv, w1) = nng_call w in if rv \<noteq> 0 then (Some (c, rv), w1) else nng_calls cs w1)"

datatype http_handler = Handle_get | Handle_post

record http_route =
  rt_method :: string
  rt_path :: string
  rt_handler :: http_handler
  rt_max_body :: nat

text \<open>What \<open>fatal\<close> prints before it exits, or the routes of the started server.\<close>

definition rest_start :: "u16 \<Rightarrow> world \<Rightarrow> ((string \<times> int) + string \<times> http_route list) \<times> world" where
  "rest_start port w =
     (let handler = [''nng_http_handler_alloc'', ''nng_http_handler_set_method'',
                     ''nng_http_handler_collect_body'', ''nng_http_handler_add_handler''];
          (failed, w1) = nng_calls ([''nng_url_parse'', ''nng_http_server_hold''] @ handler @ handler
                                    @ [''nng_http_server_start'']) w
      in case failed of
           Some what \<Rightarrow> (Inl what, w1)
         | None \<Rightarrow>
             (Inr (REST_URL port,
                [\<lparr>rt_method = ''POST'', rt_path = ''/api/sea'', rt_handler = Handle_post, rt_max_body = 1024 * 128\<rparr>,
                 \<lparr>rt_method = ''GET'', rt_path = ''/api/sea'', rt_handler = Handle_get, rt_max_body = 1024 * 128\<rparr>]), w1))"

text \<open>\<open>atoi\<close>: undefined when the number is not an \<open>int\<close>.\<close>

definition c_atoi :: "string \<Rightarrow> int outcome" where
  "c_atoi s =
     (case c_atol s of
        Undef \<Rightarrow> Undef
      | Done v \<Rightarrow> if - (2 ^ 31) \<le> v \<and> v < 2 ^ 31 then Done v else Undef)"

text \<open>
  The process exits, or serves with a controller and never returns: it waits for a thread that
  sleeps for ever.  \<open>port_env\<close> is the value of the environment variable \<open>PORT\<close>.
\<close>

datatype server_state = Exited int | Serving string "http_route list" sea_controller

definition rest_server :: "string option \<Rightarrow> world \<Rightarrow> (server_state \<times> world) outcome" where
  "rest_server port_env w =
     (case sea_controller_create DATA_DIR (w_os w) of
        Undef \<Rightarrow> Undef
      | Done (None, os1) \<Rightarrow> Done (Exited (- 1), w\<lparr>w_os := os1\<rparr>)
      | Done (Some c, os1) \<Rightarrow>
        (let (rv, w1) = nng_call (w\<lparr>w_os := os1\<rparr>)
         in if rv \<noteq> 0 then Done (Exited 1, w1)
            else
              (case (case port_env of None \<Rightarrow> Done 0 | Some s \<Rightarrow> c_atoi s) of
                 Undef \<Rightarrow> Undef
               | Done p \<Rightarrow>
                 let port = word_of_int p :: u16;
                     (r, w2) = rest_start (if port = 0 then 8888 else port) w1
                 in (case r of
                       Inl what \<Rightarrow> Done (Exited 1, w2)
                     | Inr (url, routes) \<Rightarrow> Done (Serving url routes c, w2)))))"

section \<open>Registering callbacks\<close>

text \<open>\<open>sea_rest.c\<close>: the endpoints handed to the HTTP framework.\<close>

record 'cb sea_rest =
  re_method :: u8
  re_uri :: "byte list"
  re_callback :: "'cb option"

definition sea_rest_method_get_name :: "u8 \<Rightarrow> string" where
  "sea_rest_method_get_name m =
     (if m = 1 then ''GET'' else if m = 2 then ''POST'' else if m = 3 then ''PUT'' else if m = 4 then ''DELETE'' else [])"

fun sea_rest_register :: "'cb sea_rest list \<Rightarrow> (string \<times> byte list \<times> 'cb option) list" where
  "sea_rest_register [] = []"
| "sea_rest_register (r # rs) =
     (if re_method r < 1 \<or> 4 < re_method r \<or> re_callback r = None \<or> re_uri r ! 0 = 0 then sea_rest_register rs
      else (sea_rest_method_get_name (re_method r), re_uri r, re_callback r) # sea_rest_register rs)"

definition SEA_REST_MAX_BODY_SIZE :: nat where "SEA_REST_MAX_BODY_SIZE = 1024 * 1024 * 10"

text \<open>The settings of the framework; \<open>ok\<close> is whether its instance could be set up.\<close>

record ulfius_instance =
  ui_port :: u16
  ui_max_post_body_size :: nat
  ui_default_headers :: "(string \<times> string) list"
  ui_default_reply :: "nat \<times> string"

definition callback_default :: "nat \<times> string" where
  "callback_default = (404, ''Page not found, do what you want'')"

definition sea_rest_init :: "bool \<Rightarrow> u16 \<Rightarrow> int \<times> ulfius_instance option" where
  "sea_rest_init ok port =
     (if \<not> ok then (EINVAL, None)
      else (0, Some \<lparr>ui_port = port, ui_max_post_body_size = SEA_REST_MAX_BODY_SIZE,
                     ui_default_headers = [(''Access-Control-Allow-Origin'', ''*'')],
                     ui_default_reply = callback_default\<rparr>))"

end
