(* ===== verification/SeaStore.thy ===== *)
theory SeaStore
  imports SeaController
begin

text \<open>
  The blocks in a directory as a map from ids to the payloads they hold, and what the
  operations of the controller do to that map: nothing, when they only read; one new empty
  block, when they create it; one more payload in the open block, when they append.
\<close>

section \<open>The blocks of a directory\<close>

text \<open>No file has two names: the program makes no links.\<close>

definition names_inj :: "os \<Rightarrow> bool" where
  "names_inj os \<longleftrightarrow> inj_on (os_names os) (dom (os_names os))"

text \<open>What the directory says of one id: never used, or the payloads its block holds.\<close>

definition block_entry :: "os \<Rightarrow> string \<Rightarrow> u64 \<Rightarrow> byte list list option \<Rightarrow> bool" where
  "block_entry os dir bid x \<longleftrightarrow>
     (case x of
        None \<Rightarrow> block_fresh os dir bid
      | Some ds \<Rightarrow> payloads_ok ds \<and> (\<exists>di ii. block_on_disk os dir bid di ii ds
          \<and> disk_max os ii = unat SEA_BLOCK_MAX_COUNT_DEFAULT))"

definition dir_holds :: "os \<Rightarrow> string \<Rightarrow> (u64 \<rightharpoonup> byte list list) \<Rightarrow> bool" where
  "dir_holds os dir N \<longleftrightarrow> reliable os \<and> os_wf os \<and> names_inj os \<and> (\<forall>bid. block_entry os dir bid (N bid))"

lemma dir_holdsD:
  assumes "dir_holds os dir N"
  shows "reliable os" "os_wf os" "names_inj os" "N bid = None \<Longrightarrow> block_fresh os dir bid"
    "N bid = Some ds \<Longrightarrow> payloads_ok ds"
    "N bid = Some ds \<Longrightarrow> \<exists>di ii. block_on_disk os dir bid di ii ds \<and> disk_max os ii = unat SEA_BLOCK_MAX_COUNT_DEFAULT"
  using assms by (auto simp: dir_holds_def block_entry_def dest!: spec [of _ bid])

text \<open>Only names, directories and the contents of files matter.\<close>

lemma dir_holds_same_files:
  assumes "dir_holds os dir N" and "reliable os'" and "os_wf os'" and "os_names os' = os_names os"
    and "os_inodes os' = os_inodes os" and "os_dirs os' = os_dirs os"
  shows "dir_holds os' dir N"
proof -
  have "block_entry os' dir bid x = block_entry os dir bid x" for bid x
    using assms(4-6) by (cases x) (simp_all add: block_entry_def block_fresh_def block_on_disk_def disk_max_def)
  then show ?thesis using assms(1-4) by (simp add: dir_holds_def names_inj_def)
qed

lemma dir_holds_ext: "os_ext os os' \<Longrightarrow> dir_holds os dir N \<Longrightarrow> dir_holds os' dir N"
  by (rule dir_holds_same_files) (auto simp: os_ext_def)

lemma dir_holds_ticked: "dir_holds os dir N \<Longrightarrow> dir_holds ((ticked ^^ n) os) dir N"
proof (induction n)
  case (Suc n)
  then have h: "dir_holds ((ticked ^^ n) os) dir N" by simp
  show ?case
    by (rule dir_holds_same_files [OF h]) (use dir_holdsD(1,2) [OF h] in simp_all)
qed simp

lemma dir_holds_close:
  assumes "dir_holds os dir N" and "block_at os b di ii ds q" and "block_fds b \<subseteq> {0<..}"
  shows "dir_holds (sea_block_close b os) dir N"
  using dir_holdsD(1,2) [OF assms(1)] unfolding block_close_run [OF assms(2,3)]
  by (intro dir_holds_same_files [OF assms(1)]) (auto simp: os_wf_def)

text \<open>
  A change of the block \<open>bid\<close> alone: its names may be new, its files may have new contents, all
  other names and files stay.
\<close>

lemma block_on_disk_named: "block_on_disk os dir bid di ii ds \<Longrightarrow> block_named os dir bid di ii"
  by (simp add: block_on_disk_def block_named_def)

text \<open>Two blocks of a directory share no file.\<close>

lemma block_named_disjoint:
  assumes "names_inj os" and "length dir + 48 < PATH_MAX" and "b \<noteq> b'"
    and "block_named os dir b di ii" and "block_named os dir b' di' ii'"
  shows "di' \<notin> {di, ii}" and "ii' \<notin> {di, ii}"
proof -
  have n: "p = p'" if "os_names os p = Some i" "os_names os p' = Some i" for p p' i
    using assms(1) that unfolding names_inj_def by (metis domI inj_onD)
  note d = block_filenames_differ [OF assms(2,3)]
  show "di' \<notin> {di, ii}" "ii' \<notin> {di, ii}"
    using assms(4,5) d n unfolding block_named_def by blast+
qed

lemma block_on_disk_same:
  assumes "block_on_disk os dir bid di ii ds"
    and "os_names os' (sea_block_data_filename dir bid PATH_MAX) = os_names os (sea_block_data_filename dir bid PATH_MAX)"
    and "os_names os' (sea_block_index_filename dir bid PATH_MAX) = os_names os (sea_block_index_filename dir bid PATH_MAX)"
    and "os_inodes os' di = os_inodes os di" and "os_inodes os' ii = os_inodes os ii"
  shows "block_on_disk os' dir bid di ii ds" and "disk_max os' ii = disk_max os ii"
  using assms by (simp_all add: block_on_disk_def disk_max_def)

text \<open>A block whose names are there has files with numbers handed out already.\<close>

lemma block_named_old:
  assumes "os_wf os" and "block_named os dir bid di ii"
  shows "di < os_next_ino os" and "ii < os_next_ino os"
  using assms by (auto simp: os_wf_def block_named_def)

section \<open>A new block\<close>

lemma sub_dir_no_file:
  assumes "length dir + 48 < PATH_MAX"
  shows "sub_dir dir b \<noteq> sea_block_data_filename dir bid PATH_MAX"
    and "sub_dir dir b \<noteq> sea_block_index_filename dir bid PATH_MAX"
proof -
  have "sub_dir dir b \<noteq> sub_dir dir bid @ ''/'' @ x" if x: "CHR ''/'' \<notin> set x" for x
  proof
    assume "sub_dir dir b = sub_dir dir bid @ ''/'' @ x"
    then have "dir = sub_dir dir bid"
      using parent_path_append [OF x, of "sub_dir dir bid"] parent_sub_dir [of dir b] by (simp only:)
    then show False by (simp add: sub_dir_def)
  qed
  from this [OF slash_free(1)] this [of "''index''"]
  show "sub_dir dir b \<noteq> sea_block_data_filename dir bid PATH_MAX"
    "sub_dir dir b \<noteq> sea_block_index_filename dir bid PATH_MAX"
    unfolding block_filenames(1,2) [OF assms] by simp_all
qed

lemma dir_holds_create:
  assumes h: "dir_holds os dir N" and new: "N bid = None" and dir: "length dir + 48 < PATH_MAX"
    and r: "reliable os'" "os_wf os'"
    and d: "block_on_disk os' dir bid di ii []" "disk_max os' ii = unat SEA_BLOCK_MAX_COUNT_DEFAULT"
    and nm: "os_names os' = (os_names os)(sea_block_index_filename dir bid PATH_MAX \<mapsto> ii,
          sea_block_data_filename dir bid PATH_MAX \<mapsto> di)"
    and ds: "os_dirs os' = insert (sub_dir dir bid) (os_dirs os)"
    and i: "os_next_ino os \<le> ii" "os_next_ino os \<le> di" "\<forall>j < os_next_ino os. os_inodes os' j = os_inodes os j"
  shows "dir_holds os' dir (N(bid \<mapsto> []))"
proof -
  have old: "di \<notin> ran (os_names os)" "ii \<notin> ran (os_names os)"
    using dir_holdsD(2) [OF h] i(1,2) by (force simp: os_wf_def ran_def)+
  have ne: "di \<noteq> ii" using d(1) by (simp add: block_on_disk_def)
  have inj: "names_inj os'"
    using dir_holdsD(3) [OF h] old ne unfolding names_inj_def nm inj_on_def dom_def ran_def
    by (simp split: if_splits) metis
  have other: "block_entry os' dir b (N b)" if "b \<noteq> bid" for b
  proof -
    note df = block_filenames_differ [OF dir that]
    have same: "os_names os' (sea_block_data_filename dir b PATH_MAX) = os_names os (sea_block_data_filename dir b PATH_MAX)"
      "os_names os' (sea_block_index_filename dir b PATH_MAX) = os_names os (sea_block_index_filename dir b PATH_MAX)"
      using df by (simp_all add: nm)
    show ?thesis
    proof (cases "N b")
      case None
      have sub: "sub_dir dir b \<noteq> sea_block_data_filename dir bid PATH_MAX"
        "sub_dir dir b \<noteq> sea_block_index_filename dir bid PATH_MAX"
        by (rule sub_dir_no_file [OF dir])+
      show ?thesis
        using dir_holdsD(4) [OF h None] same sub that None by (simp add: block_entry_def block_fresh_def ds nm)
    next
      case (Some es)
      obtain dj jj where o: "block_on_disk os dir b dj jj es" "disk_max os jj = unat SEA_BLOCK_MAX_COUNT_DEFAULT"
        using dir_holdsD(6) [OF h Some] by blast
      have "dj < os_next_ino os" "jj < os_next_ino os"
        using block_named_old [OF dir_holdsD(2) [OF h] block_on_disk_named [OF o(1)]] .
      then have "block_on_disk os' dir b dj jj es" "disk_max os' jj = disk_max os jj"
        using block_on_disk_same [OF o(1) same] i(3) by blast+
      then show ?thesis using Some dir_holdsD(5) [OF h Some] o(2) by (auto simp: block_entry_def)
    qed
  qed
  have "block_entry os' dir b ((N(bid \<mapsto> [])) b)" for b
    using d other [of b] by (cases "b = bid") (auto simp: block_entry_def payloads_ok_def)
  then show ?thesis using r inj by (simp add: dir_holds_def)
qed

section \<open>One more payload\<close>

lemma disk_max_block:
  assumes "block_at os b di ii ds q"
  shows "disk_max os ii = block_max b"
  by (rule block_atE [OF assms]) (auto simp: disk_max_def block_max_def index_wf_def index_file_def)

lemma dir_holds_append:
  assumes h: "dir_holds os dir N" and dir: "length dir + 48 < PATH_MAX"
    and fr: "block_frame b {di, ii} os os'" and at: "block_at os' b' di ii ds q"
    and nm: "block_named os dir bid di ii" and mx: "block_max b' = unat SEA_BLOCK_MAX_COUNT_DEFAULT"
    and ok: "payloads_ok ds" and known: "N bid \<noteq> None"
  shows "dir_holds os' dir (N(bid \<mapsto> ds))"
proof -
  have k: "reliable os'" "os_wf os'" "os_names os' = os_names os" "os_dirs os' = os_dirs os"
    using block_frame_keeps [OF fr] dir_holdsD(1,2) [OF h] by simp_all
  have this_block: "block_on_disk os' dir bid di ii ds"
    using block_at_on_disk [OF at] nm k(3) by (simp add: block_named_def)
  have other: "block_entry os' dir b (N b)" if ne: "b \<noteq> bid" for b
  proof (cases "N b")
    case None
    then show ?thesis using dir_holdsD(4) [OF h None] k by (simp add: block_entry_def block_fresh_def)
  next
    case (Some es)
    obtain dj jj where o: "block_on_disk os dir b dj jj es" "disk_max os jj = unat SEA_BLOCK_MAX_COUNT_DEFAULT"
      using dir_holdsD(6) [OF h Some] by blast
    have "dj \<notin> {di, ii}" "jj \<notin> {di, ii}"
      using block_named_disjoint [OF dir_holdsD(3) [OF h] dir ne [symmetric] nm block_on_disk_named [OF o(1)]] .
    then have i: "os_inodes os' dj = os_inodes os dj" "os_inodes os' jj = os_inodes os jj"
      using fr by (simp_all add: block_frame_def)
    have n: "os_names os' p = os_names os p" for p by (simp only: k(3))
    have "block_on_disk os' dir b dj jj es" "disk_max os' jj = disk_max os jj"
      by (rule block_on_disk_same [OF o(1) n n i])+
    then show ?thesis using Some dir_holdsD(5) [OF h Some] o(2) by (auto simp: block_entry_def)
  qed
  have "block_entry os' dir b ((N(bid \<mapsto> ds)) b)" for b
  proof (cases "b = bid")
    case True
    have "disk_max os' ii = unat SEA_BLOCK_MAX_COUNT_DEFAULT" using disk_max_block [OF at] mx by (rule trans)
    then show ?thesis using this_block ok True unfolding block_entry_def by auto
  qed (use other in simp)
  then show ?thesis using k dir_holdsD(3) [OF h] by (simp add: dir_holds_def names_inj_def)
qed

end
