(* ===== verification/SeaControllerRun.thy ===== *)
theory SeaControllerRun
  imports SeaStore
begin

text \<open>
  What the controller does on a fault-free system: \<open>ctl_rep\<close> relates a controller to the map
  from block ids to payloads that its directory holds, and a write, a read and the creation
  of a controller are followed through on that map.
\<close>

section \<open>The state of a controller\<close>

definition super_id :: u64 where
  "super_id = graph_id (bytes_of_string ''controller'')"

definition block_cap :: nat where "block_cap = 128 * 1024"

lemma block_cap_default: "unat SEA_BLOCK_MAX_COUNT_DEFAULT = block_cap"
  by (simp add: SEA_BLOCK_MAX_COUNT_DEFAULT_def block_cap_def)

lemma DATA_DIR_length: "length DATA_DIR + 48 < PATH_MAX"
  by (simp add: DATA_DIR_def PATH_MAX_def)

text \<open>The open block of a controller, if any, is the block of the current id, positioned anywhere.\<close>

definition open_block_ok :: "os \<Rightarrow> u64 \<Rightarrow> (u64 \<rightharpoonup> byte list list) \<Rightarrow> sea_block \<Rightarrow> bool" where
  "open_block_ok os bid M b \<longleftrightarrow>
     (\<exists>di ii q ds. block_at os b di ii ds q \<and> M bid = Some ds \<and> block_named os DATA_DIR bid di ii
        \<and> block_max b = block_cap \<and> block_fds b \<subseteq> {0<..})"

definition phones_ok :: "sea_controller \<Rightarrow> (u64 \<rightharpoonup> byte list list) \<Rightarrow> bool" where
  "phones_ok c M \<longleftrightarrow>
     (\<exists>pl P. sc_phone_list c = Some pl \<and> pl_node_cap pl = 3 \<and> phone_rep pl P \<and> dom P \<subseteq> dom M)"

definition ctl_rep :: "sea_controller \<Rightarrow> os \<Rightarrow> (u64 \<rightharpoonup> byte list list) \<Rightarrow> bool" where
  "ctl_rep c os M \<longleftrightarrow> dir_holds os DATA_DIR (M(super_id \<mapsto> [])) \<and> M super_id = None
     \<and> csb_names (sc_super_block c) DATA_DIR ''controller'' \<and> phones_ok c M
     \<and> (\<forall>b. sc_block c = Some b \<longrightarrow> open_block_ok os (csb_block_id (sc_super_block c)) M b)"

lemma ctl_repD:
  assumes "ctl_rep c os M"
  shows "dir_holds os DATA_DIR (M(super_id \<mapsto> []))" "M super_id = None"
    "csb_names (sc_super_block c) DATA_DIR ''controller''" "phones_ok c M"
    "sc_block c = Some b \<Longrightarrow> open_block_ok os (csb_block_id (sc_super_block c)) M b"
    "reliable os" "os_wf os"
  using assms dir_holdsD(1,2) by (auto simp: ctl_rep_def)

text \<open>Operations that change no file and no descriptor in use keep it.\<close>

lemma open_block_ext:
  assumes "os_ext os os'" and "os_wf os" and "open_block_ok os bid M b"
  shows "open_block_ok os' bid M b"
proof -
  obtain di ii q ds where o: "block_at os b di ii ds q" "M bid = Some ds" "block_named os DATA_DIR bid di ii"
    "block_max b = block_cap" "block_fds b \<subseteq> {0<..}"
    using assms(3) by (auto simp: open_block_ok_def)
  have "block_named os' DATA_DIR bid di ii"
    using o(3) assms(1) by (simp add: block_named_def os_ext_def)
  then show ?thesis
    using os_ext_block_at [OF assms(1,2) o(1)] o unfolding open_block_ok_def by blast
qed

lemma ctl_rep_ext: "os_ext os os' \<Longrightarrow> ctl_rep c os M \<Longrightarrow> ctl_rep c os' M"
  using dir_holds_ext open_block_ext dir_holdsD(2) unfolding ctl_rep_def by blast

section \<open>Reading\<close>

lemma read_local_fetch:
  assumes "block_fetch DATA_DIR bid rid mem buf_len os = Some (ret, n, Some buf, os')"
  shows "sea_controller_read_from_local bid rid mem buf_len os = Done (ret, n, buf, os')"
  using assms by (auto simp: block_fetch_def sea_controller_read_from_local_def split: option.splits outcome.splits prod.splits)

lemma sint_buf_len [simp]: "(word_of_int (sint (n :: u32)) :: u32) = n"
  by simp

text \<open>A record that is there: its payload, and nothing changes.\<close>

lemma controller_read_run:
  assumes rep: "ctl_rep c (w_os w) M" and m: "M bid = Some ds" "r < length ds"
    and fits: "length (ds ! r) \<le> unat buf_len" "length (ds ! r) \<le> length mem"
  shows "\<exists>os'. sea_controller_read bid (of_nat r) mem buf_len w
      = Done (0, Some (of_nat (length (ds ! r))), put_at 0 (ds ! r) mem, w\<lparr>w_os := os'\<rparr>)
    \<and> os_ext (w_os w) os' \<and> ctl_rep c os' M"
proof -
  note h = ctl_repD(1) [OF rep]
  have "bid \<noteq> super_id" using m(1) ctl_repD(2) [OF rep] by auto
  then have n: "(M(super_id \<mapsto> [])) bid = Some ds" using m(1) by simp
  obtain di ii where d: "block_on_disk (w_os w) DATA_DIR bid di ii ds" using dir_holdsD(6) [OF h n] by blast
  obtain os' where f: "block_fetch DATA_DIR bid (of_nat r) mem (sint buf_len) (w_os w)
      = Some (0, Some (of_nat (length (ds ! r))), Some (put_at 0 (ds ! r) mem), os')" and e: "os_ext (w_os w) os'"
    using block_fetch_run [OF dir_holdsD(1,2) [OF h] d dir_holdsD(5) [OF h n] m(2), of "sint buf_len" mem] fits
    by auto
  show ?thesis
    using read_local_fetch [OF f] e ctl_rep_ext [OF e rep] by (intro exI [of _ os']) (simp add: sea_controller_read_def)
qed

text \<open>A record that is not there is looked for through the DHT, which always fails.\<close>

lemma read_local_missing:
  assumes rep: "ctl_rep c os M" and no: "bid \<noteq> super_id" "\<forall>ds. M bid = Some ds \<longrightarrow> length ds \<le> unat rid"
  shows "\<exists>os'. sea_controller_read_from_local bid rid mem buf_len os = Done (EINVAL, None, mem, os') \<and> os_ext os os'"
proof (cases "M bid")
  case None
  note h = ctl_repD(1) [OF rep]
  have "block_fresh os DATA_DIR bid" using dir_holdsD(4) [OF h] None no(1) by simp
  then have "sea_block_open DATA_DIR bid os = (None, (ticked (ticked (ticked os)))\<lparr>os_errno := ENOENT\<rparr>)"
    by (intro block_open_missing dir_holdsD(1) [OF h]) (simp add: block_fresh_def)
  moreover have "os_ext os ((ticked (ticked (ticked os)))\<lparr>os_errno := ENOENT\<rparr>)"
    using dir_holdsD(1,2) [OF h] by (simp add: os_ext_refl os_ext_ticked)
  ultimately show ?thesis by (simp add: sea_controller_read_from_local_def)
next
  case (Some ds)
  note h = ctl_repD(1) [OF rep]
  obtain di ii where d: "block_on_disk os DATA_DIR bid di ii ds"
    using dir_holdsD(6) [OF h, of bid ds] Some no(1) by auto
  obtain b os1 where o: "sea_block_open DATA_DIR bid os = (Some b, os1)" and at: "block_at os1 b di ii ds 0"
    and e: "os_ext os os1" and f: "block_fds b \<subseteq> {os_next_fd os..}"
    using block_reopen [OF dir_holdsD(1,2) [OF h] d] by blast
  have "os_ext os (sea_block_close b (os1\<lparr>os_errno := C_EOF\<rparr>))"
    by (rule os_ext_close [OF _ _ f dir_holdsD(2) [OF h]]) (use e at in simp_all)
  then show ?thesis
    using o block_query_missing [OF at, of rid] no(2) Some by (simp add: sea_controller_read_from_local_def)
qed

lemma list_get_node_fails:
  "dht_list_get_node block_id record_id ip d = Some (rc, ip1, d1) \<Longrightarrow> rc = EINVAL"
  by (auto simp: dht_list_get_node_def EINVAL_dht_def EINVAL_def bind_eq_Some_conv case_prod_beta)

lemma controller_read_missing_run:
  assumes rep: "ctl_rep c (w_os w) M" and no: "bid \<noteq> super_id" "\<forall>ds. M bid = Some ds \<longrightarrow> length ds \<le> unat rid"
  shows "\<exists>os'. sea_controller_read bid rid mem buf_len w
      = (case dht_list_get_node (unat bid) (unat rid) [0, 0, 0, 0] (w_dht w) of
           None \<Rightarrow> Undef
         | Some (rc, ip, d1) \<Rightarrow> Done (EINVAL, None, mem, w\<lparr>w_os := os', w_dht := d1\<rparr>))
    \<and> os_ext (w_os w) os'"
proof -
  obtain os' where l: "sea_controller_read_from_local bid rid mem (sint buf_len) (w_os w) = Done (EINVAL, None, mem, os')"
    and e: "os_ext (w_os w) os'"
    using read_local_missing [OF rep no] by blast
  have nz: "EINVAL \<noteq> 0" by (simp add: EINVAL_def)
  have "(case dht_list_get_node (unat bid) (unat rid) [0, 0, 0, 0] (w_dht w) of Some (rc, ip, d1) \<Rightarrow> rc = EINVAL | None \<Rightarrow> True)"
    by (auto dest: list_get_node_fails split: option.splits)
  then show ?thesis
    using l e nz by (intro exI [of _ os']) (auto simp: sea_controller_read_def Let_def split: option.splits)
qed

section \<open>Writing\<close>

definition payloads_of :: "(u64 \<rightharpoonup> byte list list) \<Rightarrow> u64 \<Rightarrow> byte list list" where
  "payloads_of M bid = (case M bid of None \<Rightarrow> [] | Some ds \<Rightarrow> ds)"

lemma open_current_run:
  assumes h: "dir_holds os DATA_DIR N"
  shows "\<exists>b os' di ii. open_current_block bid os = (Some b, os') \<and> block_at os' b di ii (payloads_of N bid) 0
    \<and> block_named os' DATA_DIR bid di ii \<and> dir_holds os' DATA_DIR (N(bid \<mapsto> payloads_of N bid))
    \<and> block_max b = block_cap \<and> block_fds b \<subseteq> {0<..}"
proof (cases "N bid")
  case (Some ds)
  have p: "payloads_of N bid = ds" "N(bid \<mapsto> ds) = N" using Some by (simp_all add: payloads_of_def fun_upd_idem)
  obtain di ii where d: "block_on_disk os DATA_DIR bid di ii ds" and m: "disk_max os ii = unat SEA_BLOCK_MAX_COUNT_DEFAULT"
    using dir_holdsD(6) [OF h Some] by blast
  obtain b1 os1 where o1: "sea_block_open DATA_DIR bid os = (Some b1, os1)" and e1: "os_ext os os1"
    using block_reopen [OF dir_holdsD(1,2) [OF h] d] by blast
  have r1: "reliable os1" "os_wf os1" "disk_max os1 ii = disk_max os ii"
    using e1 by (simp_all add: os_ext_def disk_max_def)
  have d1: "block_on_disk os1 DATA_DIR bid di ii ds" using d os_ext_on_disk [OF e1] by simp
  obtain b os2 where o2: "sea_block_open DATA_DIR bid os1 = (Some b, os2)" and at: "block_at os2 b di ii ds 0"
    and e2: "os_ext os1 os2" and f: "block_fds b \<subseteq> {os_next_fd os1..}" and mb: "block_max b = disk_max os1 ii"
    using block_reopen [OF r1(1,2) d1] by blast
  have "block_named os2 DATA_DIR bid di ii"
    using block_on_disk_named [OF d1] e2 by (simp add: block_named_def os_ext_def)
  moreover have "dir_holds os2 DATA_DIR N"
    by (rule dir_holds_ext [OF e2 dir_holds_ext [OF e1 h]])
  moreover have "block_fds b \<subseteq> {0<..}" using f r1(2) by (auto simp: os_wf_def)
  moreover have "block_max b = block_cap" using mb r1(3) m block_cap_default by simp
  moreover have "open_current_block bid os = (Some b, os2)" using o1 o2 by (simp add: open_current_block_def)
  ultimately show ?thesis using at unfolding p by blast
next
  case None
  have p: "payloads_of N bid = []" using None by (simp add: payloads_of_def)
  let ?os1 = "(ticked (ticked (ticked os)))\<lparr>os_errno := ENOENT\<rparr>"
  have fr: "block_fresh os DATA_DIR bid" using dir_holdsD(4) [OF h None] .
  have o1: "sea_block_open DATA_DIR bid os = (None, ?os1)"
    by (rule block_open_missing [OF dir_holdsD(1) [OF h]]) (use fr in \<open>simp add: block_fresh_def\<close>)
  have h1: "dir_holds ?os1 DATA_DIR N"
    by (rule dir_holds_same_files [OF h]) (use dir_holdsD(1,2) [OF h] in \<open>simp_all add: os_wf_def\<close>)
  obtain os2 di ii where c: "sea_block_create DATA_DIR bid SEA_BLOCK_MAX_SIZE_DEFAULT SEA_BLOCK_MAX_COUNT_DEFAULT ?os1 = (0, os2)"
    and d2: "block_on_disk os2 DATA_DIR bid di ii []" and r2: "reliable os2" "os_wf os2"
    and n2: "os_names os2 = (os_names ?os1)(sea_block_index_filename DATA_DIR bid PATH_MAX \<mapsto> ii,
          sea_block_data_filename DATA_DIR bid PATH_MAX \<mapsto> di)"
    and m2: "disk_max os2 ii = unat SEA_BLOCK_MAX_COUNT_DEFAULT"
    and s2: "os_dirs os2 = insert (sub_dir DATA_DIR bid) (os_dirs ?os1)"
    and i2: "os_next_ino ?os1 \<le> ii" "os_next_ino ?os1 \<le> di" "\<forall>j < os_next_ino ?os1. os_inodes os2 j = os_inodes ?os1 j"
    using block_create_ok [OF dir_holdsD(1,2) [OF h1] DATA_DIR_length dir_holdsD(4) [OF h1 None],
        of SEA_BLOCK_MAX_SIZE_DEFAULT SEA_BLOCK_MAX_COUNT_DEFAULT] by (auto simp: SEA_BLOCK_MAX_COUNT_DEFAULT_def)
  have h2: "dir_holds os2 DATA_DIR (N(bid \<mapsto> []))"
    by (rule dir_holds_create [OF h1 None DATA_DIR_length r2 d2 m2 n2 s2 i2])
  obtain b os3 where o3: "sea_block_open DATA_DIR bid os2 = (Some b, os3)" and at: "block_at os3 b di ii [] 0"
    and e3: "os_ext os2 os3" and f: "block_fds b \<subseteq> {os_next_fd os2..}" and mb: "block_max b = disk_max os2 ii"
    using block_reopen [OF r2 d2] by blast
  have "block_named os3 DATA_DIR bid di ii"
    using block_on_disk_named [OF d2] e3 by (simp add: block_named_def os_ext_def)
  moreover have "block_fds b \<subseteq> {0<..}" using f r2(2) by (auto simp: os_wf_def)
  moreover have "block_max b = block_cap" using mb m2 block_cap_default by simp
  moreover have "open_current_block bid os = (Some b, os3)" using o1 c o3 by (simp add: open_current_block_def)
  ultimately show ?thesis using at dir_holds_ext [OF e3 h2] unfolding p by blast
qed

text \<open>Whether the block was open or not, it is open then.\<close>

lemma current_block_run:
  assumes rep: "ctl_rep c os M" and ns: "csb_block_id (sc_super_block c) \<noteq> super_id"
  shows "\<exists>b os' di ii q. (case sc_block c of Some b \<Rightarrow> (Some b, os)
        | None \<Rightarrow> open_current_block (csb_block_id (sc_super_block c)) os) = (Some b, os')
    \<and> block_at os' b di ii (payloads_of M (csb_block_id (sc_super_block c))) q
    \<and> block_named os' DATA_DIR (csb_block_id (sc_super_block c)) di ii
    \<and> dir_holds os' DATA_DIR ((M(super_id \<mapsto> []))(csb_block_id (sc_super_block c) \<mapsto> payloads_of M (csb_block_id (sc_super_block c))))
    \<and> block_max b = block_cap \<and> block_fds b \<subseteq> {0<..}"
proof (cases "sc_block c")
  case None
  have p: "payloads_of (M(super_id \<mapsto> [])) (csb_block_id (sc_super_block c)) = payloads_of M (csb_block_id (sc_super_block c))"
    using ns by (simp add: payloads_of_def)
  show ?thesis
    using open_current_run [OF ctl_repD(1) [OF rep], of "csb_block_id (sc_super_block c)"] None unfolding p by fastforce
next
  case (Some b)
  let ?cur = "csb_block_id (sc_super_block c)"
  obtain di ii q ds where o: "block_at os b di ii ds q" "M ?cur = Some ds" "block_named os DATA_DIR ?cur di ii"
    "block_max b = block_cap" "block_fds b \<subseteq> {0<..}"
    using ctl_repD(5) [OF rep Some] by (auto simp: open_block_ok_def)
  have p: "payloads_of M ?cur = ds" using o(2) by (simp add: payloads_of_def)
  have "(M(super_id \<mapsto> []))(?cur \<mapsto> ds) = M(super_id \<mapsto> [])" using o(2) ns by (simp add: fun_upd_idem)
  then have "dir_holds os DATA_DIR ((M(super_id \<mapsto> []))(?cur \<mapsto> ds))" using ctl_repD(1) [OF rep] by simp
  then show ?thesis using o Some unfolding p by auto
qed

lemma os_ext_ticks: "os_ext a b \<Longrightarrow> os_ext a ((ticked ^^ n) b)"
  by (induction n) (simp_all add: os_ext_ticked)

text \<open>Telling the phone list: the block is known afterwards, whatever it answers.\<close>

lemma phones_put:
  assumes "phones_ok c M" and "reliable os" and "card (dom M) < 2 ^ 28" and behind: "2 \<le> length behind"
  shows "\<exists>phones phones1 ret n. sc_phone_list c = Some phones
    \<and> phone_list_put phones bid (node_memory behind) 1 os = Done (ret, phones1, (ticked ^^ n) os)
    \<and> (\<forall>c' ds. sc_phone_list c' = Some phones1 \<longrightarrow> phones_ok c' (M(bid \<mapsto> ds)))"
proof -
  obtain pl P where p: "sc_phone_list c = Some pl" "pl_node_cap pl = 3" "phone_rep pl P" "dom P \<subseteq> dom M"
    using assms(1) by (auto simp: phones_ok_def)
  have "card (dom P) \<le> card (dom M)" using p(4) by (intro card_mono) simp_all
  then have small: "card (dom P) < 2 ^ 28" using assms(3) by simp
  have len: "unat (phone_count pl 1) \<le> length (node_memory behind)"
    using p(2) behind by (simp add: phone_count_def phone_min_def node_memory_def)
  obtain ret pl' n v where r: "phone_list_put pl bid (node_memory behind) 1 os = Done (ret, pl', (ticked ^^ n) os)"
    "phone_rep pl' (P(bid \<mapsto> v))" "pl_node_cap pl' = pl_node_cap pl"
    using phone_list_put_run [OF p(3) assms(2) small len, of bid] by blast
  have "phones_ok c' (M(bid \<mapsto> ds))" if "sc_phone_list c' = Some pl'" for c' ds
    using that r(2,3) p(2,4) unfolding phones_ok_def
    by (intro exI [of _ pl'] exI [of _ "P(bid \<mapsto> v)"]) auto
  then show ?thesis using p(1) r(1) by blast
qed

text \<open>
  It copies three words from the address of one: where the two behind it may not be read, that is
  undefined.
\<close>

lemma phones_put_overreads:
  assumes "phones_ok c M" and "reliable os" and "length behind < 2"
  shows "\<exists>phones. sc_phone_list c = Some phones \<and> phone_list_put phones bid (node_memory behind) 1 os = Undef"
proof -
  obtain pl where p: "sc_phone_list c = Some pl" "pl_node_cap pl = 3"
    using assms(1) by (auto simp: phones_ok_def)
  have "length (node_memory behind) < 3" using assms(3) by (simp add: node_memory_def)
  then show ?thesis
    using p assms(2) by (simp add: phone_list_put_def phone_min_def)
qed

text \<open>Retiring the full block: it stays on disk, and the next id is current.\<close>

lemma retire_run:
  assumes h: "dir_holds os DATA_DIR (M(super_id \<mapsto> []))" and n: "csb_names (sc_super_block c) DATA_DIR ''controller''"
    and b: "sc_block c = Some b" "block_at os b di ii ds q" "block_fds b \<subseteq> {0<..}"
  shows "\<exists>os'. retire_block c bid os = Done (c\<lparr>sc_super_block := (sc_super_block c)\<lparr>csb_block_id :=
        csb_block_id (sc_super_block c) + 1\<rparr>, sc_block := None\<rparr>, os')
    \<and> dir_holds os' DATA_DIR (M(super_id \<mapsto> []))"
proof -
  obtain di0 ii0 where d: "block_on_disk os DATA_DIR super_id di0 ii0 []"
    using dir_holdsD(6) [OF h, of super_id "[]"] by auto
  have l: "length ''controller'' \<le> 32" by simp
  obtain os1 where e: "controller_super_block_expire_block_id (sc_super_block c) bid os
      = Done (0, (sc_super_block c)\<lparr>csb_block_id := csb_block_id (sc_super_block c) + 1\<rparr>, os1)" "os_ext os os1"
    using super_expire_run [OF dir_holdsD(1,2) [OF h] n l d [unfolded super_id_def]] by blast
  have at: "block_at os1 b di ii ds q"
    by (rule os_ext_block_at [OF e(2) dir_holdsD(2) [OF h] b(2)])
  have "dir_holds (sea_block_close b os1) DATA_DIR (M(super_id \<mapsto> []))"
    by (rule dir_holds_close [OF dir_holds_ext [OF e(2) h] at b(3)])
  then show ?thesis using e(1) b(1) by (simp add: retire_block_def)
qed

definition write_ok :: "(u64 \<rightharpoonup> byte list list) \<Rightarrow> u64 \<Rightarrow> byte list \<Rightarrow> bool" where
  "write_ok M cur d \<longleftrightarrow> cur \<noteq> super_id \<and> card (dom M) < 2 ^ 28 \<and> payloads_ok (payloads_of M cur @ [d])"

text \<open>The payload is the new last one of the current block.\<close>

lemma write_local_run:
  assumes rep: "ctl_rep c os M" and ok: "write_ok M (csb_block_id (sc_super_block c)) d"
    and behind: "2 \<le> length behind"
  shows "\<exists>c' os'. sea_controller_write_local behind c (Some d) (int (length d)) os
      = Done (0, Some (csb_block_id (sc_super_block c)), Some (of_nat (length (payloads_of M (csb_block_id (sc_super_block c))))), c', os')
    \<and> ctl_rep c' os' (M(csb_block_id (sc_super_block c) \<mapsto> payloads_of M (csb_block_id (sc_super_block c)) @ [d]))
    \<and> csb_block_id (sc_super_block c') = csb_block_id (sc_super_block c)
        + (if block_cap \<le> Suc (length (payloads_of M (csb_block_id (sc_super_block c)))) then 1 else 0)"
proof -
  let ?cur = "csb_block_id (sc_super_block c)"
  let ?ds = "payloads_of M ?cur"
  let ?N = "(M(?cur \<mapsto> ?ds @ [d]))(super_id \<mapsto> [])"
  have ns: "?cur \<noteq> super_id" and few: "card (dom M) < 2 ^ 28" and pay: "payloads_ok (?ds @ [d])"
    using ok by (simp_all add: write_ok_def)
  have d: "d \<noteq> []" "length d < 2 ^ 31 - 16" "Suc (length ?ds) < 2 ^ 32" "block_bytes ?ds < 2 ^ 62"
    using pay by (auto simp: payloads_ok_def)
  obtain b os1 di ii q where b: "(case sc_block c of Some b \<Rightarrow> (Some b, os) | None \<Rightarrow> open_current_block ?cur os) = (Some b, os1)"
    and at: "block_at os1 b di ii ?ds q" and nm: "block_named os1 DATA_DIR ?cur di ii"
    and h1: "dir_holds os1 DATA_DIR ((M(super_id \<mapsto> []))(?cur \<mapsto> ?ds))"
    and mx: "block_max b = block_cap" and fd: "block_fds b \<subseteq> {0<..}"
    using current_block_run [OF rep ns] by blast
  obtain b2 os2 where ap: "sea_block_append (Some b) (Some d) (int (length d)) os1 =
      Done (0, Some (of_nat (length ?ds)), Some (if block_cap \<le> Suc (length ?ds) then 1 else 0), Some b2, os2)"
    and at2: "block_at os2 b2 di ii (?ds @ [d]) (block_bytes (?ds @ [d]))" and fr: "block_frame b {di, ii} os1 os2"
    and b2: "block_max b2 = block_cap" "block_fds b2 = block_fds b"
    using block_append_ok [OF dir_holdsD(1) [OF h1] at d] unfolding mx by blast
  have k2: "reliable os2" "os_wf os2" "os_names os2 = os_names os1"
    using block_frame_keeps [OF fr] dir_holdsD(1,2) [OF h1] by simp_all
  have "dir_holds os2 DATA_DIR ((M(super_id \<mapsto> []))(?cur \<mapsto> ?ds, ?cur \<mapsto> ?ds @ [d]))"
    by (rule dir_holds_append [OF h1 DATA_DIR_length fr at2 nm _ pay]) (simp_all add: b2 block_cap_default)
  then have h2: "dir_holds os2 DATA_DIR ?N" using ns by (simp add: fun_upd_twist)
  obtain phones phones1 ret n where p: "sc_phone_list c = Some phones"
    "phone_list_put phones ?cur (node_memory behind) 1 os2 = Done (ret, phones1, (ticked ^^ n) os2)"
    "\<forall>c' ds. sc_phone_list c' = Some phones1 \<longrightarrow> phones_ok c' (M(?cur \<mapsto> ds))"
    using phones_put [OF ctl_repD(4) [OF rep] k2(1) few behind, of ?cur] by blast
  let ?os3 = "(ticked ^^ n) os2"
  let ?c3 = "c\<lparr>sc_block := Some b2, sc_phone_list := Some phones1\<rparr>"
  have h3: "dir_holds ?os3 DATA_DIR ?N" by (rule dir_holds_ticked [OF h2])
  have e3: "os_ext os2 ?os3" by (rule os_ext_ticks [OF os_ext_refl [OF k2(1,2)]])
  have at3: "block_at ?os3 b2 di ii (?ds @ [d]) (block_bytes (?ds @ [d]))"
    by (rule os_ext_block_at [OF e3 k2(2) at2])
  have nm3: "block_named ?os3 DATA_DIR ?cur di ii"
    using nm k2(3) e3 by (simp add: block_named_def os_ext_def)
  have fd2: "block_fds b2 \<subseteq> {0<..}" using fd b2(2) by simp
  note wl = sea_controller_write_local_def [of behind c "Some d" "int (length d)" os] controller_super_block_get_block_id_def
  have none: "(M(?cur \<mapsto> ?ds @ [d])) super_id = None" using ns ctl_repD(2) [OF rep] by simp
  show ?thesis
  proof (cases "block_cap \<le> Suc (length ?ds)")
    case False
    have "sea_controller_write_local behind c (Some d) (int (length d)) os
        = Done (0, Some ?cur, Some (of_nat (length ?ds)), ?c3, ?os3)"
      using ap p(1,2) False by (simp add: wl b)
    moreover have "ctl_rep ?c3 ?os3 (M(?cur \<mapsto> ?ds @ [d]))"
      using h3 none ctl_repD(3) [OF rep] p(3) at3 nm3 b2(1) fd2 by (auto simp: ctl_rep_def open_block_ok_def)
    ultimately show ?thesis using False by (intro exI [of _ ?c3] exI [of _ ?os3]) simp
  next
    case True
    obtain os4 where r: "retire_block ?c3 ?cur ?os3 = Done (?c3\<lparr>sc_super_block := (sc_super_block ?c3)\<lparr>csb_block_id :=
        csb_block_id (sc_super_block ?c3) + 1\<rparr>, sc_block := None\<rparr>, os4)" "dir_holds os4 DATA_DIR ?N"
      using retire_run [OF h3, of ?c3 b2 di ii "?ds @ [d]" "block_bytes (?ds @ [d])" ?cur] ctl_repD(3) [OF rep] at3 fd2
      by auto
    let ?c4 = "?c3\<lparr>sc_super_block := (sc_super_block ?c3)\<lparr>csb_block_id := csb_block_id (sc_super_block ?c3) + 1\<rparr>, sc_block := None\<rparr>"
    have "sea_controller_write_local behind c (Some d) (int (length d)) os
        = Done (0, Some ?cur, Some (of_nat (length ?ds)), ?c4, os4)"
      using ap p(1,2) True r(1) by (simp add: wl b)
    moreover have "ctl_rep ?c4 os4 (M(?cur \<mapsto> ?ds @ [d]))"
      using r(2) none ctl_repD(3) [OF rep] p(3) by (simp add: ctl_rep_def)
    ultimately show ?thesis using True by (intro exI [of _ ?c4] exI [of _ os4]) simp
  qed
qed

text \<open>Otherwise the write has appended the payload when it reads too far.\<close>

lemma write_local_overreads:
  assumes rep: "ctl_rep c os M" and ok: "write_ok M (csb_block_id (sc_super_block c)) d"
    and behind: "length behind < 2"
  shows "sea_controller_write_local behind c (Some d) (int (length d)) os = Undef"
proof -
  let ?cur = "csb_block_id (sc_super_block c)"
  let ?ds = "payloads_of M ?cur"
  have ns: "?cur \<noteq> super_id" and pay: "payloads_ok (?ds @ [d])" using ok by (simp_all add: write_ok_def)
  have d: "d \<noteq> []" "length d < 2 ^ 31 - 16" "Suc (length ?ds) < 2 ^ 32" "block_bytes ?ds < 2 ^ 62"
    using pay by (auto simp: payloads_ok_def)
  obtain b os1 di ii q where b: "(case sc_block c of Some b \<Rightarrow> (Some b, os) | None \<Rightarrow> open_current_block ?cur os) = (Some b, os1)"
    and at: "block_at os1 b di ii ?ds q" and h1: "dir_holds os1 DATA_DIR ((M(super_id \<mapsto> []))(?cur \<mapsto> ?ds))"
    using current_block_run [OF rep ns] by blast
  obtain over b2 os2 where ap: "sea_block_append (Some b) (Some d) (int (length d)) os1 =
      Done (0, Some (of_nat (length ?ds)), over, Some b2, os2)" and fr: "block_frame b {di, ii} os1 os2"
    using block_append_ok [OF dir_holdsD(1) [OF h1] at d] by blast
  have "reliable os2" using block_frame_keeps [OF fr] dir_holdsD(1) [OF h1] by simp
  then obtain phones where "sc_phone_list c = Some phones" "phone_list_put phones ?cur (node_memory behind) 1 os2 = Undef"
    using phones_put_overreads [OF ctl_repD(4) [OF rep] _ behind] by blast
  then show ?thesis
    using ap by (simp add: sea_controller_write_local_def controller_super_block_get_block_id_def b)
qed

section \<open>Starting\<close>

text \<open>A controller created in a directory without blocks.\<close>

lemma controller_create_run:
  assumes r: "reliable os" "os_wf os" "names_inj os" and mem: "super_memory os DATA_DIR ''controller''"
    and fresh: "\<forall>bid. block_fresh os DATA_DIR bid"
  shows "\<exists>c os'. sea_controller_create DATA_DIR os = Done (Some c, os') \<and> ctl_rep c os' Map.empty
    \<and> csb_block_id (sc_super_block c) = super_id + 1"
proof -
  let ?os = "(ticked ^^ 3) os"
  have t: "(ticked ^^ 3) os = ticked (ticked (ticked os))" by (simp add: eval_nat_numeral)
  have h0: "dir_holds os DATA_DIR Map.empty" using r fresh by (simp add: dir_holds_def block_entry_def)
  have h: "dir_holds ?os DATA_DIR Map.empty" by (rule dir_holds_ticked [OF h0])
  obtain pl where p: "phone_list_create 3 (ticked os) = (Some pl, ?os)" "phone_rep pl Map.empty" "pl_node_cap pl = 3"
    using phone_list_create_run [of "ticked os" 3] r(1) unfolding t by auto
  have m: "super_memory ?os DATA_DIR ''controller''" using mem unfolding t by simp
  have f: "block_fresh ?os DATA_DIR (graph_id (bytes_of_string ''controller''))"
    using dir_holdsD(4) [OF h] by simp
  obtain sb os' di ii where s: "controller_super_block_open_or_create DATA_DIR ''controller'' ?os = Done (Some sb, None, os')"
    and id: "csb_block_id sb = super_id + 1" and n: "csb_names sb DATA_DIR ''controller''"
    and d: "block_on_disk os' DATA_DIR super_id di ii []" and r': "reliable os'" "os_wf os'"
    and nm: "os_names os' = (os_names ?os)(sea_block_index_filename DATA_DIR super_id PATH_MAX \<mapsto> ii,
          sea_block_data_filename DATA_DIR super_id PATH_MAX \<mapsto> di)"
    and ds: "os_dirs os' = insert (sub_dir DATA_DIR super_id) (os_dirs ?os)"
    and i: "os_next_ino ?os \<le> ii" "os_next_ino ?os \<le> di" and mx: "disk_max os' ii = unat SEA_BLOCK_MAX_COUNT_DEFAULT"
    and j: "\<forall>j < os_next_ino ?os. os_inodes os' j = os_inodes ?os j"
    using super_open_fresh [OF dir_holdsD(1,2) [OF h] m f] unfolding super_id_def by blast
  have "dir_holds os' DATA_DIR (Map.empty(super_id \<mapsto> []))"
    by (rule dir_holds_create [OF h _ DATA_DIR_length r' d mx nm ds i j]) simp
  moreover have "phones_ok \<lparr>sc_super_block = sb, sc_block = None, sc_phone_list = Some pl\<rparr> Map.empty"
    using p(2,3) by (auto simp: phones_ok_def)
  moreover have "sea_controller_create DATA_DIR os
      = Done (Some \<lparr>sc_super_block = sb, sc_block = None, sc_phone_list = Some pl\<rparr>, os')"
    using r(1) p(1) s by (simp add: sea_controller_create_def)
  ultimately show ?thesis
    using n id by (intro exI [of _ "\<lparr>sc_super_block = sb, sc_block = None, sc_phone_list = Some pl\<rparr>"] exI [of _ os'])
      (simp add: ctl_rep_def)
qed

end
