(* ===== verification/SeaControllerLog.thy ===== *)
theory SeaControllerLog
  imports SeaControllerRun SeaLog
begin

text \<open>
  A controller that started in an empty directory is an append-only log of payloads, split
  into blocks of \<open>block_cap\<close> records: the interface \<open>append_log\<close> is interpreted on its writes
  and reads.  The properties of the controller are at the end.
\<close>

section \<open>The log\<close>

text \<open>The blocks that hold the log \<open>ds\<close>: ids count on from the one after the super block.\<close>

definition block_no :: "u64 \<Rightarrow> nat" where
  "block_no bid = unat (bid - super_id - 1)"

definition block_id_of :: "nat \<Rightarrow> u64" where
  "block_id_of j = super_id + 1 + of_nat j"

lemma block_no_id [simp]: "j < 2 ^ 64 \<Longrightarrow> block_no (block_id_of j) = j"
  by (simp add: block_no_def block_id_of_def unat_of_nat)

lemma block_id_no [simp]: "block_id_of (block_no bid) = bid"
  by (simp add: block_no_def block_id_of_def)

lemma block_no_super: "block_no super_id = 2 ^ 64 - 1"
  by (simp add: block_no_def unsigned_minus_1_eq_mask mask_eq_exp_minus_1)

definition log_blocks :: "byte list list \<Rightarrow> u64 \<rightharpoonup> byte list list" where
  "log_blocks ds bid =
     (if block_cap * block_no bid < length ds
      then Some (take block_cap (drop (block_cap * block_no bid) ds)) else None)"

text \<open>What one response can carry.\<close>

definition fetch_max :: nat where "fetch_max = 1024 * 128"

definition ctl_fits :: "byte list list \<Rightarrow> byte list \<Rightarrow> bool" where
  "ctl_fits ds d \<longleftrightarrow> d \<noteq> [] \<and> length d \<le> fetch_max \<and> length ds < 2 ^ 40"

fun ctl_log :: "sea_controller \<times> world \<Rightarrow> byte list list \<Rightarrow> bool" where
  "ctl_log (c, w) ds \<longleftrightarrow> ctl_rep c (w_os w) (log_blocks ds) \<and> length ds \<le> 2 ^ 40
     \<and> csb_block_id (sc_super_block c) = block_id_of (length ds div block_cap)
     \<and> (\<forall>d \<in> set ds. d \<noteq> [] \<and> length d \<le> fetch_max)"

section \<open>Splitting the log into blocks\<close>

lemma cap_pos [simp]: "0 < block_cap"
  by (simp add: block_cap_def)

lemma div_cap_le: "n \<le> 2 ^ 40 \<Longrightarrow> n div block_cap \<le> 2 ^ 23"
  using div_le_mono [of n "2 ^ 40" block_cap] by (simp add: block_cap_def)

lemma log_tail:
  "payloads_of (log_blocks ds) bid = drop (block_cap * (length ds div block_cap)) ds"
  if "block_no bid = length ds div block_cap"
proof -
  have "length (drop (block_cap * (length ds div block_cap)) ds) = length ds mod block_cap"
    by (simp add: minus_mult_div_eq_mod)
  moreover have "length ds mod block_cap < block_cap" by simp
  ultimately show ?thesis
    using that by (auto simp: payloads_of_def log_blocks_def take_all_iff)
qed

lemma log_blocks_snoc:
  assumes "block_no bid = length ds div block_cap"
  shows "(log_blocks ds)(bid \<mapsto> drop (block_cap * (length ds div block_cap)) ds @ [d]) = log_blocks (ds @ [d])"
proof
  fix b
  let ?j = "length ds div block_cap" and ?L = "length ds"
  have L: "block_cap * ?j \<le> ?L" "?L < block_cap * Suc ?j"
    using dividend_less_times_div [of block_cap ?L] by (simp_all add: algebra_simps)
  show "((log_blocks ds)(bid \<mapsto> drop (block_cap * ?j) ds @ [d])) b = log_blocks (ds @ [d]) b"
  proof (cases "b = bid")
    case True
    have "length (drop (block_cap * ?j) ds @ [d]) \<le> block_cap"
      using L(2) by (simp add: less_diff_conv2 Suc_le_eq L(1))
    moreover have "block_cap * ?j < Suc ?L" using L(1) by (simp only: less_Suc_eq_le)
    ultimately show ?thesis using True assms by (simp add: log_blocks_def)
  next
    case False
    then have ne: "block_no b \<noteq> ?j" using assms by (metis block_id_no)
    show ?thesis
    proof (cases "block_no b < ?j")
      case True
      then have "block_cap * Suc (block_no b) \<le> block_cap * ?j" by (intro mult_le_mono2) simp
      then have "block_cap * block_no b + block_cap \<le> ?L" using L(1) by (metis add.commute mult_Suc_right order_trans)
      moreover from this have "block_cap * block_no b < ?L" using cap_pos by linarith
      ultimately show ?thesis using False by (simp add: log_blocks_def)
    next
      case f: False
      then have "block_cap * Suc ?j \<le> block_cap * block_no b" using ne by (intro mult_le_mono2) simp
      then have "\<not> block_cap * block_no b < Suc ?L" using L(2) by simp
      then show ?thesis using False by (simp add: log_blocks_def)
    qed
  qed
qed

lemma card_log_blocks:
  assumes "length ds \<le> 2 ^ 40"
  shows "card (dom (log_blocks ds)) < 2 ^ 28"
proof -
  have "block_no b \<le> 2 ^ 23" if "b \<in> dom (log_blocks ds)" for b
    using that assms by (auto simp: log_blocks_def block_cap_def split: if_splits)
  then have "dom (log_blocks ds) \<subseteq> block_id_of ` {..2 ^ 23}"
    using block_id_no by (metis atMost_iff imageI subsetI)
  then have "card (dom (log_blocks ds)) \<le> card (block_id_of ` {..(2 :: nat) ^ 23})"
    by (intro card_mono) simp_all
  also have "\<dots> \<le> card {..(2 :: nat) ^ 23}" by (rule card_image_le) simp
  finally show ?thesis by simp
qed

lemma block_bytes_le:
  "\<forall>d \<in> set ds. length d \<le> k \<Longrightarrow> block_bytes ds \<le> (16 + k) * length ds"
  by (induction ds) auto

lemma write_fits:
  assumes "ctl_log (c, w) ds" and "ctl_fits ds d"
  shows "write_ok (log_blocks ds) (csb_block_id (sc_super_block c)) d"
proof -
  let ?cur = "csb_block_id (sc_super_block c)"
  let ?t = "drop (block_cap * (length ds div block_cap)) ds"
  have few: "length ds \<le> 2 ^ 40" using assms(1) by simp
  have j: "length ds div block_cap \<le> 2 ^ 23" by (rule div_cap_le [OF few])
  have cur: "?cur = block_id_of (length ds div block_cap)" using assms(1) by simp
  then have no: "block_no ?cur = length ds div block_cap" using j by simp
  have "?cur \<noteq> super_id" using no j block_no_super by auto
  moreover have "payloads_ok (payloads_of (log_blocks ds) ?cur @ [d])"
  proof -
    have all: "\<forall>x \<in> set (?t @ [d]). x \<noteq> [] \<and> length x \<le> fetch_max"
      using assms by (auto simp: ctl_fits_def dest: in_set_dropD)
    have "length ?t = length ds mod block_cap" by (simp add: minus_mult_div_eq_mod)
    then have len: "length (?t @ [d]) \<le> 2 ^ 17"
      using mod_less_divisor [OF cap_pos, of "length ds"] by (simp add: block_cap_def)
    have "block_bytes (?t @ [d]) \<le> (16 + fetch_max) * length (?t @ [d])"
      by (rule block_bytes_le) (use all in blast)
    also have "\<dots> \<le> (16 + fetch_max) * 2 ^ 17" using len by (rule mult_le_mono2)
    finally have "block_bytes (?t @ [d]) < 2 ^ 62" by (simp add: fetch_max_def)
    moreover have "length (?t @ [d]) < 2 ^ 32" using len by simp
    moreover have "\<forall>x \<in> set (?t @ [d]). x \<noteq> [] \<and> length x < 2 ^ 31 - 16" using all by (auto simp: fetch_max_def)
    ultimately show ?thesis unfolding log_tail [OF no] payloads_ok_def by blast
  qed
  ultimately show ?thesis using card_log_blocks [OF few] by (simp add: write_ok_def)
qed

section \<open>Writing and reading through the controller\<close>

lemma write_step:
  assumes log: "ctl_log (c, w) ds" and fits: "ctl_fits ds d" and behind: "2 \<le> length (w_behind w)"
  shows "\<exists>c' os'. sea_controller_write c (Some d) (int (length d)) w
      = Done (0, Some (block_id_of (length ds div block_cap)), Some (of_nat (length ds mod block_cap)), c', w\<lparr>w_os := os'\<rparr>)
    \<and> ctl_log (c', w\<lparr>w_os := os'\<rparr>) (ds @ [d])"
proof -
  let ?cur = "csb_block_id (sc_super_block c)" and ?j = "length ds div block_cap"
  let ?t = "drop (block_cap * ?j) ds"
  have rep: "ctl_rep c (w_os w) (log_blocks ds)" and few: "length ds \<le> 2 ^ 40" and cur: "?cur = block_id_of ?j"
    using log by simp_all
  have "?j \<le> 2 ^ 23" by (rule div_cap_le [OF few])
  then have no: "block_no ?cur = ?j" using cur by simp
  have t: "length ?t = length ds mod block_cap" by (simp add: minus_mult_div_eq_mod)
  obtain c' os' where w: "sea_controller_write_local (w_behind w) c (Some d) (int (length d)) (w_os w)
      = Done (0, Some ?cur, Some (of_nat (length ?t)), c', os')"
    and r: "ctl_rep c' os' ((log_blocks ds)(?cur \<mapsto> ?t @ [d]))"
    and id: "csb_block_id (sc_super_block c') = ?cur + (if block_cap \<le> Suc (length ?t) then 1 else 0)"
    using write_local_run [OF rep write_fits [OF log fits] behind] unfolding log_tail [OF no] by blast
  have "block_cap \<le> Suc (length ds mod block_cap) \<longleftrightarrow> Suc (length ds mod block_cap) = block_cap"
    by (metis Suc_le_eq cap_pos le_antisym mod_less_divisor order_refl)
  then have "block_cap \<le> Suc (length ds mod block_cap) \<longleftrightarrow> Suc (length ds) mod block_cap = 0"
    by (simp add: mod_Suc)
  then have "csb_block_id (sc_super_block c') = block_id_of (length (ds @ [d]) div block_cap)"
    unfolding id t cur by (simp add: div_Suc block_id_of_def)
  then have "ctl_log (c', w\<lparr>w_os := os'\<rparr>) (ds @ [d])"
    using r log fits unfolding log_blocks_snoc [OF no] by (auto simp: ctl_fits_def)
  moreover have "sea_controller_write c (Some d) (int (length d)) w
      = Done (0, Some (block_id_of ?j), Some (of_nat (length ds mod block_cap)), c', w\<lparr>w_os := os'\<rparr>)"
    using w unfolding t cur by (simp add: sea_controller_write_def)
  ultimately show ?thesis by blast
qed

text \<open>Where less than two words may be read behind the local \<open>node\<close>, every write reads too far.\<close>

lemma write_step_overreads:
  assumes log: "ctl_log (c, w) ds" and fits: "ctl_fits ds d" and behind: "length (w_behind w) < 2"
  shows "sea_controller_write c (Some d) (int (length d)) w = Undef"
proof -
  have "ctl_rep c (w_os w) (log_blocks ds)" using log by simp
  then have "sea_controller_write_local (w_behind w) c (Some d) (int (length d)) (w_os w) = Undef"
    by (rule write_local_overreads [OF _ write_fits [OF log fits] behind])
  then show ?thesis by (simp add: sea_controller_write_def)
qed

lemma read_step:
  assumes log: "ctl_log (c, w) ds" and k: "k < length ds"
    and fits: "length (ds ! k) \<le> unat buf_len" "length (ds ! k) \<le> length mem"
  shows "\<exists>os'. sea_controller_read (block_id_of (k div block_cap)) (of_nat (k mod block_cap)) mem buf_len w
      = Done (0, Some (of_nat (length (ds ! k))), put_at 0 (ds ! k) mem, w\<lparr>w_os := os'\<rparr>)
    \<and> ctl_log (c, w\<lparr>w_os := os'\<rparr>) ds"
proof -
  let ?j = "k div block_cap"
  let ?b = "take block_cap (drop (block_cap * ?j) ds)"
  have rep: "ctl_rep c (w_os w) (log_blocks ds)" and few: "length ds \<le> 2 ^ 40" using log by simp_all
  have "?j \<le> 2 ^ 23" by (rule div_cap_le) (use few k in simp)
  then have no: "block_no (block_id_of ?j) = ?j" by simp
  have kk: "block_cap * ?j + k mod block_cap = k" by simp
  then have "block_cap * ?j < length ds" using k by linarith
  then have m: "log_blocks ds (block_id_of ?j) = Some ?b" by (simp add: log_blocks_def no)
  have "k mod block_cap < length ds - block_cap * ?j" using k kk by linarith
  then have r: "k mod block_cap < length ?b" using mod_less_divisor [OF cap_pos, of k] by simp
  have e: "?b ! (k mod block_cap) = ds ! k"
    using \<open>block_cap * ?j < length ds\<close> kk by (simp add: nth_drop)
  show ?thesis
    using controller_read_run [OF rep m r, of buf_len mem] fits log unfolding e by auto
qed

text \<open>The number of a record, from its two ids.\<close>

definition record_no :: "u64 \<Rightarrow> u32 \<Rightarrow> nat" where
  "record_no bid rid = block_no bid * block_cap + unat rid"

text \<open>The log in a process whose stack lets a write read what it reads.\<close>

definition ctl_store :: "sea_controller \<times> world \<Rightarrow> byte list list \<Rightarrow> bool" where
  "ctl_store s ds \<longleftrightarrow> ctl_log s ds \<and> 2 \<le> length (w_behind (snd s))"

definition ctl_put :: "byte list \<Rightarrow> sea_controller \<times> world \<Rightarrow> (nat \<times> (sea_controller \<times> world)) option" where
  "ctl_put d s =
     (case sea_controller_write (fst s) (Some d) (int (length d)) (snd s) of
        Done (ret, Some bid, Some rid, c1, w1) \<Rightarrow> if ret = 0 then Some (record_no bid rid, c1, w1) else None
      | _ \<Rightarrow> None)"

definition ctl_get :: "nat \<Rightarrow> sea_controller \<times> world \<Rightarrow> (byte list \<times> (sea_controller \<times> world)) option" where
  "ctl_get k s =
     (case sea_controller_read (block_id_of (k div block_cap)) (of_nat (k mod block_cap))
             (replicate fetch_max 0) (of_nat fetch_max) (snd s) of
        Done (ret, Some n, buf, w1) \<Rightarrow> if ret = 0 then Some (take (unat n) buf, fst s, w1) else None
      | _ \<Rightarrow> None)"

interpretation controller_log: append_log ctl_store ctl_fits ctl_put ctl_get
proof
  fix s ds d
  assume st: "ctl_store s ds" and f: "ctl_fits ds d"
  obtain c w where s: "s = (c, w)" by (cases s)
  have a: "ctl_log (c, w) ds" "ctl_fits ds d" "2 \<le> length (w_behind w)"
    using st f by (simp_all add: ctl_store_def s del: ctl_log.simps)
  obtain c' os' where w: "sea_controller_write c (Some d) (int (length d)) w
      = Done (0, Some (block_id_of (length ds div block_cap)), Some (of_nat (length ds mod block_cap)), c', w\<lparr>w_os := os'\<rparr>)"
    "ctl_log (c', w\<lparr>w_os := os'\<rparr>) (ds @ [d])"
    using write_step [OF a] by blast
  have "length ds div block_cap \<le> 2 ^ 23" using a(1) by (intro div_cap_le) simp
  moreover have "length ds mod block_cap < 2 ^ 32"
    using mod_less_divisor [OF cap_pos, of "length ds"] by (simp add: block_cap_def)
  ultimately have "record_no (block_id_of (length ds div block_cap)) (of_nat (length ds mod block_cap)) = length ds"
    by (simp add: record_no_def unat_of_nat)
  then show "\<exists>s'. ctl_put d s = Some (length ds, s') \<and> ctl_store s' (ds @ [d])"
    using w a(3) by (simp add: ctl_put_def ctl_store_def s del: ctl_log.simps)
next
  fix s ds k
  assume st: "ctl_store s ds" and k: "k < length ds"
  obtain c w where s: "s = (c, w)" by (cases s)
  have a: "ctl_log (c, w) ds" "2 \<le> length (w_behind w)" using st by (simp_all add: ctl_store_def s del: ctl_log.simps)
  have l: "length (ds ! k) \<le> fetch_max" using a(1) nth_mem [OF k] by auto
  then have u: "length (ds ! k) \<le> unat (of_nat fetch_max :: u32)" "length (ds ! k) \<le> length (replicate fetch_max (0 :: byte))"
    "unat (of_nat (length (ds ! k)) :: u32) = length (ds ! k)"
    by (simp_all add: fetch_max_def unat_of_nat)
  obtain os' where r: "sea_controller_read (block_id_of (k div block_cap)) (of_nat (k mod block_cap))
      (replicate fetch_max 0) (of_nat fetch_max) w
      = Done (0, Some (of_nat (length (ds ! k))), put_at 0 (ds ! k) (replicate fetch_max 0), w\<lparr>w_os := os'\<rparr>)"
    "ctl_log (c, w\<lparr>w_os := os'\<rparr>) ds"
    using read_step [of c w ds k "of_nat fetch_max" "replicate fetch_max 0"] a(1) k u(1,2) by blast
  have "take (length (ds ! k)) (put_at 0 (ds ! k) (replicate fetch_max 0)) = ds ! k" by (simp add: put_at_def)
  then show "\<exists>s'. ctl_get k s = Some (ds ! k, s') \<and> ctl_store s' ds"
    using r a(2) u(3) by (simp add: ctl_get_def ctl_store_def s del: ctl_log.simps)
qed

end
