(* ===== verification/SeaServerRun.thy ===== *)
theory SeaServerRun
  imports SeaServer SeaControllerLog
begin

text \<open>
  Lemmas on the server: the id of a record printed into a response and read back from a URI,
  and the handlers followed through on a controller whose store is a log.
\<close>

section \<open>Printing and reading an id\<close>

lemma strtok_Nil [simp]: "strtok c [] = None"
  by (simp add: strtok_def)

lemma strtok_token [simp]:
  "t \<noteq> [] \<Longrightarrow> c \<notin> set t \<Longrightarrow> strtok c (t @ c # rest) = Some (t, rest)"
  "t \<noteq> [] \<Longrightarrow> c \<notin> set t \<Longrightarrow> strtok c t = Some (t, [])"
proof -
  assume t: "t \<noteq> []" "c \<notin> set t"
  then obtain x xs where x: "t = x # xs" "x \<noteq> c" by (cases t) auto
  have tw: "takeWhile (\<lambda>y. y \<noteq> c) (t @ ys) = t @ takeWhile (\<lambda>y. y \<noteq> c) ys"
    "dropWhile (\<lambda>y. y \<noteq> c) (t @ ys) = dropWhile (\<lambda>y. y \<noteq> c) ys" for ys
    using t(2) by (auto intro!: takeWhile_append2 dropWhile_append2)
  show "strtok c (t @ c # rest) = Some (t, rest)"
    using x tw [of "c # rest"] by (simp add: strtok_def)
  show "strtok c t = Some (t, [])"
    using x tw [of "[]"] by (simp add: strtok_def dropWhile_eq_Nil_conv [THEN iffD2])
qed

lemma atol_dec_str_cases: "c_atol (dec_str n) = (if n < 2 ^ 63 then Done (int n) else Undef)"
proof -
  obtain c cs where d: "dec_str n = c # cs" by (cases "dec_str n") simp_all
  obtain k :: nat where k: "k < 10" "c = char_of (48 + k)" using dec_str_digit [of c n] d by auto
  then have code: "(of_char c :: nat) = 48 + k" by simp
  then have "\<not> is_space c" "c \<noteq> CHR ''-''" "c \<noteq> CHR ''+''" by (auto simp: is_space_def)
  moreover have "SeaPrelude.digits_val 0 (c # cs) = n" using digits_val_dec_str [of n "[]"] d by simp
  ultimately show ?thesis
    using d by (simp add: c_atol_def del: SeaPrelude.digits_val.simps)
qed

lemma atol_dec_str: "n < 2 ^ 63 \<Longrightarrow> c_atol (dec_str n) = Done (int n)"
  by (simp add: atol_dec_str_cases)

lemma dec_str_no [simp]: "CHR ''='' \<notin> set (dec_str n)" "CHR ''_'' \<notin> set (dec_str n)"
proof -
  have "\<forall>c \<in> set (dec_str n). 48 \<le> (of_char c :: nat) \<and> (of_char c :: nat) < 58"
    by (auto dest!: dec_str_digit)
  then show "CHR ''='' \<notin> set (dec_str n)" "CHR ''_'' \<notin> set (dec_str n)" by auto
qed

text \<open>What the server prints for a record, and what a client puts behind the equals sign.\<close>

definition id_text :: "u64 \<Rightarrow> u32 \<Rightarrow> string" where
  "id_text bid rid = dec_str (unat bid) @ ''_'' @ dec_str (unat rid)"

lemma read_id_cases:
  assumes "CHR ''='' \<notin> set p" and "p \<noteq> []"
  shows "get_block_id_and_record_id (p @ ''='' @ id_text bid rid)
      = (if unat bid < 2 ^ 63 then Done (0, Some bid, Some rid) else Undef)"
proof -
  have "CHR ''='' \<notin> set (id_text bid rid)" "id_text bid rid \<noteq> []" by (simp_all add: id_text_def)
  then have s: "strtok CHR ''='' (p @ CHR ''='' # id_text bid rid) = Some (p, id_text bid rid)"
    "strtok CHR ''='' (id_text bid rid) = Some (id_text bid rid, [])"
    "strtok CHR ''_'' (id_text bid rid) = Some (dec_str (unat bid), dec_str (unat rid))"
    using assms by (simp_all add: id_text_def)
  have "unat rid < 2 ^ 63" using unsigned_less [of rid, where 'a = nat] by simp
  then show ?thesis using s by (simp add: get_block_id_and_record_id_def atol_dec_str_cases)
qed

lemma read_id_text:
  assumes "CHR ''='' \<notin> set p" and "p \<noteq> []" and "unat bid < 2 ^ 63"
  shows "get_block_id_and_record_id (p @ ''='' @ id_text bid rid) = Done (0, Some bid, Some rid)"
  using read_id_cases [OF assms(1,2)] assms(3) by simp

text \<open>The part of a response that a client takes for the id: what stands between the quotes.\<close>

definition json_id :: "string \<Rightarrow> string" where
  "json_id s = takeWhile (\<lambda>c. c \<noteq> CHR 0x22) (drop 7 s)"

lemma id_json_text: "id_json bid rid = ''{\"id\":\"'' @ id_text bid rid @ ''\"}''"
proof -
  have "length (dec_str (unat bid)) \<le> 20" by (rule length_dec_str_u64)
  moreover have "length (dec_str (unat rid)) \<le> 20"
    using unsigned_less [of rid, where 'a = nat] by (intro order_trans [OF length_dec_str [of _ 9]]) simp_all
  ultimately show ?thesis by (simp add: id_json_def id_text_def snprintf_str_def)
qed

lemma json_id_json [simp]: "json_id (id_json bid rid) = id_text bid rid"
proof -
  have "c \<noteq> CHR 0x22" if c: "c \<in> set (dec_str n)" for c n
  proof -
    obtain k :: nat where "c = char_of (48 + k)" "k < 10" using c by (auto dest!: dec_str_digit)
    then have "(of_char c :: nat) = 48 + k" by simp
    then show ?thesis by auto
  qed
  then have "takeWhile (\<lambda>c. c \<noteq> CHR 0x22) (id_text bid rid @ ''\"}'') = id_text bid rid"
    by (subst takeWhile_append2) (auto simp: id_text_def)
  then show ?thesis by (simp add: json_id_def id_json_text)
qed

section \<open>The ids of a log fit a long\<close>

lemma hex_digit_le: "n < 16 \<Longrightarrow> (of_char (hex_digit n) :: nat) \<le> 102"
  by (simp add: hex_digit_def)

lemma unat_of_char: "unat (of_char c :: byte) = of_char c"
proof -
  have "(of_char c :: nat) < 256" by simp
  then have "unat (of_nat (of_char c) :: byte) = of_char c" by (simp only: unat_of_nat) simp
  then show ?thesis by (simp only: of_nat_of_char)
qed

lemma le_dec_bound: "\<forall>b \<in> set bs. unat b \<le> 102 \<Longrightarrow> 255 * le_dec bs + 102 \<le> 102 * 256 ^ length bs"
proof (induction bs)
  case (Cons b bs)
  then have "255 * le_dec bs + 102 \<le> 102 * 256 ^ length bs" "unat b \<le> 102" by simp_all
  moreover from this(1) have "256 * (255 * le_dec bs + 102) \<le> 256 * (102 * 256 ^ length bs)" by (rule mult_le_mono2)
  ultimately show ?case by simp
qed simp

lemma graph_id_small: "unat (graph_id name) < 2 ^ 63 - 2 ^ 32"
proof -
  let ?bs = "take 8 (bytes_of_string (concat (map hex_byte (md5_ref name))))"
  have "unat b \<le> 102" if b: "b \<in> set ?bs" for b
  proof -
    obtain c where c: "b = of_char c" "c \<in> set (concat (map hex_byte (md5_ref name)))"
      using in_set_takeD [OF b] by (auto simp: bytes_of_string_def)
    then obtain x where "c \<in> set (hex_byte x)" by auto
    then have "c = hex_digit (unat x div 16) \<or> c = hex_digit (unat x mod 16)" by (simp add: hex_byte_def)
    moreover have "unat x < 256" using unsigned_less [of x, where 'a = nat] by simp
    then have "unat x div 16 < 16" "unat x mod 16 < 16" by simp_all
    ultimately show ?thesis using hex_digit_le by (auto simp: c(1) unat_of_char)
  qed
  moreover have "length ?bs = 8" by simp
  ultimately have "255 * le_dec ?bs + 102 \<le> 102 * 256 ^ 8" using le_dec_bound [of ?bs] by metis
  then have "le_dec ?bs < 2 ^ 63 - 2 ^ 32" by simp
  then show ?thesis by (simp add: graph_id_def u64_of_bytes_def unat_of_nat)
qed

lemma block_id_small:
  assumes "j \<le> 2 ^ 23"
  shows "unat (block_id_of j) < 2 ^ 63"
proof -
  have s: "unat super_id < 2 ^ 63 - 2 ^ 32" unfolding super_id_def by (rule graph_id_small)
  have e: "block_id_of j = of_nat (unat super_id + 1 + j)" by (simp add: block_id_of_def)
  have l: "unat super_id + 1 + j < 2 ^ 63" using s assms by simp
  then have "unat (of_nat (unat super_id + 1 + j) :: u64) = unat super_id + 1 + j"
    by (simp only: unat_of_nat) simp
  then show ?thesis using l unfolding e by (simp only:)
qed

section \<open>The handlers\<close>

text \<open>The HTTP library works: every call to it succeeds.\<close>

definition http_works :: "world \<Rightarrow> bool" where
  "http_works w \<longleftrightarrow> (\<forall>n. w_rv w n = 0)"

lemma http_works_update [simp]:
  "http_works (w\<lparr>w_os := os\<rparr>) = http_works w" "http_works (w\<lparr>w_calls := n\<rparr>) = http_works w"
  by (simp_all add: http_works_def)

lemma nng_call_works [simp]: "http_works w \<Longrightarrow> nng_call w = (0, w\<lparr>w_calls := Suc (w_calls w)\<rparr>)"
  by (simp add: http_works_def nng_call_def)

lemma nng_calls_works: "http_works w \<Longrightarrow> nng_calls cs w = (None, w\<lparr>w_calls := w_calls w + length cs\<rparr>)"
  by (induction cs arbitrary: w) simp_all

lemma atoi_dec_str: "n < 2 ^ 31 \<Longrightarrow> c_atoi (dec_str n) = Done (int n)"
  by (simp add: c_atoi_def atol_dec_str)

lemma ctl_log_calls [simp]:
  "ctl_log (c, w\<lparr>w_calls := n\<rparr>) ds = ctl_log (c, w) ds"
  "ctl_log (c, w\<lparr>w_calls := n, w_os := os\<rparr>) ds = ctl_log (c, w\<lparr>w_os := os\<rparr>) ds"
  by simp_all

definition rest_uri :: "u64 \<Rightarrow> u32 \<Rightarrow> string" where
  "rest_uri bid rid = ''/api/sea?id'' @ ''='' @ id_text bid rid"

lemma rest_get_run:
  assumes log: "ctl_log (c, w) ds" and http: "http_works w" and k: "k < length ds"
  shows "\<exists>w'. rest_handle_get (rest_uri (block_id_of (k div block_cap)) (of_nat (k mod block_cap))) w
      = Done (Reply \<lparr>hr_type = ''image/png'', hr_status = 200, hr_data = ds ! k\<rparr>, w')
    \<and> ctl_log (c, w') ds \<and> http_works w'"
proof -
  let ?w3 = "w\<lparr>w_calls := Suc (Suc (Suc (w_calls w)))\<rparr>"
  have "length ds \<le> 2 ^ 40" using log by simp
  then have "k div block_cap \<le> 2 ^ 23" using k by (intro div_cap_le) simp
  from block_id_small [OF this] have p: "get_block_id_and_record_id (rest_uri (block_id_of (k div block_cap)) (of_nat (k mod block_cap)))
      = Done (0, Some (block_id_of (k div block_cap)), Some (of_nat (k mod block_cap)))"
    unfolding rest_uri_def by (intro read_id_text) simp_all
  have l: "length (ds ! k) \<le> fetch_max" using log nth_mem [OF k] by auto
  have b: "length (ds ! k) \<le> unat (131072 :: u32)" "length (ds ! k) \<le> length (replicate 131072 (0 :: byte))"
    "unat (of_nat (length (ds ! k)) :: u32) = length (ds ! k)"
    using l by (simp_all add: fetch_max_def unat_of_nat)
  have "ctl_log (c, ?w3) ds" using log by simp
  from read_step [OF this k b(1,2)] obtain os' where r: "sea_controller_read (block_id_of (k div block_cap)) (of_nat (k mod block_cap))
      (replicate 131072 0) 131072 ?w3
      = Done (0, Some (of_nat (length (ds ! k))), put_at 0 (ds ! k) (replicate 131072 0), ?w3\<lparr>w_os := os'\<rparr>)"
    "ctl_log (c, ?w3\<lparr>w_os := os'\<rparr>) ds"
    by blast
  have t: "take (length (ds ! k)) (put_at 0 (ds ! k) (replicate 131072 0)) = ds ! k" by (simp add: put_at_def)
  have h3: "http_works (?w3\<lparr>w_os := os'\<rparr>)" using http by simp
  show ?thesis
    using r(2) http h3
    by (intro exI [of _ "?w3\<lparr>w_os := os', w_calls := Suc (Suc (w_calls ?w3))\<rparr>"])
      (simp add: rest_handle_get_def sea_get_def p r(1) set_type_def copy_data_def b(3) t NNG_HTTP_STATUS_OK_def Let_def
        del: ctl_log.simps replicate.simps)
qed

lemma rest_post_run:
  assumes log: "ctl_log (c, w) ds" and http: "http_works w" and fits: "ctl_fits ds body"
    and behind: "2 \<le> length (w_behind w)" and zero: "0 \<in> set (body @ w_behind_body w)"
  shows "\<exists>c' w'. rest_handle_post body c w = Done (Reply \<lparr>hr_type = ''text/plain'', hr_status = 200,
        hr_data = bytes_of_string (''{\"id\":\"'' @ id_text (block_id_of (length ds div block_cap))
          (of_nat (length ds mod block_cap)) @ ''\"}'')\<rparr>, c', w')
    \<and> ctl_log (c', w') (ds @ [body]) \<and> http_works w'"
proof -
  let ?w4 = "w\<lparr>w_calls := Suc (Suc (Suc (Suc (w_calls w))))\<rparr>"
  have ne: "body \<noteq> []" and len: "as_int32 (int (length body)) = int (length body)"
    using fits by (simp_all add: ctl_fits_def fetch_max_def)
  have "ctl_log (c, ?w4) ds" using log by simp
  from write_step [OF this fits] behind obtain c' os' where r: "sea_controller_write c (Some body) (int (length body)) ?w4
      = Done (0, Some (block_id_of (length ds div block_cap)), Some (of_nat (length ds mod block_cap)), c', ?w4\<lparr>w_os := os'\<rparr>)"
    "ctl_log (c', ?w4\<lparr>w_os := os'\<rparr>) (ds @ [body])"
    by auto
  have pr: "print_body body (?w4\<lparr>w_os := os'\<rparr>) = Done ()" using ne zero by (auto simp: print_body_def)
  have h4: "http_works (?w4\<lparr>w_os := os'\<rparr>)" using http by simp
  show ?thesis
    using r(2) http h4 ne
    by (intro exI [of _ c'] exI [of _ "?w4\<lparr>w_os := os', w_calls := Suc (w_calls ?w4)\<rparr>"])
      (simp add: rest_handle_post_def sea_put_def len r(1) pr copy_data_def id_json_text NNG_HTTP_STATUS_OK_def Let_def
        del: ctl_log.simps)
qed

text \<open>
  A request without a body fails locally, and the attempt to find another node dereferences
  half an address.
\<close>

lemma free_node_crashes: "scast (ucast addr :: u32) \<noteq> addr \<Longrightarrow> dht_list_get_free_node addr d = Undef"
  by (simp add: dht_list_get_free_node_def dht_list_get_nodes_def)

lemma ctl_log_current:
  assumes "ctl_log (c, w) ds"
  shows "csb_block_id (sc_super_block c) \<noteq> super_id"
proof -
  have "length ds div block_cap \<le> 2 ^ 23" using assms by (intro div_cap_le) simp
  then have "block_no (csb_block_id (sc_super_block c)) \<le> 2 ^ 23" using assms by simp
  then show ?thesis using block_no_super by auto
qed

lemma write_empty_crashes:
  assumes log: "ctl_log (c, w) ds" and addr: "scast (ucast (w_stack_addr w) :: u32) \<noteq> w_stack_addr w"
  shows "sea_controller_write c None 0 w = Undef"
proof -
  let ?cur = "csb_block_id (sc_super_block c)"
  have rep: "ctl_rep c (w_os w) (log_blocks ds)" using log by simp
  obtain b os1 where b: "(case sc_block c of Some b \<Rightarrow> (Some b, w_os w) | None \<Rightarrow> open_current_block ?cur (w_os w)) = (Some b, os1)"
    using current_block_run [OF rep ctl_log_current [OF log]] by blast
  have "sea_block_append (Some b) None 0 os1 = Done (EINVAL, None, None, Some b, os1)"
    by (simp add: sea_block_append_def split: option.splits)
  then have "sea_controller_write_local (w_behind w) c None 0 (w_os w)
      = Done (EINVAL, Some ?cur, None, c\<lparr>sc_block := Some b\<rparr>, os1)"
    by (simp add: sea_controller_write_local_def controller_super_block_get_block_id_def b EINVAL_def)
  then show ?thesis
    using free_node_crashes [OF addr] by (simp add: sea_controller_write_def EINVAL_def)
qed

section \<open>Messages of other nodes\<close>

lemma dec_hdr_enc [simp]: "dec_hdr (enc_hdr h @ d) = h"
proof -
  have t: "take n (drop n (xs @ d)) = take n (drop n xs)" if "n + n \<le> length xs" for n and xs :: "byte list"
    using that by simp
  have l: "length (bytes_of_u16 e) = 2" "length (bytes_of_u32 l) = 4" "length (bytes_of_u64 b) = 8" for e l b by simp_all
  have "take 2 (drop 2 (enc_hdr h @ d)) = bytes_of_u16 (dh_error h)"
    "take 4 (drop 4 (enc_hdr h @ d)) = bytes_of_u32 (dh_len h)"
    "take 8 (drop 8 (enc_hdr h @ d)) = bytes_of_u64 (dh_block_id h)"
    "take 8 (drop 16 (enc_hdr h @ d)) = bytes_of_u64 (dh_record_id h)"
    by (simp_all add: enc_hdr_def)
  moreover have "hd (enc_hdr h @ d) = dh_method h" by (simp add: enc_hdr_def)
  ultimately show ?thesis by (simp add: dec_hdr_def)
qed

lemma enc_hdr_length [simp]: "length (enc_hdr h) = 24"
  by (simp add: enc_hdr_def)

lemma data_get_run:
  assumes log: "ctl_log (c, w) ds" and k: "k < length ds"
    and fits: "length (ds ! k) \<le> unat (send_size - 24)" "length (ds ! k) \<le> length mem"
    and m: "dh_method m = DATA_SERVER_METHOD_GET" "dh_len m = 24" "dh_block_id m = block_id_of (k div block_cap)"
      "dh_record_id m = of_nat (k mod block_cap)"
  shows "\<exists>w'. data_server_process (enc_hdr m) (h, mem) send_size c w
      = Done (0, (h\<lparr>dh_method := DATA_SERVER_METHOD_GET, dh_error := DATA_SERVER_ERROR_NONE, dh_block_id := dh_block_id m,
            dh_record_id := dh_record_id m\<rparr>, put_at 0 (ds ! k) mem), 24 + of_nat (length (ds ! k)), c, w')
    \<and> ctl_log (c, w') ds"
proof -
  obtain os' where r: "sea_controller_read (block_id_of (k div block_cap)) (of_nat (k mod block_cap)) mem (send_size - 24) w
      = Done (0, Some (of_nat (length (ds ! k))), put_at 0 (ds ! k) mem, w\<lparr>w_os := os'\<rparr>)"
    "ctl_log (c, w\<lparr>w_os := os'\<rparr>) ds"
    using read_step [OF log k fits] by blast
  have u: "(ucast (of_nat (k mod block_cap) :: u64) :: u32) = of_nat (k mod block_cap)"
  proof -
    have "k mod block_cap < 2 ^ 17" using mod_less_divisor [OF cap_pos, of k] by (simp add: block_cap_def)
    then show ?thesis by (simp add: unsigned_of_nat take_bit_nat_eq_self)
  qed
  show ?thesis
    using r(2) dec_hdr_enc [of m "[]"]
    by (intro exI [of _ "w\<lparr>w_os := os'\<rparr>"])
      (simp add: data_server_process_def m r(1) u Let_def del: dec_hdr_enc ctl_log.simps)
qed

text \<open>A message to store is read beyond its end.\<close>

lemma append_overread:
  assumes at: "block_at os b di ii ds q" and rel: "reliable os" and len: "length d < n" "n < 2 ^ 31 - 16"
  shows "sea_block_append (Some b) (Some d) (int n) os = Undef"
proof -
  obtain dfd ix es fs where b: "sb_data b = Some \<lparr>sd_fd = dfd\<rparr>" "sb_index b = Some ix"
    by (rule block_atE [OF at])
  have u: "unat (of_nat n :: u32) = n" using len by (simp add: unat_of_nat)
  have f: "0 \<le> frame_buf_len (of_nat n)" using len u by (simp add: frame_buf_len_def uint_nat)
  have "sea_block_data_append \<lparr>sd_fd = dfd\<rparr> d (of_nat n) os = Undef"
    using rel f len u by (simp add: sea_block_data_append_def Let_def)
  then show ?thesis using len(1) by (simp add: sea_block_append_def b)
qed

lemma data_put_crashes:
  assumes log: "ctl_log (c, w) ds" and len: "length d + 24 < 2 ^ 31 - 16"
    and m: "dh_method m = DATA_SERVER_METHOD_PUT" "dh_len m = of_nat (length d + 24)"
  shows "data_server_process (enc_hdr m @ d) send send_size c w = Undef"
proof -
  let ?cur = "csb_block_id (sc_super_block c)"
  have rep: "ctl_rep c (w_os w) (log_blocks ds)" using log by simp
  obtain b os1 di ii q where b: "(case sc_block c of Some b \<Rightarrow> (Some b, w_os w) | None \<Rightarrow> open_current_block ?cur (w_os w)) = (Some b, os1)"
    and at: "block_at os1 b di ii (payloads_of (log_blocks ds) ?cur) q"
    and h: "dir_holds os1 DATA_DIR (((log_blocks ds)(super_id \<mapsto> []))(?cur \<mapsto> payloads_of (log_blocks ds) ?cur))"
    using current_block_run [OF rep ctl_log_current [OF log]] by blast
  have "sea_block_append (Some b) (Some d) (int (length d + 24)) os1 = Undef"
    by (rule append_overread [OF at dir_holdsD(1) [OF h] _ len]) simp
  then have w: "sea_controller_write c (Some d) (int (length d + 24)) w = Undef"
    by (simp add: sea_controller_write_def sea_controller_write_local_def controller_super_block_get_block_id_def b)
  have s: "sint (of_nat (length d + 24) :: u32) = int (length d + 24)"
    using len by (simp add: signed_of_nat signed_take_bit_int_eq_self del: of_nat_add)
  have "DATA_SERVER_METHOD_PUT \<noteq> DATA_SERVER_METHOD_GET"
    by (simp add: DATA_SERVER_METHOD_PUT_def DATA_SERVER_METHOD_GET_def)
  then show ?thesis
    using w s by (simp add: data_server_process_def m Let_def case_prod_beta add.commute)
qed

text \<open>No lookup reports more bytes than there was room for.\<close>

lemma read_bound:
  assumes "sea_controller_read bid rid buf buf_len w = Done (0, Some n, buf1, w1)"
  shows "n \<le> buf_len"
proof (cases "sea_controller_read_from_local bid rid buf (sint buf_len) (w_os w)")
  case (Done x)
  obtain ret k buf' os' where x: "x = (ret, k, buf', os')" by (cases x)
  show ?thesis
  proof (cases "ret = 0")
    case True
    then have "k = Some n" using assms Done x by (simp add: sea_controller_read_def)
    then show ?thesis
      using Done x True
      by (auto simp: sea_controller_read_from_local_def sea_block_query_by_record_id_def EINVAL_def ENOENT_def Let_def not_less
          split: option.splits outcome.splits prod.splits if_splits)
  next
    case False
    then have False
      using assms Done x list_get_node_fails
      by (fastforce simp: sea_controller_read_def EINVAL_def split: option.splits)
    then show ?thesis ..
  qed
qed (use assms in \<open>simp add: sea_controller_read_def\<close>)

text \<open>
  After every message the process exits or frees memory twice: the reply has at least the 24
  bytes of its header, so it is sent.
\<close>

lemma process_answers:
  assumes "data_server_process msg send (1024 * 1024 * 10) c w = Done (ret, send1, n, c1, w1)"
  shows "n \<noteq> 0"
proof -
  have "24 + k \<noteq> 0" if "k \<le> 1024 * 1024 * 10 - 24" for k :: u32
  proof
    assume "24 + k = 0"
    then have "k = - 24" by (metis add.commute eq_neg_iff_add_eq_0)
    then show False using that by simp
  qed
  then show ?thesis
    using assms read_bound
    by (auto simp: data_server_process_def Let_def case_prod_beta split: if_splits outcome.splits option.splits)
qed

lemma round_ends: "data_server_round msg send c w \<noteq> Done (Goes_on send1 c1 w1)"
  using process_answers
  by (auto simp: data_server_round_def Let_def case_prod_beta split: outcome.splits if_splits)

section \<open>The other node\<close>

lemma client_passes_failure:
  assumes "w_rv w (w_calls w + 3) \<noteq> 0" and "unat len \<le> length hdr"
  shows "\<exists>w'. data_client ip hdr len w = Done (0, w')"
  using assms by (auto simp: data_client_def nng_call_def Let_def numeral_3_eq_3)

lemma remote_get_unanswered:
  assumes rel: "reliable (w_os w)" and down: "w_rv w (w_calls w + 3) \<noteq> 0"
    and len: "unat buf_len \<le> length buf" "unat buf_len + 24 \<le> 1024 * 1024 * 10"
    and hdr: "hdr = dec_hdr (map (os_junk (w_os w)) [0..<24])" and n: "n = unat (data_min (dh_len hdr - 24) buf_len)"
  shows "\<exists>w'. controller_data_get ip bid rid buf buf_len w =
    (if dh_error hdr \<noteq> 0 then Done (0, None, buf, w')
     else Done (0, Some (of_nat n),
            map (os_junk (w_os w)) [24..<24 + n] @ drop n buf, w'))"
proof -
  let ?os = "ticked (ticked (w_os w))"
  let ?h = "\<lparr>dh_method = DATA_SERVER_METHOD_GET, dh_error = 0, dh_len = 24, dh_block_id = bid, dh_record_id = ucast rid\<rparr>"
  obtain w' where w': "data_client ip (enc_hdr ?h) 24 (w\<lparr>w_os := ?os\<rparr>) = Done (0, w')"
    using client_passes_failure [of "w\<lparr>w_os := ?os\<rparr>" 24 "enc_hdr ?h" ip] down by auto
  have j: "junk_bytes ?os 24 = map (os_junk (w_os w)) [0..<24]" by (simp add: junk_bytes_def)
  have "data_min (dh_len hdr - 24) buf_len \<le> buf_len" by (simp add: data_min_def not_less)
  then have "unat (data_min (dh_len hdr - 24) buf_len) \<le> unat buf_len" by (simp add: word_le_nat_alt)
  then show ?thesis
    using rel w' len by (intro exI [of _ w']) (simp add: controller_data_get_def Let_def j n put_at_def flip: hdr)
qed

end
