(* ===== verification/DhtBits.thy ===== *)
theory DhtBits
  imports DhtState
begin

text \<open>
  The bits of an id, counted from its start: \<open>lowbit\<close> is the last one that is set, and setting
  one more halves the interval of a bucket.  These facts keep the table sorted when a bucket is
  split and bound how often that can happen.
\<close>

section \<open>Bits of an id\<close>

definition id_bit :: "dht_id \<Rightarrow> nat \<Rightarrow> bool" where
  "id_bit x m \<longleftrightarrow> x ! (m div 8) AND drop_bit (m mod 8) 0x80 \<noteq> 0"

lemma drop_bit_0x80: "j < 8 \<Longrightarrow> drop_bit j (0x80 :: byte) = push_bit (7 - j) 1"
proof -
  assume j: "j < 8"
  have "\<forall>j \<in> {0, 1, 2, 3, 4, 5, 6, 7 :: nat}. drop_bit j (0x80 :: byte) = push_bit (7 - j) 1"
    by code_simp
  moreover have "j \<in> {0, 1, 2, 3, 4, 5, 6, 7}" using j by (auto simp: less_Suc_eq numeral_eq_Suc)
  ultimately show ?thesis by blast
qed

lemma byte_bit: "j < 8 \<Longrightarrow> (b AND drop_bit j 0x80 \<noteq> 0) = bit (b :: byte) (7 - j)"
  by (simp only: drop_bit_0x80 bit_iff_and_push_bit_not_eq_0)

lemma byte_cases_8: "j < 8 \<longleftrightarrow> j \<in> {0, 1, 2, 3, 4, 5, 6, 7 :: nat}"
  by (auto simp: less_Suc_eq numeral_eq_Suc)

lemma bit_0x80: "j < 8 \<Longrightarrow> k < 8 \<Longrightarrow> bit (drop_bit j (0x80 :: byte)) (7 - k) \<longleftrightarrow> j = k"
proof -
  assume "j < 8" "k < 8"
  moreover have "\<forall>j \<in> {0, 1, 2, 3, 4, 5, 6, 7 :: nat}. \<forall>k \<in> {0, 1, 2, 3, 4, 5, 6, 7 :: nat}.
      bit (drop_bit j (0x80 :: byte)) (7 - k) \<longleftrightarrow> j = k"
    by code_simp
  ultimately show ?thesis by (simp only: byte_cases_8)
qed

lemma unat_0x80: "j < 8 \<Longrightarrow> unat (drop_bit j (0x80 :: byte)) = 2 ^ (7 - j)"
proof -
  assume "j < 8"
  moreover have "\<forall>j \<in> {0, 1, 2, 3, 4, 5, 6, 7 :: nat}. unat (drop_bit j (0x80 :: byte)) = 2 ^ (7 - j)"
    by code_simp
  ultimately show ?thesis by (simp only: byte_cases_8)
qed

lemma id_bit_bit: "id_bit x m = bit (x ! (m div 8)) (7 - m mod 8)"
  by (simp only: id_bit_def byte_bit mod_less_divisor zero_less_numeral)

lemma lowbit_byte_cases:
  "(lowbit_byte x n = - 1 \<and> (\<forall>j < n. x ! j = 0))
    \<or> (\<exists>i < n. lowbit_byte x n = int i \<and> x ! i \<noteq> 0 \<and> (\<forall>j. i < j \<longrightarrow> j < n \<longrightarrow> x ! j = 0))"
proof (induction n)
  case (Suc n)
  show ?case
  proof (cases "x ! n = 0")
    case True
    then have s: "lowbit_byte x (Suc n) = lowbit_byte x n" by simp
    from Suc show ?thesis
    proof (elim disjE exE conjE)
      assume a: "lowbit_byte x n = - 1" "\<forall>j < n. x ! j = 0"
      have "\<forall>j < Suc n. x ! j = 0" using a(2) True by (simp add: less_Suc_eq)
      then show ?thesis using a(1) s by simp
    next
      fix i assume a: "i < n" "lowbit_byte x n = int i" "x ! i \<noteq> 0" "\<forall>j. i < j \<longrightarrow> j < n \<longrightarrow> x ! j = 0"
      have "\<forall>j. i < j \<longrightarrow> j < Suc n \<longrightarrow> x ! j = 0" using a(4) True by (simp add: less_Suc_eq)
      then show ?thesis using a(1-3) s less_SucI by metis
    qed
  next
    case False
    then show ?thesis by (intro disjI2 exI [of _ n]) simp
  qed
qed simp

lemma lowbit_bit_cases:
  "(lowbit_bit b n = - 1 \<and> (\<forall>j < n. b AND drop_bit j 0x80 = 0))
    \<or> (\<exists>i < n. lowbit_bit b n = int i \<and> b AND drop_bit i 0x80 \<noteq> 0
         \<and> (\<forall>j. i < j \<longrightarrow> j < n \<longrightarrow> b AND drop_bit j 0x80 = 0))"
proof (induction n)
  case (Suc n)
  show ?case
  proof (cases "b AND drop_bit n 0x80 = 0")
    case True
    then have s: "lowbit_bit b (Suc n) = lowbit_bit b n" by simp
    from Suc show ?thesis
    proof (elim disjE exE conjE)
      assume a: "lowbit_bit b n = - 1" "\<forall>j < n. b AND drop_bit j 0x80 = 0"
      have "\<forall>j < Suc n. b AND drop_bit j 0x80 = 0" using a(2) True less_Suc_eq by metis
      then show ?thesis using a(1) s by metis
    next
      fix i assume a: "i < n" "lowbit_bit b n = int i" "b AND drop_bit i 0x80 \<noteq> 0"
        "\<forall>j. i < j \<longrightarrow> j < n \<longrightarrow> b AND drop_bit j 0x80 = 0"
      have "\<forall>j. i < j \<longrightarrow> j < Suc n \<longrightarrow> b AND drop_bit j 0x80 = 0" using a(4) True less_Suc_eq by metis
      then show ?thesis using a(1-3) s less_SucI by metis
    qed
  next
    case False
    then show ?thesis by (intro disjI2 exI [of _ n]) simp
  qed
qed simp

lemma byte_has_bit: "b \<noteq> 0 \<Longrightarrow> \<exists>j < 8. bit (b :: byte) (7 - j)"
proof -
  assume "b \<noteq> 0"
  then obtain n where n: "bit b n" using bit_eq_iff [of b 0] by auto
  then have "n < 8" using bit_imp_le_length [OF n] by simp
  then show ?thesis using n by (intro exI [of _ "7 - n"]) simp
qed

text \<open>\<open>lowbit\<close> is the last bit that is set.\<close>

lemma lowbit_cases:
  "(lowbit x = - 1 \<and> (\<forall>m < 160. \<not> id_bit x m))
    \<or> (\<exists>n < 160. lowbit x = int n \<and> id_bit x n \<and> (\<forall>m. n < m \<longrightarrow> m < 160 \<longrightarrow> \<not> id_bit x m))"
proof -
  from lowbit_byte_cases [of x 20] show ?thesis
  proof (elim disjE exE conjE)
    assume a: "lowbit_byte x 20 = - 1" "\<forall>j < 20. x ! j = 0"
    have "\<not> id_bit x m" if "m < 160" for m
      using a(2) that by (simp add: id_bit_def)
    then show ?thesis using a(1) by (simp add: lowbit_def)
  next
    fix i assume a: "i < 20" "lowbit_byte x 20 = int i" "x ! i \<noteq> 0" "\<forall>j. i < j \<longrightarrow> j < 20 \<longrightarrow> x ! j = 0"
    obtain j0 where j0: "j0 < 8" "x ! i AND drop_bit j0 0x80 \<noteq> 0"
      using byte_has_bit [OF a(3)] byte_bit by metis
    obtain j where j: "j < 8" "lowbit_bit (x ! i) 8 = int j" "x ! i AND drop_bit j 0x80 \<noteq> 0"
      "\<forall>k. j < k \<longrightarrow> k < 8 \<longrightarrow> x ! i AND drop_bit k 0x80 = 0"
      using lowbit_bit_cases [of "x ! i" 8] j0 by metis
    have low: "lowbit x = int (8 * i + j)" using a(2) j(2) by (simp add: lowbit_def)
    have pos: "id_bit x (8 * i + j)" using j(1,3) by (simp add: id_bit_def)
    have after: "\<not> id_bit x m" if m: "8 * i + j < m" "m < 160" for m
    proof (cases "m div 8 = i")
      case True
      then have "j < m mod 8" using m(1) by (metis mult.commute div_mult_mod_eq nat_add_left_cancel_less)
      then show ?thesis using j(4) True by (simp add: id_bit_def)
    next
      case False
      then have "i < m div 8" using m(1) j(1) by linarith
      then have "x ! (m div 8) = 0" using a(4) m(2) by simp
      then show ?thesis by (simp add: id_bit_def)
    qed
    have "8 * i + j < 160" using a(1) j(1) by simp
    then show ?thesis using low pos after by blast
  qed
qed

lemma lowbit_bounds: "- 1 \<le> lowbit x" "lowbit x < 160"
  using lowbit_cases [of x] by auto

lemma lowbit_clear: "lowbit x < int m \<Longrightarrow> m < 160 \<Longrightarrow> \<not> id_bit x m"
  using lowbit_cases [of x] by auto

lemma lowbit_eqI: "n < 160 \<Longrightarrow> id_bit x n \<Longrightarrow> (\<And>m. n < m \<Longrightarrow> m < 160 \<Longrightarrow> \<not> id_bit x m) \<Longrightarrow> lowbit x = int n"
  using lowbit_cases [of x] by (metis linorder_neqE_nat)

lemma id_bit_set:
  assumes "is_id x" and "n < 160"
  shows "id_bit (set_bit_of n x) m \<longleftrightarrow> m = n \<or> id_bit x m"
proof (cases "m div 8 = n div 8")
  case True
  have i: "n div 8 < length x" using assms by simp
  have "set_bit_of n x ! (m div 8) = x ! (n div 8) OR drop_bit (n mod 8) 0x80"
    using i True by (simp add: set_bit_of_def)
  moreover have "m mod 8 = n mod 8 \<longleftrightarrow> m = n"
    using True by (metis div_mult_mod_eq)
  moreover have "bit (drop_bit (n mod 8) (0x80 :: byte)) (7 - m mod 8) \<longleftrightarrow> n mod 8 = m mod 8"
    by (rule bit_0x80) simp_all
  ultimately show ?thesis
    using True by (auto simp: id_bit_bit bit_or_iff)
next
  case False
  then show ?thesis by (auto simp: id_bit_def set_bit_of_def)
qed

lemma length_set_bit [simp]: "length (set_bit_of n x) = length x"
  by (simp add: set_bit_of_def)

lemma lowbit_set:
  assumes "is_id x" and "n < 160" and "lowbit x < int n"
  shows "lowbit (set_bit_of n x) = int n"
proof (rule lowbit_eqI)
  show "id_bit (set_bit_of n x) n" using assms(1,2) by (simp add: id_bit_set)
next
  fix m assume m: "n < m" "m < 160"
  have "\<not> id_bit x m" by (rule lowbit_clear) (use m assms(3) in linarith)+
  then show "\<not> id_bit (set_bit_of n x) m" using assms(1,2) m by (simp add: id_bit_set)
qed (use assms in simp)

section \<open>Values\<close>

lemma id_val_update:
  "i < length xs \<Longrightarrow>
    id_val (xs[i := y]) + unat (xs ! i) * 256 ^ (length xs - Suc i)
      = id_val xs + unat y * 256 ^ (length xs - Suc i)"
proof (induction xs arbitrary: i)
  case (Cons x xs)
  show ?case
  proof (cases i)
    case (Suc k)
    then show ?thesis using Cons.IH [of k] Cons.prems by simp
  qed simp
qed simp

lemma unat_or_disjoint: "(b :: byte) AND c = 0 \<Longrightarrow> unat (b OR c) = unat b + unat c"
proof -
  assume "b AND c = 0"
  then have "uint b AND uint c = 0" by (metis unsigned_0 unsigned_and_eq)
  moreover have "(uint b AND uint c) + (uint b OR uint c) = uint b + uint c" by (rule plus_and_or)
  ultimately have "uint b OR uint c = uint b + uint c" by linarith
  then have "uint (b OR c) = uint b + uint c" by (simp only: unsigned_or_eq)
  then have "int (unat (b OR c)) = int (unat b + unat c)" by simp
  then show ?thesis by (simp only: of_nat_eq_iff)
qed

lemma power_256: "(256 :: nat) ^ k = 2 ^ (8 * k)"
  by (simp add: power_mult)

lemma id_val_set:
  assumes id: "is_id x" and n: "n < 160" and clear: "\<not> id_bit x n"
  shows "id_val (set_bit_of n x) = id_val x + 2 ^ (159 - n)"
proof -
  let ?i = "n div 8" and ?c = "drop_bit (n mod 8) (0x80 :: byte)"
  have i: "?i < length x" using id n by simp
  have c: "unat ?c = 2 ^ (7 - n mod 8)"
    by (rule unat_0x80) simp
  have "unat (x ! ?i OR ?c) = unat (x ! ?i) + 2 ^ (7 - n mod 8)"
    using unat_or_disjoint [of "x ! ?i" ?c] clear c by (simp add: id_bit_def)
  then have "id_val (set_bit_of n x) = id_val x + 2 ^ (7 - n mod 8) * 256 ^ (20 - Suc ?i)"
    using id_val_update [OF i, of "x ! ?i OR ?c"] id by (simp add: set_bit_of_def algebra_simps)
  also have "(2 :: nat) ^ (7 - n mod 8) * 256 ^ (20 - Suc ?i) = 2 ^ (7 - n mod 8 + 8 * (20 - Suc ?i))"
    by (simp only: power_256 power_add)
  also have "7 - n mod 8 + 8 * (20 - Suc ?i) = 159 - n"
    using n by presburger
  finally show ?thesis .
qed

lemma bit_join:
  assumes "c < 2 ^ k"
  shows "bit (a * 2 ^ k + c) p \<longleftrightarrow> (if p < k then bit (c :: nat) p else bit a (p - k))"
proof (cases "p < k")
  case True
  then have k: "(2 :: nat) ^ k = 2 ^ p * (2 * 2 ^ (k - p - 1))"
    by (metis Suc_diff_Suc diff_Suc_1 le_add_diff_inverse less_imp_le power_Suc power_add)
  have "a * 2 ^ k + c = c + 2 * (a * 2 ^ (k - p - 1)) * 2 ^ p"
    by (simp only: k ac_simps)
  then have "(a * 2 ^ k + c) div 2 ^ p = 2 * (a * 2 ^ (k - p - 1)) + c div 2 ^ p"
    by (simp only: div_mult_self1 power_eq_0_iff) simp
  then show ?thesis using True by (simp add: bit_iff_odd)
next
  case False
  then have p: "(2 :: nat) ^ p = 2 ^ k * 2 ^ (p - k)"
    by (metis le_add_diff_inverse not_less power_add)
  have "(a * 2 ^ k + c) div 2 ^ k = a" using assms by simp
  then have "(a * 2 ^ k + c) div 2 ^ p = a div 2 ^ (p - k)"
    by (simp only: p div_mult2_eq)
  then show ?thesis using False by (simp add: bit_iff_odd)
qed

lemma bit_id_val:
  "bit (id_val xs) p \<longleftrightarrow> p < 8 * length xs \<and> bit (xs ! (length xs - 1 - p div 8)) (p mod 8)"
proof (induction xs)
  case (Cons b bs)
  have lt: "id_val bs < 2 ^ (8 * length bs)" using id_val_less [of bs] by (simp add: power_256)
  have b: "bit (id_val (b # bs)) p \<longleftrightarrow> (if p < 8 * length bs then bit (id_val bs) p else bit (unat b) (p - 8 * length bs))"
    using bit_join [OF lt, of "unat b" p] by (simp add: power_256)
  show ?case
  proof (cases "p < 8 * length bs")
    case True
    then have "length (b # bs) - 1 - p div 8 = Suc (length bs - 1 - p div 8)" by simp
    then show ?thesis using True b Cons by simp
  next
    case False
    have bb: "bit (unat b) q \<longleftrightarrow> q < 8 \<and> bit b q" for q
      using bit_imp_le_length [of b q] by (auto simp: bit_unsigned_iff)
    show ?thesis
    proof (cases "p < 8 * length bs + 8")
      case True
      then have q: "p div 8 = length bs" using False by linarith
      then have "p mod 8 = p - 8 * length bs" by (simp add: modulo_nat_def)
      moreover have "p - 8 * length bs < 8" using True False by simp
      ultimately have q: "p div 8 = length bs" "p mod 8 = p - 8 * length bs" "p - 8 * length bs < 8"
        using q by simp_all
      then show ?thesis using False True b bb q by simp
    next
      case f: False
      then have "\<not> p - 8 * length bs < 8" by linarith
      then show ?thesis using f False b bb by simp
    qed
  qed
qed simp

lemma id_val_dvd:
  assumes id: "is_id x" and k: "k \<le> 160" and clear: "\<And>m. 160 - k \<le> m \<Longrightarrow> m < 160 \<Longrightarrow> \<not> id_bit x m"
  shows "2 ^ k dvd id_val x"
proof -
  have "\<not> bit (id_val x) p" if p: "p < k" for p
  proof -
    have "p < 160" using p k by simp
    have r: "p mod 8 < 8" "8 * (p div 8) + p mod 8 = p" by simp_all
    then have "159 - p = 8 * (19 - p div 8) + (7 - p mod 8)" "7 - p mod 8 < 8"
      using \<open>p < 160\<close> by linarith+
    then have "(159 - p) div 8 = 19 - p div 8" "(159 - p) mod 8 = 7 - p mod 8"
      by (simp_all only: div_mult_self4 mod_mult_self4) simp_all
    then have d: "(159 - p) div 8 = 19 - p div 8" "7 - (159 - p) mod 8 = p mod 8"
      using r(1) by simp_all
    have "\<not> id_bit x (159 - p)" by (rule clear) (use p k in linarith)+
    then show ?thesis using id d by (simp add: bit_id_val id_bit_bit)
  qed
  then have "take_bit k (id_val x) = 0" by (auto simp: bit_eq_iff bit_take_bit_iff)
  then show ?thesis by (simp add: take_bit_eq_0_iff)
qed

lemma lowbit_dvd:
  assumes "is_id x" and "lowbit x \<le> int n" and "n < 160"
  shows "2 ^ (159 - n) dvd id_val x"
proof (rule id_val_dvd)
  fix m assume m: "160 - (159 - n) \<le> m" "m < 160"
  show "\<not> id_bit x m" by (rule lowbit_clear) (use m assms in linarith)+
qed (use assms in simp_all)

lemma lowbit_none: "is_id x \<Longrightarrow> lowbit x = - 1 \<Longrightarrow> id_val x = 0"
proof -
  assume id: "is_id x" and "lowbit x = - 1"
  then have "\<not> id_bit x m" if "m < 160" for m using lowbit_clear [of x m] that by simp
  then have "2 ^ 160 dvd id_val x" using id by (intro id_val_dvd) simp_all
  moreover have "id_val x < 2 ^ 160" using id_val_less [of x] id by (simp add: power_256)
  ultimately show ?thesis using nat_dvd_not_less by blast
qed

section \<open>The middle of a bucket\<close>

text \<open>The first ids of a table, as numbers, and the end of bucket \<open>k\<close>.\<close>

definition bucket_end :: "bucket list \<Rightarrow> nat \<Rightarrow> nat" where
  "bucket_end bs k = (if Suc k < length bs then id_val (b_first (bs ! Suc k)) else 2 ^ 160)"

lemma bucket_middle_between:
  assumes mid: "bucket_middle bs k = Some m" and id: "is_id (b_first (bs ! k))"
    and nid: "Suc k < length bs \<Longrightarrow> is_id (b_first (bs ! Suc k))"
    and less: "id_val (b_first (bs ! k)) < bucket_end bs k"
  shows "is_id m" and "id_val (b_first (bs ! k)) < id_val m" and "id_val m < bucket_end bs k"
    and "lowbit m = bucket_bit bs k"
proof -
  let ?x = "b_first (bs ! k)"
  define n where "n = nat (bucket_bit bs k)"
  have n: "n < 160" "bucket_bit bs k = int n" "lowbit ?x < int n" and m: "m = set_bit_of n ?x"
    using mid lowbit_bounds [of ?x]
    by (auto simp: bucket_middle_def n_def bucket_bit_def Let_def split: if_splits)
  show "is_id m" using id m by simp
  have v: "id_val m = id_val ?x + 2 ^ (159 - n)"
    unfolding m by (rule id_val_set [OF id n(1)]) (rule lowbit_clear [OF n(3,1)])
  then show "id_val ?x < id_val m" by simp
  show "lowbit m = bucket_bit bs k" using lowbit_set [OF id n(1,3)] m n(2) by simp
  show "id_val m < bucket_end bs k"
  proof (cases "Suc k < length bs")
    case True
    let ?y = "b_first (bs ! Suc k)"
    have y: "is_id ?y" "lowbit ?y < int n" "id_val ?x < id_val ?y" "bucket_end bs k = id_val ?y"
      using nid [OF True] less True n(2) by (simp_all add: bucket_bit_def bucket_end_def)
    have "n \<noteq> 0"
    proof
      assume "n = 0"
      then have "lowbit ?y = - 1" using y(2) lowbit_bounds [of ?y] by linarith
      then show False using lowbit_none [OF y(1)] y(3) by simp
    qed
    then have low: "lowbit ?x \<le> int (n - 1)" "lowbit ?y \<le> int (n - 1)" "n - 1 < 160" "159 - (n - 1) = 160 - n"
      using y(2) n(1,3) by linarith+
    have d: "2 ^ (160 - n) dvd id_val ?y - id_val ?x"
      using lowbit_dvd [OF id low(1,3)] lowbit_dvd [OF y(1) low(2,3)] low(4) by simp
    then have "2 ^ (160 - n) \<le> id_val ?y - id_val ?x"
      using y(3) by (intro dvd_imp_le) simp_all
    moreover have e: "160 - n = Suc (159 - n)" using n(1) by simp
    have "(2 :: nat) ^ (160 - n) = 2 * 2 ^ (159 - n)"
      unfolding e by (rule power_Suc)
    ultimately show ?thesis using v y(3,4) by simp
  next
    case False
    then show ?thesis using id_val_less [of m] \<open>is_id m\<close> by (simp add: bucket_end_def power_256)
  qed
qed

end
