(* ===== verification/DhtTableInv.thy ===== *)
theory DhtTableInv
  imports DhtBits
begin

text \<open>
  The invariant of a bucket table: the first ids increase from zero, every node is in the bucket
  its id belongs to, no id occurs twice, the counts are right and within the bounds, and every
  address can be sent to.  Then what the table operations do to it, without the rest of the state.
\<close>

section \<open>The invariant\<close>

definition ss_ok :: "nat \<Rightarrow> sockaddr \<Rightarrow> nat \<Rightarrow> bool" where
  "ss_ok af sa salen \<longleftrightarrow> sa_family sa = af \<and> 2 \<le> length sa \<and> 2 \<le> salen \<and> salen \<le> sizeof_sockaddr_storage"

definition node_ok :: "nat \<Rightarrow> node \<Rightarrow> bool" where
  "node_ok af n \<longleftrightarrow> is_id (n_id n) \<and> ss_ok af (n_ss n) (n_sslen n)"

definition cached_ok :: "nat \<Rightarrow> bucket \<Rightarrow> bool" where
  "cached_ok af b \<longleftrightarrow> 2 \<le> length (b_cached b)
     \<and> (sa_family (b_cached b) = 0 \<or> ss_ok af (b_cached b) (b_cachedlen b))"

definition bucket_ok :: "nat \<Rightarrow> bucket \<Rightarrow> bool" where
  "bucket_ok af b \<longleftrightarrow> is_id (b_first b) \<and> b_count b = int (length (b_nodes b)) \<and> b_count b \<le> b_max_count b
     \<and> 8 \<le> b_max_count b \<and> distinct (map n_id (b_nodes b)) \<and> (\<forall>n \<in> set (b_nodes b). node_ok af n) \<and> cached_ok af b"

definition firsts :: "bucket list \<Rightarrow> nat list" where
  "firsts bs = map (\<lambda>b. id_val (b_first b)) bs"

definition table_sorted :: "bucket list \<Rightarrow> bool" where
  "table_sorted bs \<longleftrightarrow> (\<forall>b \<in> set bs. is_id (b_first b)) \<and> sorted_wrt (<) (firsts bs)
     \<and> (bs \<noteq> [] \<longrightarrow> hd (firsts bs) = 0)"

definition table_ok :: "nat \<Rightarrow> bucket list \<Rightarrow> bool" where
  "table_ok af bs \<longleftrightarrow> table_sorted bs \<and> (\<forall>b \<in> set bs. bucket_ok af b)
     \<and> (\<forall>k < length bs. \<forall>n \<in> set (b_nodes (bs ! k)). in_bucket (n_id n) bs k)"

definition table_ids :: "bucket list \<Rightarrow> dht_id set" where
  "table_ids bs = (\<Union>b \<in> set bs. n_id ` set (b_nodes b))"

lemma firsts_update [simp]: "b_first b = b_first (bs ! k) \<Longrightarrow> firsts (bs[k := b]) = firsts bs"
  by (cases "k < length bs") (simp_all add: firsts_def map_update list_update_same_conv list_update_beyond not_less)

lemma firsts_nth: "k < length bs \<Longrightarrow> firsts bs ! k = id_val (b_first (bs ! k))"
  by (simp add: firsts_def)

lemma length_firsts [simp]: "length (firsts bs) = length bs"
  by (simp add: firsts_def)

lemma bucket_end_firsts: "bucket_end bs k = (if Suc k < length bs then firsts bs ! Suc k else 2 ^ 160)"
  by (simp add: bucket_end_def firsts_nth)

lemma in_bucket_val:
  assumes "table_sorted bs" and "k < length bs" and "is_id nid"
  shows "in_bucket nid bs k \<longleftrightarrow> firsts bs ! k \<le> id_val nid \<and> id_val nid < bucket_end bs k"
proof -
  have f: "is_id (b_first (bs ! j))" if "j < length bs" for j
    using assms(1) that by (simp add: table_sorted_def)
  have "id_val nid < 2 ^ 160" using id_val_less [of nid] assms(3) by (simp add: power_256)
  then show ?thesis
    using f assms id_cmp_val [of "b_first (bs ! k)" nid] id_cmp_val [of nid "b_first (bs ! Suc k)"]
    by (auto simp: in_bucket_def bucket_end_def firsts_nth)
qed

lemma firsts_less:
  assumes "table_sorted bs" and "j < k" and "k < length bs"
  shows "firsts bs ! j < firsts bs ! k"
  using assms unfolding table_sorted_def by (intro sorted_wrt_nth_less [of "(<)"]) simp_all

lemma bucket_end_le: "table_sorted bs \<Longrightarrow> j < k \<Longrightarrow> k < length bs \<Longrightarrow> bucket_end bs j \<le> firsts bs ! k"
  using firsts_less [of bs "Suc j" k] by (cases "Suc j = k") (auto simp: bucket_end_firsts)

lemma bucket_nonempty: "table_sorted bs \<Longrightarrow> k < length bs \<Longrightarrow> firsts bs ! k < bucket_end bs k"
proof (cases "Suc k < length bs")
  case False
  assume "table_sorted bs" "k < length bs"
  then show ?thesis
    using False id_val_less [of "b_first (bs ! k)"] by (auto simp: bucket_end_firsts firsts_nth table_sorted_def power_256)
qed (simp add: bucket_end_firsts firsts_less)

text \<open>An id belongs to exactly one bucket, and \<open>find_bucket\<close> finds it.\<close>

lemma in_bucket_unique:
  assumes "table_sorted bs" and "is_id nid" and "in_bucket nid bs j" and "in_bucket nid bs k"
    and "j < length bs" and "k < length bs"
  shows "j = k"
  using assms bucket_end_le [of bs j k] bucket_end_le [of bs k j]
  by (auto simp: in_bucket_val) (metis leD le_trans linorder_neqE_nat)

lemma find_bucket_loop_bound: "bs \<noteq> [] \<Longrightarrow> find_bucket_loop nid bs < length bs"
  by (induction nid bs rule: find_bucket_loop.induct) auto

lemma find_bucket_loop_end:
  "Suc (find_bucket_loop nid bs) < length bs \<Longrightarrow> id_cmp nid (b_first (bs ! Suc (find_bucket_loop nid bs))) < 0"
  by (induction nid bs rule: find_bucket_loop.induct) auto

lemma find_bucket_loop_start:
  "find_bucket_loop nid bs = Suc k \<Longrightarrow> \<not> id_cmp nid (b_first (bs ! Suc k)) < 0"
proof (induction nid bs arbitrary: k rule: find_bucket_loop.induct)
  case (1 nid b c bs)
  then show ?case by (cases k) (auto split: if_splits)
qed auto

lemma find_bucket_ok:
  assumes s: "table_sorted bs" and ne: "bs \<noteq> []" and id: "is_id nid"
  obtains k where "find_bucket nid bs = Some k" and "k < length bs" and "in_bucket nid bs k"
proof
  let ?k = "find_bucket_loop nid bs"
  have f: "is_id (b_first (bs ! j))" if "j < length bs" for j
    using s that by (simp add: table_sorted_def)
  show "find_bucket nid bs = Some ?k" using ne by (simp add: find_bucket_def)
  show k: "?k < length bs" by (rule find_bucket_loop_bound [OF ne])
  have "id_cmp (b_first (bs ! ?k)) nid \<le> 0"
  proof (cases ?k)
    case 0
    have "id_val (b_first (bs ! 0)) = 0"
      using s ne by (simp add: table_sorted_def firsts_def hd_conv_nth)
    then show ?thesis using 0 id_cmp_val(2) [OF f id, of 0] ne by simp
  next
    case (Suc j)
    have "\<not> id_cmp nid (b_first (bs ! ?k)) < 0" using find_bucket_loop_start [OF Suc] Suc by simp
    then show ?thesis using id_cmp_val(1) [OF id f [OF k]] id_cmp_val(2) [OF f [OF k] id] by simp
  qed
  then show "in_bucket nid bs ?k"
    using find_bucket_loop_end [of nid bs] unfolding in_bucket_def by (meson not_le)
qed

lemma find_bucket_eq:
  assumes "table_sorted bs" and "is_id nid" and "k < length bs" and "in_bucket nid bs k"
  shows "find_bucket nid bs = Some k"
  using find_bucket_ok [of bs nid] in_bucket_unique [of bs nid _ k] assms
  by (metis list.size(3) not_less_zero)

section \<open>Replacing a bucket\<close>

lemma in_bucket_update [simp]:
  "b_first b = b_first (bs ! k) \<Longrightarrow> in_bucket nid (bs[k := b]) j = in_bucket nid bs j"
  by (cases "k < length bs") (simp_all add: in_bucket_def nth_list_update list_update_beyond not_less)

lemma table_sorted_update [simp]:
  "b_first b = b_first (bs ! k) \<Longrightarrow> table_sorted (bs[k := b]) = table_sorted bs"
proof (cases "k < length bs")
  case True
  assume f: "b_first b = b_first (bs ! k)"
  have "(\<forall>x \<in> set (bs[k := b]). is_id (b_first x)) = (\<forall>x \<in> set bs. is_id (b_first x))"
    using True f by (auto simp: all_set_conv_all_nth nth_list_update)
  then show ?thesis using f by (simp add: table_sorted_def)
qed (simp add: list_update_beyond not_less)

lemma table_ok_update:
  assumes ok: "table_ok af bs" and k: "k < length bs" and b: "bucket_ok af b" "b_first b = b_first (bs ! k)"
    and nodes: "\<And>n. n \<in> set (b_nodes b) \<Longrightarrow> in_bucket (n_id n) bs k"
  shows "table_ok af (bs[k := b])"
proof -
  have "\<forall>x \<in> set (bs[k := b]). bucket_ok af x"
    using ok b(1) set_update_subset_insert [of bs k b] by (auto simp: table_ok_def)
  moreover have "\<forall>j < length (bs[k := b]). \<forall>n \<in> set (b_nodes (bs[k := b] ! j)). in_bucket (n_id n) (bs[k := b]) j"
    using ok nodes b(2) k by (auto simp: table_ok_def nth_list_update)
  ultimately show ?thesis using ok b(2) by (simp add: table_ok_def)
qed

lemma table_okD:
  assumes "table_ok af bs" and "k < length bs"
  shows "bucket_ok af (bs ! k)" and "\<And>n. n \<in> set (b_nodes (bs ! k)) \<Longrightarrow> in_bucket (n_id n) bs k"
  using assms by (simp_all add: table_ok_def)

lemma table_ok_sorted: "table_ok af bs \<Longrightarrow> table_sorted bs"
  by (simp add: table_ok_def)

text \<open>A bucket with the same first id, nodes and count is as good as long as its cache is.\<close>

lemma table_ok_same_nodes:
  assumes "table_ok af bs" and "k < length bs" and "b_first b = b_first (bs ! k)" and "b_nodes b = b_nodes (bs ! k)"
    and "b_count b = b_count (bs ! k)" and "b_max_count b = b_max_count (bs ! k)" and "cached_ok af b"
  shows "table_ok af (bs[k := b])"
  using assms table_okD [OF assms(1,2)] by (intro table_ok_update) (auto simp: bucket_ok_def)

lemma table_ids_update:
  "k < length bs \<Longrightarrow> table_ids (bs[k := b]) \<subseteq> table_ids bs \<union> n_id ` set (b_nodes b)"
  using set_update_subset_insert [of bs k b] by (auto simp: table_ids_def)

lemma table_ids_same:
  assumes "b_nodes b = b_nodes (bs ! k)"
  shows "table_ids (bs[k := b]) = table_ids bs"
proof (cases "k < length bs")
  case True
  then have "map (\<lambda>b. n_id ` set (b_nodes b)) (bs[k := b]) = map (\<lambda>b. n_id ` set (b_nodes b)) bs"
    using assms by (simp add: map_update list_update_same_conv)
  then have "(\<lambda>b. n_id ` set (b_nodes b)) ` set (bs[k := b]) = (\<lambda>b. n_id ` set (b_nodes b)) ` set bs"
    by (metis list.set_map)
  then show ?thesis by (simp add: table_ids_def)
qed (simp add: list_update_beyond not_less)

text \<open>The ids of a bucket are those of the table that belong to it.\<close>

lemma table_ids_bucket:
  assumes "table_ok af bs" and "k < length bs" and "in_bucket nid bs k" and "nid \<in> table_ids bs"
  shows "nid \<in> n_id ` set (b_nodes (bs ! k))"
proof -
  obtain j where j: "j < length bs" "nid \<in> n_id ` set (b_nodes (bs ! j))"
    using assms(4) unfolding table_ids_def by (metis UN_E in_set_conv_nth)
  then have b: "in_bucket nid bs j" "is_id nid"
    using table_okD [OF assms(1) j(1)] by (auto simp: bucket_ok_def node_ok_def)
  then have "j = k"
    using in_bucket_unique [OF table_ok_sorted [OF assms(1)]] assms(2,3) j(1) by blast
  then show ?thesis using j(2) by simp
qed

section \<open>Splitting a bucket\<close>

definition split_table :: "bucket list \<Rightarrow> nat \<Rightarrow> bucket \<Rightarrow> bucket \<Rightarrow> bucket list" where
  "split_table bs k b new = take k bs @ b # new # drop (Suc k) bs"

lemma length_split [simp]: "k < length bs \<Longrightarrow> length (split_table bs k b new) = Suc (length bs)"
  by (simp add: split_table_def)

lemma nth_split:
  "k < length bs \<Longrightarrow> j < Suc (length bs) \<Longrightarrow>
    split_table bs k b new ! j = (if j < k then bs ! j else if j = k then b else if j = Suc k then new else bs ! (j - 1))"
proof -
  assume k: "k < length bs" and j: "j < Suc (length bs)"
  show ?thesis
  proof (cases "Suc k < j")
    case True
    then obtain i where "j = Suc (Suc k + i)" unfolding less_iff_Suc_add by blast
    then have i: "j = Suc (Suc (k + i))" by simp
    have "k + (length bs - k) = length bs" using k by simp
    then show ?thesis using i j k by (simp add: split_table_def nth_append)
  next
    case False
    then consider "j < k" | "j = k" | "j = Suc k" by linarith
    then show ?thesis using k by cases (simp_all add: split_table_def nth_append)
  qed
qed

lemma set_split: "set (split_table bs k b new) \<subseteq> set bs \<union> {b, new}"
  using set_take_subset [of k bs] set_drop_subset [of "Suc k" bs] by (auto simp: split_table_def)

lemma split_update:
  "k < length bs \<Longrightarrow> (split_table bs k b new)[Suc k := new', k := b'] = split_table bs k b' new'"
  "k < length bs \<Longrightarrow> (split_table bs k b new)[Suc k := new'] = split_table bs k b new'"
  by (simp_all add: split_table_def list_update_append)

lemma table_sorted_firsts:
  "table_sorted bs \<longleftrightarrow> (\<forall>b \<in> set bs. is_id (b_first b))
     \<and> (\<forall>j. Suc j < length bs \<longrightarrow> firsts bs ! j < firsts bs ! Suc j) \<and> (bs \<noteq> [] \<longrightarrow> firsts bs ! 0 = 0)"
proof -
  have "sorted_wrt (<) (firsts bs) \<longleftrightarrow> (\<forall>j. Suc j < length bs \<longrightarrow> firsts bs ! j < firsts bs ! Suc j)"
    by (simp add: sorted_wrt_iff_nth_Suc_transp)
  moreover have "bs \<noteq> [] \<Longrightarrow> hd (firsts bs) = firsts bs ! 0"
    by (rule hd_conv_nth) (simp add: firsts_def)
  ultimately show ?thesis by (auto simp: table_sorted_def)
qed

lemma firsts_split:
  assumes "k < length bs" and "b_first b = b_first (bs ! k)" and "b_first new = m" and "j < Suc (length bs)"
  shows "firsts (split_table bs k b new) ! j
    = (if j \<le> k then firsts bs ! j else if j = Suc k then id_val m else firsts bs ! (j - 1))"
  using assms by (simp add: firsts_nth nth_split)

lemma split_table_sorted:
  assumes s: "table_sorted bs" and k: "k < length bs" and mid: "bucket_middle bs k = Some m"
    and b: "b_first b = b_first (bs ! k)" and new: "b_first new = m"
  shows "table_sorted (split_table bs k b new)"
proof -
  let ?t = "split_table bs k b new"
  have ids: "is_id (b_first (bs ! j))" if "j < length bs" for j
    using s that by (simp add: table_sorted_def)
  have "id_val (b_first (bs ! k)) < bucket_end bs k"
    using bucket_nonempty [OF s k] by (simp add: firsts_nth k)
  note between = bucket_middle_between [OF mid ids [OF k] ids this]
  note f = firsts_split [OF k b(1) new(1)]
  have "firsts ?t ! j < firsts ?t ! Suc j" if j: "Suc j < length ?t" for j
  proof -
    have j1: "Suc j < Suc (length bs)" using j k by simp
    consider "Suc j \<le> k" | "j = k" | "j = Suc k" | "Suc k < j" by linarith
    then show ?thesis
    proof cases
      case 1 then show ?thesis using f j1 firsts_less [OF s, of j "Suc j"] k by simp
    next
      case 2 then show ?thesis using f j1 between(2) k by (simp add: firsts_nth)
    next
      case 3 then show ?thesis using f j1 between(3) k by (simp add: bucket_end_firsts)
    next
      case 4 then show ?thesis using f j1 firsts_less [OF s, of "j - 1" j] by simp
    qed
  qed
  moreover have "\<forall>x \<in> set ?t. is_id (b_first x)"
    using set_split [of bs k b new] s b new between(1) ids [OF k] by (auto simp: table_sorted_def)
  moreover have "firsts ?t ! 0 = 0"
    using f [of 0] s k by (auto simp: table_sorted_firsts)
  ultimately show ?thesis by (simp add: table_sorted_firsts)
qed

lemma split_table_ok:
  assumes ok: "table_ok af bs" and k: "k < length bs" and mid: "bucket_middle bs k = Some m"
    and b: "b_first b = b_first (bs ! k)" "bucket_ok af b" "b_nodes b = []"
    and new: "b_first new = m" "bucket_ok af new" "b_nodes new = []"
  shows "table_ok af (split_table bs k b new)"
proof -
  let ?t = "split_table bs k b new"
  note s = table_ok_sorted [OF ok]
  have s': "table_sorted ?t" by (rule split_table_sorted [OF s k mid b(1) new(1)])
  note f = firsts_split [OF k b(1) new(1)]
  have "in_bucket (n_id n) ?t j" if j: "j < length ?t" and n: "n \<in> set (b_nodes (?t ! j))" for j n
  proof -
    have j1: "j < Suc (length bs)" "j \<noteq> k" "j \<noteq> Suc k"
      using j k n b(3) new(3) by (auto simp: nth_split)
    define i where "i = (if j < k then j else j - 1)"
    have i: "i < length bs" "n \<in> set (b_nodes (bs ! i))"
      using j1 n k by (auto simp: i_def nth_split split: if_splits)
    have e: "firsts ?t ! j = firsts bs ! i" "bucket_end ?t j = bucket_end bs i"
      using j1 k f by (auto simp: i_def bucket_end_firsts)
    have id: "is_id (n_id n)" using table_okD(1) [OF ok i(1)] i(2) by (simp add: bucket_ok_def node_ok_def)
    show ?thesis
      using table_okD(2) [OF ok i] in_bucket_val [OF s i(1) id] in_bucket_val [OF s' j id] e by simp
  qed
  moreover have "\<forall>x \<in> set ?t. bucket_ok af x"
    using set_split [of bs k b new] ok b(2) new(2) by (auto simp: table_ok_def)
  ultimately show ?thesis using s' by (simp add: table_ok_def)
qed

text \<open>The bucket of an id that belonged to the split one is deeper by one bit.\<close>

definition id_depth :: "bucket list \<Rightarrow> dht_id \<Rightarrow> int" where
  "id_depth bs nid = bucket_bit bs (find_bucket_loop nid bs)"

lemma id_depth_eq:
  assumes "table_sorted bs" and "is_id nid" and "k < length bs" and "in_bucket nid bs k"
  shows "id_depth bs nid = bucket_bit bs k"
  using find_bucket_eq [OF assms] by (simp add: id_depth_def find_bucket_def split: if_splits)

lemma bucket_bit_first:
  "length bs = length bs' \<Longrightarrow> (\<And>j. j < length bs \<Longrightarrow> b_first (bs ! j) = b_first (bs' ! j)) \<Longrightarrow> k < length bs \<Longrightarrow>
    bucket_bit bs k = bucket_bit bs' k"
  by (simp add: bucket_bit_def)

lemma split_in_bucket:
  assumes s: "table_sorted bs" and k: "k < length bs" and mid: "bucket_middle bs k = Some m"
    and b: "b_first b = b_first (bs ! k)" and new: "b_first new = m"
    and nid: "is_id nid" "in_bucket nid bs k"
  shows "in_bucket nid (split_table bs k b new) k \<or> in_bucket nid (split_table bs k b new) (Suc k)"
proof -
  let ?t = "split_table bs k b new"
  have s': "table_sorted ?t" by (rule split_table_sorted [OF s k mid b new])
  note f = firsts_split [OF k b(1) new(1)]
  have e: "bucket_end ?t k = id_val m" "bucket_end ?t (Suc k) = bucket_end bs k"
    using k f by (auto simp: bucket_end_firsts)
  have kk: "k < length ?t" "Suc k < length ?t" using k by simp_all
  show ?thesis
    using in_bucket_val [OF s k nid(1)] in_bucket_val [OF s' kk(1) nid(1)] in_bucket_val [OF s' kk(2) nid(1)]
      nid(2) e f [of k] f [of "Suc k"] k by auto
qed

lemma split_depth:
  assumes s: "table_sorted bs" and k: "k < length bs" and mid: "bucket_middle bs k = Some m"
    and b: "b_first b = b_first (bs ! k)" and new: "b_first new = m"
    and nid: "is_id nid" "in_bucket nid bs k"
  shows "id_depth (split_table bs k b new) nid = id_depth bs nid + 1"
proof -
  let ?t = "split_table bs k b new"
  have ids: "is_id (b_first (bs ! j))" if "j < length bs" for j
    using s that by (simp add: table_sorted_def)
  have "id_val (b_first (bs ! k)) < bucket_end bs k"
    using bucket_nonempty [OF s k] by (simp add: firsts_nth k)
  note low = bucket_middle_between(4) [OF mid ids [OF k] ids this]
  have at_k: "bucket_bit ?t k = bucket_bit bs k + 1"
    using k b new low by (simp add: bucket_bit_def nth_split)
  have at_Suc: "bucket_bit ?t (Suc k) = bucket_bit bs k + 1"
    using k b new low lowbit_bounds(1) [of "b_first (bs ! k)"] by (auto simp: bucket_bit_def nth_split)
  have s': "table_sorted ?t" by (rule split_table_sorted [OF s k mid b new])
  have kk: "k < length ?t" "Suc k < length ?t" using k by simp_all
  show ?thesis
    using split_in_bucket [OF assms] id_depth_eq [OF s nid(1) k nid(2)]
      id_depth_eq [OF s' nid(1) kk(1)] id_depth_eq [OF s' nid(1) kk(2)] at_k at_Suc by auto
qed

lemma split_ids: "k < length bs \<Longrightarrow> b_nodes b = [] \<Longrightarrow> b_nodes new = [] \<Longrightarrow>
    table_ids (split_table bs k b new) \<subseteq> table_ids bs"
proof -
  assume e: "b_nodes b = []" "b_nodes new = []"
  have "\<And>x. x \<in> set (split_table bs k b new) \<Longrightarrow> x \<in> set bs \<or> x = b \<or> x = new"
    using set_split [of bs k b new] by blast
  then show ?thesis using e unfolding table_ids_def by fastforce
qed

lemma split_ids_away:
  assumes ok: "table_ok af bs" and k: "k < length bs" and b: "b_nodes b = []" "b_nodes new = []"
    and n: "n \<in> set (b_nodes (bs ! k))"
  shows "n_id n \<notin> table_ids (split_table bs k b new)"
proof
  assume "n_id n \<in> table_ids (split_table bs k b new)"
  then obtain j where j: "j < Suc (length bs)" "n_id n \<in> n_id ` set (b_nodes (split_table bs k b new ! j))"
    using k unfolding table_ids_def by (metis UN_E in_set_conv_nth length_split)
  then have jk: "j \<noteq> k" "j \<noteq> Suc k" using b k by (auto simp: nth_split)
  define i where "i = (if j < k then j else j - 1)"
  have i: "i < length bs" "n_id n \<in> n_id ` set (b_nodes (bs ! i))" "i \<noteq> k"
    using j jk k by (auto simp: i_def nth_split split: if_splits)
  then have "in_bucket (n_id n) bs i" using table_okD(2) [OF ok i(1)] by auto
  moreover have "in_bucket (n_id n) bs k" "is_id (n_id n)"
    using table_okD [OF ok k] n by (auto simp: bucket_ok_def node_ok_def)
  ultimately show False
    using in_bucket_unique [OF table_ok_sorted [OF ok]] i k by blast
qed

end
