(* ===== verification/DhtNear.thy ===== *)
theory DhtNear
  imports DhtTableInv DhtSearch
begin

text \<open>
  The bounded lists of ids sorted by distance.  The locale \<open>nearest\<close> is the interface that
  \<open>insert_search_node\<close> and \<open>insert_closest_node\<close> share; whatever is put into such a list one
  after the other, it holds the nearest ones.  Then the invariant of a search.
\<close>

section \<open>Sorted by distance\<close>

abbreviation near_sorted :: "dht_id \<Rightarrow> dht_id list \<Rightarrow> bool" where
  "near_sorted ref ks \<equiv> sorted_wrt (\<lambda>a b. xor_dist a ref < xor_dist b ref) ks"

definition near_insert :: "dht_id \<Rightarrow> dht_id \<Rightarrow> dht_id list \<Rightarrow> dht_id list" where
  "near_insert ref k ks = (if k \<in> set ks then ks else insort_key (\<lambda>x. xor_dist x ref) k ks)"

lemma near_sorted_distinct: "near_sorted ref ks \<Longrightarrow> distinct ks"
  by (induction ks) auto

lemma set_near_insert [simp]: "set (near_insert ref k ks) = insert k (set ks)"
  by (auto simp: near_insert_def set_insort_key)

lemma near_insert_sorted:
  assumes "near_sorted ref ks" and "\<forall>x \<in> set ks. is_id x" and "is_id k" and "is_id ref"
  shows "near_sorted ref (near_insert ref k ks)"
proof (cases "k \<in> set ks")
  case False
  then have "near_sorted ref (insort_key (\<lambda>x. xor_dist x ref) k ks)"
    using assms(1,2)
  proof (induction ks)
    case (Cons x xs)
    have "xor_dist k ref \<noteq> xor_dist x ref" using Cons.prems assms(3,4) by (auto simp: xor_dist_inject)
    then show ?case using Cons by (auto simp: set_insort_key)
  qed simp
  then show ?thesis using False by (simp add: near_insert_def)
qed (simp add: near_insert_def assms(1))

text \<open>What the walk \<open>closest_loop\<close> comes to on a sorted list.\<close>

lemma closest_loop_shift:
  "closest_loop nid ref xs i
    = (case closest_loop nid ref xs 0 of Known j \<Rightarrow> Known (i + j) | Before j \<Rightarrow> Before (i + j))"
proof (induction xs arbitrary: i)
  case (Cons x xs)
  show ?case
    using Cons [of "Suc i"] Cons [of "Suc 0"] by (auto split: closest_pos.splits)
qed simp

lemma closest_loop_ok:
  assumes "near_sorted ref ks" and "\<forall>x \<in> set ks. is_id x" and "is_id k" and "is_id ref"
  shows "(\<exists>i < length ks. closest_loop k ref ks 0 = Known i \<and> ks ! i = k)
    \<or> (\<exists>i \<le> length ks. closest_loop k ref ks 0 = Before i \<and> k \<notin> set ks
         \<and> insort_key (\<lambda>x. xor_dist x ref) k ks = take i ks @ k # drop i ks)"
  using assms(1,2)
proof (induction ks)
  case (Cons x xs)
  have x: "is_id x" using Cons.prems by simp
  consider "k = x" | "k \<noteq> x" "xor_dist k ref < xor_dist x ref" | "k \<noteq> x" "xor_dist x ref < xor_dist k ref"
    using xor_dist_inject [OF assms(3) x assms(4)] by (metis linorder_neqE_nat)
  then show ?case
  proof cases
    case 1
    then show ?thesis using id_cmp_val(3) [OF assms(3) x] by (intro disjI1 exI [of _ 0]) simp
  next
    case 2
    have "k \<notin> set xs" using Cons.prems 2(2) by auto
    moreover have "closest_loop k ref (x # xs) 0 = Before 0"
      using 2 id_cmp_val(3) [OF assms(3) x] xorcmp_val [OF assms(3) x assms(4)] by simp
    ultimately show ?thesis using 2 by (intro disjI2 exI [of _ 0]) simp
  next
    case 3
    have step: "closest_loop k ref (x # xs) 0
        = (case closest_loop k ref xs 0 of Known j \<Rightarrow> Known (Suc j) | Before j \<Rightarrow> Before (Suc j))"
      using 3 id_cmp_val(3) [OF assms(3) x] xorcmp_val [OF assms(3) x assms(4)]
      by (simp add: closest_loop_shift [of k ref xs "Suc 0"] split: closest_pos.split)
    from Cons.IH Cons.prems consider
      i where "i < length xs" "closest_loop k ref xs 0 = Known i" "xs ! i = k"
      | i where "i \<le> length xs" "closest_loop k ref xs 0 = Before i" "k \<notin> set xs"
          "insort_key (\<lambda>x. xor_dist x ref) k xs = take i xs @ k # drop i xs" by auto
    then show ?thesis
    proof cases
      case (1 i)
      then show ?thesis using step by (intro disjI1 exI [of _ "Suc i"]) simp
    next
      case (2 i)
      then show ?thesis using step 3 by (intro disjI2 exI [of _ "Suc i"]) simp
    qed
  qed
qed simp

section \<open>The interface of a bounded sorted list\<close>

lemma insort_last: "\<forall>x \<in> set xs. f x < f k \<Longrightarrow> insort_key f k xs = xs @ [k]"
  by (induction xs) auto

lemma take_insort_take:
  assumes s: "near_sorted ref ks" and ids: "\<forall>x \<in> set ks. is_id x" "is_id k" "is_id ref"
  shows "take c (near_insert ref k (take c ks)) = take c (near_insert ref k ks)"
proof -
  let ?f = "\<lambda>x. xor_dist x ref"
  have main: "take c (insort_key ?f k (take c xs)) = take c (insort_key ?f k xs)" for xs
  proof (induction xs arbitrary: c)
    case (Cons x xs)
    have "take n (x # take n xs) = take n (x # xs)" for n by (cases n) (simp_all add: min_def)
    then show ?case using Cons by (cases c) auto
  qed simp
  show ?thesis
  proof (cases "k \<in> set ks")
    case False
    then show ?thesis using main [of ks] in_set_takeD [of k c ks] by (auto simp: near_insert_def)
  next
    case in_ks: True
    show ?thesis
    proof (cases "k \<in> set (take c ks)")
      case False
      then obtain j where j: "j < length ks" "ks ! j = k" "c \<le> j"
        using in_ks by (metis in_set_conv_nth in_set_takeD length_take min_less_iff_conj not_le nth_take)
      have "insort_key ?f k (take c ks) = take c ks @ [k]"
      proof -
        have "\<forall>x \<in> set (take c ks). ?f x < ?f k"
        proof
          fix x assume "x \<in> set (take c ks)"
          then obtain i where "i < c" "i < length ks" "x = ks ! i" by (auto simp: in_set_conv_nth)
          then show "?f x < ?f k" using sorted_wrt_nth_less [OF s, of i j] j by simp
        qed
        then show ?thesis by (rule insort_last)
      qed
      then show ?thesis using False in_ks j by (simp add: near_insert_def)
    qed (simp add: near_insert_def in_ks)
  qed
qed

text \<open>
  The keys of the list are ids, sorted strictly by their distance to the reference of the
  context, and at most \<open>cap\<close> many; putting an element in inserts its key and cuts the list.
\<close>

locale nearest =
  fixes put :: "'r \<Rightarrow> 'i \<Rightarrow> 'e list \<Rightarrow> 'e list" and fits :: "'r \<Rightarrow> 'i \<Rightarrow> bool"
    and ref :: "'r \<Rightarrow> dht_id" and ikey :: "'i \<Rightarrow> dht_id" and key :: "'e \<Rightarrow> dht_id" and cap :: nat
  assumes put_keys: "\<lbrakk>is_id (ref r); fits r i; \<forall>e \<in> set es. is_id (key e); near_sorted (ref r) (map key es);
      length es \<le> cap\<rbrakk> \<Longrightarrow> map key (put r i es) = take cap (near_insert (ref r) (ikey i) (map key es))"
    and fits_id: "fits r i \<Longrightarrow> is_id (ikey i)"
begin

definition list_ok :: "'r \<Rightarrow> 'e list \<Rightarrow> bool" where
  "list_ok r es \<longleftrightarrow> (\<forall>e \<in> set es. is_id (key e)) \<and> near_sorted (ref r) (map key es) \<and> length es \<le> cap"

lemma put_ok:
  assumes "is_id (ref r)" and "fits r i" and "list_ok r es"
  shows "list_ok r (put r i es)"
proof -
  let ?new = "near_insert (ref r) (ikey i) (map key es)"
  have k: "map key (put r i es) = take cap ?new"
    using put_keys assms by (simp add: list_ok_def)
  have "near_sorted (ref r) ?new"
    using assms fits_id by (intro near_insert_sorted) (auto simp: list_ok_def)
  then have near: "near_sorted (ref r) (map key (put r i es))"
    using k by (simp add: sorted_wrt_take)
  have "key ` set (put r i es) \<subseteq> insert (ikey i) (key ` set es)"
  proof -
    have "key ` set (put r i es) = set (take cap ?new)" by (simp only: k [symmetric] set_map)
    then show ?thesis using set_take_subset [of cap ?new] by (simp only: set_near_insert set_map)
  qed
  moreover have "\<forall>x \<in> insert (ikey i) (key ` set es). is_id x"
    using assms(3) fits_id [OF assms(2)] by (simp add: list_ok_def)
  ultimately have "\<forall>x \<in> key ` set (put r i es). is_id x" by blast
  moreover have "length (put r i es) \<le> cap"
  proof -
    have "length (put r i es) = length (take cap ?new)" by (simp only: k [symmetric] length_map)
    then show ?thesis by simp
  qed
  ultimately show ?thesis using near by (simp add: list_ok_def)
qed

text \<open>The nearest of everything that was put in remain.\<close>

lemma fold_nearest:
  assumes "is_id (ref r)" and "\<forall>i \<in> set is. fits r i"
  shows "\<exists>all. near_sorted (ref r) all \<and> set all = ikey ` set is
    \<and> map key (fold (put r) is []) = take cap all \<and> list_ok r (fold (put r) is [])"
  using assms(2)
proof (induction "is" rule: rev_induct)
  case Nil
  then show ?case by (intro exI [of _ "[]"]) (simp add: list_ok_def)
next
  case (snoc i "is")
  then obtain all where a: "near_sorted (ref r) all" "set all = ikey ` set is"
    "map key (fold (put r) is []) = take cap all" "list_ok r (fold (put r) is [])" by auto
  have ids: "\<forall>x \<in> set all. is_id x" "is_id (ikey i)"
    using a(2) snoc.prems fits_id by auto
  let ?all = "near_insert (ref r) (ikey i) all"
  have "map key (put r i (fold (put r) is [])) = take cap ?all"
    using put_keys [of r i "fold (put r) is []"] assms(1) snoc.prems a(3,4)
      take_insort_take [OF a(1) ids assms(1)] by (simp add: list_ok_def)
  moreover have "near_sorted (ref r) ?all"
    by (rule near_insert_sorted [OF a(1) ids assms(1)])
  moreover have "list_ok r (put r i (fold (put r) is []))"
    using put_ok assms(1) snoc.prems a(4) by simp
  ultimately show ?case using a(2) by (intro exI [of _ ?all]) simp
qed

end

section \<open>Searches\<close>

definition search_node_ok :: "nat \<Rightarrow> search_node \<Rightarrow> bool" where
  "search_node_ok af n \<longleftrightarrow> is_id (sn_id n) \<and> ss_ok af (sn_ss n) (sn_sslen n)"

definition search_ok :: "search \<Rightarrow> bool" where
  "search_ok sr \<longleftrightarrow> is_id (sr_id sr) \<and> (sr_af sr = AF_INET \<or> sr_af sr = AF_INET6) \<and> length (sr_nodes sr) \<le> SEARCH_NODES
     \<and> near_sorted (sr_id sr) (map sn_id (sr_nodes sr)) \<and> (\<forall>n \<in> set (sr_nodes sr). search_node_ok (sr_af sr) n)"

lemma copy_onto_ss: "ss_ok af sa salen \<Longrightarrow> 2 \<le> length dst \<Longrightarrow> ss_ok af (copy_onto dst sa salen) salen"
  by (simp add: ss_ok_def copy_onto_def sa_family_def min_def)

lemma search_found_id [simp]: "sn_id (search_found sa salen replied token now n) = sn_id n"
  by (simp add: search_found_def Let_def split: option.split)

lemma search_found_ss [simp]:
  "sn_ss (search_found sa salen replied token now n) = copy_onto (sn_ss n) sa salen"
  "sn_sslen (search_found sa salen replied token now n) = salen"
  by (simp_all add: search_found_def Let_def split: option.split)

lemma search_found_ok:
  "ss_ok af sa salen \<Longrightarrow> is_id (sn_id n) \<Longrightarrow> 2 \<le> length (sn_ss n) \<Longrightarrow>
    search_node_ok af (search_found sa salen replied token now n)"
  by (simp add: search_node_ok_def copy_onto_ss)

lemma map_update_same: "f x = f (xs ! i) \<Longrightarrow> map f (xs[i := x]) = map f xs"
  by (cases "i < length xs") (simp_all add: map_update list_update_same_conv list_update_beyond not_less)

text \<open>The ids of a search after an insertion.\<close>

lemma insert_search_keys:
  assumes "is_id (sr_id sr)" and "sa_family sa = sr_af sr" and "is_id nid" and "\<forall>n \<in> set (sr_nodes sr). is_id (sn_id n)"
    and "near_sorted (sr_id sr) (map sn_id (sr_nodes sr))" and "length (sr_nodes sr) \<le> SEARCH_NODES"
  shows "map sn_id (sr_nodes (snd (insert_search_node nid sa salen replied token now sr)))
    = take SEARCH_NODES (near_insert (sr_id sr) nid (map sn_id (sr_nodes sr)))"
proof -
  let ?ks = "map sn_id (sr_nodes sr)"
  have "\<forall>x \<in> set ?ks. is_id x" using assms(4) by simp
  from closest_loop_ok [OF assms(5) this assms(3,1)] show ?thesis
  proof (elim disjE exE conjE)
    fix i assume i: "i < length ?ks" "closest_loop nid (sr_id sr) ?ks 0 = Known i" "?ks ! i = nid"
    then have "nid \<in> set ?ks" by (metis nth_mem)
    then show ?thesis
      using i assms(2,6) by (simp add: insert_search_node_def near_insert_def map_update_same)
  next
    fix i assume i: "i \<le> length ?ks" "closest_loop nid (sr_id sr) ?ks 0 = Before i" "nid \<notin> set ?ks"
      "insort_key (\<lambda>x. xor_dist x (sr_id sr)) nid ?ks = take i ?ks @ nid # drop i ?ks"
    have n: "take 20 nid = nid" using assms(3) by simp
    show ?thesis
    proof (cases "i = SEARCH_NODES")
      case True
      then show ?thesis
        using i assms(2,6) by (simp add: insert_search_node_def near_insert_def)
    next
      case False
      have "map sn_id (take c (take i (sr_nodes sr) @ x # drop i (sr_nodes sr)))
          = take c (take i ?ks @ sn_id x # drop i ?ks)" for c x
        by (simp only: take_map [symmetric] drop_map [symmetric] map_append list.map)
      then show ?thesis
        using i False assms(2) n by (simp add: insert_search_node_def near_insert_def Let_def)
    qed
  qed
qed

interpretation near_search: nearest
  "\<lambda>(now, sr) n es. sr_nodes (snd (insert_search_node (n_id n) (n_ss n) (n_sslen n) False None now (sr\<lparr>sr_nodes := es\<rparr>)))"
  "\<lambda>(now, sr) n. node_ok (sr_af sr) n" "\<lambda>(now, sr). sr_id sr" n_id sn_id SEARCH_NODES
proof (unfold_locales, goal_cases)
  case (1 r i es)
  then show ?case
    using insert_search_keys [of "(snd r)\<lparr>sr_nodes := es\<rparr>" "n_ss i" "n_id i"]
    by (cases r) (simp add: node_ok_def ss_ok_def)
qed (auto simp: node_ok_def split: prod.splits)

section \<open>The nodes of an answer\<close>

definition sendable :: "node \<Rightarrow> bool" where
  "sendable n \<longleftrightarrow> node_ok AF_INET n \<or> node_ok AF_INET6 n"

definition put_closest :: "dht_id \<Rightarrow> node \<Rightarrow> byte list list \<Rightarrow> byte list list" where
  "put_closest ref n es = the (insert_closest_node es ref n)"

lemma sendable_family: "sendable n \<Longrightarrow> sa_family (n_ss n) = AF_INET \<or> sa_family (n_ss n) = AF_INET6"
  by (auto simp: sendable_def node_ok_def ss_ok_def)

lemma sendable_id: "sendable n \<Longrightarrow> is_id (n_id n)"
  by (auto simp: sendable_def node_ok_def)

lemma insert_closest_some: "sendable n \<Longrightarrow> insert_closest_node es ref n = Some (put_closest ref n es)"
  using sendable_family [of n]
  by (auto simp: put_closest_def insert_closest_node_def Let_def split: closest_pos.split)

interpretation near_closest: nearest put_closest "\<lambda>ref. sendable" "\<lambda>ref. ref" n_id "take 20" 8
proof (unfold_locales, goal_cases)
  case (1 ref n es)
  let ?ks = "map (take 20) es"
  have "\<forall>x \<in> set ?ks. is_id x" using 1(3) by auto
  from closest_loop_ok [OF 1(4) this sendable_id [OF 1(2)] 1(1)] show ?case
  proof (elim disjE exE conjE)
    fix i assume i: "i < length ?ks" "closest_loop (n_id n) ref ?ks 0 = Known i" "?ks ! i = n_id n"
    then have "n_id n \<in> set ?ks" by (metis nth_mem)
    then show ?thesis
      using i sendable_family [OF 1(2)] 1(5) by (auto simp: put_closest_def insert_closest_node_def near_insert_def Let_def)
  next
    fix i assume i: "i \<le> length ?ks" "closest_loop (n_id n) ref ?ks 0 = Before i" "n_id n \<notin> set ?ks"
      "insort_key (\<lambda>x. xor_dist x ref) (n_id n) ?ks = take i ?ks @ n_id n # drop i ?ks"
    have cut: "map (take 20) (take c (take i es @ (n_id n @ x) # drop i es)) = take c (take i ?ks @ n_id n # drop i ?ks)" for c x
      using sendable_id [OF 1(2)] by (simp only: take_map [symmetric] drop_map [symmetric] map_append list.map) simp
    show ?thesis
    proof (cases "i = 8")
      case True
      then show ?thesis
        using i sendable_family [OF 1(2)] 1(5) by (auto simp: put_closest_def insert_closest_node_def near_insert_def Let_def)
    next
      case False
      show ?thesis
        using i False sendable_family [OF 1(2)] cut
        by (auto simp: put_closest_def insert_closest_node_def near_insert_def Let_def)
    qed
  qed
next
  case (2 ref n)
  then show ?case by (rule sendable_id)
qed

lemma buffer_closest_run:
  "\<forall>n \<in> set ns. sendable n \<Longrightarrow>
    buffer_closest_nodes d es ref ns = Some (fold (put_closest ref) (filter (node_good d) ns) es)"
  by (induction ns arbitrary: es) (simp_all add: insert_closest_some)

text \<open>The buckets an answer draws from: the one of the target, the next and the previous.\<close>

definition answer_nodes :: "bucket list \<Rightarrow> nat \<Rightarrow> node list" where
  "answer_nodes bs k = b_nodes (bs ! k) @ (if Suc k < length bs then b_nodes (bs ! Suc k) else [])
     @ (if 0 < k then b_nodes (bs ! (k - 1)) else [])"

lemma table_sendable:
  assumes "table_ok af bs" and "af = AF_INET \<or> af = AF_INET6" and "k < length bs"
  shows "\<forall>n \<in> set (b_nodes (bs ! k)). sendable n"
  using table_okD(1) [OF assms(1,3)] assms(2) by (auto simp: bucket_ok_def sendable_def)

lemma closest_in_table_run:
  assumes ok: "table_ok af bs" and af: "af = AF_INET \<or> af = AF_INET6" and k: "find_bucket ref bs = Some k" "k < length bs"
  shows "closest_in_table d ref bs = Some (fold (put_closest ref) (filter (node_good d) (answer_nodes bs k)) [])"
proof -
  have run: "buffer_closest_nodes d es ref (b_nodes (bs ! j)) = Some (fold (put_closest ref) (filter (node_good d) (b_nodes (bs ! j))) es)"
    if "j < length bs" for j es
    using table_sendable [OF ok af that] by (rule buffer_closest_run)
  have "k - 1 < length bs" using k(2) by simp
  then show ?thesis
    using k run by (simp add: closest_in_table_def answer_nodes_def previous_bucket_def)
qed

section \<open>Operations keep a search in order\<close>

lemma search_ok_list: "search_ok sr \<Longrightarrow> (\<forall>n \<in> set (sr_nodes sr). is_id (sn_id n))"
  by (simp add: search_ok_def search_node_ok_def)

lemma insert_search_fields:
  "sr_af (snd (insert_search_node nid sa salen replied token now sr)) = sr_af sr"
  "sr_id (snd (insert_search_node nid sa salen replied token now sr)) = sr_id sr"
  "sr_done (snd (insert_search_node nid sa salen replied token now sr)) = sr_done sr"
  "sr_port (snd (insert_search_node nid sa salen replied token now sr)) = sr_port sr"
  "sr_tid (snd (insert_search_node nid sa salen replied token now sr)) = sr_tid sr"
  "sr_step_time (snd (insert_search_node nid sa salen replied token now sr)) = sr_step_time sr"
  by (simp_all add: insert_search_node_def Let_def split: closest_pos.split)

lemma insert_search_members:
  assumes "n \<in> set (sr_nodes (snd (insert_search_node nid sa salen replied token now sr)))"
  shows "n \<in> set (sr_nodes sr)
    \<or> n = search_found sa salen replied token now (search_node_zero\<lparr>sn_id := take 20 nid\<rparr>)
    \<or> (\<exists>n0 \<in> set (sr_nodes sr). n = search_found sa salen replied token now n0)"
proof -
  let ?new = "search_found sa salen replied token now (search_node_zero\<lparr>sn_id := take 20 nid\<rparr>)"
  have shift: "x \<in> set (take c (take i ns @ y # drop i ns)) \<Longrightarrow> x \<in> set ns \<or> x = y" for x y :: search_node and c i ns
  proof -
    assume "x \<in> set (take c (take i ns @ y # drop i ns))"
    then have "x \<in> set (take i ns @ y # drop i ns)" by (rule in_set_takeD)
    then show ?thesis using in_set_takeD [of x i ns] in_set_dropD [of x i ns] by auto
  qed
  show ?thesis
  proof (cases "closest_loop nid (sr_id sr) (map sn_id (sr_nodes sr)) 0")
    case (Known i)
    then show ?thesis
      using assms set_update_subset_insert [of "sr_nodes sr" i "search_found sa salen replied token now (sr_nodes sr ! i)"]
      by (cases "i < length (sr_nodes sr)")
        (auto simp: insert_search_node_def list_update_beyond not_less split: if_splits)
  next
    case (Before i)
    then show ?thesis
      using assms shift by (simp add: insert_search_node_def Let_def del: take_append split: if_splits) blast
  qed
qed

lemma insert_search_ok:
  assumes ok: "search_ok sr" and id: "is_id nid" and sa: "2 \<le> length sa" "2 \<le> salen" "salen \<le> sizeof_sockaddr_storage"
  shows "search_ok (snd (insert_search_node nid sa salen replied token now sr))"
proof (cases "sa_family sa = sr_af sr")
  case fam: True
  let ?sr = "snd (insert_search_node nid sa salen replied token now sr)"
  have keys: "map sn_id (sr_nodes ?sr) = take SEARCH_NODES (near_insert (sr_id sr) nid (map sn_id (sr_nodes sr)))"
    by (rule insert_search_keys) (use ok id fam in \<open>simp_all add: search_ok_def search_node_ok_def\<close>)
  have sorted: "near_sorted (sr_id sr) (map sn_id (sr_nodes ?sr))"
    unfolding keys using ok id by (intro sorted_wrt_take near_insert_sorted) (simp_all add: search_ok_def search_node_ok_def)
  have "length (map sn_id (sr_nodes ?sr)) \<le> SEARCH_NODES"
    unfolding keys by simp
  then have len: "length (sr_nodes ?sr) \<le> SEARCH_NODES" by simp
  have s: "ss_ok (sr_af sr) sa salen" using fam sa by (simp add: ss_ok_def)
  have "search_node_ok (sr_af sr) n" if "n \<in> set (sr_nodes ?sr)" for n
    using insert_search_members [OF that] ok s id
    by (auto simp: search_ok_def search_node_zero_def search_node_ok_def ss_ok_def intro!: search_found_ok [unfolded search_node_ok_def, THEN conjunct1])
      (auto simp: search_ok_def search_node_ok_def ss_ok_def copy_onto_def sa_family_def min_def)
  then show ?thesis using ok sorted len by (simp add: search_ok_def insert_search_fields)
qed (simp add: insert_search_node_def ok)

lemma search_ok_nodes:
  assumes "search_ok sr" and "map sn_id ns = map sn_id (sr_nodes sr)" and "\<forall>n \<in> set ns. ss_ok (sr_af sr) (sn_ss n) (sn_sslen n)"
  shows "search_ok (sr\<lparr>sr_nodes := ns\<rparr>)"
proof -
  have "length ns = length (sr_nodes sr)" using assms(2) by (metis length_map)
  moreover have "\<forall>x \<in> sn_id ` set ns. is_id x"
    using assms(1) arg_cong [OF assms(2), of set] by (simp add: search_ok_def search_node_ok_def)
  ultimately show ?thesis using assms by (simp add: search_ok_def search_node_ok_def)
qed

lemma flush_ok: "search_ok sr \<Longrightarrow> search_ok (flush_search_node i sr)"
proof -
  assume ok: "search_ok sr"
  have sub: "set (take i (sr_nodes sr) @ drop (Suc i) (sr_nodes sr)) \<subseteq> set (sr_nodes sr)"
    using set_take_subset set_drop_subset by fastforce
  have "near_sorted (sr_id sr) (map sn_id (take i (sr_nodes sr) @ drop (Suc i) (sr_nodes sr)))"
  proof -
    let ?ks = "map sn_id (sr_nodes sr)"
    have s: "near_sorted (sr_id sr) (take i ?ks @ drop i ?ks)" using ok by (simp add: search_ok_def)
    have d: "drop (Suc i) ?ks = drop 1 (drop i ?ks)" by simp
    have "near_sorted (sr_id sr) (take i ?ks @ drop (Suc i) ?ks)"
      using s unfolding d sorted_wrt_append by (meson in_set_dropD sorted_wrt_drop)
    then show ?thesis by (simp add: take_map drop_map)
  qed
  then show ?thesis using ok sub by (auto simp: search_ok_def flush_search_node_def)
qed

text \<open>The loop of the blacklist removes the node wherever it is.\<close>

lemma flush_loop_away:
  "\<lbrakk>\<forall>n \<in> set (sr_nodes sr). is_id (sn_id n); is_id nid; \<forall>n \<in> set (sr_nodes sr). sn_id n \<noteq> nid\<rbrakk> \<Longrightarrow>
    flush_loop nid sr i = sr"
proof (induction nid sr i rule: flush_loop.induct)
  case (1 nid sr i)
  show ?case
  proof (cases "i < length (sr_nodes sr)")
    case True
    then have "id_cmp (sn_id (sr_nodes sr ! i)) nid \<noteq> 0"
      using "1.prems" id_cmp_val(3) by simp
    then show ?thesis using "1.IH" [OF True] "1.prems" by (subst flush_loop.simps) simp
  qed (subst flush_loop.simps, simp)
qed

lemma flush_loop_run:
  assumes "distinct (map sn_id (sr_nodes sr))" and "\<forall>n \<in> set (sr_nodes sr). is_id (sn_id n)" and "is_id nid"
    and "\<forall>n \<in> set (take i (sr_nodes sr)). sn_id n \<noteq> nid"
  shows "flush_loop nid sr i = sr\<lparr>sr_nodes := filter (\<lambda>n. sn_id n \<noteq> nid) (sr_nodes sr)\<rparr>"
  using assms
proof (induction nid sr i rule: flush_loop.induct)
  case (1 nid sr i)
  let ?ns = "sr_nodes sr"
  show ?case
  proof (cases "i < length ?ns")
    case i: True
    show ?thesis
    proof (cases "sn_id (?ns ! i) = nid")
      case True
      let ?rest = "take i ?ns @ drop (Suc i) ?ns"
      have split: "?ns = take i ?ns @ ?ns ! i # drop (Suc i) ?ns" using i by (rule id_take_nth_drop)
      then have "distinct (map sn_id (take i ?ns @ ?ns ! i # drop (Suc i) ?ns))" using "1.prems"(1) by simp
      then have "nid \<notin> sn_id ` set ?rest"
        using True by (simp only: map_append list.map distinct_append distinct.simps set_append set_map) auto
      then have away: "\<forall>n \<in> set ?rest. sn_id n \<noteq> nid" by blast
      then have rest: "filter (\<lambda>n. sn_id n \<noteq> nid) ?rest = ?rest" by (intro filter_True) simp
      have "filter (\<lambda>n. sn_id n \<noteq> nid) ?ns = ?rest"
        using arg_cong [OF split, of "filter (\<lambda>n. sn_id n \<noteq> nid)"] rest True by simp
      moreover have "set ?rest \<subseteq> set ?ns"
        using set_take_subset set_drop_subset by fastforce
      then have "flush_loop nid (sr\<lparr>sr_nodes := ?rest\<rparr>) (Suc i) = sr\<lparr>sr_nodes := ?rest\<rparr>"
        using "1.prems"(2,3) away by (intro flush_loop_away) auto
      moreover have "id_cmp (sn_id (?ns ! i)) nid = 0"
        using True "1.prems"(3) id_cmp_val(3) by simp
      ultimately show ?thesis
        using i by (subst flush_loop.simps) (simp add: flush_search_node_def)
    next
      case False
      then have "id_cmp (sn_id (?ns ! i)) nid \<noteq> 0"
        using "1.prems"(2,3) i id_cmp_val(3) by simp
      moreover have "\<forall>n \<in> set (take (Suc i) ?ns). sn_id n \<noteq> nid"
        using "1.prems"(4) False i by (simp add: take_Suc_conv_app_nth)
      ultimately show ?thesis using "1.IH" [OF i] "1.prems" i by (subst flush_loop.simps) simp
    qed
  next
    case False
    then have "filter (\<lambda>n. sn_id n \<noteq> nid) ?ns = ?ns" using "1.prems"(4) by (intro filter_True) simp
    then show ?thesis using False by (subst flush_loop.simps) simp
  qed
qed

lemma search_ok_flushed:
  assumes "search_ok sr" and "is_id nid"
  shows "flush_loop nid sr 0 = sr\<lparr>sr_nodes := filter (\<lambda>n. sn_id n \<noteq> nid) (sr_nodes sr)\<rparr>"
    and "search_ok (flush_loop nid sr 0)"
proof -
  show e: "flush_loop nid sr 0 = sr\<lparr>sr_nodes := filter (\<lambda>n. sn_id n \<noteq> nid) (sr_nodes sr)\<rparr>"
    using assms search_ok_list [OF assms(1)] near_sorted_distinct
    by (intro flush_loop_run) (auto simp: search_ok_def)
  have "near_sorted (sr_id sr) (map sn_id (filter P (sr_nodes sr)))" for P
    using assms(1) by (simp add: search_ok_def sorted_wrt_map sorted_wrt_filter)
  then show "search_ok (flush_loop nid sr 0)"
    using assms(1) le_trans [OF length_filter_le] by (auto simp: e search_ok_def)
qed

end
