(* ===== verification/DhtInv.thy ===== *)
theory DhtInv
  imports DhtNear DhtPeriodic
begin

text \<open>
  The invariant of the whole state, and what the operations on nodes and searches do to it.
  An operation \<open>keeps\<close> a relation if it returns, leaves the invariant, and the old and the new
  state are related; the locale \<open>stable\<close> has the rules to compose such facts.
\<close>

section \<open>The invariant\<close>

definition packet_ok :: "packet \<Rightarrow> bool" where
  "packet_ok p \<longleftrightarrow> length (pk_data p) \<le> 2048 \<and> 0 \<le> pk_socket p \<and> 2 \<le> pk_tolen p \<and> pk_tolen p \<le> sizeof_sockaddr_storage"

definition storage_ok :: "storage list \<Rightarrow> int \<Rightarrow> bool" where
  "storage_ok sts num \<longleftrightarrow> distinct (map st_id sts) \<and> num = int (length sts) \<and> num \<le> DHT_MAX_HASHES
     \<and> (\<forall>st \<in> set sts. is_id (st_id st) \<and> length (st_peers st) \<le> st_maxpeers st \<and> st_maxpeers st \<le> DHT_MAX_PEERS)"

definition dht_ok :: "dht \<Rightarrow> bool" where
  "dht_ok d \<longleftrightarrow> is_id (d_myid d)
     \<and> table_ok AF_INET (d_buckets d) \<and> d_myid d \<notin> table_ids (d_buckets d)
     \<and> table_ok AF_INET6 (d_buckets6 d) \<and> d_myid d \<notin> table_ids (d_buckets6 d)
     \<and> (\<forall>sr \<in> set (d_searches d). search_ok sr)
     \<and> (\<forall>p \<in> set (d_sent d). packet_ok p)
     \<and> length (d_blacklist d) = DHT_MAX_BLACKLISTED \<and> d_next_blacklisted d < DHT_MAX_BLACKLISTED
     \<and> storage_ok (d_storage d) (d_numstorage d)"

abbreviation is_af :: "nat \<Rightarrow> bool" where
  "is_af af \<equiv> af = AF_INET \<or> af = AF_INET6"

abbreviation salen_ok :: "nat \<Rightarrow> bool" where
  "salen_ok n \<equiv> 2 \<le> n \<and> n \<le> sizeof_sockaddr_storage"

text \<open>
  Three relations, from the weakest: the searches keep their number; the tables keep their
  first ids and the ids of their nodes as well; the searches also keep the number of their nodes.
\<close>

definition dht_same :: "dht \<Rightarrow> dht \<Rightarrow> bool" where
  "dht_same d d' \<longleftrightarrow> d_myid d' = d_myid d \<and> length (d_searches d') = length (d_searches d) \<and> d_now d' = d_now d"

definition table_frame :: "bucket list \<Rightarrow> (dht_id \<times> dht_id list) list" where
  "table_frame bs = map (\<lambda>b. (b_first b, map n_id (b_nodes b))) bs"

definition dht_tables :: "dht \<Rightarrow> dht \<Rightarrow> bool" where
  "dht_tables d d' \<longleftrightarrow> dht_same d d' \<and> table_frame (d_buckets d') = table_frame (d_buckets d)
     \<and> table_frame (d_buckets6 d') = table_frame (d_buckets6 d)"

definition dht_shape :: "dht \<Rightarrow> dht \<Rightarrow> bool" where
  "dht_shape d d' \<longleftrightarrow> dht_tables d d'
     \<and> map (\<lambda>sr. length (sr_nodes sr)) (d_searches d') = map (\<lambda>sr. length (sr_nodes sr)) (d_searches d)"

section \<open>Composition\<close>

definition keeps :: "(dht \<Rightarrow> dht \<Rightarrow> bool) \<Rightarrow> dht \<Rightarrow> dht option \<Rightarrow> bool" where
  "keeps R d r \<longleftrightarrow> (\<exists>d'. r = Some d' \<and> dht_ok d' \<and> R d d')"

locale stable =
  fixes R :: "dht \<Rightarrow> dht \<Rightarrow> bool"
  assumes R_refl: "R d d" and R_trans: "R a b \<Longrightarrow> R b c \<Longrightarrow> R a c"
begin

lemma keepsI: "dht_ok d' \<Longrightarrow> R d d' \<Longrightarrow> keeps R d (Some d')"
  by (simp add: keeps_def)

lemma keeps_same: "dht_ok d \<Longrightarrow> keeps R d (Some d)"
  by (simp add: keeps_def R_refl)

lemma keeps_from: "R d d1 \<Longrightarrow> keeps R d1 r \<Longrightarrow> keeps R d r"
  unfolding keeps_def using R_trans by blast

lemma keeps_bind:
  assumes "keeps R d r" and "\<And>d'. dht_ok d' \<Longrightarrow> R d d' \<Longrightarrow> keeps R d' (f d')"
  shows "keeps R d (Option.bind r f)"
  using assms R_trans unfolding keeps_def by fastforce

lemma keeps_bind_pair:
  assumes "keeps R d (map_option snd r)" and "\<And>x d'. dht_ok d' \<Longrightarrow> R d d' \<Longrightarrow> r = Some (x, d') \<Longrightarrow> keeps R d' (f x d')"
  shows "keeps R d (Option.bind r (\<lambda>(x, d'). f x d'))"
proof -
  obtain x d' where "r = Some (x, d')" "dht_ok d'" "R d d'"
    using assms(1) by (auto simp: keeps_def)
  then show ?thesis using assms(2) R_trans unfolding keeps_def by fastforce
qed

lemma keeps_bind_snd:
  assumes "keeps R d (map_option snd r)"
    and "\<And>x d'. dht_ok d' \<Longrightarrow> R d d' \<Longrightarrow> r = Some (x, d') \<Longrightarrow> keeps R d' (map_option snd (f x d'))"
  shows "keeps R d (map_option snd (Option.bind r (\<lambda>(x, d'). f x d')))"
proof -
  obtain x d' where "r = Some (x, d')" "dht_ok d'" "R d d'"
    using assms(1) by (auto simp: keeps_def)
  then show ?thesis using assms(2) R_trans unfolding keeps_def by fastforce
qed

lemma keeps_bind_plain_snd:
  assumes "keeps R d r" and "\<And>d'. dht_ok d' \<Longrightarrow> R d d' \<Longrightarrow> keeps R d' (map_option snd (f d'))"
  shows "keeps R d (map_option snd (Option.bind r f))"
  using assms R_trans unfolding keeps_def by fastforce

end

interpretation same: stable dht_same
  by unfold_locales (auto simp: dht_same_def)

interpretation tables: stable dht_tables
  by unfold_locales (auto simp: dht_tables_def dht_same_def)

interpretation shape: stable dht_shape
  by unfold_locales (auto simp: dht_shape_def dht_tables_def dht_same_def)

lemma keeps_tables_same: "keeps dht_tables d r \<Longrightarrow> keeps dht_same d r"
  by (auto simp: keeps_def dht_tables_def)

lemma keeps_shape_tables: "keeps dht_shape d r \<Longrightarrow> keeps dht_tables d r"
  by (auto simp: keeps_def dht_shape_def)

lemma keeps_shape_same: "keeps dht_shape d r \<Longrightarrow> keeps dht_same d r"
  by (rule keeps_tables_same [OF keeps_shape_tables])

section \<open>Parts of the state\<close>

lemma dht_ok_table:
  assumes "dht_ok d" and "is_af af"
  shows "table_ok af (dht_table af d)" and "d_myid d \<notin> table_ids (dht_table af d)"
  using assms by (auto simp: dht_ok_def dht_table_def AF_INET_def AF_INET6_def)

lemma set_table_fields [simp]:
  "d_myid (set_table af bs d) = d_myid d" "d_searches (set_table af bs d) = d_searches d"
  "d_now (set_table af bs d) = d_now d" "d_sent (set_table af bs d) = d_sent d"
  "d_blacklist (set_table af bs d) = d_blacklist d" "d_next_blacklisted (set_table af bs d) = d_next_blacklisted d"
  "d_storage (set_table af bs d) = d_storage d" "d_numstorage (set_table af bs d) = d_numstorage d"
  "dht_table af (set_table af bs d) = bs"
  by (simp_all add: set_table_def dht_table_def)

lemma dht_ok_set_table:
  "dht_ok d \<Longrightarrow> is_af af \<Longrightarrow> table_ok af bs \<Longrightarrow> d_myid d \<notin> table_ids bs \<Longrightarrow> dht_ok (set_table af bs d)"
  by (auto simp: dht_ok_def set_table_def AF_INET_def AF_INET6_def)

lemma shape_set_table:
  "table_frame bs = table_frame (dht_table af d) \<Longrightarrow> dht_shape d (set_table af bs d)"
  by (auto simp: dht_shape_def dht_tables_def dht_same_def set_table_def dht_table_def)

lemma table_frame_first: "table_frame bs = table_frame bs' \<Longrightarrow> map b_first bs = map b_first bs'"
proof -
  assume "table_frame bs = table_frame bs'"
  then have "map fst (table_frame bs) = map fst (table_frame bs')" by simp
  then show ?thesis by (simp add: table_frame_def comp_def)
qed

lemma table_frame_ids: "table_frame bs = table_frame bs' \<Longrightarrow> table_ids bs = table_ids bs'"
proof -
  assume "table_frame bs = table_frame bs'"
  then have "(\<Union>x \<in> set (table_frame bs). set (snd x)) = (\<Union>x \<in> set (table_frame bs'). set (snd x))" by simp
  then show ?thesis by (simp add: table_frame_def table_ids_def)
qed

lemma table_frame_update:
  "b_first b = b_first (bs ! k) \<Longrightarrow> map n_id (b_nodes b) = map n_id (b_nodes (bs ! k)) \<Longrightarrow>
    table_frame (bs[k := b]) = table_frame bs"
  by (simp add: table_frame_def map_update_same)

lemma dht_ok_fields [simp]:
  "dht_ok (d\<lparr>d_errno := e\<rparr>) = dht_ok d" "dht_ok (d\<lparr>d_random_pos := rp\<rparr>) = dht_ok d"
  "dht_ok (d\<lparr>d_alloc_pos := rp\<rparr>) = dht_ok d" "dht_ok (d\<lparr>d_stack_pos := rp\<rparr>) = dht_ok d"
  "dht_ok (d\<lparr>d_urandom_pos := rp\<rparr>) = dht_ok d" "dht_ok (d\<lparr>d_events := evs\<rparr>) = dht_ok d"
  "dht_ok (d\<lparr>d_now := t\<rparr>) = dht_ok d" "dht_ok (d\<lparr>d_search_time := t\<rparr>) = dht_ok d"
  "dht_ok (d\<lparr>d_confirm_nodes_time := t\<rparr>) = dht_ok d" "dht_ok (d\<lparr>d_rotate_secrets_time := t\<rparr>) = dht_ok d"
  "dht_ok (d\<lparr>d_secret := bs\<rparr>) = dht_ok d" "dht_ok (d\<lparr>d_oldsecret := bs\<rparr>) = dht_ok d"
  "dht_ok (d\<lparr>d_mybucket_grow_time := t\<rparr>) = dht_ok d" "dht_ok (d\<lparr>d_mybucket6_grow_time := t\<rparr>) = dht_ok d"
  "dht_ok (d\<lparr>d_expire_stuff_time := t\<rparr>) = dht_ok d" "dht_ok (d\<lparr>d_token_bucket_time := t\<rparr>) = dht_ok d"
  "dht_ok (d\<lparr>d_token_bucket_tokens := t\<rparr>) = dht_ok d" "dht_ok (d\<lparr>d_numsearches := t\<rparr>) = dht_ok d"
  "dht_ok (d\<lparr>d_socket := t\<rparr>) = dht_ok d" "dht_ok (d\<lparr>d_socket6 := t\<rparr>) = dht_ok d"
  "dht_ok (d\<lparr>d_search_id := tid\<rparr>) = dht_ok d"
  by (simp_all add: dht_ok_def)

lemma shape_fields [simp]:
  "dht_shape d (d\<lparr>d_errno := e\<rparr>)" "dht_shape d (d\<lparr>d_random_pos := rp\<rparr>)" "dht_shape d (d\<lparr>d_alloc_pos := rp\<rparr>)"
  "dht_shape d (d\<lparr>d_stack_pos := rp\<rparr>)" "dht_shape d (d\<lparr>d_events := evs\<rparr>)"
  by (simp_all add: dht_shape_def dht_tables_def dht_same_def)

lemma shape_same [simp]: "dht_shape d d' \<Longrightarrow> dht_same d d'" "dht_shape d d' \<Longrightarrow> dht_tables d d'"
  "dht_tables d d' \<Longrightarrow> dht_same d d'"
  by (simp_all add: dht_shape_def dht_tables_def)

lemma tables_table: "dht_tables d d' \<Longrightarrow> table_frame (dht_table af d') = table_frame (dht_table af d)"
  by (simp add: dht_tables_def dht_table_def)

lemma tables_length:
  assumes "dht_tables d d'"
  shows "length (dht_table af d') = length (dht_table af d)"
  using arg_cong [OF tables_table [OF assms], of length] by (simp add: table_frame_def)

lemma tables_ids: "dht_tables d d' \<Longrightarrow> table_ids (dht_table af d') = table_ids (dht_table af d)"
  by (rule table_frame_ids [OF tables_table])

lemmas shape_length = tables_length [OF shape_same(2)]

lemma tables_find:
  "dht_tables d d' \<Longrightarrow> find_bucket nid (dht_table af d') = find_bucket nid (dht_table af d)"
proof -
  have loop: "map b_first bs = map b_first bs' \<Longrightarrow> find_bucket_loop nid bs = find_bucket_loop nid bs'" for bs bs'
  proof (induction nid bs arbitrary: bs' rule: find_bucket_loop.induct)
    case (1 nid b c bs)
    then obtain b' c' bs1 where "bs' = b' # c' # bs1" "b_first b = b_first b'" "b_first c = b_first c'"
      "map b_first bs = map b_first bs1" by (auto simp: map_eq_Cons_conv)
    then show ?case using 1 by simp
  qed (auto simp: map_eq_Cons_conv)
  assume s: "dht_tables d d'"
  then have "map b_first (dht_table af d') = map b_first (dht_table af d)"
    by (intro table_frame_first tables_table)
  note m = this
  then have "dht_table af d' = [] \<longleftrightarrow> dht_table af d = []" by (metis map_is_Nil_conv)
  then show ?thesis using loop [OF m] by (simp add: find_bucket_def)
qed

lemma c_random_keeps [simp]:
  "dht_ok (snd (c_random d)) = dht_ok d" "dht_shape d (snd (c_random d))" "dht_table af (snd (c_random d)) = dht_table af d"
  by (simp_all add: c_random_def dht_table_def)

lemma c_calloc_keeps [simp]:
  "dht_ok (snd (c_calloc d)) = dht_ok d" "dht_shape d (snd (c_calloc d))" "dht_table af (snd (c_calloc d)) = dht_table af d"
  by (simp_all add: c_calloc_def dht_table_def)

section \<open>Sending\<close>

definition sends :: "dht \<Rightarrow> (int \<times> dht) option \<Rightarrow> bool" where
  "sends d r \<longleftrightarrow> (\<exists>rc e ps. r = Some (rc, d\<lparr>d_errno := e, d_sent := d_sent d @ ps\<rparr>) \<and> (\<forall>p \<in> set ps. packet_ok p))"

lemma length_add_part: "add_part sz buf p = Some buf1 \<Longrightarrow> length buf1 \<le> sz"
  by (auto simp: add_part_def split: msg_part.splits if_splits)

lemma length_add_parts: "add_parts sz buf ps = Some buf1 \<Longrightarrow> length buf \<le> sz \<Longrightarrow> length buf1 \<le> sz"
  by (induction sz buf ps rule: add_parts.induct) (auto split: option.splits dest: length_add_part)

lemma send_parts_sends:
  assumes "salen_ok salen" and "sz \<le> 2048"
  shows "sends d (send_parts sz parts confirm sa salen d)"
proof (cases "add_parts sz [] parts")
  case None
  then show ?thesis unfolding sends_def send_parts_def by (intro exI [of _ "- 1"] exI [of _ ENOSPC] exI [of _ "[]"]) simp
next
  case (Some buf)
  have len: "length buf \<le> 2048" using length_add_parts [OF Some] assms(2) by simp
  obtain black where black: "node_blacklisted sa salen d = Some black"
    using assms(1) by (simp add: node_blacklisted_def dht_blacklisted_def)
  let ?s = "if sa_family sa = AF_INET then d_socket d else if sa_family sa = AF_INET6 then d_socket6 d else - 1"
  show ?thesis
  proof (cases "black \<or> ?s < 0")
    case True
    have "send_parts sz parts confirm sa salen d
        = Some (- 1, d\<lparr>d_errno := (if black then EPERM else EAFNOSUPPORT)\<rparr>)"
    proof (cases black)
      case True
      then show ?thesis using Some black assms(1) by (simp add: send_parts_def dht_send_def)
    next
      case False
      then show ?thesis using Some black assms(1) True by (simp add: send_parts_def dht_send_def Let_def)
    qed
    then obtain rc e where "send_parts sz parts confirm sa salen d = Some (rc, d\<lparr>d_errno := e\<rparr>)" by blast
    then show ?thesis unfolding sends_def by (intro exI [of _ rc] exI [of _ e] exI [of _ "[]"]) simp
  next
    case False
    let ?p = "\<lparr>pk_socket = ?s, pk_data = buf, pk_confirm = confirm, pk_to = sa, pk_tolen = salen\<rparr>"
    have "send_parts sz parts confirm sa salen d
        = Some (d_sendto d (length (d_sent d)), d\<lparr>d_errno := d_errno d, d_sent := d_sent d @ [?p]\<rparr>)"
      using Some black assms(1) False by (simp add: send_parts_def dht_send_def Let_def)
    moreover have "packet_ok ?p" using len assms(1) False by (simp add: packet_ok_def)
    ultimately show ?thesis unfolding sends_def
      by (intro exI [of _ "d_sendto d (length (d_sent d))"] exI [of _ "d_errno d"] exI [of _ "[?p]"]) simp
  qed
qed

lemma sends_senders:
  assumes "salen_ok salen"
  shows "sends d (send_ping sa salen tid d)" and "sends d (send_pong sa salen tid d)"
    and "sends d (send_find_node sa salen tid target want confirm d)"
    and "sends d (send_get_peers sa salen tid infohash want confirm d)"
    and "sends d (send_announce_peer sa salen tid infohash port token confirm d)"
    and "sends d (send_peer_announced sa salen tid d)" and "sends d (send_error sa salen tid code message d)"
  unfolding send_ping_def send_pong_def send_find_node_def send_get_peers_def send_announce_peer_def
    send_peer_announced_def send_error_def
  by (rule send_parts_sends; use assms in simp)+

lemma sends_state:
  assumes "sends d r" and "dht_ok d"
  obtains rc d' where "r = Some (rc, d')" and "dht_ok d'" and "dht_shape d d'"
    and "d_buckets d' = d_buckets d" and "d_buckets6 d' = d_buckets6 d" and "d_searches d' = d_searches d"
proof -
  obtain rc e ps where r: "r = Some (rc, d\<lparr>d_errno := e, d_sent := d_sent d @ ps\<rparr>)" "\<forall>p \<in> set ps. packet_ok p"
    using assms(1) by (auto simp: sends_def)
  then show thesis using assms(2) by (intro that [OF r(1)]) (auto simp: dht_ok_def dht_shape_def dht_tables_def dht_same_def)
qed

lemma sends_keeps: "sends d r \<Longrightarrow> dht_ok d \<Longrightarrow> keeps dht_shape d (map_option snd r)"
  by (rule sends_state) (auto simp: keeps_def)

lemma table_eqI: "d_buckets d' = d_buckets d \<Longrightarrow> d_buckets6 d' = d_buckets6 d \<Longrightarrow> dht_table af d' = dht_table af d"
  by (simp add: dht_table_def)

section \<open>Changing a bucket or a node\<close>

lemma keep_bucket:
  assumes d: "dht_ok d" and af: "is_af af" and k: "k < length (dht_table af d)" and b: "bucket_ok af b"
    and first: "b_first b = b_first (dht_table af d ! k)"
    and nodes: "\<And>n. n \<in> set (b_nodes b) \<Longrightarrow> in_bucket (n_id n) (dht_table af d) k \<and> n_id n \<noteq> d_myid d"
  shows "dht_ok (set_table af ((dht_table af d)[k := b]) d)"
    and "dht_same d (set_table af ((dht_table af d)[k := b]) d)"
    and "map n_id (b_nodes b) = map n_id (b_nodes (dht_table af d ! k)) \<Longrightarrow>
      dht_shape d (set_table af ((dht_table af d)[k := b]) d)"
proof -
  let ?bs = "dht_table af d"
  have "d_myid d \<notin> table_ids (?bs[k := b])"
  proof
    assume "d_myid d \<in> table_ids (?bs[k := b])"
    then have "d_myid d \<in> n_id ` set (b_nodes b)"
      using table_ids_update [OF k, of b] dht_ok_table(2) [OF d af] by (meson UnE subsetD)
    then show False using nodes by (metis imageE)
  qed
  moreover have "table_ok af (?bs[k := b])"
    by (rule table_ok_update [OF dht_ok_table(1) [OF d af] k b first]) (use nodes in blast)
  ultimately show "dht_ok (set_table af (?bs[k := b]) d)"
    by (intro dht_ok_set_table d af)
  show "dht_same d (set_table af (?bs[k := b]) d)" by (simp add: dht_same_def)
  assume "map n_id (b_nodes b) = map n_id (b_nodes (?bs ! k))"
  then show "dht_shape d (set_table af (?bs[k := b]) d)"
    using first by (intro shape_set_table table_frame_update)
qed

lemma dht_ok_bucket:
  assumes "dht_ok d" and "is_af af" and "k < length (dht_table af d)"
  shows "bucket_ok af (dht_table af d ! k)"
    and "\<And>n. n \<in> set (b_nodes (dht_table af d ! k)) \<Longrightarrow>
      node_ok af n \<and> in_bucket (n_id n) (dht_table af d) k \<and> n_id n \<noteq> d_myid d"
proof -
  note t = dht_ok_table [OF assms(1,2)]
  show b: "bucket_ok af (dht_table af d ! k)" by (rule table_okD(1) [OF t(1) assms(3)])
  fix n assume n: "n \<in> set (b_nodes (dht_table af d ! k))"
  then have "n_id n \<in> table_ids (dht_table af d)"
    using assms(3) by (auto simp: table_ids_def)
  then have "n_id n \<noteq> d_myid d" using t(2) by metis
  then show "node_ok af n \<and> in_bucket (n_id n) (dht_table af d) k \<and> n_id n \<noteq> d_myid d"
    using b n table_okD(2) [OF t(1) assms(3) n] by (simp add: bucket_ok_def)
qed

text \<open>A bucket whose nodes, count and bound stay.\<close>

lemma keep_bucket_fields:
  assumes d: "dht_ok d" and af: "is_af af" and k: "k < length (dht_table af d)"
    and f: "\<And>b. b_first (f b) = b_first b" "\<And>b. b_nodes (f b) = b_nodes b" "\<And>b. b_count (f b) = b_count b"
      "\<And>b. b_max_count (f b) = b_max_count b" "\<And>b. bucket_ok af b \<Longrightarrow> cached_ok af (f b)"
  shows "dht_ok (update_bucket af k f d)" and "dht_shape d (update_bucket af k f d)"
proof -
  have b: "bucket_ok af (f (dht_table af d ! k))"
    using dht_ok_bucket(1) [OF d af k] f by (simp add: bucket_ok_def)
  have n: "\<And>n. n \<in> set (b_nodes (f (dht_table af d ! k))) \<Longrightarrow> in_bucket (n_id n) (dht_table af d) k \<and> n_id n \<noteq> d_myid d"
    using dht_ok_bucket(2) [OF d af k] f(2) by simp
  show "dht_ok (update_bucket af k f d)" "dht_shape d (update_bucket af k f d)"
    unfolding update_bucket_def Let_def using keep_bucket [OF d af k b f(1) n] f(2) by simp_all
qed

text \<open>A node with an id that fits.\<close>

lemma bucket_ok_node:
  assumes "bucket_ok af b" and "j < length (b_nodes b)" and "node_ok af n"
    and "n_id n = n_id (b_nodes b ! j) \<or> n_id n \<notin> n_id ` set (b_nodes b)"
  shows "bucket_ok af (b\<lparr>b_nodes := (b_nodes b)[j := n]\<rparr>)"
proof -
  have "distinct (map n_id ((b_nodes b)[j := n]))"
  proof (cases "n_id n = n_id (b_nodes b ! j)")
    case True
    then show ?thesis using assms(1,2) by (simp add: bucket_ok_def map_update_same)
  next
    case False
    then have "n_id n \<notin> set (map n_id (b_nodes b)) - {map n_id (b_nodes b) ! j}" using assms(4) by auto
    then show ?thesis using assms(1) unfolding map_update bucket_ok_def by (intro distinct_list_update) simp_all
  qed
  moreover have "\<forall>x \<in> set ((b_nodes b)[j := n]). node_ok af x"
    using assms set_update_subset_insert [of "b_nodes b" j n] by (auto simp: bucket_ok_def)
  ultimately show ?thesis using assms(1) by (simp add: bucket_ok_def cached_ok_def)
qed

lemma keep_node:
  assumes d: "dht_ok d" and af: "is_af af" and k: "k < length (dht_table af d)"
    and j: "j < length (b_nodes (dht_table af d ! k))" and n: "node_ok af (f (b_nodes (dht_table af d ! k) ! j))"
    and nid: "n_id (f (b_nodes (dht_table af d ! k) ! j)) = n_id (b_nodes (dht_table af d ! k) ! j)
      \<or> (n_id (f (b_nodes (dht_table af d ! k) ! j)) \<notin> n_id ` set (b_nodes (dht_table af d ! k))
         \<and> in_bucket (n_id (f (b_nodes (dht_table af d ! k) ! j))) (dht_table af d) k
         \<and> n_id (f (b_nodes (dht_table af d ! k) ! j)) \<noteq> d_myid d)"
  shows "dht_ok (update_node af (k, j) f d)" and "dht_same d (update_node af (k, j) f d)"
    and "n_id (f (b_nodes (dht_table af d ! k) ! j)) = n_id (b_nodes (dht_table af d ! k) ! j) \<Longrightarrow>
      dht_shape d (update_node af (k, j) f d)"
proof -
  let ?b = "dht_table af d ! k" and ?n = "f (b_nodes (dht_table af d ! k) ! j)"
  have b: "bucket_ok af (?b\<lparr>b_nodes := (b_nodes ?b)[j := ?n]\<rparr>)"
    by (rule bucket_ok_node [OF dht_ok_bucket(1) [OF d af k] j n]) (use nid in blast)
  have old: "in_bucket (n_id (b_nodes ?b ! j)) (dht_table af d) k \<and> n_id (b_nodes ?b ! j) \<noteq> d_myid d"
    using dht_ok_bucket(2) [OF d af k] j by simp
  have nodes: "in_bucket (n_id x) (dht_table af d) k \<and> n_id x \<noteq> d_myid d"
    if "x \<in> set (b_nodes (?b\<lparr>b_nodes := (b_nodes ?b)[j := ?n]\<rparr>))" for x
  proof -
    have "x \<in> set (b_nodes ?b) \<or> x = ?n"
      using that set_update_subset_insert [of "b_nodes ?b" j ?n] by auto
    then show ?thesis using dht_ok_bucket(2) [OF d af k] nid old by metis
  qed
  have e: "update_node af (k, j) f d = set_table af ((dht_table af d)[k := ?b\<lparr>b_nodes := (b_nodes ?b)[j := ?n]\<rparr>]) d"
    by (simp add: update_node_def Let_def)
  then show "dht_ok (update_node af (k, j) f d)" "dht_same d (update_node af (k, j) f d)"
    using keep_bucket(1,2) [OF d af k b _ nodes] by simp_all
  assume "n_id ?n = n_id (b_nodes ?b ! j)"
  then have "map n_id (b_nodes (?b\<lparr>b_nodes := (b_nodes ?b)[j := ?n]\<rparr>)) = map n_id (b_nodes ?b)"
    by (simp add: map_update_same)
  then show "dht_shape d (update_node af (k, j) f d)"
    unfolding e by (rule keep_bucket(3) [OF d af k b _ nodes, rotated 2]) simp_all
qed

lemma find_node_loop_some:
  "find_node_loop nid ns = Some j \<Longrightarrow> \<forall>n \<in> set ns. is_id (n_id n) \<Longrightarrow> is_id nid \<Longrightarrow> j < length ns \<and> n_id (ns ! j) = nid"
  by (induction ns arbitrary: j) (auto simp: id_cmp_val split: if_splits)

lemma find_node_loop_none:
  "find_node_loop nid ns = None \<Longrightarrow> \<forall>n \<in> set ns. is_id (n_id n) \<Longrightarrow> is_id nid \<Longrightarrow> nid \<notin> n_id ` set ns"
  by (induction ns) (auto simp: id_cmp_val split: if_splits)

lemma find_bucket_bound: "find_bucket nid bs = Some k \<Longrightarrow> k < length bs"
  using find_bucket_loop_bound by (auto simp: find_bucket_def split: if_splits)

lemma find_node_some:
  assumes "table_ok af bs" and "find_node nid bs = Some (k, j)" and "is_id nid"
  shows "k < length bs" and "j < length (b_nodes (bs ! k))" and "n_id (b_nodes (bs ! k) ! j) = nid"
proof -
  have k: "find_bucket nid bs = Some k" and j: "find_node_loop nid (b_nodes (bs ! k)) = Some j"
    using assms(2) by (auto simp: find_node_def split: option.splits)
  show "k < length bs" using k by (rule find_bucket_bound)
  then show "j < length (b_nodes (bs ! k))" "n_id (b_nodes (bs ! k) ! j) = nid"
    using find_node_loop_some [OF j] table_okD(1) [OF assms(1), of k] assms(3) by (auto simp: bucket_ok_def node_ok_def)
qed

section \<open>Pings\<close>

lemma family_zero: "2 \<le> length sa \<Longrightarrow> sa_family (copy_onto sa [0, 0] 2) = 0"
  by (simp add: copy_onto_def sa_family_def)

lemma send_cached_ping_keeps:
  assumes d: "dht_ok d" and af: "is_af af" and k: "k < length (dht_table af d)"
  shows "keeps dht_shape d (map_option snd (send_cached_ping af k d))"
proof (cases "sa_family (b_cached (dht_table af d ! k)) = 0")
  case True
  then show ?thesis using shape.keeps_same [OF d] by (simp add: send_cached_ping_def)
next
  case False
  let ?b = "dht_table af d ! k"
  have c: "salen_ok (b_cachedlen ?b)"
    using dht_ok_bucket(1) [OF d af k] False by (simp add: bucket_ok_def cached_ok_def ss_ok_def)
  obtain rc d1 where s: "send_ping (b_cached ?b) (b_cachedlen ?b) (make_tid ''pn'' 0) d = Some (rc, d1)"
    "dht_ok d1" "dht_shape d d1"
    using sends_state [OF sends_senders(1) [OF c] d] by metis
  let ?f = "\<lambda>b. b\<lparr>b_cached := copy_onto (b_cached b) [0, 0] 2, b_cachedlen := 0\<rparr>"
  have k1: "k < length (dht_table af d1)" using k shape_length [OF s(3)] by simp
  have "cached_ok af (?f b)" if "bucket_ok af b" for b
    using that by (simp add: bucket_ok_def cached_ok_def family_zero) (simp add: copy_onto_def)
  then have "dht_ok (update_bucket af k ?f d1)" "dht_shape d1 (update_bucket af k ?f d1)"
    using keep_bucket_fields [OF s(2) af k1, of ?f] by simp_all
  then show ?thesis
    using s False shape.R_trans unfolding keeps_def by (auto simp: send_cached_ping_def Let_def)
qed

lemma pinged_keeps:
  assumes d: "dht_ok d" and af: "is_af af" and k: "k < length (dht_table af d)" and j: "j < length (b_nodes (dht_table af d ! k))"
    and b: "\<And>q. b = Some q \<Longrightarrow> q < length (dht_table af d)"
  shows "keeps dht_shape d (pinged af (k, j) b d)"
proof -
  let ?n = "b_nodes (dht_table af d ! k) ! j"
  let ?f = "\<lambda>n. n\<lparr>n_pinged := n_pinged n + 1, n_pinged_time := d_now d\<rparr>"
  let ?d1 = "update_node af (k, j) ?f d"
  have n: "node_ok af ?n" using dht_ok_bucket(2) [OF d af k] j by simp
  then have nf: "node_ok af (?f ?n)" by (simp add: node_ok_def)
  have ok1: "dht_ok ?d1" "dht_shape d ?d1"
    using keep_node [where f = ?f, OF d af k j nf] by simp_all
  have at: "b_nodes (dht_table af ?d1 ! k) ! j = ?f ?n"
    using k j by (simp add: update_node_def Let_def)
  have len: "length (dht_table af ?d1) = length (dht_table af d)" by (rule shape_length [OF ok1(2)])
  have ss: "sa_family (n_ss ?n) = af" "is_id (n_id ?n)" using n by (simp_all add: node_ok_def ss_ok_def)
  have "dht_table af ?d1 \<noteq> []" using k len by auto
  then obtain q where q: "find_bucket (n_id ?n) (dht_table af ?d1) = Some q"
    by (simp add: find_bucket_def)
  note q = q find_bucket_bound [OF q]
  show ?thesis
  proof (cases "3 \<le> n_pinged (?f ?n)")
    case True
    have "keeps dht_shape ?d1 (case b of Some k \<Rightarrow> map_option snd (send_cached_ping af k ?d1)
        | None \<Rightarrow> map_option snd (send_cached_ping af q ?d1))"
      using send_cached_ping_keeps [OF ok1(1) af] b len q(2) by (simp split: option.split)
    then show ?thesis
      using True at q(1) ss shape.keeps_from [OF ok1(2)] by (simp add: pinged_def Let_def split: option.splits)
  next
    case False
    then show ?thesis using at ok1 shape.keepsI by (simp add: pinged_def Let_def)
  qed
qed

end
