(* ===== verification/DhtInvSearch.thy ===== *)
theory DhtInvSearch
  imports DhtInv
begin

text \<open>
  The operations on searches keep the invariant: insertion into one search or all of them, the
  requests, the announcements, a step, expiry, and the blacklist.
\<close>

section \<open>Changing a search\<close>

lemma keep_search:
  assumes d: "dht_ok d" and si: "si < length (d_searches d)" and f: "search_ok (f (d_searches d ! si))"
  shows "dht_ok (update_search si f d)" and "dht_tables d (update_search si f d)"
proof -
  have "\<forall>sr \<in> set (d_searches (update_search si f d)). search_ok sr"
    using d f set_update_subset_insert [of "d_searches d" si "f (d_searches d ! si)"]
    by (auto simp: dht_ok_def update_search_def)
  then show "dht_ok (update_search si f d)" using d by (simp add: dht_ok_def update_search_def)
  show "dht_tables d (update_search si f d)" by (simp add: update_search_def dht_tables_def dht_same_def)
qed

lemma dht_ok_search: "dht_ok d \<Longrightarrow> si < length (d_searches d) \<Longrightarrow> search_ok (d_searches d ! si)"
  by (simp add: dht_ok_def)

lemma search_okD:
  assumes "search_ok sr"
  shows "is_id (sr_id sr)" and "is_af (sr_af sr)" and "length (sr_nodes sr) \<le> SEARCH_NODES"
    and "\<And>n. n \<in> set (sr_nodes sr) \<Longrightarrow> search_node_ok (sr_af sr) n"
  using assms by (auto simp: search_ok_def)

lemma shape_search:
  assumes "length (sr_nodes (f (d_searches d ! si))) = length (sr_nodes (d_searches d ! si))"
  shows "dht_shape d (update_search si f d)"
  using assms by (simp add: update_search_def dht_shape_def dht_tables_def dht_same_def map_update_same)

lemma keep_search_node:
  assumes d: "dht_ok d" and si: "si < length (d_searches d)" and i: "i < length (sr_nodes (d_searches d ! si))"
    and f: "\<And>n. sn_id (f n) = sn_id n" "\<And>n. sn_ss (f n) = sn_ss n" "\<And>n. sn_sslen (f n) = sn_sslen n"
  shows "dht_ok (update_search_node si i f d)" and "dht_shape d (update_search_node si i f d)"
proof -
  let ?sr = "d_searches d ! si"
  note ok = dht_ok_search [OF d si]
  have "search_ok (?sr\<lparr>sr_nodes := (sr_nodes ?sr)[i := f (sr_nodes ?sr ! i)]\<rparr>)"
  proof (rule search_ok_nodes [OF ok])
    show "map sn_id ((sr_nodes ?sr)[i := f (sr_nodes ?sr ! i)]) = map sn_id (sr_nodes ?sr)"
      by (rule map_update_same) (rule f(1))
    have "ss_ok (sr_af ?sr) (sn_ss n) (sn_sslen n)" if "n \<in> set (sr_nodes ?sr)" for n
      using search_okD(4) [OF ok that] by (simp add: search_node_ok_def)
    then show "\<forall>n \<in> set ((sr_nodes ?sr)[i := f (sr_nodes ?sr ! i)]). ss_ok (sr_af ?sr) (sn_ss n) (sn_sslen n)"
      using set_update_subset_insert [of "sr_nodes ?sr" i "f (sr_nodes ?sr ! i)"] i f(2,3) by auto
  qed
  then show "dht_ok (update_search_node si i f d)"
    unfolding update_search_node_def by (intro keep_search(1) [OF d si]) simp
  show "dht_shape d (update_search_node si i f d)"
    unfolding update_search_node_def by (rule shape_search) simp
qed

lemma insert_into_keeps:
  assumes d: "dht_ok d" and si: "si < length (d_searches d)" and id: "is_id nid" and sa: "2 \<le> length sa" "salen_ok salen"
  shows "dht_ok (snd (insert_into_search nid sa salen si replied token d))"
    and "dht_tables d (snd (insert_into_search nid sa salen si replied token d))"
proof -
  let ?sr = "snd (insert_search_node nid sa salen replied token (d_now d) (d_searches d ! si))"
  have e: "snd (insert_into_search nid sa salen si replied token d) = update_search si (\<lambda>_. ?sr) d"
    by (simp add: insert_into_search_def split: prod.split)
  have "search_ok ?sr" by (rule insert_search_ok [OF dht_ok_search [OF d si] id]) (use sa in simp_all)
  then show "dht_ok (snd (insert_into_search nid sa salen si replied token d))"
    "dht_tables d (snd (insert_into_search nid sa salen si replied token d))"
    unfolding e using keep_search [OF d si] by simp_all
qed

lemma insert_search_pos:
  assumes "insert_search_node nid sa salen replied token now sr = (Some i, sr')" and "search_ok sr" and "is_id nid"
  shows "i < length (sr_nodes sr')"
proof -
  let ?ks = "map sn_id (sr_nodes sr)"
  have s: "near_sorted (sr_id sr) ?ks" "\<forall>x \<in> set ?ks. is_id x" "is_id (sr_id sr)" "length ?ks \<le> SEARCH_NODES"
    using assms(2) by (auto simp: search_ok_def search_node_ok_def)
  from closest_loop_ok [OF s(1,2) assms(3) s(3)] show ?thesis
    using assms(1) s(4) by (auto simp: insert_search_node_def Let_def split: if_splits)
qed

lemma insert_into_pos:
  assumes "insert_into_search nid sa salen si replied token d = (Some i, d')" and "dht_ok d"
    and "si < length (d_searches d)" and "is_id nid"
  shows "i < length (sr_nodes (d_searches d' ! si))"
proof -
  obtain sr where s: "insert_search_node nid sa salen replied token (d_now d) (d_searches d ! si) = (Some i, sr)"
    "d' = update_search si (\<lambda>_. sr) d"
    using assms(1) by (auto simp: insert_into_search_def split: prod.splits)
  then show ?thesis
    using insert_search_pos [OF s(1) dht_ok_search [OF assms(2,3)] assms(4)] assms(3)
    by (simp add: update_search_def)
qed

section \<open>Requests\<close>

lemma pinged_if_known_keeps:
  assumes d: "dht_ok d" and n: "search_node_ok af n" and af: "is_af af"
  shows "keeps dht_shape d (pinged_if_known n d)"
proof -
  have fam: "sa_family (sn_ss n) = af" "is_id (sn_id n)" using n by (simp_all add: search_node_ok_def ss_ok_def)
  show ?thesis
  proof (cases "find_node (sn_id n) (dht_table af d)")
    case None
    then show ?thesis using fam shape.keeps_same [OF d] by (simp add: pinged_if_known_def)
  next
    case (Some kj)
    obtain k j where kj: "kj = (k, j)" by (cases kj)
    note pos = find_node_some [OF dht_ok_table(1) [OF d af] Some [unfolded kj] fam(2)]
    show ?thesis
      using pinged_keeps [OF d af pos(1,2), of None] fam Some kj by (simp add: pinged_if_known_def)
  qed
qed

lemma search_pick_bound:
  "search_pick now ns i acc = Some j \<Longrightarrow> acc = Some j \<or> (i \<le> j \<and> j < i + length ns)"
  by (induction now ns i acc rule: search_pick.induct) (fastforce split: if_splits)+

lemma shape_rows:
  assumes "dht_shape d d'"
  shows "length (d_searches d') = length (d_searches d)"
    and "si < length (d_searches d) \<Longrightarrow> length (sr_nodes (d_searches d' ! si)) = length (sr_nodes (d_searches d ! si))"
proof -
  show len: "length (d_searches d') = length (d_searches d)"
    using assms by (simp add: dht_shape_def dht_tables_def dht_same_def)
  assume "si < length (d_searches d)"
  moreover have "map (\<lambda>sr. length (sr_nodes sr)) (d_searches d') ! si = map (\<lambda>sr. length (sr_nodes sr)) (d_searches d) ! si"
    using assms by (simp add: dht_shape_def)
  ultimately show "length (sr_nodes (d_searches d' ! si)) = length (sr_nodes (d_searches d ! si))"
    using len by simp
qed

lemma search_send_keeps:
  assumes d: "dht_ok d" and si: "si < length (d_searches d)"
    and i: "\<And>j. i = Some j \<Longrightarrow> j < length (sr_nodes (d_searches d ! si))"
  shows "keeps dht_shape d (map_option snd (search_send_get_peers si i d))"
proof -
  let ?sr = "d_searches d ! si"
  define i1 where "i1 = (case i of None \<Rightarrow> search_pick (d_now d) (sr_nodes ?sr) 0 None | Some i \<Rightarrow> Some i)"
  show ?thesis
  proof (cases i1)
    case None
    then show ?thesis
      using shape.keeps_same [OF d] by (simp add: search_send_get_peers_def Let_def i1_def [symmetric])
  next
    case (Some j)
    have j: "j < length (sr_nodes ?sr)"
      using Some i search_pick_bound [of "d_now d" "sr_nodes ?sr" 0 None j] by (auto simp: i1_def split: option.splits)
    let ?n = "sr_nodes ?sr ! j"
    show ?thesis
    proof (cases "search_due (d_now d) ?n")
      case False
      then show ?thesis
        using Some shape.keeps_same [OF d] by (simp add: search_send_get_peers_def Let_def i1_def [symmetric])
    next
      case True
      note ok = dht_ok_search [OF d si]
      have n: "search_node_ok (sr_af ?sr) ?n" "is_af (sr_af ?sr)" using search_okD [OF ok] j by simp_all
      have len: "salen_ok (sn_sslen ?n)" using n(1) by (simp add: search_node_ok_def ss_ok_def)
      obtain rc d1 where s: "send_get_peers (sn_ss ?n) (sn_sslen ?n) (make_tid ''gp'' (sr_tid ?sr)) (sr_id ?sr) (- 1)
          (d_now d - DHT_SEARCH_RETRANSMIT \<le> sn_reply_time ?n) d = Some (rc, d1)"
        "dht_ok d1" "dht_shape d d1" "d_searches d1 = d_searches d"
        using sends_state [OF sends_senders(4) [OF len] d] by metis
      let ?f = "\<lambda>n. n\<lparr>sn_pinged := sn_pinged n + 1, sn_request_time := d_now d1\<rparr>"
      let ?d2 = "update_search_node si j ?f d1"
      have d2: "dht_ok ?d2" "dht_shape d1 ?d2"
        using keep_search_node [where f = ?f, OF s(2), of si j] s(4) si j by simp_all
      have "keeps dht_shape ?d2 (pinged_if_known ?n ?d2)"
        by (rule pinged_if_known_keeps [OF d2(1) n])
      then have "keeps dht_shape d (pinged_if_known ?n ?d2)"
        using shape.keeps_from s(3) d2(2) shape.R_trans by blast
      then obtain d3 where d3: "pinged_if_known ?n ?d2 = Some d3" "dht_ok d3" "dht_shape d d3"
        by (auto simp: keeps_def)
      have "search_send_get_peers si i d = Some (1, d3)"
        using Some True s(1) d3(1) by (simp add: search_send_get_peers_def Let_def i1_def [symmetric])
      then show ?thesis using d3 by (simp add: keeps_def)
    qed
  qed
qed

lemma add_search_loop_keeps:
  assumes "dht_ok d" and "\<forall>si \<in> set sis. si < length (d_searches d)" and "is_id nid" and "2 \<le> length sa" and "salen_ok salen"
  shows "keeps dht_tables d (add_search_node_loop nid sa salen sis d)"
  using assms(1,2)
proof (induction sis arbitrary: d)
  case Nil
  then show ?case using tables.keeps_same by simp
next
  case (Cons si sis)
  let ?ins = "insert_into_search nid sa salen si False None d"
  show ?case
  proof (cases "sr_af (d_searches d ! si) = sa_family sa \<and> length (sr_nodes (d_searches d ! si)) < SEARCH_NODES")
    case False
    then have "add_search_node_loop nid sa salen (si # sis) d = add_search_node_loop nid sa salen sis d"
      by (auto simp: Let_def)
    then show ?thesis using Cons by simp
  next
    case True
    obtain j d1 where i: "?ins = (j, d1)" by (cases ?ins)
    have d1: "dht_ok d1" "dht_tables d d1"
      using insert_into_keeps [of d si nid sa salen False None] Cons.prems assms(3-) i by simp_all
    have len: "length (d_searches d1) = length (d_searches d)" using d1(2) by (simp add: dht_tables_def dht_same_def)
    show ?thesis
    proof (cases j)
      case None
      have "keeps dht_tables d1 (add_search_node_loop nid sa salen sis d1)"
        using Cons.IH [OF d1(1)] Cons.prems(2) len by simp
      then show ?thesis using True None i tables.keeps_from [OF d1(2)] by (simp add: Let_def)
    next
      case (Some p)
      have p: "p < length (sr_nodes (d_searches d1 ! si))"
        using insert_into_pos [of nid sa salen si False None d p d1] i Some Cons.prems assms(3) by simp
      have "keeps dht_shape d1 (map_option snd (search_send_get_peers si (Some p) d1))"
        by (rule search_send_keeps [OF d1(1)]) (use Cons.prems(2) len p in simp_all)
      then obtain s d2 where s: "search_send_get_peers si (Some p) d1 = Some (s, d2)" "dht_ok d2" "dht_shape d1 d2"
        by (auto simp: keeps_def)
      have "keeps dht_tables d2 (add_search_node_loop nid sa salen sis d2)"
        using Cons.IH [OF s(2)] Cons.prems(2) len shape_rows(1) [OF s(3)] by simp
      then show ?thesis
        using True Some i s tables.keeps_from [OF d1(2)] tables.keeps_from [OF shape_same(2) [OF s(3)]]
        by (simp add: Let_def)
    qed
  qed
qed

lemma add_search_keeps:
  "dht_ok d \<Longrightarrow> is_id nid \<Longrightarrow> 2 \<le> length sa \<Longrightarrow> salen_ok salen \<Longrightarrow> keeps dht_tables d (add_search_node nid sa salen d)"
  unfolding add_search_node_def by (rule add_search_loop_keeps) simp_all

section \<open>Steps\<close>

lemma storage_len: "salen_ok sizeof_sockaddr_storage"
  by (simp add: sizeof_sockaddr_storage_def)

lemma announce_keeps:
  assumes "dht_ok d" and "si < length (d_searches d)" and "\<forall>i \<in> set is. i < length (sr_nodes (d_searches d ! si))"
  shows "keeps dht_shape d (map_option snd (announce_loop si is j acked d))"
  using assms
proof (induction "is" arbitrary: j acked d)
  case Nil
  then show ?case using shape.keeps_same by simp
next
  case (Cons i "is")
  let ?sr = "d_searches d ! si"
  let ?n = "sr_nodes ?sr ! i"
  note ok = dht_ok_search [OF Cons.prems(1,2)]
  have n: "search_node_ok (sr_af ?sr) ?n" "is_af (sr_af ?sr)" using search_okD [OF ok] Cons.prems(3) by simp_all
  have next_ok: "keeps dht_shape d (map_option snd (announce_loop si is j1 acked1 d1))"
    if "dht_ok d1" "dht_shape d d1" for j1 acked1 d1
  proof -
    have "keeps dht_shape d1 (map_option snd (announce_loop si is j1 acked1 d1))"
      using Cons.IH [OF that(1)] Cons.prems(2,3) shape_rows [OF that(2)] by simp
    then show ?thesis by (rule shape.keeps_from [OF that(2)])
  qed
  let ?g = "\<lambda>n. n\<lparr>sn_acked := True\<rparr>"
  define d1 where "d1 = (if sn_token_len ?n = 0 then update_search_node si i ?g d else d)"
  have d1: "dht_ok d1" "dht_shape d d1"
    using keep_search_node [where f = ?g, OF Cons.prems(1,2), of i] Cons.prems(1,3) shape.R_refl
    by (simp_all add: d1_def)
  show ?case
  proof (cases "8 \<le> j \<or> 3 \<le> sn_pinged ?n")
    case True
    then have "announce_loop si (i # is) j acked d = Some (acked, d)
        \<or> announce_loop si (i # is) j acked d = announce_loop si is j acked d" by (auto simp: Let_def)
    then show ?thesis
      using next_ok [OF Cons.prems(1) shape.R_refl, of j acked] shape.keeps_same [OF Cons.prems(1)] by auto
  next
    case small: False
    show ?thesis
    proof (cases "sn_token_len ?n = 0 \<or> sn_acked ?n")
      case True
      then have "announce_loop si (i # is) j acked d = announce_loop si is (Suc j) acked d1"
        using small by (simp add: Let_def d1_def)
      then show ?thesis using next_ok [OF d1] by simp
    next
      case False
      then have same: "d1 = d" by (simp add: d1_def)
      obtain rc d2 where s: "send_announce_peer (sn_ss ?n) sizeof_sockaddr_storage (make_tid ''ap'' (sr_tid ?sr))
          (sr_id ?sr) (sr_port ?sr) (take (nat (sn_token_len ?n)) (sn_token ?n)) (d_now d - 15 \<le> sn_reply_time ?n) d = Some (rc, d2)"
        "dht_ok d2" "dht_shape d d2" "d_searches d2 = d_searches d"
        using sends_state [OF sends_senders(5) [OF storage_len] Cons.prems(1)] by metis
      let ?f = "\<lambda>n. n\<lparr>sn_pinged := sn_pinged n + 1, sn_request_time := d_now d2\<rparr>"
      let ?d3 = "update_search_node si i ?f d2"
      have d3: "dht_ok ?d3" "dht_shape d2 ?d3"
        using keep_search_node [where f = ?f, OF s(2), of si i] s(4) Cons.prems(2,3) by simp_all
      have "keeps dht_shape ?d3 (pinged_if_known ?n ?d3)"
        by (rule pinged_if_known_keeps [OF d3(1) n])
      then obtain d4 where d4: "pinged_if_known ?n ?d3 = Some d4" "dht_ok d4" "dht_shape d d4"
        using s(3) d3(2) shape.R_trans unfolding keeps_def by blast
      have "announce_loop si (i # is) j acked d = announce_loop si is (Suc j) False d4"
        using small False same s(1) d4(1) by (simp add: Let_def d1_def)
      then show ?thesis using next_ok [OF d4(2,3)] by simp
    qed
  qed
qed

lemma requests_keeps:
  assumes "dht_ok d" and "si < length (d_searches d)" and "\<forall>i \<in> set is. i < length (sr_nodes (d_searches d ! si))"
  shows "keeps dht_shape d (requests_loop si is j d)"
  using assms
proof (induction "is" arbitrary: j d)
  case Nil
  then show ?case using shape.keeps_same by simp
next
  case (Cons i "is")
  have "keeps dht_shape d (map_option snd (search_send_get_peers si (Some i) d))"
    by (rule search_send_keeps [OF Cons.prems(1,2)]) (use Cons.prems(3) in simp)
  then obtain s d1 where s: "search_send_get_peers si (Some i) d = Some (s, d1)" "dht_ok d1" "dht_shape d d1"
    by (auto simp: keeps_def)
  have "keeps dht_shape d1 (requests_loop si is (j + s) d1)"
    using Cons.IH [OF s(2)] Cons.prems(2,3) shape_rows [OF s(3)] by simp
  then show ?case using s shape.keeps_from [OF s(3)] by (simp add: keeps_def)
qed

lemma keep_search_fields:
  assumes d: "dht_ok d" and si: "si < length (d_searches d)"
    and f: "\<And>sr. sr_id (f sr) = sr_id sr" "\<And>sr. sr_af (f sr) = sr_af sr" "\<And>sr. sr_nodes (f sr) = sr_nodes sr"
  shows "dht_ok (update_search si f d)" and "dht_shape d (update_search si f d)"
proof -
  have "search_ok (f (d_searches d ! si))" using dht_ok_search [OF d si] f by (simp add: search_ok_def)
  then show "dht_ok (update_search si f d)" by (rule keep_search(1) [OF d si])
  show "dht_shape d (update_search si f d)" by (rule shape_search) (simp add: f)
qed

lemma callback_keeps [simp]:
  "dht_ok (dht_callback cb ev nid bs d) = dht_ok d" "dht_shape d (dht_callback cb ev nid bs d)"
  "d_searches (dht_callback cb ev nid bs d) = d_searches d"
  by (simp_all add: dht_callback_def shape.R_refl)

lemma search_finish_keeps:
  assumes d: "dht_ok d" and si: "si < length (d_searches d)"
  shows "dht_ok (search_finish si cb d)" and "dht_shape d (search_finish si cb d)"
proof -
  let ?f = "\<lambda>sr. sr\<lparr>sr_done := True\<rparr>"
  let ?d1 = "update_search si ?f d"
  have d1: "dht_ok ?d1" "dht_shape d ?d1" using keep_search_fields [OF d si, of ?f] by simp_all
  obtain ev nid where e: "search_finish si cb d = (let d2 = dht_callback cb ev nid [] ?d1
      in update_search si (\<lambda>sr. sr\<lparr>sr_step_time := d_now d2\<rparr>) d2)"
    by (simp add: search_finish_def Let_def)
  let ?d2 = "dht_callback cb ev nid [] ?d1"
  let ?g = "\<lambda>sr. sr\<lparr>sr_step_time := d_now ?d2\<rparr>"
  have d2: "dht_ok ?d2" "dht_shape d ?d2"
    using d1(1) shape.R_trans [OF d1(2) callback_keeps(2)] by simp_all
  have si2: "si < length (d_searches ?d2)" using shape_rows(1) [OF d2(2)] si by simp
  show "dht_ok (search_finish si cb d)" "dht_shape d (search_finish si cb d)"
    unfolding e Let_def using keep_search_fields [OF d2(1) si2, of ?g] shape.R_trans [OF d2(2)] by simp_all
qed

lemma search_step_keeps:
  assumes d: "dht_ok d" and si: "si < length (d_searches d)"
  shows "keeps dht_shape d (search_step si cb d)"
proof -
  let ?sr = "d_searches d ! si"
  have stamp: "keeps dht_shape d (Some (update_search si (\<lambda>sr. sr\<lparr>sr_step_time := d_now d1\<rparr>) d1))"
    if "dht_ok d1" "dht_shape d d1" for d1
    using keep_search_fields [OF that(1), of si "\<lambda>sr. sr\<lparr>sr_step_time := d_now d1\<rparr>"] shape_rows(1) [OF that(2)] si
      that(2) shape.R_trans shape.keepsI by (metis (no_types, lifting) search.select_convs(2,4,7) search.update_convs(3) search.surjective)
  have fin: "keeps dht_shape d (Some (search_finish si cb d1))" if "dht_ok d1" "dht_shape d d1" for d1
    using search_finish_keeps [OF that(1)] shape_rows(1) [OF that(2)] si that(2) shape.R_trans shape.keepsI by metis
  consider (fin) "all_done_loop (sr_nodes ?sr) 0" "sr_port ?sr = 0" | (ann) "all_done_loop (sr_nodes ?sr) 0" "sr_port ?sr \<noteq> 0"
    | (wait) "\<not> all_done_loop (sr_nodes ?sr) 0" "d_now d \<le> sr_step_time ?sr + DHT_SEARCH_RETRANSMIT"
    | (req) "\<not> all_done_loop (sr_nodes ?sr) 0" "\<not> d_now d \<le> sr_step_time ?sr + DHT_SEARCH_RETRANSMIT" by blast
  then show ?thesis
  proof cases
    case fin
    then show ?thesis using \<open>\<And>d1. dht_ok d1 \<Longrightarrow> dht_shape d d1 \<Longrightarrow> keeps dht_shape d (Some (search_finish si cb d1))\<close> [OF d shape.R_refl]
      by (simp add: search_step_def Let_def)
  next
    case ann
    have "keeps dht_shape d (map_option snd (announce_loop si [0..<length (sr_nodes ?sr)] 0 True d))"
      by (rule announce_keeps [OF d si]) simp
    then obtain a d1 where a: "announce_loop si [0..<length (sr_nodes ?sr)] 0 True d = Some (a, d1)" "dht_ok d1" "dht_shape d d1"
      by (auto simp: keeps_def)
    then show ?thesis using ann fin [OF a(2,3)] stamp [OF a(2,3)] by (simp add: search_step_def Let_def)
  next
    case wait
    then show ?thesis using shape.keeps_same [OF d] by (simp add: search_step_def Let_def)
  next
    case req
    have "keeps dht_shape d (requests_loop si [0..<length (sr_nodes ?sr)] 0 d)"
      by (rule requests_keeps [OF d si]) simp
    then obtain d1 where r: "requests_loop si [0..<length (sr_nodes ?sr)] 0 d = Some d1" "dht_ok d1" "dht_shape d d1"
      by (auto simp: keeps_def)
    then show ?thesis using req stamp [OF r(2,3)] by (simp add: search_step_def Let_def)
  qed
qed

section \<open>Expiry and the blacklist\<close>

lemma expire_searches_loop_keeps:
  assumes "dht_ok d"
  shows "dht_ok (snd (expire_searches_loop cb srs d)) \<and> dht_shape d (snd (expire_searches_loop cb srs d))
    \<and> set (fst (expire_searches_loop cb srs d)) \<subseteq> set srs"
  using assms
proof (induction cb srs d rule: expire_searches_loop.induct)
  case (2 cb sr srs d)
  have s1: "dht_ok (d\<lparr>d_numsearches := n\<rparr>)" "dht_shape d (d\<lparr>d_numsearches := n\<rparr>)" for n
    using "2.prems" by (simp_all add: dht_shape_def dht_tables_def dht_same_def)
  show ?case
  proof (cases "sr_step_time sr < d_now d - DHT_SEARCH_EXPIRE_TIME")
    case True
    define d2 where "d2 = (let d1 = d\<lparr>d_numsearches := d_numsearches d - 1\<rparr> in if sr_done sr then d1 else dht_callback cb
        (if sr_af sr = AF_INET then DHT_EVENT_SEARCH_DONE else DHT_EVENT_SEARCH_DONE6) (sr_id sr) [] d1)"
    have d2: "dht_ok d2" "dht_shape d d2"
      using s1 shape.R_trans [OF s1(2) callback_keeps(2)] by (simp_all add: d2_def Let_def)
    have e: "expire_searches_loop cb (sr # srs) d = expire_searches_loop cb srs d2"
      using True by (simp add: d2_def Let_def)
    have "dht_ok (snd (expire_searches_loop cb srs d2)) \<and> dht_shape d2 (snd (expire_searches_loop cb srs d2))
        \<and> set (fst (expire_searches_loop cb srs d2)) \<subseteq> set srs"
      using "2.IH"(1) [OF True] d2(1) by (simp add: d2_def Let_def)
    then show ?thesis unfolding e using d2(2) shape.R_trans by auto
  next
    case False
    then show ?thesis using "2.IH"(2) [OF False] "2.prems" by (auto split: prod.splits)
  qed
qed (simp add: shape.R_refl)

lemma expire_searches_ok:
  assumes d: "dht_ok d"
  shows "dht_ok (expire_searches cb d)" and "d_myid (expire_searches cb d) = d_myid d"
proof -
  obtain srs d1 where e: "expire_searches_loop cb (d_searches d) d = (srs, d1)" by (cases "expire_searches_loop cb (d_searches d) d")
  then have "dht_ok d1" "dht_shape d d1" "set srs \<subseteq> set (d_searches d)"
    using expire_searches_loop_keeps [OF d, of cb "d_searches d"] by simp_all
  then show "dht_ok (expire_searches cb d)" "d_myid (expire_searches cb d) = d_myid d"
    using d e by (auto simp: expire_searches_def dht_ok_def dht_shape_def dht_tables_def dht_same_def)
qed

lemma blacklist_keeps:
  assumes d: "dht_ok d" and id: "\<And>i. nid = Some i \<Longrightarrow> is_id i" and af: "is_af (sa_family sa)"
  shows "keeps dht_tables d (blacklist_node nid sa salen d)"
proof -
  have last_step: "keeps dht_tables d (Some (d1\<lparr>d_blacklist := (d_blacklist d1)[d_next_blacklisted d1 := bl],
      d_next_blacklisted := (d_next_blacklisted d1 + 1) mod DHT_MAX_BLACKLISTED\<rparr>))"
    if "dht_ok d1" "dht_tables d d1" for d1 bl
  proof (rule tables.keepsI)
    have "(d_next_blacklisted d1 + 1) mod DHT_MAX_BLACKLISTED < DHT_MAX_BLACKLISTED"
      by (simp add: DHT_MAX_BLACKLISTED_def)
    then show "dht_ok (d1\<lparr>d_blacklist := (d_blacklist d1)[d_next_blacklisted d1 := bl],
        d_next_blacklisted := (d_next_blacklisted d1 + 1) mod DHT_MAX_BLACKLISTED\<rparr>)"
      using that(1) by (simp add: dht_ok_def)
    show "dht_tables d (d1\<lparr>d_blacklist := (d_blacklist d1)[d_next_blacklisted d1 := bl],
        d_next_blacklisted := (d_next_blacklisted d1 + 1) mod DHT_MAX_BLACKLISTED\<rparr>)"
      using that(2) by (simp add: dht_tables_def dht_same_def)
  qed
  show ?thesis
  proof (cases nid)
    case None
    then show ?thesis using last_step [OF d tables.R_refl] by (simp add: blacklist_node_def)
  next
    case (Some i)
    note i = id [OF Some]
    have "\<exists>d1. (case find_node i (dht_table (sa_family sa) d) of None \<Rightarrow> Some d
        | Some kj \<Rightarrow> pinged (sa_family sa) kj None (update_node (sa_family sa) kj (\<lambda>n. n\<lparr>n_pinged := 3\<rparr>) d)) = Some d1
        \<and> dht_ok d1 \<and> dht_shape d d1"
    proof (cases "find_node i (dht_table (sa_family sa) d)")
      case None
      then show ?thesis using d shape.R_refl by simp
    next
      case (Some kj)
      obtain k j where kj: "kj = (k, j)" by (cases kj)
      note pos = find_node_some [OF dht_ok_table(1) [OF d af] Some [unfolded kj] i]
      let ?f = "\<lambda>n. n\<lparr>n_pinged := 3\<rparr>" and ?af = "sa_family sa"
      let ?n = "b_nodes (dht_table ?af d ! k) ! j"
      have n: "node_ok ?af (?f ?n)" using dht_ok_bucket(2) [OF d af pos(1)] pos(2) by (simp add: node_ok_def)
      have d0: "dht_ok (update_node ?af (k, j) ?f d)" "dht_shape d (update_node ?af (k, j) ?f d)"
        using keep_node [where f = ?f, OF d af pos(1,2) n] by simp_all
      have "keeps dht_shape (update_node ?af (k, j) ?f d) (pinged ?af (k, j) None (update_node ?af (k, j) ?f d))"
        by (rule pinged_keeps [OF d0(1) af]) (use pos(1,2) in \<open>simp_all add: update_node_def Let_def\<close>)
      then have "keeps dht_shape d (pinged ?af (k, j) None (update_node ?af (k, j) ?f d))"
        by (rule shape.keeps_from [OF d0(2)])
      then show ?thesis using Some kj by (auto simp: keeps_def)
    qed
    then obtain d1 where d1: "(case find_node i (dht_table (sa_family sa) d) of None \<Rightarrow> Some d
        | Some kj \<Rightarrow> pinged (sa_family sa) kj None (update_node (sa_family sa) kj (\<lambda>n. n\<lparr>n_pinged := 3\<rparr>) d)) = Some d1"
      "dht_ok d1" "dht_shape d d1" by blast
    let ?d2 = "d1\<lparr>d_searches := map (\<lambda>sr. flush_loop i sr 0) (d_searches d1)\<rparr>"
    have "dht_ok ?d2"
      using d1(2) search_ok_flushed(2) [OF _ i] by (auto simp: dht_ok_def)
    moreover have "dht_tables d ?d2"
      using d1(3) by (simp add: dht_shape_def dht_tables_def dht_same_def)
    ultimately show ?thesis
      using last_step [of ?d2] Some d1(1) by (simp add: blacklist_node_def)
  qed
qed

section \<open>Starting a search\<close>

lemma insert_nodes_fold:
  "insert_nodes ns now sr = sr\<lparr>sr_nodes := fold (\<lambda>n es. sr_nodes (snd (insert_search_node (n_id n) (n_ss n) (n_sslen n)
     False None now (sr\<lparr>sr_nodes := es\<rparr>)))) ns (sr_nodes sr)\<rparr>"
proof (induction ns arbitrary: sr)
  case (Cons n ns)
  let ?ins = "\<lambda>sr. snd (insert_search_node (n_id n) (n_ss n) (n_sslen n) False None now sr)"
  have s: "?ins sr = sr\<lparr>sr_nodes := sr_nodes (?ins sr)\<rparr>"
    by (simp add: insert_search_node_def Let_def split: closest_pos.split)
  have "insert_nodes ns now (?ins sr) = insert_nodes ns now (sr\<lparr>sr_nodes := sr_nodes (?ins sr)\<rparr>)"
    using s by simp
  then show ?case using Cons [of "sr\<lparr>sr_nodes := sr_nodes (?ins sr)\<rparr>"] by simp
qed simp

lemma insert_nodes_ok:
  "search_ok sr \<Longrightarrow> \<forall>n \<in> set ns. is_id (n_id n) \<and> 2 \<le> length (n_ss n) \<and> salen_ok (n_sslen n) \<Longrightarrow>
    search_ok (insert_nodes ns now sr)"
  by (induction ns now sr rule: insert_nodes.induct) (simp_all add: insert_search_ok)

text \<open>Reusing a search keeps the nodes that are not doubtful, with their states reset.\<close>

lemma doubtful_reset: "node_doubtful now (node_reset n) \<longleftrightarrow> sn_reply_time n < now - 7200"
  by (simp add: node_doubtful_def node_reset_def)

lemma node_reset_idem [simp]: "node_reset (node_reset n) = node_reset n"
  by (simp add: node_reset_def)

lemma reuse_loop_run:
  assumes "\<forall>n \<in> set (take i ns). \<not> node_doubtful now n \<and> node_reset n = n"
  shows "reuse_loop now ns i = map node_reset (filter (\<lambda>n. \<not> node_doubtful now n) ns)"
  using assms
proof (induction now ns i rule: reuse_loop.induct)
  case (1 now ns i)
  let ?good = "\<lambda>n. \<not> node_doubtful now n"
  show ?case
  proof (cases "i < length ns")
    case i: True
    have split: "ns = take i ns @ ns ! i # drop (Suc i) ns" using i by (rule id_take_nth_drop)
    show ?thesis
    proof (cases "node_doubtful now (ns ! i)")
      case True
      have "filter ?good ns = filter ?good (take i ns @ drop (Suc i) ns)"
        using arg_cong [OF split, of "filter ?good"] True by simp
      then show ?thesis using "1.IH"(1) [OF i True] i True by (subst reuse_loop.simps) simp
    next
      case False
      have r: "?good (node_reset (ns ! i))" using False by (simp add: node_doubtful_def node_reset_def)
      have u: "ns[i := node_reset (ns ! i)] = take i ns @ node_reset (ns ! i) # drop (Suc i) ns"
        using i by (rule upd_conv_take_nth_drop)
      have "map node_reset (filter ?good (ns[i := node_reset (ns ! i)])) = map node_reset (filter ?good ns)"
        using arg_cong [OF split, of "\<lambda>ns. map node_reset (filter ?good ns)"] False r by (simp add: u)
      moreover have p: "\<forall>n \<in> set (take (Suc i) (ns[i := node_reset (ns ! i)])). ?good n \<and> node_reset n = n"
        using "1.prems" i r by (simp add: take_Suc_conv_app_nth)
      moreover have "reuse_loop now ns i = reuse_loop now (ns[i := node_reset (ns ! i)]) (Suc i)"
        using i False by (subst reuse_loop.simps) (simp only: if_True if_False)
      ultimately show ?thesis using "1.IH"(2) [OF i False p] by (simp only:)
    qed
  next
    case False
    have "filter ?good ns = ns" using "1.prems" False by (intro filter_True) simp
    moreover have "map node_reset ns = ns" using "1.prems" False by (intro map_idI) simp
    ultimately show ?thesis using False by (subst reuse_loop.simps) simp
  qed
qed

lemma reuse_ok:
  assumes "search_ok sr"
  shows "search_ok (sr\<lparr>sr_done := False, sr_nodes := reuse_loop now (sr_nodes sr) 0\<rparr>)"
proof -
  have e: "reuse_loop now (sr_nodes sr) 0 = map node_reset (filter (\<lambda>n. \<not> node_doubtful now n) (sr_nodes sr))"
    by (rule reuse_loop_run) simp
  have "near_sorted (sr_id sr) (map sn_id (filter P (sr_nodes sr)))" for P
    using assms by (simp add: search_ok_def sorted_wrt_map sorted_wrt_filter)
  moreover have "sn_id \<circ> node_reset = sn_id" by (simp add: fun_eq_iff node_reset_def)
  ultimately have near: "near_sorted (sr_id sr) (map sn_id (reuse_loop now (sr_nodes sr) 0))"
    by (simp add: e)
  have len: "length (reuse_loop now (sr_nodes sr) 0) \<le> SEARCH_NODES"
    using search_okD(3) [OF assms] le_trans [OF length_filter_le] by (simp add: e)
  have "\<forall>n \<in> set (reuse_loop now (sr_nodes sr) 0). search_node_ok (sr_af sr) n"
    using search_okD(4) [OF assms] by (auto simp: e search_node_ok_def node_reset_def)
  then show ?thesis using assms near len by (simp add: search_ok_def)
qed

end
