(* ===== verification/DhtInvTable.thy ===== *)
theory DhtInvTable
  imports DhtInvSearch
begin

text \<open>
  The routing table grows without end only on paper: every split deepens the bucket of our own
  id by one bit, and there are 160 of them.  So the loops of \<open>split_bucket\<close> and \<open>new_node\<close>
  end, and they leave the invariant.
\<close>

section \<open>A split\<close>

lemma send_cached_ping_run:
  assumes d: "dht_ok d" and af: "is_af af" and k: "k < length (dht_table af d)"
  obtains rc d1 b where "send_cached_ping af k d = Some (rc, d1)" and "dht_ok d1" and "dht_shape d d1"
    and "dht_table af d1 = (dht_table af d)[k := b]" and "b_first b = b_first (dht_table af d ! k)"
    and "b_nodes b = b_nodes (dht_table af d ! k)" and "b_max_count b = b_max_count (dht_table af d ! k)"
    and "cached_ok af b"
proof -
  let ?b = "dht_table af d ! k"
  obtain rc d1 where s: "send_cached_ping af k d = Some (rc, d1)" and ok: "dht_ok d1" and sh: "dht_shape d d1"
    using send_cached_ping_keeps [OF assms] by (auto simp: keeps_def)
  show thesis
  proof (cases "sa_family (b_cached ?b) = 0")
    case True
    then have "d1 = d" using s by (simp add: send_cached_ping_def)
    then show ?thesis
      using s ok sh dht_ok_bucket(1) [OF assms] by (intro that [of rc d1 ?b]) (simp_all add: bucket_ok_def)
  next
    case False
    let ?f = "\<lambda>b. b\<lparr>b_cached := copy_onto (b_cached b) [0, 0] 2, b_cachedlen := 0\<rparr>"
    have c: "salen_ok (b_cachedlen ?b)"
      using dht_ok_bucket(1) [OF assms] False by (simp add: bucket_ok_def cached_ok_def ss_ok_def)
    obtain rc2 d2 where p: "send_ping (b_cached ?b) (b_cachedlen ?b) (make_tid ''pn'' 0) d = Some (rc2, d2)"
      "d_buckets d2 = d_buckets d" "d_buckets6 d2 = d_buckets6 d"
      using sends_state [OF sends_senders(1) [OF c] d] by metis
    then have "d1 = update_bucket af k ?f d2" using s False by (simp add: send_cached_ping_def Let_def)
    moreover have "dht_table af d2 = dht_table af d" by (rule table_eqI) (use p in simp_all)
    ultimately have t: "dht_table af d1 = (dht_table af d)[k := ?f ?b]" by (simp add: update_bucket_def Let_def)
    have "dht_table af d1 ! k = ?f ?b" using t k by simp
    moreover have "bucket_ok af (dht_table af d1 ! k)"
      by (rule dht_ok_bucket(1) [OF ok af]) (use t k in simp)
    ultimately have "cached_ok af (?f ?b)" by (simp add: bucket_ok_def)
    then show ?thesis using s ok sh t by (intro that) simp_all
  qed
qed

lemma bucket_middle_first:
  assumes "length bs = length bs'" and "\<And>j. j < length bs \<Longrightarrow> b_first (bs ! j) = b_first (bs' ! j)" and "k < length bs"
  shows "bucket_middle bs k = bucket_middle bs' k"
  using bucket_bit_first [OF assms] assms(2) [OF assms(3)] by (simp add: bucket_middle_def Let_def)

lemma id_depth_bound:
  assumes "table_sorted bs" and "is_id nid" and "bs \<noteq> []"
  shows "0 \<le> id_depth bs nid" and "id_depth bs nid \<le> 160"
proof -
  obtain k where "k < length bs" "id_depth bs nid = bucket_bit bs k"
    using find_bucket_ok [OF assms(1,3,2)] id_depth_eq [OF assms(1,2)] by metis
  moreover have "- 1 \<le> lowbit x \<and> lowbit x < 160" for x
    using lowbit_bounds by auto
  ultimately show "0 \<le> id_depth bs nid" "id_depth bs nid \<le> 160"
    by (auto simp: bucket_bit_def Let_def) (smt (verit))+
qed


text \<open>The two buckets that replace a split one.\<close>

lemma bucket_ok_empty:
  "is_id (b_first b) \<Longrightarrow> b_nodes b = [] \<Longrightarrow> b_count b = 0 \<Longrightarrow> 8 \<le> b_max_count b \<Longrightarrow> cached_ok af b \<Longrightarrow> bucket_ok af b"
  by (simp add: bucket_ok_def)

lemma cached_ok_new: "cached_ok af (bucket_new\<lparr>b_af := x, b_first := f, b_time := t, b_max_count := c\<rparr>)"
  by (simp add: cached_ok_def bucket_new_def sa_family_def numeral_2_eq_2)

lemma split_helper_run:
  assumes d: "dht_ok d" and af: "is_af af" and k: "k < length (dht_table af d)"
  obtains (no) d1 where "split_bucket_helper af k d = Some (- 1, [], d1)" and "dht_ok d1" and "dht_shape d d1"
    and "dht_table af d1 = dht_table af d"
  | (yes) d1 where "split_bucket_helper af k d = Some (1, b_nodes (dht_table af d ! k), d1)" and "dht_ok d1"
    and "dht_same d d1" and "id_depth (dht_table af d1) (d_myid d) = id_depth (dht_table af d) (d_myid d) + 1"
    and "table_ids (dht_table af d1) \<subseteq> table_ids (dht_table af d)"
    and "\<And>n. n \<in> set (b_nodes (dht_table af d ! k)) \<Longrightarrow> n_id n \<notin> table_ids (dht_table af d1)"
    and "dht_table af d1 \<noteq> []"
proof -
  let ?bs = "dht_table af d"
  obtain ok d1 where c: "c_calloc d = (ok, d1)" by (cases "c_calloc d")
  have d1: "dht_ok d1" "dht_shape d d1" "dht_table af d1 = ?bs" "d_myid d1 = d_myid d"
    using c_calloc_keeps(1,2) [of d] c_calloc_keeps(3) [of af d] d c
    by (simp_all add: dht_shape_def dht_tables_def dht_same_def)
  show thesis
  proof (cases "in_bucket (d_myid d) ?bs k \<and> bucket_middle ?bs k \<noteq> None \<and> ok")
    case False
    then show ?thesis
      using c d d1 shape.R_refl [of d]
      by (cases "bucket_middle ?bs k"; cases ok; intro no [of "if in_bucket (d_myid d) ?bs k \<and> bucket_middle ?bs k \<noteq> None then d1 else d"])
        (auto simp: split_bucket_helper_def Let_def)
  next
    case True
    then obtain m where m: "bucket_middle ?bs k = Some m" and ok: ok and inb: "in_bucket (d_myid d) ?bs k" by auto
    have k1: "k < length (dht_table af d1)" using k d1(3) by simp
    obtain rc d2 b where s: "send_cached_ping af k d1 = Some (rc, d2)" "dht_ok d2" "dht_shape d1 d2"
      "dht_table af d2 = ?bs[k := b]" "b_first b = b_first (?bs ! k)" "b_nodes b = b_nodes (?bs ! k)"
      "b_max_count b = b_max_count (?bs ! k)" "cached_ok af b"
      using send_cached_ping_run [OF d1(1) af k1] d1(3) by metis
    let ?bs2 = "?bs[k := b]" and ?half = "max (b_max_count b div 2) 8"
    let ?new = "bucket_new\<lparr>b_af := b_af b, b_first := m, b_time := b_time b\<rparr>" and ?b1 = "b\<lparr>b_nodes := [], b_count := 0\<rparr>"
    have k2: "k < length ?bs2" and bk: "?bs2 ! k = b" using k by simp_all
    have my: "d_myid d2 = d_myid d" using s(3) d1(4) by (simp add: dht_shape_def dht_tables_def dht_same_def)
    obtain c1 c2 where run: "split_bucket_helper af k d
        = Some (1, b_nodes b, set_table af (split_table ?bs2 k (?b1\<lparr>b_max_count := c1\<rparr>) (?new\<lparr>b_max_count := c2\<rparr>)) d2)"
      and c12: "8 \<le> c1" "8 \<le> c2"
    proof -
      have half: "8 \<le> ?half" "8 \<le> b_max_count b"
        using dht_ok_bucket(1) [OF d af k] s(7) by (simp_all add: bucket_ok_def)
      show thesis
        using c ok m inb s(1,4) k2 bk half split_update [OF k2, of ?b1 ?new]
        by (intro that [of "if in_bucket (d_myid d2) (split_table ?bs2 k ?b1 ?new) k then ?half else b_max_count b"
              "if in_bucket (d_myid d2) (split_table ?bs2 k ?b1 ?new) k then b_max_count b else ?half"])
          (auto simp: split_bucket_helper_def split_table_def Let_def)
    qed
    let ?x = "?b1\<lparr>b_max_count := c1\<rparr>" and ?y = "?new\<lparr>b_max_count := c2\<rparr>"
    let ?t = "split_table ?bs2 k ?x ?y"
    have t2: "table_ok af ?bs2" using dht_ok_table(1) [OF s(2) af] s(4) by simp
    have m2: "bucket_middle ?bs2 k = Some m"
      using bucket_middle_first [of ?bs ?bs2 k] m k s(5) by (simp add: nth_list_update)
    have sorted: "table_sorted ?bs" by (rule table_ok_sorted [OF dht_ok_table(1) [OF d af]])
    have "is_id m"
      using split_table_sorted [OF table_ok_sorted [OF t2] k2 m2, of b ?new] bk
      by (simp add: table_sorted_def split_table_def)
    then have "table_ok af ?t"
      using dht_ok_bucket(1) [OF d af k] s(5,8) c12 bk cached_ok_new
      by (intro split_table_ok [OF t2 k2 m2] bucket_ok_empty) (simp_all add: bucket_ok_def cached_ok_def bucket_new_def)
    moreover have ids: "table_ids ?t \<subseteq> table_ids ?bs"
      using split_ids [OF k2, of ?x ?y] table_ids_same [of b ?bs k] s(6) by (simp add: bucket_new_def)
    moreover have "d_myid d2 \<notin> table_ids ?bs" using dht_ok_table(2) [OF d af] my by simp
    ultimately have ok3: "dht_ok (set_table af ?t d2)"
      using s(2) af by (intro dht_ok_set_table) auto
    have depth: "id_depth ?t (d_myid d) = id_depth ?bs (d_myid d) + 1"
    proof -
      have id: "is_id (d_myid d)" using d by (simp add: dht_ok_def)
      have "in_bucket (d_myid d) ?bs2 k" using inb s(5) by simp
      then have "id_depth ?t (d_myid d) = id_depth ?bs2 (d_myid d) + 1"
        using bk by (intro split_depth [OF table_ok_sorted [OF t2] k2 m2 _ _ id]) (simp_all add: bucket_new_def)
      also have "id_depth ?bs2 (d_myid d) = bucket_bit ?bs2 k"
        using inb s(5) by (intro id_depth_eq [OF table_ok_sorted [OF t2] id k2]) simp
      also have "\<dots> = bucket_bit ?bs k"
        using k s(5) by (intro bucket_bit_first) (simp_all add: nth_list_update)
      also have "\<dots> = id_depth ?bs (d_myid d)" by (rule id_depth_eq [OF sorted id k inb, symmetric])
      finally show ?thesis .
    qed
    have away: "n_id n \<notin> table_ids ?t" if "n \<in> set (b_nodes (?bs ! k))" for n
      using that s(6) bk by (intro split_ids_away [OF t2 k2]) (simp_all add: bucket_new_def)
    show ?thesis
    proof (rule yes)
      show "split_bucket_helper af k d = Some (1, b_nodes (?bs ! k), set_table af ?t d2)" using run s(6) by simp
      show "dht_same d (set_table af ?t d2)"
        using d1(2) s(3) by (simp add: dht_shape_def dht_tables_def dht_same_def)
      show "dht_table af (set_table af ?t d2) \<noteq> []" by (simp add: split_table_def)
    qed (use ok3 depth ids away in simp_all)
  qed
qed


section \<open>The loop of \<open>split_bucket\<close>\<close>

lemma id_depth_update:
  assumes "table_sorted bs" and "is_id nid" and "bs \<noteq> []" and "b_first b = b_first (bs ! k)"
  shows "id_depth (bs[k := b]) nid = id_depth bs nid"
proof -
  obtain j where j: "j < length bs" "in_bucket nid bs j" using find_bucket_ok [OF assms(1,3,2)] by metis
  have "id_depth (bs[k := b]) nid = bucket_bit (bs[k := b]) j"
    using assms j by (intro id_depth_eq) simp_all
  also have "\<dots> = bucket_bit bs j"
  proof (rule bucket_bit_first)
    fix i assume "i < length (bs[k := b])"
    then show "b_first (bs[k := b] ! i) = b_first (bs ! i)" using assms(4) by (cases "i = k") simp_all
  qed (use j(1) in simp_all)
  finally show ?thesis using id_depth_eq [OF assms(1,2) j] by simp
qed

lemma tables_depth: "dht_tables d d' \<Longrightarrow> id_depth (dht_table af d') nid = id_depth (dht_table af d) nid"
proof -
  assume t: "dht_tables d d'"
  note len = tables_length [OF t, of af] and first = table_frame_first [OF tables_table [OF t, of af]]
  have f: "b_first (dht_table af d' ! j) = b_first (dht_table af d ! j)" if "j < length (dht_table af d)" for j
    using arg_cong [OF first, of "\<lambda>xs. xs ! j"] that len by simp
  show ?thesis
  proof (cases "dht_table af d = []")
    case True
    then show ?thesis using len by simp
  next
    case False
    then have k: "find_bucket_loop nid (dht_table af d') = find_bucket_loop nid (dht_table af d)"
      using tables_find [OF t, of nid af] len by (auto simp: find_bucket_def split: if_splits)
    show ?thesis
      unfolding id_depth_def k using len f find_bucket_loop_bound [OF False] by (intro bucket_bit_first) simp_all
  qed
qed

text \<open>Nodes that may go into the table.\<close>

definition nodes_free :: "nat \<Rightarrow> node list \<Rightarrow> dht \<Rightarrow> bool" where
  "nodes_free af ns d \<longleftrightarrow> distinct (map n_id ns)
     \<and> (\<forall>n \<in> set ns. node_ok af n \<and> n_id n \<noteq> d_myid d \<and> n_id n \<notin> table_ids (dht_table af d))"

lemma nodes_freeD:
  assumes "nodes_free af (n # ns) d"
  shows "node_ok af n" and "n_id n \<noteq> d_myid d" and "n_id n \<notin> table_ids (dht_table af d)" and "nodes_free af ns d"
    and "n_id n \<notin> n_id ` set ns"
  using assms by (auto simp: nodes_free_def)

lemma nodes_free_sub:
  "nodes_free af ns d \<Longrightarrow> d_myid d' = d_myid d \<Longrightarrow> table_ids (dht_table af d') \<subseteq> table_ids (dht_table af d) \<union> X \<Longrightarrow>
    X \<inter> n_id ` set ns = {} \<Longrightarrow> nodes_free af ns d'"
  unfolding nodes_free_def by auto

lemma nodes_free_append:
  assumes "nodes_free af ns d" and "d_myid d' = d_myid d" and "table_ids (dht_table af d') \<subseteq> table_ids (dht_table af d)"
    and "nodes_free af ms d'" and "n_id ` set ms \<subseteq> table_ids (dht_table af d)"
  shows "nodes_free af (ns @ ms) d'"
proof -
  have "n_id ` set ns \<inter> n_id ` set ms = {}" using assms(1,5) by (auto simp: nodes_free_def)
  moreover have "nodes_free af ns d'" using nodes_free_sub [OF assms(1,2), of "{}"] assms(3) by simp
  ultimately show ?thesis using assms(4) by (auto simp: nodes_free_def)
qed

lemma in_table_ids: "k < length bs \<Longrightarrow> n \<in> set (b_nodes (bs ! k)) \<Longrightarrow> n_id n \<in> table_ids bs"
  by (auto simp: table_ids_def)

lemma same_myid: "dht_same d d' \<Longrightarrow> d_myid d' = d_myid d"
  by (simp add: dht_same_def)

lemma insert_node_run:
  assumes d: "dht_ok d" and af: "is_af af" and ne: "dht_table af d \<noteq> []" and n: "nodes_free af [n] d"
  obtains (full) k where "insert_node n d = (0, k, d)" and "k < length (dht_table af d)"
  | (room) k d1 where "insert_node n d = (1, k, d1)" and "dht_ok d1" and "dht_same d d1"
    and "table_ids (dht_table af d1) \<subseteq> table_ids (dht_table af d) \<union> {n_id n}"
    and "id_depth (dht_table af d1) (d_myid d) = id_depth (dht_table af d) (d_myid d)" and "dht_table af d1 \<noteq> []"
proof -
  let ?bs = "dht_table af d"
  note n = nodes_freeD(1-3) [OF n]
  have fam: "sa_family (n_ss n) = af" and id: "is_id (n_id n)" using n(1) by (simp_all add: node_ok_def ss_ok_def)
  note t = table_ok_sorted [OF dht_ok_table(1) [OF d af]]
  obtain k where k: "find_bucket (n_id n) ?bs = Some k" "k < length ?bs" "in_bucket (n_id n) ?bs k"
    using find_bucket_ok [OF t ne id] by metis
  show thesis
  proof (cases "b_max_count (?bs ! k) \<le> b_count (?bs ! k)")
    case True
    then show ?thesis using k fam by (intro full [of k]) (simp_all add: insert_node_def)
  next
    case False
    let ?b = "(?bs ! k)\<lparr>b_nodes := n # b_nodes (?bs ! k), b_count := b_count (?bs ! k) + 1\<rparr>"
    note old = dht_ok_bucket [OF d af k(2)]
    have "n_id n \<notin> n_id ` set (b_nodes (?bs ! k))" using n(3) in_table_ids [OF k(2)] by force
    then have b: "bucket_ok af ?b" using old(1) n(1) False by (simp add: bucket_ok_def cached_ok_def)
    have fits: "in_bucket (n_id x) ?bs k \<and> n_id x \<noteq> d_myid d" if "x \<in> set (b_nodes ?b)" for x
      using that old(2) k(3) n(2) by auto
    note keep = keep_bucket [OF d af k(2) b _ fits]
    have ids: "table_ids (?bs[k := ?b]) \<subseteq> table_ids ?bs \<union> {n_id n}"
      using table_ids_update [OF k(2), of ?b] in_table_ids [OF k(2)] by auto
    have "is_id (d_myid d)" using d by (simp add: dht_ok_def)
    then have depth: "id_depth (?bs[k := ?b]) (d_myid d) = id_depth ?bs (d_myid d)"
      by (intro id_depth_update [OF t _ ne]) simp_all
    show ?thesis
      by (rule room [of k "set_table af (?bs[k := ?b]) d"])
        (use k fam False keep ids depth ne in \<open>simp_all add: insert_node_def Let_def\<close>)
  qed
qed

lemma split_loop_run:
  assumes "dht_ok d" and "is_af af" and "dht_table af d \<noteq> []" and "nodes_free af nodes d"
  shows "\<exists>d1. split_loop af nodes d = Some d1 \<and> dht_ok d1 \<and> dht_same d d1
    \<and> id_depth (dht_table af d) (d_myid d) \<le> id_depth (dht_table af d1) (d_myid d)"
  using assms
proof (induction "(nodes, d)" arbitrary: nodes d
    rule: wf_induct_rule [OF wf_measures [of "[\<lambda>(ns, d). nat (160 - id_depth (dht_table af d) (d_myid d)), \<lambda>(ns, d). length ns]"]])
  case (1 nodes d)
  note d = "1.prems"(1) and af = "1.prems"(2)
  let ?depth = "\<lambda>d1. id_depth (dht_table af d1) (d_myid d)"
  have step: "\<exists>d2. split_loop af ns d1 = Some d2 \<and> dht_ok d2 \<and> dht_same d d2 \<and> ?depth d \<le> ?depth d2"
    if "dht_ok d1" "dht_same d d1" "dht_table af d1 \<noteq> []" "nodes_free af ns d1"
      "?depth d < ?depth d1 \<or> (?depth d = ?depth d1 \<and> length ns < length nodes)" for ns d1
  proof -
    have my: "d_myid d1 = d_myid d" by (rule same_myid [OF that(2)])
    have "?depth d1 \<le> 160"
      using that(1,3) my af by (intro id_depth_bound table_ok_sorted [OF dht_ok_table(1)]) (auto simp: dht_ok_def)
    then have "((ns, d1), (nodes, d)) \<in> measures [\<lambda>(ns, d). nat (160 - id_depth (dht_table af d) (d_myid d)), \<lambda>(ns, d). length ns]"
      using that(5) my by auto
    from "1.hyps" [OF this that(1) af that(3,4)] show ?thesis
      using that(2,5) my same.R_trans [of d d1] by fastforce
  qed
  show ?case
  proof (cases nodes)
    case Nil
    then show ?thesis using d same.R_refl by (simp add: split_loop.simps)
  next
    case (Cons n rest)
    note free = nodes_freeD [OF "1.prems"(4) [unfolded Cons]]
    have fam: "sa_family (n_ss n) = af" using free(1) by (simp add: node_ok_def ss_ok_def)
    have n: "nodes_free af [n] d" using free(1-3) by (simp add: nodes_free_def)
    show ?thesis using d af "1.prems"(3) n
    proof (cases rule: insert_node_run)
      case (room k d1)
      have "nodes_free af rest d1"
        using nodes_free_sub [OF free(4) same_myid [OF room(3)] room(4)] free(5) by simp
      then show ?thesis
        using step [OF room(2,3,6)] room Cons by (subst split_loop.simps) simp
    next
      case (full k)
      have skip: ?thesis if "split_loop af nodes d = split_loop af rest d1" "dht_ok d1" "dht_shape d d1"
        "dht_table af d1 = dht_table af d" for d1
        using that step [OF that(2), of rest] free(4) "1.prems"(3) Cons same_myid [of d d1] by (simp add: nodes_free_def)
      show ?thesis
      proof (cases "in_bucket (d_myid d) (dht_table af d) k")
        case False
        show ?thesis by (rule skip [OF _ d]) (use False full fam Cons shape.R_refl in \<open>simp_all add: split_loop.simps\<close>)
      next
        case True
        show ?thesis using d af full(2)
        proof (cases rule: split_helper_run)
          case (no d1)
          show ?thesis
            by (rule skip [OF _ no(2-4)]) (subst split_loop.simps, use no(1) True full fam Cons in simp)
        next
          case (yes d1)
          let ?ms = "b_nodes (dht_table af d ! k)"
          have "nodes_free af ?ms d1"
            using dht_ok_bucket [OF d af full(2)] yes(6) same_myid [OF yes(3)] by (simp add: nodes_free_def bucket_ok_def)
          then have "nodes_free af (nodes @ ?ms) d1"
            using in_table_ids [OF full(2)] by (intro nodes_free_append [OF "1.prems"(4) same_myid [OF yes(3)] yes(5)]) auto
          then show ?thesis
            using step [OF yes(2,3,7), of "nodes @ ?ms"] yes(1,4) True full fam Cons
            by (subst split_loop.simps) (simp add: append_nodes_def)
        qed
      qed
    qed
  qed
qed

lemma split_bucket_run:
  assumes d: "dht_ok d" and af: "is_af af" and k: "k < length (dht_table af d)"
  obtains rc d1 where "split_bucket af k d = Some (rc, d1)" and "dht_ok d1" and "dht_same d d1"
    and "0 < rc \<Longrightarrow> id_depth (dht_table af d) (d_myid d) < id_depth (dht_table af d1) (d_myid d)"
  using assms
proof (cases rule: split_helper_run)
  case (no d1)
  then show ?thesis by (intro that [of "- 1" d1]) (simp_all add: split_bucket_def)
next
  case (yes d1)
  let ?ms = "b_nodes (dht_table af d ! k)"
  have "nodes_free af ?ms d1"
    using dht_ok_bucket [OF d af k] yes(6) same_myid [OF yes(3)] by (simp add: nodes_free_def bucket_ok_def)
  then obtain d2 where "split_loop af ?ms d1 = Some d2" "dht_ok d2" "dht_same d1 d2"
    "id_depth (dht_table af d1) (d_myid d) \<le> id_depth (dht_table af d2) (d_myid d)"
    using split_loop_run [OF yes(2) af yes(7)] same_myid [OF yes(3)] by auto
  then show ?thesis
    using yes(1,3,4) same.R_trans by (intro that [of 1 d2]) (auto simp: split_bucket_def)
qed


section \<open>Learning about a node\<close>

lemma copy_family:
  assumes "2 \<le> length sa" and "2 \<le> salen"
  shows "sa_family (copy_onto x sa salen) = sa_family sa" and "2 \<le> length (copy_onto x sa salen)"
  using assms by (simp_all add: copy_onto_def sa_family_def min_def)

lemma shape_times [simp]:
  "dht_shape d (grow_stamp af d)" "dht_ok (grow_stamp af d) = dht_ok d" "dht_table af' (grow_stamp af d) = dht_table af' d"
  "d_myid (grow_stamp af d) = d_myid d"
  by (simp_all add: grow_stamp_def dht_shape_def dht_tables_def dht_same_def dht_table_def)

lemma confirm_search_keeps:
  assumes "dht_ok d" and "is_id nid" and "2 \<le> length sa" and "salen_ok salen"
  shows "keeps dht_tables d (confirm_search confirm nid sa salen d)"
  using add_search_keeps [OF assms] tables.keeps_same [OF assms(1)] by (simp add: confirm_search_def)

definition visit_ok :: "nat \<Rightarrow> dht_id \<Rightarrow> dht \<Rightarrow> visit option \<Rightarrow> bool" where
  "visit_ok af nid d v \<longleftrightarrow>
     (case v of
        None \<Rightarrow> False
      | Some (Stop r d1) \<Rightarrow> dht_ok d1 \<and> dht_same d d1 \<and> (r \<longrightarrow> nid \<in> table_ids (dht_table af d1))
      | Some (Again d1) \<Rightarrow> dht_ok d1 \<and> dht_same d d1
          \<and> id_depth (dht_table af d) (d_myid d) < id_depth (dht_table af d1) (d_myid d))"

lemma visit_confirm:
  assumes "dht_ok d1" and "dht_same d d1" and "is_id nid" and "2 \<le> length sa" and "salen_ok salen"
    and "r \<Longrightarrow> nid \<in> table_ids (dht_table af d1)"
  shows "visit_ok af nid d (Option.bind (confirm_search confirm nid sa salen d1) (\<lambda>d2. Some (Stop r d2)))"
proof -
  obtain d2 where "confirm_search confirm nid sa salen d1 = Some d2" "dht_ok d2" "dht_tables d1 d2"
    using confirm_search_keeps [OF assms(1,3-5)] by (auto simp: keeps_def)
  then show ?thesis
    using assms(2,6) same.R_trans [of d d1 d2] tables_ids [of d1 d2 af] by (simp add: visit_ok_def)
qed

lemma first_pos_bound: "first_pos P ns = Some j \<Longrightarrow> j < length ns \<and> P (ns ! j)"
  by (induction ns arbitrary: j) (auto split: if_splits)

lemma ping_dubious_keeps:
  assumes d: "dht_ok d" and af: "is_af af" and k: "k < length (dht_table af d)"
  shows "keeps dht_shape d (map_option snd (ping_dubious af k d))"
proof -
  let ?ns = "b_nodes (dht_table af d ! k)"
  let ?dubious = "\<lambda>n. \<not> node_good d n \<and> n_pinged_time n < d_now d - 15"
  show ?thesis
  proof (cases "first_pos ?dubious ?ns")
    case None
    then show ?thesis using shape.keeps_same [OF d] by (simp add: ping_dubious_def)
  next
    case (Some j)
    note j = first_pos_bound [OF Some]
    have n: "node_ok af (?ns ! j)" using dht_ok_bucket(2) [OF d af k] j by simp
    then have "salen_ok (n_sslen (?ns ! j))" by (simp add: node_ok_def ss_ok_def)
    then obtain rc d1 where s: "send_ping (n_ss (?ns ! j)) (n_sslen (?ns ! j)) (make_tid ''pn'' 0) d = Some (rc, d1)"
      "dht_ok d1" "dht_shape d d1" "d_buckets d1 = d_buckets d" "d_buckets6 d1 = d_buckets6 d"
      using sends_state [OF sends_senders(1) d] by metis
    have t: "dht_table af d1 = dht_table af d" by (rule table_eqI) (use s in simp_all)
    let ?f = "\<lambda>n. n\<lparr>n_pinged := n_pinged n + 1, n_pinged_time := d_now d1\<rparr>"
    have "dht_ok (update_node af (k, j) ?f d1)" "dht_shape d1 (update_node af (k, j) ?f d1)"
      using keep_node [where f = ?f, OF s(2) af] k j n t by (simp_all add: node_ok_def)
    then show ?thesis
      using Some s(1,3) shape.R_trans [of d d1] by (simp add: ping_dubious_def keeps_def)
  qed
qed

lemma new_node_full_run:
  assumes d: "dht_ok d" and af: "is_af (sa_family sa)" and k: "k < length (dht_table (sa_family sa) d)"
    and nid: "is_id nid" and sa: "2 \<le> length sa" "salen_ok salen"
  shows "visit_ok (sa_family sa) nid d (new_node_full nid sa salen confirm k my d)"
proof -
  let ?af = "sa_family sa"
  obtain dub d1 where p: "ping_dubious ?af k d = Some (dub, d1)" "dht_ok d1" "dht_shape d d1"
    using ping_dubious_keeps [OF d af k] by (auto simp: keeps_def)
  have k1: "k < length (dht_table ?af d1)" using k shape_length [OF p(3)] by simp
  show ?thesis
  proof (cases "my \<and> \<not> dub")
    case True
    obtain rc d2 where s: "split_bucket ?af k d1 = Some (rc, d2)" "dht_ok d2" "dht_same d1 d2"
      "0 < rc \<Longrightarrow> id_depth (dht_table ?af d1) (d_myid d1) < id_depth (dht_table ?af d2) (d_myid d1)"
      using split_bucket_run [OF p(2) af k1] by metis
    have "id_depth (dht_table ?af d1) (d_myid d) = id_depth (dht_table ?af d) (d_myid d)"
      using tables_depth [of d d1] p(3) by simp
    then show ?thesis
      using p s True same.R_trans [of d d1 d2] same_myid [of d d1] by (simp add: new_node_full_def visit_ok_def)
  next
    case False
    let ?f = "cache_node confirm sa salen"
    have f: "b_first (?f b) = b_first b" "b_nodes (?f b) = b_nodes b" "b_count (?f b) = b_count b"
      "b_max_count (?f b) = b_max_count b" for b by (simp_all add: cache_node_def)
    have "cached_ok ?af (?f b)" if "bucket_ok ?af b" for b
      using that sa copy_family [OF sa(1)] by (auto simp: cache_node_def bucket_ok_def cached_ok_def ss_ok_def)
    then have "dht_ok (update_bucket ?af k ?f d1)" "dht_shape d1 (update_bucket ?af k ?f d1)"
      using keep_bucket_fields [OF p(2) af k1 f] by blast+
    then show ?thesis
      using p(1,3) False sa nid same.R_trans [of d d1] unfolding new_node_full_def
      by (auto intro!: visit_confirm)
  qed
qed


lemma in_updated_node:
  assumes "k < length (dht_table af d)" and "j < length (b_nodes (dht_table af d ! k))"
  shows "n_id (f (b_nodes (dht_table af d ! k) ! j)) \<in> table_ids (dht_table af (update_node af (k, j) f d))"
proof -
  let ?b = "(dht_table af d ! k)\<lparr>b_nodes := (b_nodes (dht_table af d ! k))[j := f (b_nodes (dht_table af d ! k) ! j)]\<rparr>"
  have t: "dht_table af (update_node af (k, j) f d) = (dht_table af d)[k := ?b]"
    by (simp add: update_node_def Let_def)
  have "f (b_nodes (dht_table af d ! k) ! j) \<in> set (b_nodes ?b)"
    using assms(2) by (simp add: set_update_memI)
  then show ?thesis unfolding t using in_table_ids [of k "(dht_table af d)[k := ?b]"] assms(1) by simp
qed

lemma new_node_visit_run:
  assumes d: "dht_ok d" and af: "is_af (sa_family sa)" and nid: "is_id nid" "nid \<noteq> d_myid d"
    and sa: "2 \<le> length sa" "salen_ok salen" and k: "find_bucket nid (dht_table (sa_family sa) d) = Some k"
  shows "visit_ok (sa_family sa) nid d (new_node_visit nid sa salen confirm k d)"
proof -
  let ?af = "sa_family sa" and ?f = "\<lambda>b. b\<lparr>b_time := d_now d\<rparr>"
  define d1 where "d1 = (if confirm = 2 then update_bucket ?af k ?f d else d)"
  have "dht_table ?af d \<noteq> []" using k by (auto simp: find_bucket_def)
  then have k0: "k < length (dht_table ?af d)" "in_bucket nid (dht_table ?af d) k"
    using find_bucket_ok [OF table_ok_sorted [OF dht_ok_table(1) [OF d af]] _ nid(1)] k by (metis option.inject)+
  have "\<And>b. bucket_ok ?af b \<Longrightarrow> cached_ok ?af (?f b)" by (simp add: bucket_ok_def cached_ok_def)
  then have d1: "dht_ok d1" "dht_shape d d1"
    unfolding d1_def using keep_bucket_fields [where f = ?f, OF d af k0(1)] d shape.R_refl by auto
  define d2 where "d2 = (if in_bucket (d_myid d) (dht_table ?af d) k then grow_stamp ?af d1 else d1)"
  have d2: "dht_ok d2" "dht_shape d d2" "dht_table ?af d2 = dht_table ?af d1"
    using d1 shape.R_trans [OF d1(2) shape_times(1)] by (simp_all add: d2_def)
  let ?ns = "b_nodes (dht_table ?af d1 ! k)"
  have k1: "k < length (dht_table ?af d1)" "in_bucket nid (dht_table ?af d1) k"
  proof -
    show "k < length (dht_table ?af d1)" using k0 shape_length [OF d1(2)] by simp
    show "in_bucket nid (dht_table ?af d1) k"
      using k0(2) by (simp add: d1_def update_bucket_def Let_def)
  qed
  have ns: "\<forall>n \<in> set ?ns. is_id (n_id n)"
    using dht_ok_bucket(2) [OF d1(1) af k1(1)] by (simp add: node_ok_def)
  have k2: "k < length (dht_table ?af d2)" using k1(1) d2(3) by simp
  have my: "d_myid d2 = d_myid d" by (rule same_myid) (use d2(2) in simp)
  have now: "d_now d1 = d_now d" using d1(2) by (simp add: dht_shape_def dht_tables_def dht_same_def)
  have node: "node_ok ?af (?ns ! j) \<and> 2 \<le> length (n_ss (?ns ! j))" if "j < length ?ns" for j
    using dht_ok_bucket(2) [OF d1(1) af k1(1), of "?ns ! j"] that by (simp add: node_ok_def ss_ok_def)
  note copy = copy_family [OF sa(1), of salen]
  show ?thesis
  proof (cases "find_node_loop nid ?ns")
    case (Some j)
    let ?g = "node_known sa salen confirm (d_now d)"
    have j: "j < length ?ns" "n_id (?ns ! j) = nid" using find_node_loop_some [OF Some ns nid(1)] by auto
    have g: "node_ok ?af (?g (?ns ! j))" "n_id (?g (?ns ! j)) = n_id (?ns ! j)"
      using node [OF j(1)] copy sa by (auto simp: node_ok_def node_known_def ss_ok_def Let_def)
    have "dht_ok (update_node ?af (k, j) ?g d1)" "dht_same d1 (update_node ?af (k, j) ?g d1)"
      using keep_node(1,2) [where f = ?g, OF d1(1) af k1(1) j(1) g(1)] g(2) by blast+
    moreover have "nid \<in> table_ids (dht_table ?af (update_node ?af (k, j) ?g d1))"
      using in_updated_node [OF k1(1) j(1), of ?g] g(2) j(2) by simp
    ultimately show ?thesis
      unfolding new_node_visit_def Let_def d1_def [symmetric] Some option.case
      using d1(2) same.R_trans [of d d1] by (intro visit_confirm nid sa) auto
  next
    case None
    have free: "nid \<notin> n_id ` set ?ns" by (rule find_node_loop_none [OF None ns nid(1)])
    show ?thesis
    proof (cases "first_pos (node_bad (d_now d)) ?ns")
      case (Some j)
      let ?g = "node_replaced nid sa salen confirm (d_now d)"
      have j: "j < length ?ns" using first_pos_bound [OF Some] by simp
      have g: "node_ok ?af (?g (?ns ! j))" "n_id (?g (?ns ! j)) = nid"
        using node [OF j] copy sa nid(1) by (auto simp: node_ok_def node_replaced_def ss_ok_def)
      have "dht_ok (update_node ?af (k, j) ?g d2)" "dht_same d2 (update_node ?af (k, j) ?g d2)"
        using keep_node(1,2) [where f = ?g, OF d2(1) af k2] j g free k1(2) nid(2) d2(3) my by auto
      moreover have "nid \<in> table_ids (dht_table ?af (update_node ?af (k, j) ?g d2))"
        using in_updated_node [OF k2, of j ?g] j g(2) d2(3) by simp
      ultimately show ?thesis
        unfolding new_node_visit_def Let_def d1_def [symmetric] d2_def [symmetric] None option.case Some
        using d2(2) same.R_trans [of d d2] by (intro visit_confirm nid sa) auto
    next
      case none: None
      show ?thesis
      proof (cases "b_max_count (dht_table ?af d2 ! k) \<le> b_count (dht_table ?af d2 ! k)")
        case True
        have v: "visit_ok ?af nid d2 (new_node_full nid sa salen confirm k (in_bucket (d_myid d) (dht_table ?af d) k) d2)"
          by (rule new_node_full_run [OF d2(1) af k2 nid(1) sa])
        have "visit_ok ?af nid d v" if "visit_ok ?af nid d2 v" for v
          using that d2(2) my same.R_trans [of d d2] tables_depth [of d d2 ?af "d_myid d"]
          by (auto simp: visit_ok_def split: option.splits visit.splits)
        from this [OF v] show ?thesis
          unfolding new_node_visit_def Let_def d1_def [symmetric] d2_def [symmetric] None none option.case
          using True by simp
      next
        case False
        obtain ok d3 where c: "c_calloc d2 = (ok, d3)" by (cases "c_calloc d2")
        have d3: "dht_ok d3" "dht_shape d d3" "dht_table ?af d3 = dht_table ?af d1" "d_myid d3 = d_myid d"
          using c_calloc_keeps(1,2) [of d2] c_calloc_keeps(3) [of ?af d2] d2 c my shape.R_trans [of d d2 d3]
            same_myid [of d2 d3] by simp_all
        let ?n = "node_new nid sa salen confirm (d_now d)" and ?b = "dht_table ?af d3 ! k"
        let ?b1 = "?b\<lparr>b_nodes := ?n # b_nodes ?b, b_count := b_count ?b + 1\<rparr>"
        have k3: "k < length (dht_table ?af d3)" using k1(1) d3(3) by simp
        note old = dht_ok_bucket [OF d3(1) af k3]
        have n: "node_ok ?af ?n" "n_id ?n = nid"
          using nid(1) copy sa by (simp_all add: node_new_def node_ok_def ss_ok_def)
        have b: "bucket_ok ?af ?b1"
          using old(1) n False free d2(3) d3(3) by (simp add: bucket_ok_def cached_ok_def)
        have fits: "in_bucket (n_id x) (dht_table ?af d3) k \<and> n_id x \<noteq> d_myid d3" if "x \<in> set (b_nodes ?b1)" for x
          using that old(2) k1(2) d3(3,4) n(2) nid(2) by auto
        have e: "add_node ?af k ?n d3 = set_table ?af ((dht_table ?af d3)[k := ?b1]) d3"
          by (simp add: add_node_def update_bucket_def Let_def)
        have "dht_ok (add_node ?af k ?n d3)" "dht_same d3 (add_node ?af k ?n d3)"
          unfolding e using keep_bucket(1,2) [OF d3(1) af k3 b _ fits] by simp_all
        moreover have "nid \<in> table_ids (dht_table ?af (add_node ?af k ?n d3))"
          unfolding e using in_table_ids [of k "(dht_table ?af d3)[k := ?b1]" ?n] k3 n(2) by simp
        ultimately have "visit_ok ?af nid d (Option.bind (confirm_search confirm nid sa salen (add_node ?af k ?n d3)) (\<lambda>d4. Some (Stop True d4)))"
          using d3(2) same.R_trans [of d d3] by (intro visit_confirm nid sa) auto
        moreover have "visit_ok ?af nid d (Some (Stop False d3))" using d3 by (simp add: visit_ok_def)
        ultimately show ?thesis
          unfolding new_node_visit_def Let_def d1_def [symmetric] d2_def [symmetric] None none option.case c prod.case
          using False by simp
      qed
    qed
  qed
qed


text \<open>\<open>new_node\<close> returns, and a node it returns is in the table.\<close>

lemma new_node_run:
  assumes "dht_ok d" and "is_af (sa_family sa)" and "is_id nid" and "2 \<le> length sa" and "salen_ok salen"
  shows "\<exists>r d1. new_node nid sa salen confirm d = Some (r, d1) \<and> dht_ok d1 \<and> dht_same d d1
    \<and> (r \<longrightarrow> nid \<in> table_ids (dht_table (sa_family sa) d1))"
  using assms
proof (induction "nat (160 - id_depth (dht_table (sa_family sa) d) (d_myid d))" arbitrary: d rule: less_induct)
  case less
  let ?af = "sa_family sa"
  note d = less.prems(1) and af = less.prems(2) and nid = less.prems(3) and sa = less.prems(4,5)
  have my: "is_id (d_myid d)" using d by (simp add: dht_ok_def)
  obtain black where black: "node_blacklisted sa salen d = Some black"
    using sa(2) by (simp add: node_blacklisted_def dht_blacklisted_def)
  show ?case
  proof (cases "\<exists>k. find_bucket nid (dht_table ?af d) = Some k \<and> nid \<noteq> d_myid d \<and> \<not> is_martian sa \<and> \<not> black")
    case False
    then have "new_node nid sa salen confirm d = Some (False, d)"
      using black id_cmp_val(3) [OF nid my] by (subst new_node.simps) (auto split: option.split)
    then show ?thesis using d same.R_refl by (intro exI [of _ False] exI [of _ d]) simp
  next
    case True
    then obtain k where k: "find_bucket nid (dht_table ?af d) = Some k" and ne: "nid \<noteq> d_myid d"
      and go: "\<not> is_martian sa" "\<not> black" by auto
    have v: "visit_ok ?af nid d (new_node_visit nid sa salen confirm k d)"
      by (rule new_node_visit_run [OF d af nid ne sa k])
    have run: "new_node nid sa salen confirm d = Option.bind (new_node_visit nid sa salen confirm k d)
        (\<lambda>v. case v of Stop r d1 \<Rightarrow> Some (r, d1) | Again d1 \<Rightarrow> new_node nid sa salen confirm d1)"
      using k ne go black id_cmp_val(3) [OF nid my] by (subst new_node.simps) simp
    show ?thesis
    proof (cases "new_node_visit nid sa salen confirm k d")
      case None
      then show ?thesis using v by (simp add: visit_ok_def)
    next
      case (Some w)
      show ?thesis
      proof (cases w)
        case (Stop r d1)
        then show ?thesis using v Some run by (simp add: visit_ok_def)
      next
        case (Again d1)
        then have d1: "dht_ok d1" "dht_same d d1" "id_depth (dht_table ?af d) (d_myid d) < id_depth (dht_table ?af d1) (d_myid d)"
          using v Some by (simp_all add: visit_ok_def)
        have ne: "dht_table ?af d \<noteq> []" using k by (auto simp: find_bucket_def)
        have "id_depth (dht_table ?af d) (d_myid d) < 160"
        proof (cases "dht_table ?af d1 = []")
          case True
          then have "id_depth (dht_table ?af d1) (d_myid d) = bucket_bit [] 0" by (simp add: id_depth_def)
          then show ?thesis
            using d1(3) lowbit_bounds by (auto simp: bucket_bit_def Let_def) (smt (verit))
        next
          case False
          have "is_id (d_myid d)" by (rule my)
          then have "id_depth (dht_table ?af d1) (d_myid d) \<le> 160"
            by (rule id_depth_bound(2) [OF table_ok_sorted [OF dht_ok_table(1) [OF d1(1) af]] _ False])
          then show ?thesis using d1(3) by simp
        qed
        then have "nat (160 - id_depth (dht_table ?af d1) (d_myid d1)) < nat (160 - id_depth (dht_table ?af d) (d_myid d))"
          using d1(3) same_myid [OF d1(2)] by simp
        from less.hyps [OF this d1(1) af nid sa] show ?thesis
          using run Some Again same.R_trans [OF d1(2)] by auto
      qed
    qed
  qed
qed

lemma new_node_keeps:
  assumes "dht_ok d" and "is_af (sa_family sa)" and "is_id nid" and "2 \<le> length sa" and "salen_ok salen"
  shows "keeps dht_same d (map_option snd (new_node nid sa salen confirm d))"
  using new_node_run [OF assms, of confirm] by (auto simp: keeps_def)

section \<open>Expiry\<close>

lemma expire_head_run:
  "expire_head ns c = (dropWhile node_dead ns, c - int (length ns) + int (length (dropWhile node_dead ns)))"
  by (induction ns c rule: expire_head.induct) auto

lemma filter_dropWhile: "filter (\<lambda>x. \<not> P x) (dropWhile P xs) = filter (\<lambda>x. \<not> P x) xs"
  by (induction xs) auto

lemma expire_behind_run:
  "expire_behind ns c = (take 1 ns @ filter (\<lambda>n. \<not> node_dead n) (drop 1 ns),
     c - int (length (filter node_dead (drop 1 ns))))"
proof (induction ns c rule: expire_behind.induct)
  case (2 n ns c)
  let ?ms = "dropWhile node_dead ns"
  have alive: "take 1 ?ms @ filter (\<lambda>n. \<not> node_dead n) (drop 1 ?ms) = filter (\<lambda>n. \<not> node_dead n) ns"
  proof (cases ?ms)
    case Nil
    then have "\<forall>x \<in> set ns. node_dead x" by (simp add: dropWhile_eq_Nil_conv)
    then have "filter (\<lambda>n. \<not> node_dead n) ns = []" by (simp add: filter_empty_conv)
    then show ?thesis by (simp only: Nil) simp
  next
    case (Cons m ms)
    then have "\<not> node_dead m" using hd_dropWhile [of node_dead ns] by simp
    then show ?thesis using Cons filter_dropWhile [of node_dead ns] by simp
  qed
  have len: "int (length ns) = int (length ?ms) + int (length (filter node_dead ns)) - int (length (filter node_dead (drop 1 ?ms)))"
  proof -
    have "length ms = length (filter node_dead ms) + length (filter (\<lambda>n. \<not> node_dead n) ms)" for ms
      by (simp add: sum_length_filter_compl)
    moreover have "length ms = length (take 1 ms) + length (drop 1 ms)" for ms :: "node list"
      by (metis append_take_drop_id length_append)
    moreover have "length (take 1 ?ms) + length (filter (\<lambda>n. \<not> node_dead n) (drop 1 ?ms)) = length (filter (\<lambda>n. \<not> node_dead n) ns)"
      using arg_cong [OF alive, of length] by (simp only: length_append)
    ultimately show ?thesis by (smt (verit) of_nat_add)
  qed
  show ?case
    using 2 [OF refl] alive len by (simp add: expire_head_run Let_def split: prod.splits)
qed simp

text \<open>Both loops together take out exactly the dead nodes.\<close>

lemma expire_nodes_run:
  assumes "expire_head ns c = (ns0, c0)" and "expire_behind ns0 c0 = (ns1, c1)"
  shows "ns1 = filter (\<lambda>n. \<not> node_dead n) ns" and "c1 = c - int (length ns) + int (length ns1)"
proof -
  have "expire_behind (n # ns) c = (n # ns1, c1)" using assms by simp
  moreover have "expire_behind (n # ns) c = (n # filter (\<lambda>n. \<not> node_dead n) ns, c - int (length (filter node_dead ns)))"
    by (subst expire_behind_run) simp
  ultimately show "ns1 = filter (\<lambda>n. \<not> node_dead n) ns" "c1 = c - int (length ns) + int (length ns1)"
    using sum_length_filter_compl [of node_dead ns] by auto
qed

lemma expire_buckets_loop_keeps:
  assumes "dht_ok d" and "is_af af" and "\<forall>k \<in> set ks. k < length (dht_table af d)"
  shows "keeps dht_same d (expire_buckets_loop af ks d)"
  using assms(1,3)
proof (induction ks arbitrary: d)
  case Nil
  then show ?case using same.keeps_same by simp
next
  case (Cons k ks)
  let ?b = "dht_table af d ! k"
  note d = Cons.prems(1)
  have k: "k < length (dht_table af d)" using Cons.prems(2) by simp
  obtain ns c ns1 c1 where e: "expire_head (b_nodes ?b) (b_count ?b) = (ns, c)" "expire_behind ns c = (ns1, c1)"
    by fastforce
  note run = expire_nodes_run [OF e]
  let ?f = "\<lambda>b. b\<lparr>b_nodes := ns1, b_count := c1\<rparr>"
  let ?d1 = "update_bucket af k ?f d"
  note old = dht_ok_bucket [OF d assms(2) k]
  have len: "length ns1 \<le> length (b_nodes ?b)" unfolding run(1) by (rule length_filter_le)
  have "distinct (map n_id ns1)" unfolding run(1) using old(1) by (simp add: bucket_ok_def distinct_map_filter)
  then have b: "bucket_ok af (?f ?b)"
    using old(1) len run(2) run(1) [symmetric] old(2) by (auto simp: bucket_ok_def cached_ok_def)
  have fits: "in_bucket (n_id x) (dht_table af d) k \<and> n_id x \<noteq> d_myid d" if "x \<in> set (b_nodes (?f ?b))" for x
    using that run(1) old(2) by auto
  have d1: "dht_ok ?d1" "dht_same d ?d1" "length (dht_table af ?d1) = length (dht_table af d)"
    unfolding update_bucket_def Let_def using keep_bucket(1,2) [OF d assms(2) k b _ fits] by simp_all
  have rest: "keeps dht_same ?d1 (expire_buckets_loop af ks ?d1)"
    using Cons.IH [OF d1(1)] Cons.prems(2) d1(3) by simp
  have "keeps dht_shape ?d1 (map_option snd (send_cached_ping af k ?d1))"
    using k d1 by (intro send_cached_ping_keeps assms(2)) simp_all
  then have ping: "keeps dht_same ?d1 (Option.bind (send_cached_ping af k ?d1) (\<lambda>(rc, d2). expire_buckets_loop af ks d2))"
  proof (rule same.keeps_bind_pair [OF keeps_shape_same])
    fix rc d2 assume s: "send_cached_ping af k ?d1 = Some (rc, d2)"
    then have "dht_ok d2" "dht_shape ?d1 d2"
      using \<open>keeps dht_shape ?d1 _\<close> by (auto simp: keeps_def)
    then show "keeps dht_same d2 (expire_buckets_loop af ks d2)"
      using Cons.IH [of d2] Cons.prems(2) d1(3) shape_length [of ?d1 d2 af] by simp
  qed
  show ?case
    using e rest ping same.keeps_from [OF d1(2)] by (simp add: Let_def)
qed

lemma expire_buckets_keeps:
  assumes d: "dht_ok d" and af: "is_af af"
  shows "keeps dht_same d (expire_buckets af d)"
proof -
  obtain d1 where r: "expire_buckets_loop af [0..<length (dht_table af d)] d = Some d1" "dht_ok d1" "dht_same d d1"
    using expire_buckets_loop_keeps [OF d af, of "[0..<length (dht_table af d)]"] by (auto simp: keeps_def)
  obtain x d2 where c: "c_random d1 = (x, d2)" by (cases "c_random d1")
  have "dht_ok d2" "dht_same d1 d2"
    using c_random_keeps(1,2) [of d1] c r(2) shape_same(1) by (metis snd_conv)+
  then show ?thesis
    using r c same.R_trans [of d d1 d2] by (simp add: expire_buckets_def keeps_def dht_same_def)
qed

end
