(* ===== verification/DhtInvPacket.thy ===== *)
theory DhtInvPacket
  imports DhtInvTable
begin

text \<open>
  The handling of a packet leaves the invariant: what the parser delivers, the storage of
  peers, the answers, and the handlers of each kind of message.
\<close>

section \<open>The parser\<close>

text \<open>Every id of a parsed message has its 20 bytes, and every other field fits its array.\<close>

definition message_ok :: "parsed_message \<Rightarrow> bool" where
  "message_ok m \<longleftrightarrow> is_id (m_id m) \<and> is_id (m_info_hash m) \<and> is_id (m_target m)
     \<and> length (m_tid m) < PARSE_TID_LEN \<and> length (m_token m) < PARSE_TOKEN_LEN
     \<and> length (m_nodes m) \<le> PARSE_NODES_LEN \<and> length (m_nodes6 m) \<le> PARSE_NODES6_LEN
     \<and> length (m_values m) \<le> PARSE_VALUES_LEN \<and> length (m_values6 m) \<le> PARSE_VALUES6_LEN
     \<and> m_port m < 65536 \<and> m_implied_port m < 65536"

lemma message_ok_ids: "message_ok m \<Longrightarrow> is_id (m_id m)" "message_ok m \<Longrightarrow> is_id (m_info_hash m)" "message_ok m \<Longrightarrow> is_id (m_target m)"
  by (simp_all add: message_ok_def)

lemma parse_fixed_ok:
  assumes "parse_fixed buf key f m = Some m1" and "message_ok m"
    and "\<And>x m. message_ok m \<Longrightarrow> is_id x \<Longrightarrow> message_ok (f x m)"
  shows "message_ok m1"
  using assms by (auto simp: parse_fixed_def split: option.splits if_splits)

lemma parse_counted_ok:
  assumes "parse_counted buf key n f m = Some m1" and "message_ok m"
    and "\<And>x m. message_ok m \<Longrightarrow> length x < n \<Longrightarrow> message_ok (f x m)"
  shows "message_ok m1"
  using assms by (auto simp: parse_counted_def split: option.splits prod.splits if_splits)

lemma parse_number_ok:
  assumes "message_ok m" and "\<And>x m. message_ok m \<Longrightarrow> x < 65536 \<Longrightarrow> message_ok (f x m)"
  shows "message_ok (parse_number buf key f m)"
  using assms by (auto simp: parse_number_def split: option.splits prod.splits)

lemma values_loop_bounds:
  "values_loop p vs vs6 = Some (ws, ws6) \<Longrightarrow> length vs \<le> PARSE_VALUES_LEN \<Longrightarrow> length vs6 \<le> PARSE_VALUES6_LEN \<Longrightarrow>
    length ws \<le> PARSE_VALUES_LEN \<and> length ws6 \<le> PARSE_VALUES6_LEN"
proof (induction p vs vs6 rule: values_loop.induct)
  case (1 p vs vs6)
  obtain l q where lq: "strtol p = (l, q)" by fastforce
  show ?case
  proof (cases "at_char q 58 \<and> 0 < l \<and> \<not> length (tl q) < nat l")
    case False
    then show ?thesis using "1.prems" lq by (subst (asm) values_loop.simps) (auto simp: Let_def split: if_splits)
  next
    case True
    let ?p1 = "drop (nat l) (tl q)"
    note ih = "1.IH" [OF lq [symmetric]]
    consider "l = 6" "PARSE_VALUES_LEN < length vs + 6" | "l = 6" "\<not> PARSE_VALUES_LEN < length vs + 6"
      | "l = 18" "PARSE_VALUES6_LEN < length vs6 + 18" | "l = 18" "\<not> PARSE_VALUES6_LEN < length vs6 + 18"
      | "l \<noteq> 6" "l \<noteq> 18" by blast
    then show ?thesis
    proof cases
      case 1
      then show ?thesis using "1.prems" lq True ih(1) by (subst (asm) values_loop.simps) (simp add: Let_def)
    next
      case 2
      then show ?thesis using "1.prems" lq True ih(2) by (subst (asm) values_loop.simps) (simp add: Let_def)
    next
      case 3
      then show ?thesis using "1.prems" lq True ih(3) by (subst (asm) values_loop.simps) (simp add: Let_def)
    next
      case 4
      then show ?thesis using "1.prems" lq True ih(4) by (subst (asm) values_loop.simps) (simp add: Let_def)
    next
      case 5
      then show ?thesis using "1.prems" lq True ih(5) by (subst (asm) values_loop.simps) (simp add: Let_def)
    qed
  qed
qed

lemma parse_values_ok: "parse_values buf m = Some m1 \<Longrightarrow> message_ok m \<Longrightarrow> message_ok m1"
  using values_loop_bounds [where vs = "[]" and ?vs6.0 = "[]"]
  by (fastforce simp: parse_values_def message_ok_def split: option.splits prod.splits)

lemma parse_fields_ok:
  assumes "parse_fields buf m = Some m1" and "message_ok m"
  shows "message_ok m1"
proof -
  note steps = assms(1) [unfolded parse_fields_def bind_eq_Some_conv option.inject]
  from steps obtain a b c e f g h i j where p:
    "parse_counted buf ''1:t'' PARSE_TID_LEN (\<lambda>x. m_tid_update (\<lambda>_. x)) m = Some a"
    "parse_fixed buf ''2:id20:'' (\<lambda>x. m_id_update (\<lambda>_. x)) a = Some b"
    "parse_fixed buf ''9:info_hash20:'' (\<lambda>x. m_info_hash_update (\<lambda>_. x)) b = Some c"
    "parse_fixed buf ''6:target20:'' (\<lambda>x. m_target_update (\<lambda>_. x))
       (parse_number buf ''12:implied_porti'' (\<lambda>x. m_implied_port_update (\<lambda>_. x))
         (parse_number buf ''4:porti'' (\<lambda>x. m_port_update (\<lambda>_. x)) c)) = Some e"
    "parse_counted buf ''5:token'' PARSE_TOKEN_LEN (\<lambda>x. m_token_update (\<lambda>_. x)) e = Some f"
    "parse_counted buf ''5:nodes'' (Suc PARSE_NODES_LEN) (\<lambda>x. m_nodes_update (\<lambda>_. x)) f = Some g"
    "parse_counted buf ''6:nodes6'' (Suc PARSE_NODES6_LEN) (\<lambda>x. m_nodes6_update (\<lambda>_. x)) g = Some h"
    "parse_values buf h = Some i" "m1 = parse_want buf i"
    by blast
  have "message_ok a" by (rule parse_counted_ok [OF p(1) assms(2)]) (simp add: message_ok_def)
  then have "message_ok b" by (rule parse_fixed_ok [OF p(2)]) (simp add: message_ok_def)
  then have "message_ok c" by (rule parse_fixed_ok [OF p(3)]) (simp add: message_ok_def)
  then have "message_ok (parse_number buf ''12:implied_porti'' (\<lambda>x. m_implied_port_update (\<lambda>_. x))
      (parse_number buf ''4:porti'' (\<lambda>x. m_port_update (\<lambda>_. x)) c))"
    by (intro parse_number_ok) (simp_all add: message_ok_def)
  then have "message_ok e" by (rule parse_fixed_ok [OF p(4)]) (simp add: message_ok_def)
  then have "message_ok f" by (rule parse_counted_ok [OF p(5)]) (simp add: message_ok_def)
  then have "message_ok g" by (rule parse_counted_ok [OF p(6)]) (simp add: message_ok_def)
  then have "message_ok h" by (rule parse_counted_ok [OF p(7)]) (simp add: message_ok_def)
  then have "message_ok i" by (rule parse_values_ok [OF p(8)])
  then show ?thesis by (simp add: p(9) parse_want_def message_ok_def split: option.split)
qed

lemma message_ok_zero: "message_ok parsed_zero"
  by (simp add: message_ok_def parsed_zero_def zeroes_def PARSE_TID_LEN_def PARSE_TOKEN_LEN_def)

lemma parse_message_ok: "parse_message buf nul parsed_zero = (t, m) \<Longrightarrow> message_ok m"
proof -
  show "parse_message buf nul parsed_zero = (t, m) \<Longrightarrow> message_ok m"
    using parse_fields_ok message_ok_zero by (auto simp: parse_message_def split: if_splits option.splits)
qed

section \<open>The storage\<close>

definition st_ok :: "storage \<Rightarrow> bool" where
  "st_ok st \<longleftrightarrow> is_id (st_id st) \<and> length (st_peers st) \<le> st_maxpeers st \<and> st_maxpeers st \<le> DHT_MAX_PEERS"

lemma storage_ok_alt:
  "storage_ok sts num \<longleftrightarrow> distinct (map st_id sts) \<and> num = int (length sts) \<and> num \<le> DHT_MAX_HASHES \<and> (\<forall>st \<in> set sts. st_ok st)"
  by (simp add: storage_ok_def st_ok_def)

lemma find_peer_bound: "find_peer ip len port ps \<le> length ps"
  by (induction ip len port ps rule: find_peer.induct) auto

lemma storage_put_ok:
  assumes "st_ok st" and "storage_put now ip len port ok st = (rc, st1)"
  shows "st_ok st1" and "st_id st1 = st_id st"
proof -
  note i = find_peer_bound [of ip len port "st_peers st"]
  show "st_ok st1" "st_id st1 = st_id st"
    using assms i unfolding st_ok_def storage_put_def Let_def DHT_MAX_PEERS_def
    by (auto simp: Suc_le_eq split: if_splits)
qed

lemma dht_ok_storage:
  "dht_ok d \<Longrightarrow> storage_ok sts num \<Longrightarrow> dht_ok (d\<lparr>d_storage := sts, d_numstorage := num\<rparr>)"
  "dht_ok d \<Longrightarrow> storage_ok sts (d_numstorage d) \<Longrightarrow> dht_ok (d\<lparr>d_storage := sts\<rparr>)"
  by (simp_all add: dht_ok_def)

lemma same_storage [simp]:
  "dht_same d (d\<lparr>d_storage := sts, d_numstorage := num\<rparr>)" "dht_same d (d\<lparr>d_storage := sts\<rparr>)"
  by (simp_all add: dht_same_def)

lemma storage_put_at_ok:
  assumes d: "dht_ok d" and k: "k < length (d_storage d)"
  shows "dht_ok (snd (storage_put_at k ip len port d))" and "dht_same d (snd (storage_put_at k ip len port d))"
proof -
  let ?st = "d_storage d ! k"
  obtain ok d1 where c: "(if storage_grows ip len port ?st then c_calloc d else (True, d)) = (ok, d1)"
    by fastforce
  then have d1: "dht_ok d1" "dht_same d d1" "d_storage d1 = d_storage d" "d_numstorage d1 = d_numstorage d"
    using d by (auto simp: c_calloc_def dht_same_def split: if_splits)
  obtain rc st1 where s: "storage_put (d_now d) ip len port ok ?st = (rc, st1)" by fastforce
  have "storage_ok (d_storage d) (d_numstorage d)" using d by (simp add: dht_ok_def)
  note st = this [unfolded storage_ok_alt]
  note put = storage_put_ok [OF _ s]
  have ok: "st_ok ?st" using st k by simp
  have "map st_id ((d_storage d)[k := st1]) = map st_id (d_storage d)"
    by (rule map_update_same) (rule put(2) [OF ok])
  moreover have "\<forall>x \<in> set ((d_storage d)[k := st1]). st_ok x"
    using st put(1) [OF ok] set_update_subset_insert [of "d_storage d" k st1] by auto
  ultimately have "storage_ok ((d_storage d)[k := st1]) (d_numstorage d)"
    using st by (simp add: storage_ok_alt)
  then show "dht_ok (snd (storage_put_at k ip len port d))" "dht_same d (snd (storage_put_at k ip len port d))"
    using c s d1 same.R_trans [of d d1] by (simp_all add: storage_put_at_def Let_def dht_ok_storage)
qed

lemma find_storage_loop_some:
  "find_storage_loop nid sts = Some k \<Longrightarrow> \<forall>st \<in> set sts. is_id (st_id st) \<Longrightarrow> is_id nid \<Longrightarrow>
    k < length sts \<and> st_id (sts ! k) = nid"
  by (induction nid sts arbitrary: k rule: find_storage_loop.induct) (auto simp: id_cmp_val split: if_splits)

lemma find_storage_loop_none:
  "find_storage_loop nid sts = None \<Longrightarrow> \<forall>st \<in> set sts. is_id (st_id st) \<Longrightarrow> is_id nid \<Longrightarrow> nid \<notin> st_id ` set sts"
  by (induction nid sts rule: find_storage_loop.induct) (auto simp: id_cmp_val split: if_splits)

lemma storage_ids: "dht_ok d \<Longrightarrow> \<forall>st \<in> set (d_storage d). is_id (st_id st)"
  by (simp add: dht_ok_def storage_ok_def)

lemma storage_store_ok:
  assumes d: "dht_ok d" and nid: "is_id nid"
  shows "dht_ok (snd (storage_store nid sa port d))" and "dht_same d (snd (storage_store nid sa port d))"
proof -
  let ?len = "if sa_family sa = AF_INET then 4 else 16"
  let ?ip = "if sa_family sa = AF_INET then sin_addr sa else sin6_addr sa"
  have "dht_ok (snd (storage_store nid sa port d)) \<and> dht_same d (snd (storage_store nid sa port d))"
  proof (cases "sa_family sa \<noteq> AF_INET \<and> sa_family sa \<noteq> AF_INET6")
    case True
    then show ?thesis using d same.R_refl by (simp add: storage_store_def)
  next
    case af: False
    show ?thesis
    proof (cases "find_storage nid d")
      case (Some k)
      then have "k < length (d_storage d)"
        using find_storage_loop_some storage_ids [OF d] nid unfolding find_storage_def by blast
      then show ?thesis using storage_put_at_ok [OF d] af Some by (auto simp: storage_store_def Let_def)
    next
      case None
      have new: "nid \<notin> st_id ` set (d_storage d)"
        using find_storage_loop_none storage_ids [OF d] nid None unfolding find_storage_def by blast
      obtain ok d1 where c: "c_calloc d = (ok, d1)" by fastforce
      then have d1: "dht_ok d1" "dht_same d d1" "d_storage d1 = d_storage d" "d_numstorage d1 = d_numstorage d"
        using d by (auto simp: c_calloc_def dht_same_def)
      let ?st = "\<lparr>st_id = take 20 nid, st_maxpeers = 0, st_peers = []\<rparr>"
      let ?d2 = "d1\<lparr>d_storage := ?st # d_storage d1, d_numstorage := d_numstorage d1 + 1\<rparr>"
      have d2: "dht_ok ?d2 \<and> dht_same d ?d2" if "\<not> DHT_MAX_HASHES \<le> d_numstorage d"
      proof -
        have "storage_ok (?st # d_storage d1) (d_numstorage d1 + 1)"
          using that d1 d nid new by (simp add: dht_ok_def storage_ok_def)
        then show ?thesis using dht_ok_storage(1) [OF d1(1)] d1(2) same.R_trans by auto
      qed
      then show ?thesis
        using af None c d1 d same.R_refl storage_put_at_ok [of ?d2 0] same.R_trans [of d ?d2]
        by (auto simp: storage_store_def Let_def)
    qed
  qed
  then show "dht_ok (snd (storage_store nid sa port d))" "dht_same d (snd (storage_store nid sa port d))" by simp_all
qed


lemma expire_storage_loop_ok:
  assumes "expire_storage_loop now sts num = (sts1, num1)" and "\<forall>st \<in> set sts. st_ok st" and "int (length sts) \<le> num"
  shows "(\<forall>st \<in> set sts1. st_ok st) \<and> num1 = num - int (length sts) + int (length sts1)
    \<and> length sts1 \<le> length sts \<and> set (map st_id sts1) \<subseteq> set (map st_id sts)
    \<and> (distinct (map st_id sts) \<longrightarrow> distinct (map st_id sts1))"
  using assms
proof (induction sts arbitrary: num sts1 num1)
  case (Cons st sts)
  let ?ps = "expire_peers now (st_peers st) 0"
  show ?case
  proof (cases "?ps = []")
    case True
    then have "expire_storage_loop now sts (num - 1) = (sts1, num1)" using Cons.prems by simp
    then show ?thesis using Cons.IH [of "num - 1" sts1 num1] Cons.prems(2,3) by auto
  next
    case False
    obtain rest n1 where r: "expire_storage_loop now sts num = (rest, n1)" by fastforce
    then have e: "sts1 = st\<lparr>st_peers := ?ps\<rparr> # rest" "num1 = n1" using Cons.prems(1) False by simp_all
    have "length ?ps \<le> length (st_peers st)"
    proof -
      have "length (expire_peers now ps i) \<le> length ps" for ps i
      proof (induction now ps i rule: expire_peers.induct)
        case (1 now ps i)
        then show ?case by (subst expire_peers.simps) (auto split: if_splits)
      qed
      then show ?thesis .
    qed
    then have "st_ok (st\<lparr>st_peers := ?ps\<rparr>)" using Cons.prems(2) by (auto simp: st_ok_def)
    then show ?thesis using Cons.IH [OF r] Cons.prems(2,3) e by auto
  qed
qed simp

lemma expire_storage_ok:
  assumes d: "dht_ok d"
  shows "dht_ok (snd (expire_storage d))"
proof -
  obtain sts num where e: "expire_storage_loop (d_now d) (d_storage d) (d_numstorage d) = (sts, num)" by fastforce
  have "storage_ok (d_storage d) (d_numstorage d)" using d by (simp add: dht_ok_def)
  note st = this [unfolded storage_ok_alt]
  then have "storage_ok sts num" using expire_storage_loop_ok [OF e] unfolding storage_ok_alt by auto
  then show ?thesis using e dht_ok_storage(1) [OF d] by (simp add: expire_storage_def)
qed

section \<open>Answers\<close>

lemma send_nodes_peers_keeps:
  assumes "dht_ok d" and "salen_ok salen"
  shows "keeps dht_shape d (map_option snd (send_nodes_peers sa salen tid nodes nodes6 af st token d))"
proof -
  have send: "keeps dht_shape d (map_option snd (send_parts 2048 ps c sa salen d1))" if "dht_ok d1" "dht_shape d d1" for ps c d1
    using sends_keeps [OF send_parts_sends [OF assms(2)] that(1)] shape.keeps_from [OF that(2)] by simp
  show ?thesis
    using send [OF assms(1) shape.R_refl] send [of "snd (c_random d)"] assms(1) c_random_keeps(1,2) [of d]
    by (simp add: send_nodes_peers_def Let_def case_prod_beta split: option.split prod.split)
qed


lemma closest_in_table_some:
  assumes "dht_ok d" and "is_af af" and "is_id ref"
  shows "\<exists>es. closest_in_table d ref (dht_table af d) = Some es"
proof (cases "find_bucket ref (dht_table af d)")
  case (Some k)
  then show ?thesis
    using closest_in_table_run [OF dht_ok_table(1) [OF assms(1,2)] assms(2) Some find_bucket_bound [OF Some]] by blast
qed (simp add: closest_in_table_def)

lemma send_closest_keeps:
  assumes d: "dht_ok d" and len: "salen_ok salen" and id: "is_id nid"
  shows "keeps dht_shape d (map_option snd (send_closest_nodes sa salen tid nid want af st token d))"
proof -
  obtain e4 e6 where e: "closest_in_table d nid (d_buckets d) = Some e4" "closest_in_table d nid (d_buckets6 d) = Some e6"
    using closest_in_table_some [OF d _ id, of AF_INET] closest_in_table_some [OF d _ id, of AF_INET6]
    by (auto simp: dht_table_def AF_INET_def AF_INET6_def)
  show ?thesis
    using send_nodes_peers_keeps [OF d len] e by (simp add: send_closest_nodes_def Let_def)
qed

lemma stack_keeps [simp]:
  "dht_ok (snd (stack_bytes n d)) = dht_ok d" "dht_shape d (snd (stack_bytes n d))"
  by (simp_all add: stack_bytes_def)

lemma make_token_some: "is_af (sa_family sa) \<Longrightarrow> \<exists>t. make_token sa old token d = Some t"
  by (auto simp: make_token_def)

lemma token_match_keeps:
  assumes "dht_ok d" and af: "is_af (sa_family sa)"
  shows "keeps dht_shape d (map_option snd (token_match token sa d))"
proof -
  obtain t d1 where t: "stack_bytes TOKEN_SIZE d = (t, d1)" by fastforce
  have d1: "dht_ok d1" "dht_shape d d1"
    using stack_keeps(1) [of TOKEN_SIZE d] stack_keeps(2) [of d TOKEN_SIZE] t assms(1) by simp_all
  obtain t1 where t1: "make_token sa False t d1 = Some t1" using make_token_some [OF af] by blast
  obtain t2 where t2: "make_token sa True t1 d1 = Some t2" using make_token_some [OF af] by blast
  show ?thesis
    using t t1 t2 d1 assms(1) shape.keeps_same shape.keepsI by (simp add: token_match_def)
qed

section \<open>Replies\<close>

text \<open>Where a packet may come from.\<close>

definition addr_ok :: "sockaddr \<Rightarrow> nat \<Rightarrow> bool" where
  "addr_ok sa salen \<longleftrightarrow> is_af (sa_family sa) \<and> 2 \<le> length sa \<and> salen_ok salen"

lemma addr_okD:
  assumes "addr_ok sa salen"
  shows "is_af (sa_family sa)" and "2 \<le> length sa" and "salen_ok salen"
  using assms by (auto simp: addr_ok_def)

lemma learn_keeps:
  assumes "dht_ok d" and "is_id nid" and "addr_ok sa salen"
  shows "keeps dht_same d (map_option snd (new_node nid sa salen confirm d))"
  by (rule new_node_keeps [OF assms(1) addr_okD(1) [OF assms(3)] assms(2) addr_okD(2,3) [OF assms(3)]])

lemma same_searches: "dht_same d d' \<Longrightarrow> length (d_searches d') = length (d_searches d)"
  by (simp add: dht_same_def)

lemma learn_node_keeps:
  assumes d: "dht_ok d" and id: "is_id nid" and sa: "addr_ok sa (length sa)"
    and si: "\<And>si. sr = Some si \<Longrightarrow> si < length (d_searches d)"
  shows "keeps dht_same d (learn_node sr nid sa af d)"
proof (cases "id_cmp nid (d_myid d) = 0")
  case True
  then show ?thesis using same.keeps_same [OF d] by (simp add: learn_node_def)
next
  case False
  have "keeps dht_same d (Option.bind (new_node nid sa (length sa) 0 d) (\<lambda>(r, d1).
      case sr of None \<Rightarrow> Some d1
      | Some si \<Rightarrow> Some (if sr_af (d_searches d1 ! si) = af
          then snd (insert_into_search nid sa (length sa) si False None d1) else d1)))"
  proof (rule same.keeps_bind_pair [OF learn_keeps [OF d id sa]])
    fix d1 assume d1: "dht_ok d1" "dht_same d d1"
    show "keeps dht_same d1 (case sr of None \<Rightarrow> Some d1
        | Some si \<Rightarrow> Some (if sr_af (d_searches d1 ! si) = af
            then snd (insert_into_search nid sa (length sa) si False None d1) else d1))"
    proof (cases sr)
      case None
      then show ?thesis using same.keeps_same [OF d1(1)] by simp
    next
      case (Some i)
      have "i < length (d_searches d1)" using si [OF Some] same_searches [OF d1(2)] by simp
      then have "keeps dht_tables d1 (Some (snd (insert_into_search nid sa (length sa) i False None d1)))"
        using insert_into_keeps [OF d1(1) _ id addr_okD(2,3) [OF sa]] by (intro tables.keepsI)
      then show ?thesis using Some same.keeps_same [OF d1(1)] keeps_tables_same by simp
    qed
  qed
  then show ?thesis using False by (simp add: learn_node_def)
qed

lemma sockaddr_in_ok: "length port = 2 \<Longrightarrow> length a = 4 \<Longrightarrow> addr_ok (make_sockaddr_in a port) (length (make_sockaddr_in a port))"
  by (simp add: addr_ok_def make_sockaddr_in_def sa_family_def sizeof_sockaddr_storage_def le_dec_enc AF_INET_def)

lemma sockaddr_in6_ok: "length port = 2 \<Longrightarrow> length a = 16 \<Longrightarrow> addr_ok (make_sockaddr_in6 a port) (length (make_sockaddr_in6 a port))"
  by (simp add: addr_ok_def make_sockaddr_in6_def sa_family_def sizeof_sockaddr_storage_def le_dec_enc AF_INET6_def)

lemma nodes4_keeps:
  assumes "dht_ok d" and "\<forall>ni \<in> set nis. length ni = 26" and "\<And>si. sr = Some si \<Longrightarrow> si < length (d_searches d)"
  shows "keeps dht_same d (nodes4_loop sr nis d)"
  using assms
proof (induction nis arbitrary: d)
  case Nil
  then show ?case using same.keeps_same by simp
next
  case (Cons ni nis)
  have "keeps dht_same d (learn_node sr (take 20 ni) (make_sockaddr_in (take 4 (drop 20 ni)) (take 2 (drop 24 ni))) AF_INET d)"
    using Cons.prems by (intro learn_node_keeps sockaddr_in_ok) simp_all
  moreover have "keeps dht_same d1 (nodes4_loop sr nis d1)" if "dht_ok d1" "dht_same d d1" for d1
    using that Cons.prems(2,3) same_searches [OF that(2)] by (intro Cons.IH) auto
  ultimately show ?case unfolding nodes4_loop.simps by (rule same.keeps_bind)
qed

lemma nodes6_keeps:
  assumes "dht_ok d" and "\<forall>ni \<in> set nis. length ni = 38" and "\<And>si. sr = Some si \<Longrightarrow> si < length (d_searches d)"
  shows "keeps dht_same d (nodes6_loop sr nis d)"
  using assms
proof (induction nis arbitrary: d)
  case Nil
  then show ?case using same.keeps_same by simp
next
  case (Cons ni nis)
  have "keeps dht_same d (learn_node sr (take 20 ni) (make_sockaddr_in6 (take 16 (drop 20 ni)) (take 2 (drop 36 ni))) AF_INET6 d)"
    using Cons.prems by (intro learn_node_keeps sockaddr_in6_ok) simp_all
  moreover have "keeps dht_same d1 (nodes6_loop sr nis d1)" if "dht_ok d1" "dht_same d d1" for d1
    using that Cons.prems(2,3) same_searches [OF that(2)] by (intro Cons.IH) auto
  ultimately show ?case unfolding nodes6_loop.simps by (rule same.keeps_bind)
qed

lemma chunks_length: "0 < n \<Longrightarrow> x \<in> set (chunks n xs) \<Longrightarrow> length x = n"
proof -
  assume "0 < n" and "x \<in> set (chunks n xs)"
  then obtain i where i: "i < length xs div n" "x = take n (drop (i * n) xs)" by (auto simp: chunks_def)
  then have "Suc i * n \<le> length xs div n * n" by (intro mult_right_mono) simp_all
  also have "\<dots> \<le> length xs" by simp
  finally show ?thesis using i(2) by simp
qed


lemma search_send_same:
  "dht_ok d \<Longrightarrow> si < length (d_searches d) \<Longrightarrow> keeps dht_same d (map_option snd (search_send_get_peers si None d))"
  by (rule keeps_shape_same [OF search_send_keeps]) simp_all

lemma handle_nodes_keeps:
  assumes d: "dht_ok d" and m: "message_ok m" and addr: "addr_ok from fromlen"
    and si: "\<And>si. sr = Some si \<Longrightarrow> si < length (d_searches d)"
  shows "keeps dht_same d (handle_nodes m from fromlen sr d)"
  unfolding handle_nodes_def
proof (rule same.keeps_bind_pair [OF learn_keeps [OF d _ addr]])
  show "is_id (m_id m)" using m by (simp add: message_ok_def)
  fix r d1 assume d1: "dht_ok d1" "dht_same d d1"
  have si1: "sr = Some i \<Longrightarrow> i < length (d_searches d1)" for i using si same_searches [OF d1(2)] by simp
  show "keeps dht_same d1 (Option.bind (nodes4_loop sr (chunks 26 (m_nodes m)) d1) (\<lambda>d2.
      Option.bind (nodes6_loop sr (chunks 38 (m_nodes6 m)) d2) (\<lambda>d3.
        case sr of None \<Rightarrow> Some d3 | Some si \<Rightarrow> map_option snd (search_send_get_peers si None d3))))"
  proof (rule same.keeps_bind [OF nodes4_keeps [OF d1(1) _ si1]])
    show "\<forall>ni \<in> set (chunks 26 (m_nodes m)). length ni = 26" by (simp add: chunks_length)
    fix d2 assume d2: "dht_ok d2" "dht_same d1 d2"
    have si2: "sr = Some i \<Longrightarrow> i < length (d_searches d2)" for i using si1 same_searches [OF d2(2)] by simp
    show "keeps dht_same d2 (Option.bind (nodes6_loop sr (chunks 38 (m_nodes6 m)) d2) (\<lambda>d3.
        case sr of None \<Rightarrow> Some d3 | Some si \<Rightarrow> map_option snd (search_send_get_peers si None d3)))"
    proof (rule same.keeps_bind [OF nodes6_keeps [OF d2(1) _ si2]])
      show "\<forall>ni \<in> set (chunks 38 (m_nodes6 m)). length ni = 38" by (simp add: chunks_length)
      fix d3 assume d3: "dht_ok d3" "dht_same d2 d3"
      then show "keeps dht_same d3 (case sr of None \<Rightarrow> Some d3 | Some si \<Rightarrow> map_option snd (search_send_get_peers si None d3))"
        using same.keeps_same si2 same_searches [OF d3(2)] search_send_same by (simp split: option.split)
    qed
  qed
qed

lemma find_search_loop_bound: "find_search_loop tid af srs = Some si \<Longrightarrow> si < length srs"
  by (induction srs arbitrary: si) (auto split: if_splits)

lemma find_search_bound: "find_search tid af d = Some si \<Longrightarrow> si < length (d_searches d)"
  by (simp add: find_search_def find_search_loop_bound)

lemma callback_same [simp]: "dht_same d0 (dht_callback cb ev nid bs d) = dht_same d0 d"
  by (simp add: dht_callback_def dht_same_def)

lemma handle_values_keeps:
  assumes d: "dht_ok d" and m: "message_ok m" and addr: "addr_ok from fromlen" and si: "si < length (d_searches d)"
  shows "keeps dht_same d (Some (handle_values m from fromlen si cb d))"
proof -
  let ?d1 = "snd (insert_into_search (m_id m) from fromlen si True (Some (m_token m)) d)"
  have "dht_ok ?d1" "dht_tables d ?d1"
    using insert_into_keeps [OF d si _ addr_okD(2,3) [OF addr]] m by (simp_all add: message_ok_def)
  then have "keeps dht_same ?d1 (Some (handle_values m from fromlen si cb d))"
    by (simp add: handle_values_def Let_def case_prod_beta keeps_def same.R_refl)
  then show ?thesis by (rule same.keeps_from [OF shape_same(3) [OF \<open>dht_tables d ?d1\<close>]])
qed

lemma blacklist_same:
  "dht_ok d \<Longrightarrow> message_ok m \<Longrightarrow> addr_ok from fromlen \<Longrightarrow> keeps dht_same d (blacklist_node (Some (m_id m)) from fromlen d)"
  by (rule keeps_tables_same [OF blacklist_keeps]) (auto simp: message_ok_def addr_ok_def)

lemma handle_found_keeps:
  assumes d: "dht_ok d" and m: "message_ok m" and addr: "addr_ok from fromlen"
  shows "keeps dht_same d (handle_found m from fromlen cb d)"
proof -
  let ?gp = "tid_match (m_tid m) ''gp''"
  define sr where "sr = (if ?gp then find_search (tid_seqno (m_tid m)) (sa_family from) d else None)"
  have si: "sr = Some i \<Longrightarrow> i < length (d_searches d)" for i
    using find_search_bound by (auto simp: sr_def split: if_splits)
  have id: "is_id (m_id m)" using m by (simp add: message_ok_def)
  define r where "r = (if length (m_nodes m) mod 26 \<noteq> 0 \<or> length (m_nodes6 m) mod 38 \<noteq> 0
      then blacklist_node (Some (m_id m)) from fromlen d
      else if ?gp \<and> sr = None then map_option snd (new_node (m_id m) from fromlen 1 d)
      else handle_nodes m from fromlen sr d)"
  have "keeps dht_same d r"
    unfolding r_def using blacklist_same [OF d m addr] learn_keeps [OF d id addr] handle_nodes_keeps [OF d m addr si] by simp
  moreover have "keeps dht_same d1 (case sr of None \<Rightarrow> Some d1 | Some si \<Rightarrow> Some (handle_values m from fromlen si cb d1))"
    if "dht_ok d1" "dht_same d d1" for d1
    using that si same_searches [OF that(2)] same.keeps_same handle_values_keeps [OF that(1) m addr] by (simp split: option.split)
  ultimately have "keeps dht_same d (Option.bind r (\<lambda>d1. case sr of None \<Rightarrow> Some d1 | Some si \<Rightarrow> Some (handle_values m from fromlen si cb d1)))"
    by (rule same.keeps_bind)
  then show ?thesis unfolding r_def sr_def by (simp add: handle_found_def Let_def)
qed

lemma find_search_node_bound: "find_search_node nid ns = Some i \<Longrightarrow> i < length ns"
  by (induction ns arbitrary: i) (auto split: if_splits)

lemma handle_announced_keeps:
  assumes d: "dht_ok d" and m: "message_ok m" and addr: "addr_ok from fromlen"
  shows "keeps dht_same d (handle_announced m from fromlen d)"
proof -
  have id: "is_id (m_id m)" using m by (simp add: message_ok_def)
  show ?thesis
  proof (cases "find_search (tid_seqno (m_tid m)) (sa_family from) d")
    case None
    then show ?thesis using learn_keeps [OF d id addr] by (simp add: handle_announced_def)
  next
    case (Some si)
    let ?f = "\<lambda>d1. \<lambda>n. n\<lparr>sn_request_time := 0, sn_reply_time := d_now d1, sn_acked := True, sn_pinged := 0\<rparr>"
    let ?put = "\<lambda>d1. case find_search_node (m_id m) (sr_nodes (d_searches d1 ! si)) of
        None \<Rightarrow> d1 | Some i \<Rightarrow> update_search_node si i (?f d1) d1"
    have "keeps dht_same d (Option.bind (new_node (m_id m) from fromlen 2 d) (\<lambda>(r, d1).
        Option.bind (Some (?put d1)) (\<lambda>d2. map_option snd (search_send_get_peers si None d2))))"
    proof (rule same.keeps_bind_pair [OF learn_keeps [OF d id addr]])
      fix r d1 assume d1: "dht_ok d1" "dht_same d d1"
      have si1: "si < length (d_searches d1)" using find_search_bound [OF Some] same_searches [OF d1(2)] by simp
      have put: "dht_ok (?put d1)" "dht_same d1 (?put d1)"
        using keep_search_node [where f = "?f d1", OF d1(1) si1] find_search_node_bound d1(1) same.R_refl
        by (simp_all split: option.split)
      have "si < length (d_searches (?put d1))" using si1 same_searches [OF put(2)] by simp
      then have "keeps dht_same (?put d1) (map_option snd (search_send_get_peers si None (?put d1)))"
        by (rule search_send_same [OF put(1)])
      then show "keeps dht_same d1 (Option.bind (Some (?put d1)) (\<lambda>d2. map_option snd (search_send_get_peers si None d2)))"
        using same.keeps_from [OF put(2)] by simp
    qed
    then show ?thesis using Some by (simp add: handle_announced_def)
  qed
qed

lemma handle_reply_keeps:
  assumes "dht_ok d" and "message_ok m" and "addr_ok from fromlen"
  shows "keeps dht_same d (handle_reply m from fromlen cb d)"
  unfolding handle_reply_def
  using blacklist_same [OF assms] learn_keeps [OF assms(1) _ assms(3)] assms(2) handle_found_keeps [OF assms]
    handle_announced_keeps [OF assms] same.keeps_same [OF assms(1)]
  by (simp add: message_ok_def)

section \<open>Queries\<close>

lemma sends_same: "sends d r \<Longrightarrow> dht_ok d \<Longrightarrow> keeps dht_same d (map_option snd r)"
  by (rule keeps_shape_same [OF sends_keeps])

text \<open>A query first makes the sender known.\<close>

lemma learn_then:
  assumes "dht_ok d" and "message_ok m" and "addr_ok from fromlen"
    and "\<And>d1. dht_ok d1 \<Longrightarrow> dht_same d d1 \<Longrightarrow> keeps dht_same d1 (f d1)"
  shows "keeps dht_same d (Option.bind (new_node (m_id m) from fromlen c d) (\<lambda>(r, d1). f d1))"
  using assms(2,4) by (intro same.keeps_bind_pair [OF learn_keeps [OF assms(1) _ assms(3)]]) (simp_all add: message_ok_def)

lemma handle_get_peers_keeps:
  assumes d: "dht_ok d" and m: "message_ok m" and addr: "addr_ok from fromlen"
  shows "keeps dht_same d (handle_get_peers m from fromlen d)"
  unfolding handle_get_peers_def
proof (rule learn_then [OF d m addr])
  fix d1 assume d1: "dht_ok d1" "dht_same d d1"
  obtain t d2 where t: "stack_bytes TOKEN_SIZE d1 = (t, d2)" by fastforce
  have d2: "dht_ok d2" "dht_same d1 d2"
    using stack_keeps(1) [of TOKEN_SIZE d1] stack_keeps(2) [of d1 TOKEN_SIZE] t d1(1) by simp_all
  obtain token where token: "make_token from False t d2 = Some token" using make_token_some [OF addr_okD(1) [OF addr]] by blast
  have id: "is_id (m_info_hash m)" using m by (simp add: message_ok_def)
  have send: "keeps dht_same d1 (map_option snd (send_closest_nodes from fromlen (m_tid m) (m_info_hash m) w af st tk d2))" for w af st tk
    by (rule same.keeps_from [OF d2(2) keeps_shape_same [OF send_closest_keeps [OF d2(1) addr_okD(3) [OF addr] id]]])
  have err: "keeps dht_same d1 (map_option snd (send_error from fromlen (m_tid m) c e d1))" for c e
    by (rule sends_same [OF sends_senders(7) [OF addr_okD(3) [OF addr]] d1(1)])
  show "keeps dht_same d1
     (if id_cmp (m_info_hash m) zeroes = 0
      then map_option snd (send_error from fromlen (m_tid m) 203 ''Get_peers with no info_hash'' d1)
      else let (t, d2) = stack_bytes TOKEN_SIZE d1
           in Option.bind (make_token from False t d2) (\<lambda>token.
              case find_storage (m_info_hash m) d2 of
                Some k \<Rightarrow>
                  if st_peers (d_storage d2 ! k) \<noteq> []
                  then map_option snd (send_closest_nodes from fromlen (m_tid m) (m_info_hash m) (m_want m)
                        (sa_family from) (Some (d_storage d2 ! k)) token d2)
                  else map_option snd (send_closest_nodes from fromlen (m_tid m) (m_info_hash m) (m_want m) 0 None token d2)
              | None \<Rightarrow> map_option snd (send_closest_nodes from fromlen (m_tid m) (m_info_hash m) (m_want m) 0 None token d2)))"
    using t token send err by (simp split: option.split)
qed

lemma handle_announce_peer_keeps:
  assumes d: "dht_ok d" and m: "message_ok m" and addr: "addr_ok from fromlen"
  shows "keeps dht_same d (handle_announce_peer m from fromlen d)"
  unfolding handle_announce_peer_def
proof (rule learn_then [OF d m addr])
  fix d1 assume d1: "dht_ok d1" "dht_same d d1"
  note len = addr_okD(3) [OF addr]
  have id: "is_id (m_info_hash m)" using m by (simp add: message_ok_def)
  have err: "keeps dht_same d2 (map_option snd (send_error from fromlen (m_tid m) c e d2))" if "dht_ok d2" for c e d2
    by (rule sends_same [OF sends_senders(7) [OF len] that])
  obtain good d2 where t: "token_match (m_token m) from d1 = Some (good, d2)" "dht_ok d2" "dht_same d1 d2"
    using token_match_keeps [OF d1(1) addr_okD(1) [OF addr], of "m_token m"] by (auto simp: keeps_def)
  obtain rc d3 where s: "storage_store (m_info_hash m) from (announced_port m from) d2 = (rc, d3)" by fastforce
  have d3: "dht_ok d3" "dht_same d1 d3"
    using storage_store_ok [OF t(2) id, of "from" "announced_port m from"] s same.R_trans [OF t(3), of d3] by simp_all
  have "keeps dht_same d3 (map_option snd (send_peer_announced from fromlen (m_tid m) d3))"
    by (rule sends_same [OF sends_senders(6) [OF len] d3(1)])
  note ack = same.keeps_from [OF d3(2) this]
  show "keeps dht_same d1
     (if id_cmp (m_info_hash m) zeroes = 0
      then map_option snd (send_error from fromlen (m_tid m) 203 ''Announce_peer with no info_hash'' d1)
      else Option.bind (token_match (m_token m) from d1) (\<lambda>(good, d2).
             if \<not> good
             then map_option snd (send_error from fromlen (m_tid m) 203 ''Announce_peer with wrong token'' d2)
             else if announced_port m from = 0
             then map_option snd (send_error from fromlen (m_tid m) 203 ''Announce_peer with forbidden port number'' d2)
             else let (rc, d3) = storage_store (m_info_hash m) from (announced_port m from) d2
                  in map_option snd (send_peer_announced from fromlen (m_tid m) d3)))"
    using t(1) s ack err [OF d1(1)] same.keeps_from [OF t(3) err [OF t(2)]] by simp
qed

lemma handle_message_keeps:
  assumes d: "dht_ok d" and m: "message_ok m" and addr: "addr_ok from fromlen"
  shows "keeps dht_same d (handle_message message m from fromlen cb d)"
proof -
  note len = addr_okD(3) [OF addr]
  have ping: "keeps dht_same d (Option.bind (new_node (m_id m) from fromlen 1 d)
      (\<lambda>(r, d1). map_option snd (send_pong from fromlen (m_tid m) d1)))"
    by (rule learn_then [OF d m addr]) (rule sends_same [OF sends_senders(2) [OF len]])
  have find: "keeps dht_same d (Option.bind (new_node (m_id m) from fromlen 1 d)
      (\<lambda>(r, d1). map_option snd (send_closest_nodes from fromlen (m_tid m) (m_target m) (m_want m) 0 None [] d1)))"
    using m by (intro learn_then [OF d m addr] keeps_shape_same send_closest_keeps len) (simp_all add: message_ok_def)
  show ?thesis
    unfolding handle_message_def
    using handle_reply_keeps [OF assms] handle_get_peers_keeps [OF assms] handle_announce_peer_keeps [OF assms] ping find
      same.keeps_same [OF d] by simp
qed

text \<open>Reading a packet.\<close>

lemma token_bucket_keeps:
  assumes "dht_ok d"
  shows "dht_ok (snd (token_bucket d))" and "dht_same d (snd (token_bucket d))"
  using assms by (simp_all add: token_bucket_def Let_def dht_same_def)

lemma read_packet_keeps:
  assumes d: "dht_ok d" and src: "buf \<noteq> [] \<Longrightarrow> addr_ok from fromlen"
  shows "keeps dht_same d (map_option snd (read_packet buf nul from fromlen cb d))"
proof (cases "buf = [] \<or> is_martian from")
  case True
  then show ?thesis using same.keeps_same [OF d] by (auto simp: read_packet_def)
next
  case False
  then have addr: "addr_ok from fromlen" using src by simp
  obtain black where black: "node_blacklisted from fromlen d = Some black"
    using addr_okD(3) [OF addr] by (simp add: node_blacklisted_def dht_blacklisted_def)
  obtain message m where m: "parse_message buf nul parsed_zero = (message, m)" by fastforce
  note handle = handle_message_keeps [OF _ parse_message_ok [OF m] addr]
  have e: "keeps dht_same d (Some (d\<lparr>d_errno := x\<rparr>))" for x
    using d by (intro same.keepsI) (simp_all add: dht_same_def)
  obtain ok d1 where t: "(if REPLY < message then token_bucket d else (True, d)) = (ok, d1)" by fastforce
  then have d1: "dht_ok d1" "dht_same d d1"
    using token_bucket_keeps [OF d] d same.R_refl by (auto split: if_splits)
  have "keeps dht_same d (map_option snd (Option.bind (handle_message message m from fromlen cb d1) (\<lambda>d2. Some (True, d2))))"
    using same.keeps_from [OF d1(2) handle [OF d1(1), of message cb]] by (auto simp: keeps_def)
  then show ?thesis
    using False black m t e d1 same.keepsI same.keeps_same [OF d] by (cases "nul = 0") (simp_all add: read_packet_def Let_def)
qed

end
