(* ===== verification/DhtInvPeriodic.thy ===== *)
theory DhtInvPeriodic
  imports DhtInvPacket
begin

text \<open>
  The maintenance of the table, the searches and the periodic work leave the invariant, and
  \<open>dht_periodic\<close> always returns.  Then the states that a program using the DHT can reach.
\<close>

section \<open>Maintenance\<close>

text \<open>The choices at random only draw random numbers.\<close>

definition rolls :: "dht \<Rightarrow> dht \<Rightarrow> bool" where
  "rolls d d' \<longleftrightarrow> (\<exists>p. d' = d\<lparr>d_random_pos := p\<rparr>)"

lemma rolls_refl [simp]: "rolls d d"
  unfolding rolls_def by (rule exI [of _ "d_random_pos d"]) simp

lemma rolls_trans: "rolls a b \<Longrightarrow> rolls b c \<Longrightarrow> rolls a c"
  unfolding rolls_def by auto

lemma rolls_keeps:
  assumes "rolls d d'"
  shows "dht_ok d' = dht_ok d" and "dht_shape d d'" and "dht_table af d' = dht_table af d"
  using assms by (auto simp: rolls_def dht_table_def)

lemma rolls_random: "rolls d (snd (c_random d))"
  by (auto simp: rolls_def c_random_def)

lemma rolls_eight: "rolls d (snd (one_in_eight d))"
  using rolls_random [of d] by (simp add: one_in_eight_def case_prod_beta)

lemma rolls_choose: "rolls d (snd (choose_bucket bs k d))"
proof -
  define a where "a = (if Suc k < length bs then (if b_count (bs ! k) = 0 then (True, d) else one_in_eight d) else (False, d))"
  have 1: "rolls d (snd a)" using rolls_eight [of d] by (simp add: a_def)
  define q where "q = (if fst a then Suc k else k)"
  define b where "b = (if b_count (bs ! q) = 0 then (True, snd a) else one_in_eight (snd a))"
  have 2: "rolls (snd a) (snd b)" using rolls_eight [of "snd a"] by (simp add: b_def)
  have "choose_bucket bs k d = (case (if fst b then previous_bucket bs k else None) of
      None \<Rightarrow> (q, snd b) | Some r \<Rightarrow> (if 0 < b_count (bs ! r) then (r, snd b) else (q, snd b)))"
    unfolding choose_bucket_def a_def [symmetric] Let_def case_prod_beta q_def [symmetric] b_def [symmetric] by simp
  then show ?thesis using rolls_trans [OF 1 2] by (auto split: option.split)
qed

lemma choose_bucket_bound: "k < length bs \<Longrightarrow> fst (choose_bucket bs k d) < length bs"
  by (auto simp: choose_bucket_def previous_bucket_def split: prod.splits option.splits if_splits)

lemma rolls_node: "rolls d (snd (random_node b d))"
  using rolls_random [of d] by (simp add: random_node_def Let_def case_prod_beta)

lemma random_node_bound: "fst (random_node b d) = Some j \<Longrightarrow> j < length (b_nodes b)"
  by (auto simp: random_node_def Let_def split: prod.splits if_splits)

lemma rolls_bytes: "rolls d (snd (random_bytes_from n d))"
proof (induction n arbitrary: d)
  case (Suc n)
  obtain r d1 rs d2 where e: "c_random d = (r, d1)" "random_bytes_from n d1 = (rs, d2)" by fastforce
  then have "rolls d d1" "rolls d1 d2" using rolls_random [of d] Suc [of d1] by simp_all
  then show ?case using e rolls_trans by auto
qed simp

lemma rolls_bucket: "rolls d (snd (bucket_random bs k d))"
proof -
  obtain r d1 where c: "c_random d = (r, d1)" by fastforce
  have "rolls d d1" using rolls_random [of d] c by simp
  then have "rolls d (snd (random_bytes_from n d1))" for n using rolls_bytes rolls_trans by blast
  then show ?thesis using c by (simp add: bucket_random_def Let_def case_prod_beta)
qed

lemma rolls_want: "rolls d (snd (maintenance_want af nid d))"
  using rolls_random [of d] by (simp add: maintenance_want_def Let_def case_prod_beta)

lemma query_node_keeps:
  assumes d: "dht_ok d" and af: "is_af af" and q: "q < length (dht_table af d)" and j: "j < length (b_nodes (dht_table af d ! q))"
  shows "keeps dht_shape d (query_node af q j nid want d)"
proof -
  let ?n = "b_nodes (dht_table af d ! q) ! j"
  have "salen_ok (n_sslen ?n)" using dht_ok_bucket(2) [OF d af q, of ?n] j by (simp add: node_ok_def ss_ok_def)
  then obtain rc d1 where s: "send_find_node (n_ss ?n) (n_sslen ?n) (make_tid ''fn'' 0) nid want (d_now d - 15 \<le> n_reply_time ?n) d = Some (rc, d1)"
    "dht_ok d1" "dht_shape d d1" "d_buckets d1 = d_buckets d" "d_buckets6 d1 = d_buckets6 d"
    using sends_state [OF sends_senders(3) d] by metis
  have t: "dht_table af d1 = dht_table af d" by (rule table_eqI) (use s in simp_all)
  have "keeps dht_shape d1 (pinged af (q, j) (Some q) d1)"
    using q j t by (intro pinged_keeps [OF s(2) af]) simp_all
  then show ?thesis using s(1) shape.keeps_from [OF s(3)] by (simp add: query_node_def)
qed

lemma keeps_rolled: "rolls d d1 \<Longrightarrow> keeps dht_shape d1 r \<Longrightarrow> keeps dht_shape d r"
  by (rule shape.keeps_from [OF rolls_keeps(2)])

lemma keeps_result: "keeps R d r \<Longrightarrow> keeps R d (map_option snd (Option.bind r (\<lambda>d1. Some (x, d1))))"
  by (auto simp: keeps_def)

lemma neighbourhood_keeps:
  assumes d: "dht_ok d" and af: "is_af af"
  shows "keeps dht_shape d (map_option snd (neighbourhood_maintenance af d))"
proof (cases "find_bucket (d_myid d) (dht_table af d)")
  case None
  then show ?thesis using shape.keeps_same [OF d] by (simp add: neighbourhood_maintenance_def)
next
  case (Some k)
  let ?bs = "dht_table af d"
  obtain r d1 where 1: "c_random d = (r, d1)" by fastforce
  obtain q d2 where 2: "choose_bucket ?bs k d1 = (q, d2)" by fastforce
  obtain j d3 where 3: "random_node (?bs ! q) d2 = (j, d3)" by fastforce
  have "rolls d d1" "rolls d1 d2" "rolls d2 d3"
    using rolls_random [of d] rolls_choose [of d1 ?bs k] rolls_node [of d2 "?bs ! q"] 1 2 3 by simp_all
  then have d3: "rolls d d3" using rolls_trans by blast
  note rk = rolls_keeps [OF d3]
  have q: "q < length ?bs" using choose_bucket_bound [OF find_bucket_bound [OF Some], of d1] 2 by simp
  show ?thesis
  proof (cases j)
    case None
    then show ?thesis using Some 1 2 3 rk d shape.keepsI by (simp add: neighbourhood_maintenance_def Let_def)
  next
    case (Some i)
    then have "i < length (b_nodes (?bs ! q))" using random_node_bound [of "?bs ! q" d2] 3 by simp
    then have "keeps dht_shape d3 (query_node af q i nid want d3)" for nid want
      using rk d q by (intro query_node_keeps af) simp_all
    note keeps_result [where x = True, OF keeps_rolled [OF d3 this]]
    then show ?thesis using \<open>find_bucket _ _ = Some k\<close> Some 1 2 3 by (simp add: neighbourhood_maintenance_def Let_def)
  qed
qed

lemma bucket_maintenance_loop_keeps:
  assumes "dht_ok d" and "is_af af" and "\<forall>k \<in> set ks. k < length (dht_table af d)"
  shows "keeps dht_shape d (map_option snd (bucket_maintenance_loop af ks d))"
  using assms
proof (induction ks arbitrary: d)
  case Nil
  then show ?case using shape.keeps_same by simp
next
  case (Cons k ks)
  let ?bs = "dht_table af d" and ?b = "dht_table af d ! k"
  note d = Cons.prems(1) and af = Cons.prems(2)
  have k: "k < length ?bs" using Cons.prems(3) by simp
  have "8 \<le> b_max_count ?b" using dht_ok_bucket(1) [OF d af k] by (simp add: bucket_ok_def)
  then have "1 \<le> b_max_count ?b div 8" using zdiv_mono1 [of 8 "b_max_count ?b" 8] by simp
  then have room: "b_max_count ?b div 8 \<noteq> 0" by simp
  have skip: "keeps dht_shape d (map_option snd (bucket_maintenance_loop af ks d1))" if "rolls d d1" for d1
    using Cons.IH [of d1] rolls_keeps [OF that] Cons.prems by (intro keeps_rolled [OF that]) simp
  show ?case
  proof (cases "b_time ?b < d_now d - max (600 div (b_max_count ?b div 8)) 30")
    case False
    then show ?thesis using room skip [of d] by simp
  next
    case True
    obtain nid d1 where 1: "bucket_random ?bs k d = (nid, d1)" by fastforce
    obtain q d2 where 2: "choose_bucket ?bs k d1 = (q, d2)" by fastforce
    obtain j d3 where 3: "random_node (?bs ! q) d2 = (j, d3)" by fastforce
    have "rolls d d1" "rolls d1 d2" "rolls d2 d3"
      using rolls_bucket [of d ?bs k] rolls_choose [of d1 ?bs k] rolls_node [of d2 "?bs ! q"] 1 2 3 by simp_all
    then have d3: "rolls d d3" using rolls_trans by blast
    have q: "q < length ?bs" using choose_bucket_bound [OF k, of d1] 2 by simp
    show ?thesis
    proof (cases j)
      case None
      then show ?thesis using True room 1 2 3 skip [OF d3] by simp
    next
      case (Some i)
      obtain want d4 where 4: "maintenance_want af nid d3 = (want, d4)" by fastforce
      have d4: "rolls d d4" using rolls_want [of d3 af nid] 4 rolls_trans [OF d3] by simp
      have "i < length (b_nodes (?bs ! q))" using random_node_bound [of "?bs ! q" d2] 3 Some by simp
      then have "keeps dht_shape d4 (query_node af q i nid want d4)"
        using rolls_keeps [OF d4] d q by (intro query_node_keeps af) simp_all
      note keeps_result [where x = True, OF keeps_rolled [OF d4 this]]
      then show ?thesis using True room Some 1 2 3 4 by simp
    qed
  qed
qed

lemma bucket_maintenance_keeps:
  "dht_ok d \<Longrightarrow> is_af af \<Longrightarrow> keeps dht_shape d (map_option snd (bucket_maintenance af d))"
  unfolding bucket_maintenance_def by (rule bucket_maintenance_loop_keeps) simp_all


section \<open>The periodic work\<close>

lemma step_searches_keeps:
  assumes "dht_ok d" and "\<forall>si \<in> set sis. si < length (d_searches d)"
  shows "keeps dht_shape d (step_searches cb sis d)"
  using assms
proof (induction sis arbitrary: d)
  case Nil
  then show ?case using shape.keeps_same by simp
next
  case (Cons si sis)
  have "keeps dht_shape d (search_step si cb d)" using Cons.prems by (intro search_step_keeps) simp_all
  moreover have "keeps dht_shape d1 (step_searches cb sis d1)" if "dht_ok d1" "dht_shape d d1" for d1
    using Cons.IH [OF that(1)] Cons.prems(2) shape_rows(1) [OF that(2)] by simp
  ultimately have "keeps dht_shape d (Option.bind (search_step si cb d) (step_searches cb sis))"
    by (rule shape.keeps_bind)
  then show ?case using Cons.IH [OF Cons.prems(1)] Cons.prems(2) by (simp add: Let_def)
qed

lemma next_search_time_ok: "dht_ok d \<Longrightarrow> dht_ok (next_search_time srs d)"
proof (induction srs d rule: next_search_time.induct)
  case (2 sr srs d)
  obtain r d1 where c: "c_random d = (r, d1)" by fastforce
  have "dht_ok d1" using c_random_keeps(1) [of d] c "2.prems" by simp
  then show ?case using 2 c by (simp add: Let_def)
qed simp

definition returns_ok :: "dht option \<Rightarrow> bool" where
  "returns_ok r \<longleftrightarrow> (\<exists>d1. r = Some d1 \<and> dht_ok d1)"

lemma returns_some [simp]: "returns_ok (Some d) = dht_ok d"
  by (simp add: returns_ok_def)

lemma rotate_secrets_ok: "dht_ok d \<Longrightarrow> dht_ok (snd (rotate_secrets d))"
proof -
  assume d: "dht_ok d"
  obtain r d1 where c: "c_random d = (r, d1)" by fastforce
  have "dht_ok d1" using c_random_keeps(1) [of d] c d by simp
  then show ?thesis using c by (simp add: rotate_secrets_def dht_random_bytes_def Let_def case_prod_beta)
qed

lemma periodic_expire_ok: "dht_ok d \<Longrightarrow> returns_ok (periodic_expire cb d)"
proof -
  assume d: "dht_ok d"
  define d1 where "d1 = (if d_rotate_secrets_time d \<le> d_now d then snd (rotate_secrets d) else d)"
  have d1: "dht_ok d1" using d rotate_secrets_ok by (simp add: d1_def)
  obtain d2 where 2: "expire_buckets AF_INET d1 = Some d2" "dht_ok d2"
    using expire_buckets_keeps [OF d1, of AF_INET] by (auto simp: keeps_def)
  obtain d3 where 3: "expire_buckets AF_INET6 d2 = Some d3" "dht_ok d3"
    using expire_buckets_keeps [OF 2(2), of AF_INET6] by (auto simp: keeps_def)
  have "dht_ok (expire_searches cb (snd (expire_storage d3)))"
    by (intro expire_searches_ok(1) expire_storage_ok 3(2))
  then show ?thesis using d1 2(1) 3(1) by (simp add: periodic_expire_def Let_def d1_def [symmetric])
qed

lemma periodic_searches_ok: "dht_ok d \<Longrightarrow> returns_ok (periodic_searches cb d)"
proof -
  assume d: "dht_ok d"
  obtain d1 where 1: "step_searches cb [0..<length (d_searches d)] d = Some d1" "dht_ok d1"
    using step_searches_keeps [OF d, of "[0..<length (d_searches d)]" cb] by (auto simp: keeps_def)
  then show ?thesis using d by (simp add: periodic_searches_def next_search_time_ok)
qed

lemma periodic_confirm_ok: "dht_ok d \<Longrightarrow> returns_ok (periodic_confirm d)"
proof -
  assume d: "dht_ok d"
  obtain s4 d1 where 1: "bucket_maintenance AF_INET d = Some (s4, d1)" "dht_ok d1"
    using bucket_maintenance_keeps [OF d, of AF_INET] by (auto simp: keeps_def)
  obtain s6 d2 where 2: "bucket_maintenance AF_INET6 d1 = Some (s6, d2)" "dht_ok d2"
    using bucket_maintenance_keeps [OF 1(2), of AF_INET6] by (auto simp: keeps_def)
  define n where "n = (if s4 \<or> s6 then Some (True, d2)
      else Option.bind (if d_now d2 - 150 \<le> d_mybucket_grow_time d2
               then neighbourhood_maintenance AF_INET d2 else Some (False, d2))
             (\<lambda>(n4, d3). Option.bind (if d_now d3 - 150 \<le> d_mybucket6_grow_time d3
                    then neighbourhood_maintenance AF_INET6 d3 else Some (False, d3))
                (\<lambda>(n6, d4). Some (n4 \<or> n6, d4))))"
  have hood: "\<exists>x d4. (if c then neighbourhood_maintenance af d3 else Some (False, d3)) = Some (x, d4) \<and> dht_ok d4"
    if "dht_ok d3" "is_af af" for c af d3
    using neighbourhood_keeps [OF that] that(1) by (auto simp: keeps_def)
  obtain soon d3 where 3: "n = Some (soon, d3)" "dht_ok d3"
  proof (cases "s4 \<or> s6")
    case True
    then show ?thesis using 2(2) by (intro that [of True d2]) (simp_all add: n_def)
  next
    case False
    obtain n4 d3 where a: "(if d_now d2 - 150 \<le> d_mybucket_grow_time d2
        then neighbourhood_maintenance AF_INET d2 else Some (False, d2)) = Some (n4, d3)" "dht_ok d3"
      using hood [OF 2(2)] by blast
    obtain n6 d4 where b: "(if d_now d3 - 150 \<le> d_mybucket6_grow_time d3
        then neighbourhood_maintenance AF_INET6 d3 else Some (False, d3)) = Some (n6, d4)" "dht_ok d4"
      using hood [OF a(2)] by blast
    show ?thesis
      by (rule that [of "n4 \<or> n6" d4]) (simp_all only: n_def False if_False a(1) b bind.bind_lunit prod.case)
  qed
  obtain r d4 where c: "c_random d3 = (r, d4)" by fastforce
  have "dht_ok d4" using c_random_keeps(1) [of d3] c 3(2) by simp
  then show ?thesis
    using 1(1) 2(1) 3(1) c d by (simp add: periodic_confirm_def n_def [symmetric])
qed

lemma dht_periodic_run:
  assumes "dht_ok d" and "buf \<noteq> [] \<Longrightarrow> addr_ok from fromlen"
  obtains rc tosleep1 d1 where "dht_periodic buf nul from fromlen tosleep cb t d = Some (rc, tosleep1, d1)" and "dht_ok d1"
proof -
  have "dht_ok (d\<lparr>d_now := t\<rparr>)" using assms(1) by simp
  then obtain go d1 where 1: "read_packet buf nul from fromlen cb (d\<lparr>d_now := t\<rparr>) = Some (go, d1)" "dht_ok d1"
    using read_packet_keeps [where d = "d\<lparr>d_now := t\<rparr>" and buf = buf and nul = nul and cb = cb, OF _ assms(2)] by (auto simp: keeps_def)
  obtain d2 where 2: "periodic_expire cb d1 = Some d2" "dht_ok d2"
    using periodic_expire_ok [OF 1(2)] by (auto simp: returns_ok_def)
  obtain d3 where 3: "periodic_searches cb d2 = Some d3" "dht_ok d3"
    using periodic_searches_ok [OF 2(2)] by (auto simp: returns_ok_def)
  obtain d4 where 4: "periodic_confirm d3 = Some d4" "dht_ok d4"
    using periodic_confirm_ok [OF 3(2)] by (auto simp: returns_ok_def)
  show thesis
    using 1 2(1) 3(1) 4 by (cases go) (auto simp: dht_periodic_def intro: that)
qed


section \<open>Starting a search\<close>

lemma oldest_done_bound:
  "oldest_done srs i acc = Some (k, t) \<Longrightarrow> acc = Some (k, t) \<or> (i \<le> k \<and> k < i + length srs)"
  by (induction srs i acc rule: oldest_done.induct) (fastforce split: if_splits)+

lemma same_search_bound: "same_search nid af srs = Some si \<Longrightarrow> si < length srs"
  by (induction srs arbitrary: si) (auto split: if_splits)

text \<open>Nothing but the searches and the allocations changes.\<close>

definition search_frame :: "dht \<Rightarrow> dht \<Rightarrow> bool" where
  "search_frame d d1 \<longleftrightarrow> (\<forall>srs. dht_ok (d1\<lparr>d_searches := srs\<rparr>) = dht_ok (d\<lparr>d_searches := srs\<rparr>))
     \<and> d_buckets d1 = d_buckets d \<and> d_buckets6 d1 = d_buckets6 d \<and> d_myid d1 = d_myid d"

lemma dht_ok_searches:
  "dht_ok (d\<lparr>d_searches := srs\<rparr>) \<longleftrightarrow> dht_ok (d\<lparr>d_searches := []\<rparr>) \<and> (\<forall>sr \<in> set srs. search_ok sr)"
  by (auto simp: dht_ok_def)

lemma search_frame_fields [simp]:
  "search_frame d d" "search_frame d (d\<lparr>d_alloc_pos := p\<rparr>)" "search_frame d (d\<lparr>d_searches := srs\<rparr>)"
  "search_frame d (d\<lparr>d_alloc_pos := p, d_searches := srs, d_numsearches := n\<rparr>)"
  by (auto simp: search_frame_def dht_ok_def)

lemma new_search_run:
  assumes "new_search d = Some (slot, d1)"
  shows "search_frame d d1" and "slot = Some si \<Longrightarrow> si < length (d_searches d1)"
    and "d_searches d1 = d_searches d \<or> (slot = Some 0 \<and> d_searches d1 = search_zero # d_searches d)" and "slot \<noteq> None"
  using assms oldest_done_bound [of "d_searches d" 0 None]
  by (fastforce simp: new_search_def c_calloc_def Let_def split: if_splits option.splits prod.splits)+

lemma search_frameD:
  assumes "search_frame d d1" and "dht_ok d" and "\<forall>sr \<in> set (d_searches d1). search_ok sr"
  shows "dht_ok d1"
proof -
  have "dht_ok (d\<lparr>d_searches := []\<rparr>)" using assms(2) by (simp add: dht_ok_def)
  then have "dht_ok (d\<lparr>d_searches := d_searches d1\<rparr>)" using assms(3) by (subst dht_ok_searches) simp
  then have "dht_ok (d1\<lparr>d_searches := d_searches d1\<rparr>)" using assms(1) unfolding search_frame_def by blast
  then show ?thesis by simp
qed

lemma search_frame_table: "search_frame d d1 \<Longrightarrow> dht_table af d1 = dht_table af d"
  by (simp add: search_frame_def dht_table_def)

lemma dht_okD: "dht_ok d \<Longrightarrow> \<forall>sr \<in> set (d_searches d). search_ok sr"
  by (simp add: dht_ok_def)

lemma search_slot_run:
  assumes d: "dht_ok d" and id: "is_id nid" and af: "is_af af" and s: "search_slot nid af d = Some (slot, d1)"
  obtains si where "slot = Some si" and "dht_ok d1" and "search_frame d d1" and "si < length (d_searches d1)"
proof (cases "same_search nid af (d_searches d)")
  case (Some si)
  let ?f = "\<lambda>sr. sr\<lparr>sr_done := False, sr_nodes := reuse_loop (d_now d) (sr_nodes sr) 0\<rparr>"
  have si: "si < length (d_searches d)" by (rule same_search_bound [OF Some])
  have "dht_ok (update_search si ?f d)"
    by (rule keep_search(1) [OF d si]) (rule reuse_ok [OF dht_ok_search [OF d si]])
  then show ?thesis using s Some si by (intro that [of si]) (auto simp: search_slot_def update_search_def)
next
  case None
  then obtain d0 where n: "new_search d = Some (slot, d0)"
    using s by (cases "new_search d") (auto simp: search_slot_def split: option.splits)
  then obtain si where si: "slot = Some si" "si < length (d_searches d0)" using new_search_run by fastforce
  let ?f = "\<lambda>sr. sr\<lparr>sr_af := af, sr_tid := d_search_id d0, sr_step_time := 0, sr_id := take 20 nid, sr_done := False, sr_nodes := []\<rparr>"
  have e: "d1 = update_search si ?f (d0\<lparr>d_search_id := d_search_id d0 + 1\<rparr>)"
    using s None n si by (simp add: search_slot_def)
  have frame: "search_frame d d1"
  proof -
    have "dht_ok (d0\<lparr>d_search_id := x, d_searches := srs\<rparr>) = dht_ok (d0\<lparr>d_searches := srs\<rparr>)" for x srs
      by (simp add: dht_ok_def)
    then show ?thesis using new_search_run(1) [OF n] by (simp add: e update_search_def search_frame_def)
  qed
  have new: "search_ok (?f sr)" for sr using id af by (simp add: search_ok_def)
  have "d_searches d1 = (d_searches d0)[si := ?f (d_searches d0 ! si)]" by (simp add: e update_search_def)
  then have "set (d_searches d1) \<subseteq> insert (?f (d_searches d0 ! si)) (set (d_searches d))"
    using new_search_run(3) [OF n] si set_update_subset_insert [of "d_searches d0" si "?f (d_searches d0 ! si)"] by auto
  then have "\<forall>sr \<in> set (d_searches d1). search_ok sr" using new [of "d_searches d0 ! si"] dht_okD [OF d] by blast
  then have "dht_ok d1" by (rule search_frameD [OF frame d])
  then show ?thesis using that si frame by (simp add: e update_search_def)
qed

lemma local_values_frame: "dht_ok (local_values nid ps d) = dht_ok d \<and> d_searches (local_values nid ps d) = d_searches d
    \<and> dht_table af (local_values nid ps d) = dht_table af d \<and> d_numsearches (local_values nid ps d) = d_numsearches d
    \<and> d_alloc (local_values nid ps d) = d_alloc d \<and> d_alloc_pos (local_values nid ps d) = d_alloc_pos d
    \<and> d_myid (local_values nid ps d) = d_myid d"
  by (induction nid ps d rule: local_values.induct) (simp_all add: dht_callback_def dht_table_def)

lemma table_nodes_ok:
  "dht_ok d \<Longrightarrow> is_af af \<Longrightarrow> k < length (dht_table af d) \<Longrightarrow>
    \<forall>n \<in> set (b_nodes (dht_table af d ! k)). is_id (n_id n) \<and> 2 \<le> length (n_ss n) \<and> salen_ok (n_sslen n)"
  using dht_ok_bucket(2) [of d af k] by (auto simp: node_ok_def ss_ok_def)

lemma fill_search_keeps:
  assumes d: "dht_ok d" and af: "is_af af" and si: "si < length (d_searches d)" and k: "k < length (dht_table af d)"
  shows "keeps dht_tables d (fill_search si af k d)"
proof -
  let ?bs = "dht_table af d"
  have ins: "search_ok (insert_search_bucket (?bs ! j) (d_now d) sr)" if "search_ok sr" "j < length ?bs" for j sr
    unfolding insert_search_bucket_def by (rule insert_nodes_ok [OF that(1) table_nodes_ok [OF d af that(2)]])
  define sr2 where "sr2 = (let sr1 = insert_search_bucket (?bs ! k) (d_now d) (d_searches d ! si)
      in if length (sr_nodes sr1) < SEARCH_NODES
         then let sr = (if Suc k < length ?bs then insert_search_bucket (?bs ! Suc k) (d_now d) sr1 else sr1)
              in case previous_bucket ?bs k of None \<Rightarrow> sr | Some p \<Rightarrow> insert_search_bucket (?bs ! p) (d_now d) sr
         else sr1)"
  have "search_ok sr2"
    unfolding sr2_def Let_def using ins dht_ok_search [OF d si] k by (auto simp: previous_bucket_def)
  note ok = this ins [OF this]
  have "?bs \<noteq> []" using k by auto
  then obtain m where m: "find_bucket (d_myid d) ?bs = Some m" by (simp add: find_bucket_def)
  have put: "keeps dht_tables d (Some (update_search si (\<lambda>_. sr) d))" if "search_ok sr" for sr
    using keep_search [OF d si] that by (intro tables.keepsI) simp_all
  have "fill_search si af k d = (if length (sr_nodes sr2) < SEARCH_NODES
      then Some (update_search si (\<lambda>_. insert_search_bucket (?bs ! m) (d_now d) sr2) d)
      else Some (update_search si (\<lambda>_. sr2) d))"
    using m by (simp add: fill_search_def Let_def sr2_def)
  then show ?thesis using put [OF ok(1)] put [OF ok(2) [OF find_bucket_bound [OF m]]] by simp
qed

text \<open>
  A search returns unless a new slot is needed and none can be had.
\<close>

definition slot_free :: "dht_id \<Rightarrow> nat \<Rightarrow> dht \<Rightarrow> bool" where
  "slot_free nid af d \<longleftrightarrow> same_search nid af (d_searches d) \<noteq> None
     \<or> (d_numsearches d < DHT_MAX_SEARCHES \<and> d_alloc d (d_alloc_pos d))"

lemma search_slot_some: "slot_free nid af d \<Longrightarrow> search_slot nid af d \<noteq> None"
  by (auto simp: slot_free_def search_slot_def new_search_def c_calloc_def Let_def split: option.split)

lemma dht_search_run:
  assumes d: "dht_ok d" and id: "is_id nid" and af: "is_af af"
  shows "dht_search nid port af cb d = Some (rc, d1) \<Longrightarrow> dht_ok d1"
    and "slot_free nid af d \<Longrightarrow> dht_search nid port af cb d \<noteq> None"
proof -
  have main: "(\<forall>rc d1. dht_search nid port af cb d = Some (rc, d1) \<longrightarrow> dht_ok d1)
      \<and> (slot_free nid af d \<longrightarrow> dht_search nid port af cb d \<noteq> None)"
  proof (cases "find_bucket nid (dht_table af d)")
    case None
    then show ?thesis using d by (auto simp: dht_search_def)
  next
    case (Some k)
    define d0 where "d0 = (if cb then (case find_storage nid d of
        None \<Rightarrow> d | Some s \<Rightarrow> local_values nid (st_peers (d_storage d ! s)) d) else d)"
    have d0: "dht_ok d0" "dht_table af d0 = dht_table af d" "slot_free nid af d0 = slot_free nid af d"
      using d local_values_frame by (auto simp: d0_def slot_free_def split: option.split)
    define dup where "dup = (case same_search nid af (d_searches d0) of None \<Rightarrow> False | Some si \<Rightarrow> \<not> sr_done (d_searches d0 ! si))"
    have run: "dht_search nid port af cb d = Option.bind (search_slot nid af d0) (\<lambda>(slot, d2). case slot of
        None \<Rightarrow> Some (- 1, d2\<lparr>d_errno := ENOSPC\<rparr>)
      | Some si \<Rightarrow> Option.bind (fill_search si af k (update_search si (\<lambda>sr. sr\<lparr>sr_port := nat (port mod 65536)\<rparr>) d2))
          (\<lambda>d3. Option.bind (search_step si cb d3)
            (\<lambda>d4. Some (if dup then 0 else 1, d4\<lparr>d_search_time := d_now d4\<rparr>))))"
      unfolding dht_search_def Some option.case Let_def d0_def [symmetric] dup_def [symmetric] by (rule refl)
    show ?thesis
    proof (cases "search_slot nid af d0")
      case None
      then show ?thesis using run search_slot_some [of nid af d0] d0(3) by auto
    next
      case (Some r)
      obtain slot d2 where r: "r = (slot, d2)" by fastforce
      obtain si where si: "slot = Some si" "dht_ok d2" "search_frame d0 d2" "si < length (d_searches d2)"
        using search_slot_run [OF d0(1) id af, of slot d2] Some r by metis
      let ?f = "\<lambda>sr. sr\<lparr>sr_port := nat (port mod 65536)\<rparr>"
      let ?d3 = "update_search si ?f d2"
      have d3: "dht_ok ?d3" "dht_shape d2 ?d3" using keep_search_fields [OF si(2,4), of ?f] by simp_all
      have k: "k < length (dht_table af ?d3)" "si < length (d_searches ?d3)"
        using find_bucket_bound [OF \<open>find_bucket nid _ = Some k\<close>] search_frame_table [OF si(3)] d0(2) si(4)
          shape_length [OF d3(2)] shape_rows(1) [OF d3(2)] by simp_all
      obtain d4 where d4: "fill_search si af k ?d3 = Some d4" "dht_ok d4" "dht_tables ?d3 d4"
        using fill_search_keeps [OF d3(1) af k(2,1)] by (auto simp: keeps_def)
      have "si < length (d_searches d4)" using k(2) d4(3) same_searches [of ?d3 d4] by simp
      then obtain d5 where d5: "search_step si cb d4 = Some d5" "dht_ok d5"
        using search_step_keeps [OF d4(2), of si cb] by (auto simp: keeps_def)
      show ?thesis using run Some r si(1) d4(1) d5 by auto
    qed
  qed
  from main show "dht_search nid port af cb d = Some (rc, d1) \<Longrightarrow> dht_ok d1" by blast
  from main show "slot_free nid af d \<Longrightarrow> dht_search nid port af cb d \<noteq> None" by blast
qed


section \<open>Reachable states\<close>

text \<open>
  The state before \<open>dht_init\<close>: the static variables, with any environment.
\<close>

definition dht_static :: "dht \<Rightarrow> bool" where
  "dht_static d \<longleftrightarrow> d_socket d = - 1 \<and> d_socket6 d = - 1 \<and> d_buckets d = [] \<and> d_buckets6 d = [] \<and> d_searches d = [] \<and> d_storage d = []
     \<and> d_sent d = [] \<and> is_id (d_myid d) \<and> d_next_blacklisted d = 0 \<and> length (d_blacklist d) = DHT_MAX_BLACKLISTED"

text \<open>
  A run of a program that uses the DHT: it starts it, then feeds it packets and times, starts
  searches, inserts nodes and pings addresses, in any order, and may draw random numbers itself.
\<close>

inductive dht_reach :: "dht \<Rightarrow> bool" where
  init: "dht_static d \<Longrightarrow> is_id nid \<Longrightarrow> dht_init s s6 nid v t d = Some (1, d1) \<Longrightarrow> dht_reach d1"
| periodic: "dht_reach d \<Longrightarrow> (buf \<noteq> [] \<Longrightarrow> addr_ok src srclen) \<Longrightarrow>
    dht_periodic buf nul src srclen tosleep cb t d = Some (rc, tosleep1, d1) \<Longrightarrow> dht_reach d1"
| search: "dht_reach d \<Longrightarrow> is_id nid \<Longrightarrow> is_af af \<Longrightarrow> dht_search nid port af cb d = Some (rc, d1) \<Longrightarrow> dht_reach d1"
| insert: "dht_reach d \<Longrightarrow> is_id nid \<Longrightarrow> addr_ok sa salen \<Longrightarrow> dht_insert_node nid sa salen d = Some (rc, d1) \<Longrightarrow> dht_reach d1"
| ping: "dht_reach d \<Longrightarrow> salen_ok salen \<Longrightarrow> dht_ping_node sa salen d = Some (rc, d1) \<Longrightarrow> dht_reach d1"
| random: "dht_reach d \<Longrightarrow> dht_reach (snd (c_random d))"

lemma id_val_zero: "id_val (replicate n 0) = 0"
  by (induction n) simp_all

lemma new_table_ok: "table_ok af [bucket_new\<lparr>b_max_count := 128, b_af := af\<rparr>]"
proof -
  let ?b = "bucket_new\<lparr>b_max_count := 128, b_af := af\<rparr>"
  have f: "b_first ?b = replicate 20 0" "b_nodes ?b = []" "b_count ?b = 0" "b_max_count ?b = 128"
    by (simp_all add: bucket_new_def zeroes_def)
  have "cached_ok af ?b" by (simp add: cached_ok_def bucket_new_def sa_family_def numeral_2_eq_2)
  then have "bucket_ok af ?b" using f by (intro bucket_ok_empty) simp_all
  moreover have "table_sorted [?b]" using f id_val_zero [of 20] by (simp add: table_sorted_def firsts_def)
  ultimately show ?thesis using f by (simp add: table_ok_def)
qed

lemma new_table_ids: "table_ids [bucket_new\<lparr>b_max_count := 128, b_af := af\<rparr>] = {}"
  by (simp add: table_ids_def bucket_new_def)

lemma dht_init_table_run:
  assumes "dht_init_table af w d = (ok, d1)" and "dht_ok d" and "is_af af"
  shows "dht_ok d1" and "d_next_blacklisted d1 = d_next_blacklisted d"
proof -
  obtain b d0 where c: "c_calloc d = (b, d0)" by fastforce
  then have d0: "dht_ok d0" "d_next_blacklisted d0 = d_next_blacklisted d"
    using assms(2) c_calloc_keeps(1) [of d] by (auto simp: c_calloc_def)
  have "dht_ok (set_table af [bucket_new\<lparr>b_max_count := 128, b_af := af\<rparr>] d0)"
    using new_table_ok new_table_ids by (intro dht_ok_set_table d0 assms(3)) simp_all
  then show "dht_ok d1" "d_next_blacklisted d1 = d_next_blacklisted d"
    using assms c d0 by (auto simp: dht_init_table_def split: if_splits)
qed


lemma dht_init_clock_ok: "dht_ok d \<Longrightarrow> table_ids (d_buckets d) = {} \<Longrightarrow> table_ids (d_buckets6 d) = {} \<Longrightarrow> is_id nid \<Longrightarrow>
    dht_ok (dht_init_clock nid v t d)"
  by (simp add: dht_init_clock_def c_random_def Let_def dht_ok_def DHT_MAX_BLACKLISTED_def split: option.split)

lemma dht_init_table_ids:
  assumes "dht_init_table af w d = (ok, d1)" and "table_ids (d_buckets d) = {}" and "table_ids (d_buckets6 d) = {}"
  shows "table_ids (d_buckets d1) = {}" and "table_ids (d_buckets6 d1) = {}"
  using assms new_table_ids
  by (auto simp: dht_init_table_def set_table_def c_calloc_def Let_def split: if_splits)

lemma dht_init_run:
  assumes st: "dht_static d" and id: "is_id nid"
  obtains rc d1 where "dht_init s s6 nid v t d = Some (rc, d1)" and "dht_ok d1" and "rc = 1 \<or> rc < 0"
proof -
  define d0 where "d0 = d\<lparr>d_searches := [], d_numsearches := 0, d_storage := [], d_numstorage := 0\<rparr>"
  have e: "table_ids [] = {}" by (simp add: table_ids_def)
  have start: "dht_ok d0" "table_ids (d_buckets d0) = {}" "table_ids (d_buckets6 d0) = {}"
    using st by (auto simp: d0_def dht_static_def dht_ok_def table_ok_def table_sorted_def firsts_def e storage_ok_def
        DHT_MAX_HASHES_def DHT_MAX_BLACKLISTED_def)
  obtain ok d1 where 1: "dht_init_table AF_INET (0 \<le> s) d0 = (ok, d1)" by fastforce
  note d1 = dht_init_table_run(1) [OF 1 start(1)] dht_init_table_ids [OF 1 start(2,3)]
  obtain ok6 d2 where 2: "dht_init_table AF_INET6 (0 \<le> s6) d1 = (ok6, d2)" by fastforce
  note d2 = dht_init_table_run(1) [OF 2 d1(1)] dht_init_table_ids [OF 2 d1(2,3)]
  have d3: "dht_ok (dht_init_clock nid v t d2)" using d2 id by (intro dht_init_clock_ok) simp_all
  obtain rc d4 where 4: "rotate_secrets (dht_init_clock nid v t d2) = (rc, d4)" by fastforce
  then have d4: "dht_ok d4" using rotate_secrets_ok [OF d3] by simp
  have fail: "dht_ok (d4\<lparr>d_buckets := [], d_buckets6 := []\<rparr>)"
    using d4 by (simp add: dht_ok_def table_ok_def table_sorted_def firsts_def e)
  have d5: "dht_ok (d4\<lparr>d_socket := s, d_socket6 := s6\<rparr>)" using d4 by simp
  obtain d6 where 6: "expire_buckets AF_INET (d4\<lparr>d_socket := s, d_socket6 := s6\<rparr>) = Some d6" "dht_ok d6"
    using expire_buckets_keeps [OF d5, of AF_INET] by (auto simp: keeps_def)
  obtain d7 where 7: "expire_buckets AF_INET6 d6 = Some d7" "dht_ok d7"
    using expire_buckets_keeps [OF 6(2), of AF_INET6] by (auto simp: keeps_def)
  have run: "dht_init s s6 nid v t d = (if \<not> ok then Some (- 1, d1) else if \<not> ok6 then Some (- 1, d2)
      else if rc < 0 then Some (- 1, d4\<lparr>d_buckets := [], d_buckets6 := []\<rparr>) else Some (1, d7))"
    using st 1 2 4 6(1) 7(1) by (simp add: dht_init_def dht_static_def d0_def [symmetric])
  show thesis
    using that run d1(1) d2(1) fail 7(2) by (cases ok; cases ok6; cases "rc < 0") simp_all
qed

lemma dht_insert_node_run:
  assumes d: "dht_ok d" and id: "is_id nid" and addr: "addr_ok sa salen"
  obtains rc d1 where "dht_insert_node nid sa salen d = Some (rc, d1)" and "dht_ok d1"
    and "rc = 1 \<Longrightarrow> nid \<in> table_ids (dht_table (sa_family sa) d1)"
proof -
  obtain r d1 where "new_node nid sa salen 0 d = Some (r, d1)" "dht_ok d1" "r \<Longrightarrow> nid \<in> table_ids (dht_table (sa_family sa) d1)"
    using new_node_run [OF d addr_okD(1) [OF addr] id addr_okD(2,3) [OF addr], of 0] by auto
  then show thesis using addr_okD(1) [OF addr] by (intro that [of "if r then 1 else 0" d1]) (auto simp: dht_insert_node_def split: if_splits)
qed

lemma dht_reach_ok: "dht_reach d \<Longrightarrow> dht_ok d"
proof (induction rule: dht_reach.induct)
  case (init d nid s s6 v t d1)
  then show ?case using dht_init_run by (metis option.inject prod.inject)
next
  case (periodic d buf src srclen nul tosleep cb t rc tosleep1 d1)
  then show ?case using dht_periodic_run by (metis option.inject prod.inject)
next
  case (search d nid af port cb rc d1)
  then show ?case using dht_search_run(1) by blast
next
  case (insert d nid sa salen rc d1)
  then show ?case using dht_insert_node_run by (metis option.inject prod.inject)
next
  case (ping d salen sa rc d1)
  then show ?case using sends_state [OF sends_senders(1)] unfolding dht_ping_node_def by (metis option.inject prod.inject)
next
  case (random d)
  then show ?case using rolls_keeps(1) [OF rolls_random] by simp
qed

end
