(* ===== verification/DhtProps.thy ===== *)
theory DhtProps
  imports DhtInvPeriodic
begin

text \<open>
  The properties of the DHT as a whole: it is safe in every reachable state, its table is a
  partition of the ids, its loops end, and its answers and searches have the nearest nodes.
  The witnesses run a small DHT from its start.
\<close>

section \<open>A small DHT\<close>

definition ex_static :: dht where
  "ex_static = \<lparr>d_socket = - 1, d_socket6 = - 1, d_search_time = 0, d_confirm_nodes_time = 0, d_rotate_secrets_time = 0,
     d_myid = replicate 20 0, d_have_v = False, d_my_v = [], d_secret = replicate 8 0, d_oldsecret = replicate 8 0,
     d_buckets = [], d_buckets6 = [], d_storage = [], d_numstorage = 0, d_searches = [], d_numsearches = 0,
     d_search_id = 0, d_blacklist = replicate 10 (replicate 128 0), d_next_blacklisted = 0, d_now = 0,
     d_mybucket_grow_time = 0, d_mybucket6_grow_time = 0, d_expire_stuff_time = 0, d_token_bucket_time = 0,
     d_token_bucket_tokens = 0, d_errno = 0, d_random = (\<lambda>n. n), d_random_pos = 0, d_alloc = (\<lambda>n. True),
     d_alloc_pos = 0, d_urandom = (\<lambda>n. (8, replicate 8 7)), d_urandom_pos = 0, d_stack = (\<lambda>n. 0), d_stack_pos = 0,
     d_sendto = (\<lambda>n. 1), d_sent = [], d_events = []\<rparr>"

definition ex_id :: dht_id where "ex_id = replicate 20 0x55"
definition ex_addr :: sockaddr where "ex_addr = make_sockaddr_in [10, 0, 0, 9] [0x1A, 0xE1]"

text \<open>One IPv4 table, started at second 1000.\<close>

definition ex_dht :: dht where
  "ex_dht = snd (the (dht_init 5 (- 1) ex_id None 1000 ex_static))"

lemma ex_static_ok: "dht_static ex_static"
  by (simp add: dht_static_def ex_static_def DHT_MAX_BLACKLISTED_def)

lemma ex_init: "dht_init 5 (- 1) ex_id None 1000 ex_static = Some (1, ex_dht)"
proof -
  have "map_option fst (dht_init 5 (- 1) ex_id None 1000 ex_static) = Some 1"
    by code_simp
  then show ?thesis by (auto simp: ex_dht_def)
qed

lemma ex_reach: "dht_reach ex_dht"
  by (rule dht_reach.init [OF ex_static_ok _ ex_init]) (simp add: ex_id_def)


section \<open>Safety\<close>

text \<open>C6: In every state a program can reach, \<open>dht_periodic\<close> returns, whatever packet it is given
  (no \<open>abort\<close>, no endless loop), and the invariant holds again.\<close>

theorem dht_periodic_safe:
  assumes "dht_reach d" and "buf \<noteq> [] \<Longrightarrow> addr_ok src srclen"
  shows "\<exists>rc tosleep1 d1. dht_periodic buf nul src srclen tosleep cb t d = Some (rc, tosleep1, d1)
    \<and> dht_reach d1 \<and> dht_ok d1"
proof -
  obtain rc tosleep1 d1 where
    "dht_periodic buf nul src srclen tosleep cb t d = Some (rc, tosleep1, d1)" "dht_ok d1"
    using dht_periodic_run [OF dht_reach_ok [OF assms(1)] assms(2)] by metis
  then show ?thesis using dht_reach.periodic [OF assms] by blast
qed

theorem dht_periodic_safe_witness:
  "\<exists>rc tosleep1 d1. dht_periodic (bytes_of_string ''d1:ad2:id20:aaaaaaaaaaaaaaaaaaaae1:q4:ping1:t2:xy1:y1:qe'') 0 ex_addr 16 0 True 1001 ex_dht
      = Some (rc, tosleep1, d1) \<and> dht_reach d1 \<and> dht_ok d1"
  using dht_periodic_safe [OF ex_reach, of "bytes_of_string ''d1:ad2:id20:aaaaaaaaaaaaaaaaaaaae1:q4:ping1:t2:xy1:y1:qe''" ex_addr 16 0 0 True 1001]
    sockaddr_in_ok [of "[0x1A, 0xE1]" "[10, 0, 0, 9]"] by (simp add: ex_addr_def make_sockaddr_in_def)

text \<open>The two tables of a reachable state.\<close>

lemma bucket_unique:
  assumes "table_ok af bs" and "bs \<noteq> []" and "is_id nid"
  obtains k where "find_bucket nid bs = Some k" and "k < length bs" and "in_bucket nid bs k"
    and "\<And>j. j < length bs \<Longrightarrow> in_bucket nid bs j \<Longrightarrow> j = k"
proof -
  note s = table_ok_sorted [OF assms(1)]
  obtain k where k: "find_bucket nid bs = Some k" "k < length bs" "in_bucket nid bs k"
    using find_bucket_ok [OF s assms(2,3)] by metis
  then show thesis using in_bucket_unique [OF s assms(3)] by (intro that) auto
qed

lemma table_distinct:
  assumes "table_ok af bs"
  shows "distinct (map n_id (concat (map b_nodes bs)))"
proof -
  have "distinct (map n_id (concat (map b_nodes (take m bs))))" if "m \<le> length bs" for m
    using that
  proof (induction m)
    case (Suc m)
    then have m: "m < length bs" by simp
    have "n_id ` set (b_nodes (bs ! m)) \<inter> n_id ` set (concat (map b_nodes (take m bs))) = {}"
    proof -
      have "n_id n \<noteq> n_id n'" if "n \<in> set (b_nodes (bs ! m))" "i < m" "n' \<in> set (b_nodes (bs ! i))" for n i n'
      proof
        assume e: "n_id n = n_id n'"
        have i: "i < length bs" using that(2) m by simp
        have "i = m"
          using in_bucket_unique [OF table_ok_sorted [OF assms], of "n_id n" i m] table_okD(2) [OF assms m that(1)]
            table_okD(2) [OF assms i that(3)] table_okD(1) [OF assms m] that(1) e m i by (auto simp: bucket_ok_def node_ok_def)
        then show False using that(2) by simp
      qed
      moreover have "\<exists>i < m. b = bs ! i" if "b \<in> set (take m bs)" for b
        using that m by (auto simp: in_set_conv_nth [of _ "take m bs"])
      ultimately show ?thesis by fastforce
    qed
    moreover have "distinct (map n_id (b_nodes (bs ! m)))" using table_okD(1) [OF assms m] by (simp add: bucket_ok_def)
    ultimately show ?case using Suc m by (simp add: take_Suc_conv_app_nth Int_commute)
  qed simp
  from this [of "length bs"] show ?thesis by simp
qed

text \<open>C7: In every reachable state the buckets partition the ids: each id belongs to exactly one
  bucket, the one \<open>find_bucket\<close> returns; each node is in the bucket of its id, no id occurs twice,
  our own never, and no bucket has more nodes than its bound.\<close>

theorem dht_table_partition:
  assumes "dht_reach d" and "af = AF_INET \<or> af = AF_INET6"
  shows "(\<forall>nid. is_id nid \<and> dht_table af d \<noteq> [] \<longrightarrow>
      (\<exists>k. find_bucket nid (dht_table af d) = Some k
         \<and> (\<forall>j < length (dht_table af d). in_bucket nid (dht_table af d) j = (j = k))))
    \<and> (\<forall>k < length (dht_table af d). \<forall>n \<in> set (b_nodes (dht_table af d ! k)). in_bucket (n_id n) (dht_table af d) k)
    \<and> distinct (d_myid d # map n_id (concat (map b_nodes (dht_table af d))))
    \<and> (\<forall>b \<in> set (dht_table af d). b_count b = int (length (b_nodes b)) \<and> b_count b \<le> b_max_count b)"
proof (intro conjI allI impI)
  note t = dht_ok_table [OF dht_reach_ok [OF assms(1)] assms(2)]
  fix nid assume nid: "is_id nid \<and> dht_table af d \<noteq> []"
  show "\<exists>k. find_bucket nid (dht_table af d) = Some k \<and> (\<forall>j < length (dht_table af d). in_bucket nid (dht_table af d) j = (j = k))"
    by (rule bucket_unique [OF t(1)]) (use nid in auto)
next
  note t = dht_ok_table [OF dht_reach_ok [OF assms(1)] assms(2)]
  show "\<forall>n \<in> set (b_nodes (dht_table af d ! k)). in_bucket (n_id n) (dht_table af d) k" if "k < length (dht_table af d)" for k
    using table_okD(2) [OF t(1) that] by simp
  show "distinct (d_myid d # map n_id (concat (map b_nodes (dht_table af d))))"
    using table_distinct [OF t(1)] t(2) by (auto simp: table_ids_def)
  show "\<forall>b \<in> set (dht_table af d). b_count b = int (length (b_nodes b)) \<and> b_count b \<le> b_max_count b"
    using t(1) by (auto simp: table_ok_def bucket_ok_def)
qed

theorem dht_table_partition_witness:
  "dht_table AF_INET ex_dht \<noteq> [] \<and> (\<exists>k. find_bucket ex_id (dht_table AF_INET ex_dht) = Some k
     \<and> (\<forall>j < length (dht_table AF_INET ex_dht). in_bucket ex_id (dht_table AF_INET ex_dht) j = (j = k)))"
proof -
  have "length (dht_table AF_INET ex_dht) = 1" by code_simp
  then have ne: "dht_table AF_INET ex_dht \<noteq> []" by auto
  have "is_id ex_id" by (simp add: ex_id_def)
  then show ?thesis using ne dht_table_partition [OF ex_reach, of AF_INET] by blast
qed

text \<open>C8: \<open>new_node\<close> returns in every reachable state, although it splits buckets and starts over;
  the invariant holds again, and a node it reports as stored is in the table.\<close>

theorem new_node_returns:
  assumes "dht_reach d" and "is_id nid" and "addr_ok sa salen"
  shows "\<exists>r d1. new_node nid sa salen confirm d = Some (r, d1) \<and> dht_ok d1
    \<and> (r \<longrightarrow> nid \<in> table_ids (dht_table (sa_family sa) d1))"
  using new_node_run [OF dht_reach_ok [OF assms(1)] addr_okD(1) [OF assms(3)] assms(2) addr_okD(2,3) [OF assms(3)]] by blast

theorem new_node_returns_witness:
  "\<exists>r d1. new_node (replicate 20 0x61) ex_addr 16 1 ex_dht = Some (r, d1) \<and> dht_ok d1
    \<and> (r \<longrightarrow> replicate 20 0x61 \<in> table_ids (dht_table (sa_family ex_addr) d1))"
  using new_node_returns [OF ex_reach, of "replicate 20 0x61" ex_addr 16 1]
    sockaddr_in_ok [of "[0x1A, 0xE1]" "[10, 0, 0, 9]"] by (simp add: ex_addr_def make_sockaddr_in_def)

text \<open>The packets a sender hands to \<open>sendto\<close>: of at most \<open>sz\<close> bytes, through an open socket.\<close>

definition sends_within :: "nat \<Rightarrow> dht \<Rightarrow> (int \<times> dht) option \<Rightarrow> bool" where
  "sends_within sz d r \<longleftrightarrow> (\<exists>rc d1 ps. r = Some (rc, d1) \<and> d_sent d1 = d_sent d @ ps
     \<and> (\<forall>p \<in> set ps. length (pk_data p) \<le> sz \<and> 0 \<le> pk_socket p))"

lemma send_parts_within:
  assumes "salen_ok salen"
  shows "sends_within sz d (send_parts sz parts confirm sa salen d)"
proof (cases "add_parts sz [] parts")
  case (Some buf)
  have len: "length buf \<le> sz" using length_add_parts [OF Some] by simp
  obtain black where "node_blacklisted sa salen d = Some black"
    using assms by (simp add: node_blacklisted_def dht_blacklisted_def)
  then show ?thesis
    using Some len assms by (cases black) (auto simp: sends_within_def send_parts_def dht_send_def Let_def)
qed (simp add: sends_within_def send_parts_def)

lemma sends_within_later: "sends_within sz d1 r \<Longrightarrow> d_sent d1 = d_sent d \<Longrightarrow> sends_within sz d r"
  by (simp add: sends_within_def)

lemma senders_within:
  assumes "salen_ok salen"
  shows "sends_within 512 d (send_ping sa salen tid d)" and "sends_within 512 d (send_pong sa salen tid d)"
    and "sends_within 512 d (send_find_node sa salen tid target want confirm d)"
    and "sends_within 512 d (send_get_peers sa salen tid target want confirm d)"
    and "sends_within 512 d (send_announce_peer sa salen tid target port token confirm d)"
    and "sends_within 512 d (send_peer_announced sa salen tid d)"
    and "sends_within 512 d (send_error sa salen tid code message d)"
    and "sends_within 2048 d (send_nodes_peers sa salen tid nodes nodes6 af st token d)"
proof -
  note within = send_parts_within [OF assms]
  show "sends_within 512 d (send_ping sa salen tid d)" "sends_within 512 d (send_pong sa salen tid d)"
    "sends_within 512 d (send_find_node sa salen tid target want confirm d)"
    "sends_within 512 d (send_get_peers sa salen tid target want confirm d)"
    "sends_within 512 d (send_announce_peer sa salen tid target port token confirm d)"
    "sends_within 512 d (send_peer_announced sa salen tid d)"
    "sends_within 512 d (send_error sa salen tid code message d)"
    unfolding send_ping_def send_pong_def send_find_node_def send_get_peers_def send_announce_peer_def
      send_peer_announced_def send_error_def by (rule within)+
  have "d_sent (snd (c_random d)) = d_sent d" by (simp add: c_random_def)
  then have "sends_within 2048 d (send_parts 2048 ps False sa salen (snd (c_random d)))" for ps
    by (rule sends_within_later [OF within])
  then show "sends_within 2048 d (send_nodes_peers sa salen tid nodes nodes6 af st token d)"
    using within by (simp add: send_nodes_peers_def Let_def case_prod_beta split: option.split)
qed

text \<open>C22: Every sender keeps to its buffer, whatever it is to send, transaction ids and tokens of any
  length included: what \<open>send_ping\<close>, \<open>send_pong\<close>, \<open>send_find_node\<close>, \<open>send_get_peers\<close>,
  \<open>send_announce_peer\<close>, \<open>send_peer_announced\<close> and \<open>send_error\<close> send has at most 512 bytes, what
  \<open>send_nodes_peers\<close> sends at most 2048, and it goes out through an open socket; so every packet sent in a
  reachable state has at most 2048 bytes.\<close>

theorem packets_fit:
  assumes "dht_reach d" and "salen_ok salen"
  shows "(\<forall>p \<in> set (d_sent d). length (pk_data p) \<le> 2048 \<and> 0 \<le> pk_socket p)
    \<and> sends_within 512 d (send_ping sa salen tid d)
    \<and> sends_within 512 d (send_pong sa salen tid d)
    \<and> sends_within 512 d (send_find_node sa salen tid target want confirm d)
    \<and> sends_within 512 d (send_get_peers sa salen tid target want confirm d)
    \<and> sends_within 512 d (send_announce_peer sa salen tid target port token confirm d)
    \<and> sends_within 512 d (send_peer_announced sa salen tid d)
    \<and> sends_within 512 d (send_error sa salen tid code message d)
    \<and> sends_within 2048 d (send_nodes_peers sa salen tid nodes nodes6 af st token d)"
  using dht_reach_ok [OF assms(1)] senders_within [OF assms(2)] by (auto simp: dht_ok_def packet_ok_def)

definition ex_pinging :: dht where
  "ex_pinging = snd (the (dht_ping_node ex_addr 16 ex_dht))"

lemma ex_pinging_reach: "dht_reach ex_pinging" and ex_pinging_sent: "map (\<lambda>p. length (pk_data p)) (d_sent ex_pinging) = [58]"
proof -
  have "map_option fst (dht_ping_node ex_addr 16 ex_dht) = Some 1" by code_simp
  then have "dht_ping_node ex_addr 16 ex_dht = Some (1, ex_pinging)" by (auto simp: ex_pinging_def)
  then show "dht_reach ex_pinging"
    by (rule dht_reach.ping [OF ex_reach, rotated]) (simp add: sizeof_sockaddr_storage_def)
  show "map (\<lambda>p. length (pk_data p)) (d_sent ex_pinging) = [58]" by code_simp
qed

theorem packets_fit_witness:
  "(\<exists>p. d_sent ex_pinging = [p] \<and> length (pk_data p) \<le> 2048 \<and> 0 \<le> pk_socket p)
    \<and> sends_within 512 ex_pinging (send_ping ex_addr 16 (replicate 600 0) ex_pinging)"
proof -
  obtain p where "d_sent ex_pinging = [p]" using ex_pinging_sent by (auto simp: map_eq_Cons_conv)
  moreover have "salen_ok 16" by (simp add: sizeof_sockaddr_storage_def)
  ultimately show ?thesis using packets_fit [OF ex_pinging_reach, of 16] by simp
qed

section \<open>The nearest nodes\<close>

text \<open>The ids of a list of nodes, the nearest to \<open>ref\<close> first.\<close>

definition by_distance :: "dht_id \<Rightarrow> node list \<Rightarrow> dht_id list" where
  "by_distance ref ns = sort_key (\<lambda>x. xor_dist x ref) (remdups (map n_id ns))"

lemma by_distance_unique:
  assumes "near_sorted ref ks" and "set ks = n_id ` set ns" and "\<forall>x \<in> set ks. is_id x" and "is_id ref"
  shows "ks = by_distance ref ns"
proof (rule map_sorted_distinct_set_unique [of "\<lambda>x. xor_dist x ref"])
  let ?f = "\<lambda>x. xor_dist x ref"
  have inj: "inj_on ?f (set ks)" using assms(3,4) by (auto simp: inj_on_def xor_dist_inject)
  show e: "set ks = set (by_distance ref ns)" by (simp add: by_distance_def assms(2))
  then show "inj_on ?f (set ks \<union> set (by_distance ref ns))" using inj by simp
  have "sorted_wrt (<) (map ?f ks)" using assms(1) by (simp add: sorted_wrt_map)
  then show "sorted (map ?f ks)" "distinct (map ?f ks)" by (simp_all add: strict_sorted_iff)
  show "sorted (map ?f (by_distance ref ns))" by (simp add: by_distance_def)
  show "distinct (map ?f (by_distance ref ns))"
    using inj e by (simp add: distinct_map by_distance_def)
qed

text \<open>C17: Whatever nodes are inserted into an empty search one after the other, it keeps the 14
  nearest to its target, sorted by XOR distance, without repetition.\<close>

theorem search_keeps_nearest:
  assumes "is_id (sr_id sr)" and "sr_nodes sr = []" and "\<forall>n \<in> set ns. node_ok (sr_af sr) n"
  shows "map sn_id (sr_nodes (insert_nodes ns now sr)) = take 14 (by_distance (sr_id sr) ns)"
proof -
  have id: "is_id (case (now, sr) of (now, sr) \<Rightarrow> sr_id sr)" using assms(1) by simp
  have fits: "\<forall>n \<in> set ns. (case (now, sr) of (now, sr) \<Rightarrow> \<lambda>n. node_ok (sr_af sr) n) n" using assms(3) by simp
  have "insert_nodes ns now sr = sr\<lparr>sr_nodes := fold (\<lambda>n es. sr_nodes (snd (insert_search_node (n_id n) (n_ss n)
      (n_sslen n) False None now (sr\<lparr>sr_nodes := es\<rparr>)))) ns []\<rparr>"
    using insert_nodes_fold [of ns now sr] assms(2) by simp
  moreover obtain ks where ks: "near_sorted (sr_id sr) ks" "set ks = n_id ` set ns"
    "map sn_id (fold (\<lambda>n es. sr_nodes (snd (insert_search_node (n_id n) (n_ss n)
      (n_sslen n) False None now (sr\<lparr>sr_nodes := es\<rparr>)))) ns []) = take SEARCH_NODES ks"
    using near_search.fold_nearest [of "(now, sr)" ns] id fits by auto
  have "ks = by_distance (sr_id sr) ns"
    using by_distance_unique [OF ks(1,2) _ assms(1)] ks(2) assms(3) by (auto simp: node_ok_def)
  ultimately show ?thesis using ks(3) by (simp add: SEARCH_NODES_def)
qed

definition ex_node :: "byte \<Rightarrow> node" where
  "ex_node b = node_new (replicate 20 b) ex_addr 16 2 1000"

lemma ex_addr_ok: "addr_ok ex_addr 16" "sa_family ex_addr = AF_INET" "length ex_addr = 16"
proof -
  show "sa_family ex_addr = AF_INET"
    by (simp add: ex_addr_def make_sockaddr_in_def sa_family_def le_dec_enc AF_INET_def)
  show "length ex_addr = 16" by (simp add: ex_addr_def make_sockaddr_in_def)
  then show "addr_ok ex_addr 16"
    using sockaddr_in_ok [of "[0x1A, 0xE1]" "[10, 0, 0, 9]"] by (simp add: ex_addr_def)
qed

lemma ex_node_ok: "node_ok AF_INET (ex_node b)"
  using copy_family [of ex_addr 16 "replicate 128 0"] ex_addr_ok
  by (simp add: node_ok_def ex_node_def node_new_def ss_ok_def addr_ok_def)

theorem search_keeps_nearest_witness:
  "map sn_id (sr_nodes (insert_nodes [ex_node 9, ex_node 7, ex_node 8, ex_node 7] 1000
      (search_zero\<lparr>sr_af := AF_INET, sr_id := replicate 20 8\<rparr>)))
    = take 14 (by_distance (replicate 20 8) [ex_node 9, ex_node 7, ex_node 8, ex_node 7])"
  using search_keeps_nearest [of "search_zero\<lparr>sr_af := AF_INET, sr_id := replicate 20 8\<rparr>"
      "[ex_node 9, ex_node 7, ex_node 8, ex_node 7]" 1000] ex_node_ok by (simp add: search_zero_def)

text \<open>C20: An answer to \<open>find_node\<close> or \<open>get_peers\<close> lists the eight nearest of the good nodes in the
  bucket of the target and its two neighbours.\<close>

theorem answer_has_nearest:
  assumes "dht_reach d" and "af = AF_INET \<or> af = AF_INET6" and "is_id target" and "dht_table af d \<noteq> []"
  shows "\<exists>k es. find_bucket target (dht_table af d) = Some k
    \<and> closest_in_table d target (dht_table af d) = Some es
    \<and> map (take 20) es = take 8 (by_distance target (filter (node_good d) (answer_nodes (dht_table af d) k)))"
proof -
  note ok = dht_ok_table(1) [OF dht_reach_ok [OF assms(1)] assms(2)]
  let ?bs = "dht_table af d"
  obtain k where k: "find_bucket target ?bs = Some k" "k < length ?bs"
    using bucket_unique [OF ok assms(4,3)] by metis
  let ?ns = "filter (node_good d) (answer_nodes ?bs k)"
  have "k - 1 < length ?bs" using k(2) by simp
  then have send: "\<forall>n \<in> set ?ns. sendable n"
    using table_sendable [OF ok assms(2)] k(2) by (auto simp: answer_nodes_def split: if_splits)
  obtain ks where ks: "near_sorted target ks" "set ks = n_id ` set ?ns"
    "map (take 20) (fold (put_closest target) ?ns []) = take 8 ks"
    using near_closest.fold_nearest [of target ?ns] assms(3) send by auto
  have "ks = by_distance target ?ns"
    using by_distance_unique [OF ks(1,2) _ assms(3)] ks(2) send sendable_id by auto
  then show ?thesis using closest_in_table_run [OF ok assms(2) k] k(1) ks(3) by auto
qed

theorem answer_has_nearest_witness:
  "\<exists>k es. find_bucket ex_id (dht_table AF_INET ex_dht) = Some k
    \<and> closest_in_table ex_dht ex_id (dht_table AF_INET ex_dht) = Some es
    \<and> map (take 20) es = take 8 (by_distance ex_id (filter (node_good ex_dht) (answer_nodes (dht_table AF_INET ex_dht) k)))"
proof -
  have "length (dht_table AF_INET ex_dht) = 1" by code_simp
  then have "dht_table AF_INET ex_dht \<noteq> []" by auto
  then show ?thesis using answer_has_nearest [OF ex_reach, of AF_INET ex_id] by (simp add: ex_id_def)
qed

text \<open>Reusing a search, a loop that starts over at each node it flushes, keeps exactly the nodes
  that answer, in their order, with their states reset.\<close>

theorem reuse_loop_is_filter:
  "reuse_loop now ns 0 = map node_reset (filter (\<lambda>n. \<not> node_doubtful now n) ns)"
  by (rule reuse_loop_run) simp

end
