(* ===== verification/SeaServerProps.thy ===== *)
theory SeaServerProps
  imports SeaServerRun DhtProps
begin

text \<open>
  The properties of the controller and of the server on it: what is stored is fetched, across
  blocks and over HTTP, and how errors and messages of other nodes end.
\<close>

section \<open>A small store\<close>

text \<open>
  A system whose data directory is there and empty.  What the allocations of the super block
  find in memory, on which the terminating zeros of its names depend, is a condition of its own:
  \<open>super_memory\<close>.
\<close>

definition start_ok :: "os \<Rightarrow> bool" where
  "start_ok os \<longleftrightarrow> reliable os \<and> os_wf os \<and> names_inj os \<and> (\<forall>bid. block_fresh os DATA_DIR bid)"

lemma start_log:
  assumes "start_ok (w_os w)" and "super_memory (w_os w) DATA_DIR ''controller''"
  shows "\<exists>c os1. sea_controller_create DATA_DIR (w_os w) = Done (Some c, os1) \<and> ctl_log (c, w\<lparr>w_os := os1\<rparr>) []"
proof -
  obtain c os1 where "sea_controller_create DATA_DIR (w_os w) = Done (Some c, os1)" "ctl_rep c os1 Map.empty"
    "csb_block_id (sc_super_block c) = super_id + 1"
    using controller_create_run [of "w_os w"] assms by (auto simp: start_ok_def)
  moreover have "log_blocks [] = Map.empty" by (simp add: log_blocks_def fun_eq_iff)
  ultimately show ?thesis by (auto simp: block_id_of_def)
qed

definition ex_world :: world where
  "ex_world = \<lparr>w_os = fresh_os {DATA_DIR}, w_dht = ex_static, w_rv = (\<lambda>_. 0), w_calls = 0, w_sent = [],
     w_stack_addr = 0x7FFD00001000, w_behind = [0, 0], w_behind_body = [0]\<rparr>"

lemma ex_world_start: "start_ok (w_os ex_world)" and ex_world_memory: "super_memory (w_os ex_world) DATA_DIR ''controller''"
proof -
  have "bytes_of_string ''controller'' = [99, 111, 110, 116, 114, 111, 108, 108, 101, 114]" by code_simp
  moreover have "0 \<notin> set (bytes_of_string DATA_DIR)" by code_simp
  ultimately show "super_memory (w_os ex_world) DATA_DIR ''controller''"
    using DATA_DIR_length by (simp add: super_memory_def ex_world_def fresh_os_def)
  show "start_ok (w_os ex_world)"
    by (simp add: start_ok_def ex_world_def names_inj_def block_fresh_def sub_dir_def inj_on_def dom_def)
qed

lemma ex_world_http: "http_works (ex_world\<lparr>w_os := os\<rparr>)"
  by (simp add: http_works_def ex_world_def)

definition ex_start :: "sea_controller \<times> world" where
  "ex_start = (case sea_controller_create DATA_DIR (w_os ex_world) of
     Done (Some c, os1) \<Rightarrow> (c, ex_world\<lparr>w_os := os1\<rparr>) | _ \<Rightarrow> undefined)"

lemma ex_start_log: "ctl_store ex_start []" and ex_start_http: "http_works (snd ex_start)"
  and ex_start_fields: "w_stack_addr (snd ex_start) = 0x7FFD00001000" "w_behind (snd ex_start) = [0, 0]"
    "w_behind_body (snd ex_start) = [0]" "w_dht (snd ex_start) = ex_static"
  using start_log [OF ex_world_start ex_world_memory] ex_world_http
  by (auto simp: ex_start_def ex_world_def ctl_store_def simp del: ctl_log.simps)

text \<open>The same with one record stored.\<close>

definition ex_stored :: "sea_controller \<times> world" where
  "ex_stored = (case ctl_put [7, 8] ex_start of Some (k, s) \<Rightarrow> s | None \<Rightarrow> undefined)"

lemma ex_stored_log: "ctl_log ex_stored [[7, 8]]" and ex_stored_dht: "w_dht (snd ex_stored) = ex_static"
  and ex_stored_http: "http_works (snd ex_stored)" and ex_stored_addr: "w_stack_addr (snd ex_stored) = 0x7FFD00001000"
  and ex_stored_behind: "w_behind (snd ex_stored) = [0, 0]"
proof -
  have f: "ctl_fits [] [7, 8]" by (simp add: ctl_fits_def fetch_max_def)
  then show "ctl_log ex_stored [[7, 8]]"
    using controller_log.app_ok [OF ex_start_log, of "[7, 8]"] by (auto simp: ex_stored_def ctl_store_def simp del: ctl_log.simps)
  have "ctl_log (fst ex_start, snd ex_start) []" "2 \<le> length (w_behind (snd ex_start))"
    using ex_start_log by (simp_all add: ctl_store_def)
  from write_step [OF this(1) f this(2)] obtain c' os' where "sea_controller_write (fst ex_start) (Some [7, 8]) 2 (snd ex_start)
      = Done (0, Some (block_id_of 0), Some 0, c', (snd ex_start)\<lparr>w_os := os'\<rparr>)" by auto
  then show "w_dht (snd ex_stored) = ex_static" "http_works (snd ex_stored)"
    "w_stack_addr (snd ex_stored) = 0x7FFD00001000" "w_behind (snd ex_stored) = [0, 0]"
    using ex_start_http ex_start_fields by (simp_all add: ex_stored_def ctl_put_def)
qed


section \<open>The controller\<close>

text \<open>C2: The store is a log.  A controller created in an empty directory accepts payloads of up to 128
  kilobytes one after the other, numbers them 0, 1, 2, ... across as many blocks as that takes, and
  then returns the payload of any number, in any order and as often as asked.  Two accesses of the
  code that C leaves undefined are assumed to be harmless: every write reads two words behind the
  local variable \<open>node\<close> (\<open>controller.c:126\<close>, \<open>phone_list.c:63\<close>), so two words may be read there
  (\<open>w_behind\<close>), and the names of the super block are copied without their zeros
  (\<open>super_block.c:97\<close>), so the bytes behind the copies happen to be zero (\<open>super_memory\<close>).\<close>

theorem controller_is_log:
  assumes "start_ok (w_os w)" and "super_memory (w_os w) DATA_DIR ''controller''" and "2 \<le> length (w_behind w)"
    and "log_fits ctl_fits [] ds" and "\<forall>k \<in> set ks. k < length ds"
  shows "\<exists>c os1 s1 s2. sea_controller_create DATA_DIR (w_os w) = Done (Some c, os1)
    \<and> log_append_all ctl_put ds (c, w\<lparr>w_os := os1\<rparr>) = Some ([0..<length ds], s1)
    \<and> log_get_all ctl_get ks s1 = Some (map ((!) ds) ks, s2)"
proof -
  obtain c os1 where c: "sea_controller_create DATA_DIR (w_os w) = Done (Some c, os1)"
    "ctl_log (c, w\<lparr>w_os := os1\<rparr>) []"
    using start_log [OF assms(1,2)] by blast
  have st: "ctl_store (c, w\<lparr>w_os := os1\<rparr>) []" using c(2) assms(3) by (simp add: ctl_store_def)
  obtain s1 where s1: "log_append_all ctl_put ds (c, w\<lparr>w_os := os1\<rparr>) = Some ([0..<length ds], s1)" "ctl_store s1 ds"
    using controller_log.app_all_ok [OF st assms(4)] by auto
  show ?thesis
    using c(1) s1(1) controller_log.get_all_ok [OF s1(2) assms(5)] by blast
qed

theorem controller_is_log_witness:
  "\<exists>c os1 s1 s2. sea_controller_create DATA_DIR (w_os ex_world) = Done (Some c, os1)
    \<and> log_append_all ctl_put [[1, 2], [3]] (c, ex_world\<lparr>w_os := os1\<rparr>) = Some ([0, 1], s1)
    \<and> log_get_all ctl_get [1, 0, 1] s1 = Some ([[3], [1, 2], [3]], s2)"
proof -
  have "2 \<le> length (w_behind ex_world)" by (simp add: ex_world_def)
  then show ?thesis
    using controller_is_log [OF ex_world_start ex_world_memory, of "[[1, 2], [3]]" "[1, 0, 1]"]
    by (simp add: ctl_fits_def fetch_max_def upt_rec)
qed

text \<open>C10: One write into a store with room.  Where the two words behind the local variable \<open>node\<close> may be
  read, it succeeds: the ids it hands out are those of the next place in the log, a new block
  being started after 131072 records, and the controller again holds the log, one payload
  longer.  Where they may not, as in C, the write is undefined behaviour, whatever the payload:
  three words are copied from the address of one.\<close>

theorem controller_write_extends:
  assumes "ctl_log (c, w) ds" and "ctl_fits ds d"
  shows "if 2 \<le> length (w_behind w)
    then \<exists>c' w'. sea_controller_write c (Some d) (int (length d)) w
        = Done (0, Some (block_id_of (length ds div 131072)), Some (of_nat (length ds mod 131072)), c', w')
      \<and> ctl_log (c', w') (ds @ [d])
    else sea_controller_write c (Some d) (int (length d)) w = Undef"
  using write_step [OF assms] write_step_overreads [OF assms] unfolding block_cap_def
  by (auto simp: not_le simp del: ctl_log.simps)

theorem controller_write_extends_witness:
  "\<exists>c' w'. sea_controller_write (fst ex_stored) (Some [9]) 1 (snd ex_stored)
      = Done (0, Some (block_id_of 0), Some 1, c', w') \<and> ctl_log (c', w') [[7, 8], [9]]"
  using controller_write_extends [of "fst ex_stored" "snd ex_stored" "[[7, 8]]" "[9]"] ex_stored_log ex_stored_behind
  by (simp add: ctl_fits_def fetch_max_def del: ctl_log.simps)

text \<open>C14: A read of ids that were never handed out, under any block id but that of the super block, goes
  through the DHT and never succeeds: the lookup is that of \<open>dht_list_get_node\<close> in the state of the DHT; when it crashes, as on an empty table, the
  read crashes, and otherwise the code is \<open>EINVAL\<close>, no length is stored, the buffer and the store
  are as they were, and the state of the DHT is the one the lookup leaves.\<close>

theorem controller_read_missing:
  assumes "ctl_log (c, w) ds" and "bid \<noteq> super_id"
    and "length ds \<le> block_cap * block_no bid + unat rid \<or> block_cap \<le> unat rid"
  shows "\<exists>os1. sea_controller_read bid rid mem buf_len w
      = (case dht_list_get_node (unat bid) (unat rid) [0, 0, 0, 0] (w_dht w) of
           None \<Rightarrow> Undef
         | Some (_, _, d1) \<Rightarrow> Done (EINVAL, None, mem, w\<lparr>w_os := os1, w_dht := d1\<rparr>))
    \<and> (\<forall>d1. ctl_log (c, w\<lparr>w_os := os1, w_dht := d1\<rparr>) ds)"
proof -
  have rep: "ctl_rep c (w_os w) (log_blocks ds)" using assms(1) by simp
  have no: "\<forall>es. log_blocks ds bid = Some es \<longrightarrow> length es \<le> unat rid"
    using assms(3) by (auto simp: log_blocks_def split: if_splits)
  obtain os1 where r: "sea_controller_read bid rid mem buf_len w
      = (case dht_list_get_node (unat bid) (unat rid) [0, 0, 0, 0] (w_dht w) of
           None \<Rightarrow> Undef
         | Some (rc, ip, d1) \<Rightarrow> Done (EINVAL, None, mem, w\<lparr>w_os := os1, w_dht := d1\<rparr>))"
    "SeaBlock.os_ext (w_os w) os1"
    using controller_read_missing_run [OF rep assms(2) no] by blast
  have "ctl_rep c os1 (log_blocks ds)" using ctl_rep_ext [OF r(2) rep] .
  then show ?thesis using r(1) assms(1) by (intro exI [of _ os1]) simp
qed

text \<open>A DHT that has not been started has no table: the search is refused.\<close>

lemma ex_lookup: "\<exists>ip d1. dht_list_get_node b r ip0 ex_static = Some (EINVAL, ip, d1)"
proof -
  have "dht_search dht_list_hash 0 AF_INET True ex_static = Some (- 1, ex_static\<lparr>d_errno := EAFNOSUPPORT\<rparr>)"
    by (simp add: dht_search_def ex_static_def dht_table_def find_bucket_def)
  then show ?thesis
    by (simp add: dht_list_get_node_def case_prod_beta EINVAL_dht_def EINVAL_def)
qed

theorem controller_read_missing_witness:
  "\<exists>w1. sea_controller_read (block_id_of 0) 5 [1, 2, 3] 3 (snd ex_stored) = Done (EINVAL, None, [1, 2, 3], w1)
    \<and> ctl_log (fst ex_stored, w1) [[7, 8]]"
proof -
  have log: "ctl_log (fst ex_stored, snd ex_stored) [[7, 8]]" using ex_stored_log by simp
  have no: "block_id_of 0 \<noteq> super_id" by (simp add: block_id_of_def)
  have k: "length [[7, 8 :: byte]] \<le> block_cap * block_no (block_id_of 0) + unat (5 :: u32) \<or> block_cap \<le> unat (5 :: u32)" by simp
  obtain ip d1 where d: "dht_list_get_node (unat (block_id_of 0)) (unat (5 :: u32)) [0, 0, 0, 0] ex_static = Some (EINVAL, ip, d1)"
    using ex_lookup by blast
  show ?thesis
    using controller_read_missing [OF log no k, of "[1, 2, 3]" 3] d unfolding ex_stored_dht
    by (auto simp del: ctl_log.simps)
qed

section \<open>Over HTTP\<close>

text \<open>C12: On a system with an empty data directory and a working library the server comes up: it creates
  a controller whose store is the empty log, and serves \<open>POST\<close> and \<open>GET\<close> under one path at the
  port of the environment variable.  The super block copies its directory and its name into
  allocated memory without their zeros (\<open>super_block.c:97\<close> and \<open>98\<close>) and then uses them as strings;
  that the bytes behind the copies happen to be zero is assumed (\<open>super_memory\<close>).\<close>

theorem server_comes_up:
  assumes "start_ok (w_os w)" and "super_memory (w_os w) DATA_DIR ''controller''"
    and "http_works w" and "0 < p" and "p < 2 ^ 16"
  shows "\<exists>post get c w1. rest_server (Some (dec_str p)) w
        = Done (Serving (''http://127.0.0.1:'' @ dec_str p @ ''/api/sea'') [post, get] c, w1)
    \<and> rt_method post = ''POST'' \<and> rt_handler post = Handle_post \<and> rt_method get = ''GET'' \<and> rt_handler get = Handle_get
    \<and> rt_path post = rt_path get \<and> ctl_log (c, w1) [] \<and> http_works w1"
proof -
  obtain c os1 where c: "sea_controller_create DATA_DIR (w_os w) = Done (Some c, os1)" "ctl_log (c, w\<lparr>w_os := os1\<rparr>) []"
    using start_log [OF assms(1,2)] by blast
  have u: "unat (word_of_int (int p) :: u16) = p" using assms(5) by (simp add: unat_of_nat)
  have port: "unat (word_of_int (int p) :: u16) = p" "(word_of_int (int p) :: u16) \<noteq> 0"
    using u assms(4) by (metis, metis unsigned_0 less_irrefl)
  have "c_atoi (dec_str p) = Done (int p)" using assms(5) by (intro atoi_dec_str) simp
  then show ?thesis
    using c port assms(3) by (simp add: rest_server_def rest_start_def nng_calls_works REST_URL_def)
qed

theorem server_comes_up_witness:
  "\<exists>post get c w1. rest_server (Some ''9000'') ex_world
        = Done (Serving ''http://127.0.0.1:9000/api/sea'' [post, get] c, w1) \<and> ctl_log (c, w1) [] \<and> http_works w1"
proof -
  have "dec_str 9000 = ''9000''" by (simp add: dec_str.simps char_of_def bit_0)
  then show ?thesis
    using server_comes_up [OF ex_world_start ex_world_memory, of 9000] ex_world_http [of "w_os ex_world"] by (auto simp del: ctl_log.simps)
qed

text \<open>C3: What a client posts it gets back.  The response to a post of 1 to 131072 bytes names an id, and a
  get of that id, as of any id handed out before, returns the bytes posted under it; the ids in
  the response and in the URI are decimal text.  This needs two reads behind objects to be
  harmless: the write reads two words behind the local variable \<open>node\<close> (\<open>w_behind\<close>), and the
  body is printed as a string (\<open>server.c:136\<close>), so a zero byte stands in it or in what may be read
  behind it (\<open>w_behind_body\<close>).\<close>

theorem rest_post_get:
  assumes "ctl_log (c, w) ds" and "http_works w" and "ctl_fits ds body"
    and "2 \<le> length (w_behind w)" and "0 \<in> set (body @ w_behind_body w)"
  shows "\<exists>c' w'. rest_handle_post body c w = Done (Reply \<lparr>hr_type = ''text/plain'', hr_status = 200,
        hr_data = bytes_of_string (''{\"id\":\"'' @ id_text (block_id_of (length ds div block_cap))
          (of_nat (length ds mod block_cap)) @ ''\"}'')\<rparr>, c', w')
    \<and> (\<forall>k \<le> length ds. \<exists>w2. rest_handle_get (''/api/sea?id='' @ id_text (block_id_of (k div block_cap)) (of_nat (k mod block_cap))) w'
          = Done (Reply \<lparr>hr_type = ''image/png'', hr_status = 200, hr_data = (ds @ [body]) ! k\<rparr>, w2)
        \<and> ctl_log (c', w2) (ds @ [body]))"
proof -
  obtain c' w' where p: "rest_handle_post body c w = Done (Reply \<lparr>hr_type = ''text/plain'', hr_status = 200,
        hr_data = bytes_of_string (''{\"id\":\"'' @ id_text (block_id_of (length ds div block_cap))
          (of_nat (length ds mod block_cap)) @ ''\"}'')\<rparr>, c', w')"
    "ctl_log (c', w') (ds @ [body])" "http_works w'"
    using rest_post_run [OF assms] by blast
  have u: "rest_uri b r = ''/api/sea?id='' @ id_text b r" for b r by (simp add: rest_uri_def)
  have "\<forall>k \<le> length ds. k < length (ds @ [body])" by simp
  then show ?thesis
    using p(1) rest_get_run [OF p(2,3)] unfolding u by blast
qed

theorem rest_post_get_witness:
  "\<exists>c' w' w2. rest_handle_post [104, 105] (fst ex_start) (snd ex_start) = Done (Reply \<lparr>hr_type = ''text/plain'', hr_status = 200,
        hr_data = bytes_of_string (''{\"id\":\"'' @ id_text (block_id_of 0) 0 @ ''\"}'')\<rparr>, c', w')
    \<and> rest_handle_get (''/api/sea?id='' @ id_text (block_id_of 0) 0) w'
          = Done (Reply \<lparr>hr_type = ''image/png'', hr_status = 200, hr_data = [104, 105]\<rparr>, w2)"
proof -
  have "ctl_log (fst ex_start, snd ex_start) []" using ex_start_log by (simp add: ctl_store_def)
  moreover have "ctl_fits [] [104, 105]" by (simp add: ctl_fits_def fetch_max_def)
  ultimately show ?thesis
    using rest_post_get [of "fst ex_start" "snd ex_start" "[]" "[104, 105]"] ex_start_http ex_start_fields
    by (auto simp del: ctl_log.simps)
qed

text \<open>C11: Ids survive the way to the client and back.  What stands between the quotes of the printed response
  (\<open>id_json\<close>), put behind any text that ends at the first equals sign, is read back by the parser as the
  same two numbers, for a block id that is a positive \<open>long\<close>; a block id of \<open>2 ^ 63\<close> or more is
  printed all the same, and reading it is undefined behaviour of \<open>atol\<close>.\<close>

theorem uri_round_trip:
  assumes "CHR ''='' \<notin> set p" and "p \<noteq> []"
  shows "get_block_id_and_record_id (p @ ''='' @ takeWhile (\<lambda>c. c \<noteq> CHR 0x22) (drop 7 (id_json bid rid)))
    = (if unat bid < 2 ^ 63 then Done (0, Some bid, Some rid) else Undef)"
  using read_id_cases [OF assms] json_id_json [of bid rid] unfolding json_id_def by simp

theorem uri_round_trip_witness:
  "get_block_id_and_record_id ''/api/sea?id=1010101_1'' = Done (0, Some 1010101, Some 1)"
proof -
  have t: "takeWhile (\<lambda>c. c \<noteq> CHR 0x22) (drop 7 (id_json 1010101 1)) = ''1010101_1''"
    using json_id_json [of 1010101 1]
    by (simp add: json_id_def id_text_def dec_str.simps char_of_def bit_0)
  have p: "CHR ''='' \<notin> set ''/api/sea?id''" "''/api/sea?id'' \<noteq> []" and u: "unat (1010101 :: u64) < 2 ^ 63" by simp_all
  show ?thesis using uri_round_trip [OF p, of 1010101 1] u unfolding t append.simps by (simp only: if_True)
qed

text \<open>Errors look like successes: a URI without an id is answered with an empty page and status 200.\<close>

lemma rest_get_malformed:
  assumes "CHR ''='' \<notin> set uri" and "http_works w"
  shows "\<exists>w'. rest_handle_get uri w = Done (Reply \<lparr>hr_type = ''text/plain'', hr_status = 200, hr_data = []\<rparr>, w')"
proof -
  have "get_block_id_and_record_id uri = Done (EINVAL, None, None)"
    using assms(1) by (cases "uri = []") (simp_all add: get_block_id_and_record_id_def)
  then show ?thesis
    using assms(2) by (simp add: rest_handle_get_def EINVAL_def NNG_HTTP_STATUS_OK_def Let_def)
qed



section \<open>Other nodes\<close>

text \<open>C13: What the data server prepares for a request of another node, in its reply buffer: for any number
  below the length of the log, the header repeats the ids with no error, the memory behind it starts
  with the payload, and the size is that of the header and the payload.  This is about
  \<open>data_server_process\<close> alone: the loop around it sends the request back instead of this buffer
  (\<open>server.c:316\<close>), so no node receives it.\<close>

theorem data_server_get:
  assumes "ctl_log (c, w) ds" and "k < length ds"
    and "length (ds ! k) \<le> unat (send_size - 24)" and "length (ds ! k) \<le> length mem"
    and "dh_method m = DATA_SERVER_METHOD_GET" and "dh_len m = 24" and "dh_block_id m = block_id_of (k div block_cap)"
    and "dh_record_id m = of_nat (k mod block_cap)"
  shows "\<exists>w'. data_server_process (enc_hdr m) (h, mem) send_size c w
      = Done (0, (h\<lparr>dh_method := DATA_SERVER_METHOD_GET, dh_error := DATA_SERVER_ERROR_NONE, dh_block_id := dh_block_id m,
            dh_record_id := dh_record_id m\<rparr>, put_at 0 (ds ! k) mem), 24 + of_nat (length (ds ! k)), c, w')
    \<and> ctl_log (c, w') ds"
  by (rule data_get_run [OF assms])

theorem data_server_get_witness:
  "\<exists>h' w'. data_server_process (enc_hdr \<lparr>dh_method = 1, dh_error = 0, dh_len = 24, dh_block_id = block_id_of 0, dh_record_id = 0\<rparr>)
      (\<lparr>dh_method = 0, dh_error = 0, dh_len = 0, dh_block_id = 0, dh_record_id = 0\<rparr>, [0, 0, 0]) 27 (fst ex_stored) (snd ex_stored)
    = Done (0, (h', [7, 8, 0]), 26, fst ex_stored, w')"
proof -
  have l: "ctl_log (fst ex_stored, snd ex_stored) [[7, 8]]" using ex_stored_log by simp
  have "put_at 0 [7, 8] [0, 0, 0] = [7, 8, 0 :: byte]" by code_simp
  then show ?thesis
    using data_server_get [OF l, of 0 27 "[0, 0, 0]"
        "\<lparr>dh_method = 1, dh_error = 0, dh_len = 24, dh_block_id = block_id_of 0, dh_record_id = 0\<rparr>"
        "\<lparr>dh_method = 0, dh_error = 0, dh_len = 0, dh_block_id = 0, dh_record_id = 0\<rparr>"]
    by (auto simp: DATA_SERVER_METHOD_GET_def simp del: ctl_log.simps)
qed

text \<open>C38: A record sent by another node is not stored but read past its end: the length passed on counts
  the header, while the payload starts behind it.  This holds for every well-formed message
  that asks to store a record.\<close>

theorem data_server_put_overreads:
  assumes "ctl_log (c, w) ds" and "length d + 24 < 2 ^ 31 - 16"
    and "dh_method m = DATA_SERVER_METHOD_PUT" and "dh_len m = of_nat (length (enc_hdr m @ d))"
  shows "data_server_process (enc_hdr m @ d) send send_size c w = Undef"
  by (rule data_put_crashes [OF assms(1-3)]) (use assms(4) in \<open>simp add: add.commute\<close>)

theorem data_server_put_overreads_witness:
  "data_server_process (enc_hdr \<lparr>dh_method = 2, dh_error = 0, dh_len = 27, dh_block_id = 0, dh_record_id = 0\<rparr> @ [1, 2, 3])
     (\<lparr>dh_method = 0, dh_error = 0, dh_len = 0, dh_block_id = 0, dh_record_id = 0\<rparr>, []) 24 (fst ex_stored) (snd ex_stored) = Undef"
proof -
  have "ctl_log (fst ex_stored, snd ex_stored) [[7, 8]]" using ex_stored_log by simp
  then show ?thesis
    by (rule data_server_put_overreads) (simp_all add: DATA_SERVER_METHOD_PUT_def)
qed

text \<open>C39: The data server does not survive a message.  Whatever arrives, the round ends the process or runs
  into undefined behaviour, because every reply is sent and its memory freed again after it was
  handed over; no round leads to the next.\<close>

theorem data_server_stops_after_one:
  "data_server_round msg send c w \<noteq> Done (Goes_on send1 c1 w1)"
  by (rule round_ends)

text \<open>C40: A network failure is reported as a success.  When memory can be allocated, the buffer has room and
  no reply arrives, a fetch from another node still returns 0, and what it delivers comes from memory that was never written: if the error field of the
  header that happens to lie there is not 0, nothing is stored, otherwise the length found there, cut
  to the size of the buffer, is reported and the buffer is filled with the bytes that follow.\<close>

theorem remote_get_hides_failure:
  assumes "reliable (w_os w)" and "w_rv w (w_calls w + 3) \<noteq> 0"
    and "unat buf_len \<le> length buf" and "unat buf_len + 24 \<le> 1024 * 1024 * 10"
    and "hdr = dec_hdr (map (os_junk (w_os w)) [0..<24])" and "n = unat (data_min (dh_len hdr - 24) buf_len)"
  shows "\<exists>w'. controller_data_get ip bid rid buf buf_len w =
    (if dh_error hdr \<noteq> 0 then Done (0, None, buf, w')
     else Done (0, Some (of_nat n), map (os_junk (w_os w)) [24..<24 + n] @ drop n buf, w'))"
  by (rule remote_get_unanswered [OF assms])

theorem remote_get_hides_failure_witness:
  "\<exists>w'. controller_data_get 0x0100007F 5 6 [1, 2, 3] 2 (ex_world\<lparr>w_rv := (\<lambda>_. 6)\<rparr>) = Done (0, Some 2, [0, 0, 3], w')"
proof -
  let ?w = "ex_world\<lparr>w_rv := (\<lambda>_. 6)\<rparr>"
  have j: "os_junk (w_os ?w) = (\<lambda>_. 0)" by (simp add: ex_world_def fresh_os_def)
  have h: "dh_error (dec_hdr (map (os_junk (w_os ?w)) [0..<24])) = 0" "dh_len (dec_hdr (map (os_junk (w_os ?w)) [0..<24])) = 0"
    unfolding j by code_simp+
  have n: "2 = unat (data_min (dh_len (dec_hdr (map (os_junk (w_os ?w)) [0..<24])) - 24) 2)"
    unfolding h by code_simp
  have m: "map (os_junk (w_os ?w)) [24..<24 + 2] @ drop 2 [1, 2, 3] = [0, 0, 3 :: byte]" unfolding j by code_simp
  have r: "reliable (w_os ?w)" by (simp add: ex_world_def fresh_os_def reliable_def)
  show ?thesis
    using remote_get_hides_failure [OF r _ _ _ refl n, of "[1, 2, 3]" "0x0100007F" 5 6] h(1) m by simp
qed

end
