(* ===== verification/DhtSearchProps.thy ===== *)
theory DhtSearchProps
  imports DhtProps
begin

text \<open>
  What happens to searches: the blacklist takes nodes out of them, a reply may put them back,
  and a search nobody answers comes to its end.
\<close>

section \<open>Sending leaves the searches alone\<close>

definition search_part :: "dht \<Rightarrow> search list \<times> int \<times> dht_event list \<times> sockaddr list \<times> nat" where
  "search_part d = (d_searches d, d_now d, d_events d, d_blacklist d, d_next_blacklisted d)"

lemma send_parts_part: "send_parts sz ps c sa salen d = Some (rc, d1) \<Longrightarrow> search_part d1 = search_part d"
  by (auto simp: send_parts_def dht_send_def Let_def search_part_def split: option.splits bool.splits if_splits)

lemma set_table_part [simp]: "search_part (set_table af bs d) = search_part d"
  by (simp add: search_part_def set_table_def)

lemma send_cached_ping_part: "send_cached_ping af k d = Some (rc, d1) \<Longrightarrow> search_part d1 = search_part d"
  by (auto simp: send_cached_ping_def send_ping_def update_bucket_def Let_def bind_eq_Some_conv
      dest: send_parts_part split: if_splits)

lemma update_node_part [simp]: "search_part (update_node af kj f d) = search_part d"
  by (simp add: update_node_def Let_def)

lemma pinged_part: "pinged af kj b d = Some d1 \<Longrightarrow> search_part d1 = search_part d"
  by (auto simp: pinged_def Let_def dest: send_cached_ping_part split: if_splits option.splits)

lemma pinged_if_known_part: "pinged_if_known n d = Some d1 \<Longrightarrow> search_part d1 = search_part d"
  by (auto simp: pinged_if_known_def Let_def dest: pinged_part split: option.splits)

lemmas search_part_eq = search_part_def prod.inject

section \<open>The blacklist\<close>

lemma memcmp_refl [simp]: "memcmp xs xs = 0"
  by (induction xs) simp_all

text \<open>One blacklisting: the address goes into the next slot of the ring.\<close>

lemma blacklist_step:
  assumes d: "dht_ok d" and id: "is_id nid" and addr: "addr_ok sa salen"
  obtains d1 where "blacklist_node (Some nid) sa salen d = Some d1" and "dht_ok d1" and "dht_same d d1"
    and "d_searches d1 = map (\<lambda>sr. flush_loop nid sr 0) (d_searches d)"
    and "d_blacklist d1 = (d_blacklist d)[d_next_blacklisted d := copy_onto (d_blacklist d ! d_next_blacklisted d) sa salen]"
    and "d_next_blacklisted d1 = (d_next_blacklisted d + 1) mod 10"
proof -
  have "keeps dht_tables d (blacklist_node (Some nid) sa salen d)"
    by (rule blacklist_keeps [OF d]) (use id addr_okD(1) [OF addr] in auto)
  then obtain d1 where 1: "blacklist_node (Some nid) sa salen d = Some d1" "dht_ok d1" "dht_same d d1"
    by (auto simp: keeps_def)
  then obtain d0 where 0: "search_part d0 = search_part d" and 2: "d1 = (let d2 = d0\<lparr>d_searches := map (\<lambda>sr. flush_loop nid sr 0) (d_searches d0)\<rparr>
      in d2\<lparr>d_blacklist := (d_blacklist d2)[d_next_blacklisted d2 := copy_onto (d_blacklist d2 ! d_next_blacklisted d2) sa salen],
         d_next_blacklisted := (d_next_blacklisted d2 + 1) mod DHT_MAX_BLACKLISTED\<rparr>)"
    unfolding blacklist_node_def by (auto simp: bind_eq_Some_conv Let_def dest: pinged_part split: option.splits)
  then show thesis by (intro that [OF 1]) (simp_all add: search_part_eq Let_def DHT_MAX_BLACKLISTED_def)
qed

text \<open>An address stands in slot \<open>k\<close>; a state whose address does is one that refuses it.\<close>

definition in_slot :: "nat \<Rightarrow> sockaddr \<Rightarrow> nat \<Rightarrow> dht \<Rightarrow> bool" where
  "in_slot k sa salen d \<longleftrightarrow> k < 10 \<and> take salen (d_blacklist d ! k) = take salen sa"

lemma in_slot_refused:
  assumes "dht_ok d" and "addr_ok sa salen" and "in_slot k sa salen d"
  shows "node_blacklisted sa salen d = Some True"
proof -
  have n: "length (d_blacklist d) = DHT_MAX_BLACKLISTED" using assms(1) by (simp add: dht_ok_def)
  then have "d_blacklist d ! k \<in> set (d_blacklist d)" using assms(3) by (simp add: in_slot_def DHT_MAX_BLACKLISTED_def)
  then have "list_ex (\<lambda>b. memcmp (take salen b) (take salen sa) = 0) (take DHT_MAX_BLACKLISTED (d_blacklist d))"
    using assms(3) n by (auto simp: in_slot_def list_ex_iff intro!: bexI [of _ "d_blacklist d ! k"])
  then show ?thesis using addr_okD(3) [OF assms(2)] by (simp add: node_blacklisted_def dht_blacklisted_def)
qed

lemma blacklist_run:
  assumes d: "dht_ok d" and id: "is_id nid" and addr: "addr_ok sa salen" "salen \<le> length sa"
  obtains d1 where "blacklist_node (Some nid) sa salen d = Some d1" and "dht_ok d1" and "dht_same d d1"
    and "d_searches d1 = map (\<lambda>sr. flush_loop nid sr 0) (d_searches d)" and "node_blacklisted sa salen d1 = Some True"
    and "in_slot (d_next_blacklisted d) sa salen d1" and "d_next_blacklisted d1 = (d_next_blacklisted d + 1) mod 10"
proof -
  let ?next = "d_next_blacklisted d"
  have nx: "?next < 10" "length (d_blacklist d) = 10" using d by (simp_all add: dht_ok_def DHT_MAX_BLACKLISTED_def)
  obtain d1 where 1: "blacklist_node (Some nid) sa salen d = Some d1" "dht_ok d1" "dht_same d d1"
    "d_searches d1 = map (\<lambda>sr. flush_loop nid sr 0) (d_searches d)"
    "d_blacklist d1 = (d_blacklist d)[?next := copy_onto (d_blacklist d ! ?next) sa salen]" "d_next_blacklisted d1 = (?next + 1) mod 10"
    by (rule blacklist_step [OF d id addr(1)])
  have "in_slot ?next sa salen d1" using nx addr(2) by (simp add: in_slot_def 1(5) copy_onto_def)
  then show thesis using that [OF 1(1-4) in_slot_refused [OF 1(2) addr(1)]] 1(6) by blast
qed

text \<open>Several blacklistings, one after the other.\<close>

fun blacklist_all :: "(dht_id \<times> sockaddr \<times> nat) list \<Rightarrow> dht \<Rightarrow> dht option" where
  "blacklist_all [] d = Some d"
| "blacklist_all ((nid, sa, salen) # rest) d = Option.bind (blacklist_node (Some nid) sa salen d) (blacklist_all rest)"

text \<open>How many more of them slot \<open>k\<close> outlives when the next one goes to slot \<open>m\<close>.\<close>

definition slots_until :: "nat \<Rightarrow> nat \<Rightarrow> nat" where
  "slots_until k m = (if m \<le> k then k - m else k + 10 - m)"

lemma slots_until_step: "k < 10 \<Longrightarrow> m < 10 \<Longrightarrow> Suc n \<le> slots_until k m \<Longrightarrow> k \<noteq> m \<and> n \<le> slots_until k ((m + 1) mod 10)"
  by (cases "m = 9") (auto simp: slots_until_def split: if_splits)

lemma slots_until_full: "k < 10 \<Longrightarrow> slots_until k ((k + 1) mod 10) = 9"
  by (cases "k = 9") (auto simp: slots_until_def)

lemma in_slot_survives:
  "dht_ok d \<Longrightarrow> in_slot k sa salen d \<Longrightarrow> length others \<le> slots_until k (d_next_blacklisted d) \<Longrightarrow>
    \<forall>(i, a, n) \<in> set others. is_id i \<and> addr_ok a n \<Longrightarrow>
    \<exists>d2. blacklist_all others d = Some d2 \<and> dht_ok d2 \<and> in_slot k sa salen d2"
proof (induction others arbitrary: d)
  case (Cons x others)
  obtain i a n where x: "x = (i, a, n)" by (cases x)
  let ?next = "d_next_blacklisted d"
  have nx: "?next < 10" using Cons.prems(1) by (simp add: dht_ok_def DHT_MAX_BLACKLISTED_def)
  have k: "k < 10" using Cons.prems(2) by (simp add: in_slot_def)
  have ia: "is_id i" "addr_ok a n" using Cons.prems(4) by (simp_all add: x)
  obtain d1 where 1: "blacklist_node (Some i) a n d = Some d1" "dht_ok d1" "dht_same d d1"
    "d_searches d1 = map (\<lambda>sr. flush_loop i sr 0) (d_searches d)"
    "d_blacklist d1 = (d_blacklist d)[?next := copy_onto (d_blacklist d ! ?next) a n]" "d_next_blacklisted d1 = (?next + 1) mod 10"
    by (rule blacklist_step [OF Cons.prems(1) ia])
  have s: "k \<noteq> ?next \<and> length others \<le> slots_until k (d_next_blacklisted d1)"
    unfolding 1(6) by (rule slots_until_step [OF k nx]) (use Cons.prems(3) in simp)
  then have "in_slot k sa salen d1" using Cons.prems(2) by (simp add: in_slot_def 1(5))
  then show ?case using Cons.IH [OF 1(2)] s Cons.prems(4) by (simp add: x 1(1))
qed simp

lemma flushed_ids:
  "search_ok sr \<Longrightarrow> is_id nid \<Longrightarrow> map sn_id (sr_nodes (flush_loop nid sr 0)) = filter (\<lambda>x. x \<noteq> nid) (map sn_id (sr_nodes sr))"
  by (simp add: search_ok_flushed(1) filter_map comp_def)

text \<open>C25: Blacklisting a node in a reachable state returns; its address is refused afterwards, and still
  after up to nine further calls that blacklist any nodes, the ring having ten slots; its id is in no
  search, while every other candidate keeps its place.\<close>

theorem blacklist_removes:
  assumes "dht_reach d" and "is_id nid" and "addr_ok sa salen" and "salen \<le> length sa"
    and "length others \<le> 9" and "\<forall>(i, a, n) \<in> set others. is_id i \<and> addr_ok a n"
  shows "\<exists>d1 d2. blacklist_node (Some nid) sa salen d = Some d1 \<and> node_blacklisted sa salen d1 = Some True
    \<and> map (\<lambda>sr. map sn_id (sr_nodes sr)) (d_searches d1)
        = map (\<lambda>sr. filter (\<lambda>x. x \<noteq> nid) (map sn_id (sr_nodes sr))) (d_searches d)
    \<and> blacklist_all others d1 = Some d2 \<and> node_blacklisted sa salen d2 = Some True"
proof -
  note ok = dht_reach_ok [OF assms(1)]
  obtain d1 where 1: "blacklist_node (Some nid) sa salen d = Some d1" "dht_ok d1" "node_blacklisted sa salen d1 = Some True"
    "d_searches d1 = map (\<lambda>sr. flush_loop nid sr 0) (d_searches d)"
    "in_slot (d_next_blacklisted d) sa salen d1" "d_next_blacklisted d1 = (d_next_blacklisted d + 1) mod 10"
    using blacklist_run [OF ok assms(2-4)] by metis
  have "map (\<lambda>sr. map sn_id (sr_nodes sr)) (d_searches d1)
      = map (\<lambda>sr. filter (\<lambda>x. x \<noteq> nid) (map sn_id (sr_nodes sr))) (d_searches d)"
    unfolding 1(4) using flushed_ids [OF _ assms(2)] dht_okD [OF ok] by simp
  moreover have "length others \<le> slots_until (d_next_blacklisted d) (d_next_blacklisted d1)"
    using 1(5) assms(5) slots_until_full [of "d_next_blacklisted d"] by (simp add: 1(6) in_slot_def)
  from in_slot_survives [OF 1(2,5) this assms(6)] obtain d2 where "blacklist_all others d1 = Some d2"
    "node_blacklisted sa salen d2 = Some True" using in_slot_refused [OF _ assms(3)] by blast
  ultimately show ?thesis using 1(1,3) by blast
qed

theorem blacklist_removes_witness:
  "\<exists>d1 d2. blacklist_node (Some ex_id) ex_addr 16 ex_dht = Some d1 \<and> node_blacklisted ex_addr 16 d1 = Some True
    \<and> blacklist_all (replicate 9 (ex_id, make_sockaddr_in [192, 0, 2, 1] [1, 2], 16)) d1 = Some d2
    \<and> node_blacklisted ex_addr 16 d2 = Some True"
  using blacklist_removes [OF ex_reach _ ex_addr_ok(1), of ex_id "replicate 9 (ex_id, make_sockaddr_in [192, 0, 2, 1] [1, 2], 16)"]
    ex_addr_ok(3) sockaddr_in_ok [of "[1, 2]" "[192, 0, 2, 1]"]
  by (auto simp: ex_id_def addr_ok_def sizeof_sockaddr_storage_def)

text \<open>C36: A node is blacklisted for a malformed reply to a search, and the same reply then puts it
  back among the candidates: the handler goes on to the common end of a reply.\<close>

theorem blacklisted_node_returns:
  assumes "dht_reach d" and "message_ok m" and "addr_ok src srclen" and "srclen \<le> length src"
    and "tid_match (m_tid m) ''gp''" and "length (m_nodes m) mod 26 \<noteq> 0"
    and "find_search (tid_seqno (m_tid m)) (sa_family src) d = Some si"
    and "length (sr_nodes (d_searches d ! si)) < SEARCH_NODES"
  shows "\<exists>d1. handle_found m src srclen cb d = Some d1 \<and> node_blacklisted src srclen d1 = Some True
    \<and> m_id m \<in> sn_id ` set (sr_nodes (d_searches d1 ! si))"
proof -
  note ok = dht_reach_ok [OF assms(1)] and id = assms(2) [unfolded message_ok_def, THEN conjunct1]
  have si: "si < length (d_searches d)" by (rule find_search_bound [OF assms(7)])
  obtain d1 where 1: "blacklist_node (Some (m_id m)) src srclen d = Some d1" "node_blacklisted src srclen d1 = Some True"
    "d_searches d1 = map (\<lambda>sr. flush_loop (m_id m) sr 0) (d_searches d)"
    using blacklist_run [OF ok id assms(3,4)] by metis
  let ?sr = "flush_loop (m_id m) (d_searches d ! si) 0"
  note flush = search_ok_flushed [OF dht_ok_search [OF ok si] id]
  have sr: "d_searches d1 ! si = ?sr" using 1(3) si by simp
  have "length (sr_nodes ?sr) < SEARCH_NODES"
    using assms(8) length_filter_le by (simp add: flush(1)) (metis le_less_trans length_filter_le)
  have fam: "sa_family src = sr_af ?sr"
  proof -
    have "find_search_loop tid af srs = Some i \<Longrightarrow> sr_af (srs ! i) = af" for tid af srs i
      by (induction srs arbitrary: i) (auto split: if_splits)
    then show ?thesis using assms(7) by (simp add: find_search_def flush(1))
  qed
  let ?new = "snd (insert_search_node (m_id m) src srclen True (Some (m_token m)) (d_now d1) ?sr)"
  have keys: "map sn_id (sr_nodes ?new) = take SEARCH_NODES (near_insert (sr_id ?sr) (m_id m) (map sn_id (sr_nodes ?sr)))"
    by (rule insert_search_keys) (use flush(2) fam id in \<open>auto simp: search_ok_def search_node_ok_def\<close>)
  have "length (near_insert (sr_id ?sr) (m_id m) (map sn_id (sr_nodes ?sr))) \<le> SEARCH_NODES"
    using \<open>length (sr_nodes ?sr) < SEARCH_NODES\<close> by (simp add: near_insert_def length_insort)
  then have "m_id m \<in> set (map sn_id (sr_nodes ?new))" unfolding keys by simp
  then have again: "m_id m \<in> sn_id ` set (sr_nodes ?new)" by simp
  have "handle_found m src srclen cb d = Some (handle_values m src srclen si cb d1)"
    using assms(5-7) 1(1) by (simp add: handle_found_def)
  moreover have "d_blacklist (handle_values m src srclen si cb d1) = d_blacklist d1"
    "d_searches (handle_values m src srclen si cb d1) = (d_searches d1)[si := ?new]"
    using sr by (simp_all add: handle_values_def insert_into_search_def update_search_def Let_def dht_callback_def case_prod_beta)
  ultimately show ?thesis using 1(2,3) again si by (simp add: node_blacklisted_def split: if_splits)
qed


definition ex_searching :: dht where
  "ex_searching = snd (the (dht_search (replicate 20 0x33) 0 AF_INET True ex_dht))"

lemma ex_searching_reach: "dht_reach ex_searching"
proof -
  have "map_option fst (dht_search (replicate 20 0x33) 0 AF_INET True ex_dht) = Some 1" by code_simp
  then have "dht_search (replicate 20 0x33) 0 AF_INET True ex_dht = Some (1, ex_searching)" by (auto simp: ex_searching_def)
  then show ?thesis by (rule dht_reach.search [OF ex_reach, rotated 2]) simp_all
qed

definition ex_reply :: parsed_message where
  "ex_reply = parsed_zero\<lparr>m_tid := make_tid ''gp'' (sr_tid (hd (d_searches ex_searching))), m_id := replicate 20 0x44, m_nodes := [0]\<rparr>"

theorem blacklisted_node_returns_witness:
  "\<exists>d1. handle_found ex_reply ex_addr 16 True ex_searching = Some d1 \<and> node_blacklisted ex_addr 16 d1 = Some True
    \<and> replicate 20 0x44 \<in> sn_id ` set (sr_nodes (d_searches d1 ! 0))"
proof -
  have "message_ok ex_reply"
    using message_ok_zero by (simp add: message_ok_def ex_reply_def parsed_zero_def make_tid_def bytes_of_u16_def
        PARSE_TID_LEN_def PARSE_NODES_LEN_def bytes_of_string_def)
  moreover have "tid_match (m_tid ex_reply) ''gp''"
    and "find_search (tid_seqno (m_tid ex_reply)) (sa_family ex_addr) ex_searching = Some 0"
    and "length (sr_nodes (d_searches ex_searching ! 0)) < SEARCH_NODES" by code_simp+
  moreover have "length (m_nodes ex_reply) mod 26 \<noteq> 0" by (simp add: ex_reply_def)
  moreover have "16 \<le> length ex_addr" by (simp add: ex_addr_ok(3))
  ultimately have "\<exists>d1. handle_found ex_reply ex_addr 16 True ex_searching = Some d1 \<and> node_blacklisted ex_addr 16 d1 = Some True
    \<and> m_id ex_reply \<in> sn_id ` set (sr_nodes (d_searches d1 ! 0))"
    using ex_addr_ok(1) by (intro blacklisted_node_returns ex_searching_reach)
  then show ?thesis by (simp add: ex_reply_def)
qed

section \<open>A search ends\<close>

text \<open>The requests a node may still get.\<close>

definition pings_left :: "search_node list \<Rightarrow> nat" where
  "pings_left ns = sum_list (map (\<lambda>n. if sn_replied n then 0 else nat (3 - sn_pinged n)) ns)"

definition request_sent :: "int \<Rightarrow> search_node \<Rightarrow> search_node" where
  "request_sent now n = n\<lparr>sn_pinged := sn_pinged n + 1, sn_request_time := now\<rparr>"

lemma pings_left_sent:
  assumes "i < length ns" and "search_due now (ns ! i)"
  shows "pings_left (ns[i := request_sent now (ns ! i)]) < pings_left ns"
proof -
  have split: "take i ns @ ns ! i # drop (Suc i) ns = ns" by (rule id_take_nth_drop [OF assms(1), symmetric])
  have "pings_left (take i ns @ ns ! i # drop (Suc i) ns)
      = pings_left (take i ns) + nat (3 - sn_pinged (ns ! i)) + pings_left (drop (Suc i) ns)"
    using assms(2) by (simp add: pings_left_def search_due_def)
  then have "pings_left ns = pings_left (take i ns) + nat (3 - sn_pinged (ns ! i)) + pings_left (drop (Suc i) ns)"
    unfolding split .
  moreover have "ns[i := request_sent now (ns ! i)] = take i ns @ request_sent now (ns ! i) # drop (Suc i) ns"
    by (rule upd_conv_take_nth_drop [OF assms(1)])
  then have "pings_left (ns[i := request_sent now (ns ! i)])
      = pings_left (take i ns) + nat (3 - (sn_pinged (ns ! i) + 1)) + pings_left (drop (Suc i) ns)"
    using assms(2) by (simp add: pings_left_def search_due_def request_sent_def)
  ultimately show ?thesis using assms(2) by (simp add: search_due_def)
qed

lemma request_run:
  assumes d: "dht_ok d" and si: "si < length (d_searches d)" and i: "i < length (sr_nodes (d_searches d ! si))"
    and run: "search_send_get_peers si (Some i) d = Some (s, d1)"
  shows "if search_due (d_now d) (sr_nodes (d_searches d ! si) ! i)
    then s = 1 \<and> d_now d1 = d_now d \<and> d_searches d1 = (d_searches d)[si := (d_searches d ! si)\<lparr>sr_nodes :=
      (sr_nodes (d_searches d ! si))[i := request_sent (d_now d) (sr_nodes (d_searches d ! si) ! i)]\<rparr>]
    else s = 0 \<and> d1 = d"
proof (cases "search_due (d_now d) (sr_nodes (d_searches d ! si) ! i)")
  case False
  then show ?thesis using run by (simp add: search_send_get_peers_def Let_def)
next
  case True
  let ?n = "sr_nodes (d_searches d ! si) ! i"
  obtain rc d2 where 2: "search_part d2 = search_part d" "s = 1"
    "pinged_if_known ?n (update_search_node si i (\<lambda>n. n\<lparr>sn_pinged := sn_pinged n + 1, sn_request_time := d_now d2\<rparr>) d2) = Some d1"
    using run True by (auto simp: search_send_get_peers_def Let_def bind_eq_Some_conv send_get_peers_def dest: send_parts_part)
  from pinged_if_known_part [OF 2(3)] show ?thesis
    using True 2(1,2) by (simp add: search_part_eq update_search_node_def update_search_def request_sent_def)
qed


text \<open>What the rounds of a search keep: its other fields, and the nodes up to requests sent.\<close>

definition search_older :: "search \<Rightarrow> search \<Rightarrow> bool" where
  "search_older sr sr1 \<longleftrightarrow> sr_id sr1 = sr_id sr \<and> sr_af sr1 = sr_af sr \<and> sr_port sr1 = sr_port sr \<and> sr_done sr1 = sr_done sr
     \<and> sr_step_time sr1 = sr_step_time sr \<and> length (sr_nodes sr1) = length (sr_nodes sr)
     \<and> pings_left (sr_nodes sr1) \<le> pings_left (sr_nodes sr)"

lemma requests_run:
  assumes "dht_ok d" and "si < length (d_searches d)" and "\<forall>i \<in> set is. i < length (sr_nodes (d_searches d ! si))"
    and "distinct is" and "j < DHT_INFLIGHT_QUERIES" and "\<forall>n \<in> set (sr_nodes (d_searches d ! si)). sn_request_time n \<le> d_now d"
  shows "\<exists>d1. requests_loop si is j d = Some d1 \<and> dht_ok d1 \<and> d_now d1 = d_now d \<and> length (d_searches d1) = length (d_searches d)
    \<and> search_older (d_searches d ! si) (d_searches d1 ! si) \<and> (\<forall>n \<in> set (sr_nodes (d_searches d1 ! si)). sn_request_time n \<le> d_now d)
    \<and> ((\<exists>i \<in> set is. search_due (d_now d) (sr_nodes (d_searches d ! si) ! i)) \<longrightarrow>
        pings_left (sr_nodes (d_searches d1 ! si)) < pings_left (sr_nodes (d_searches d ! si)))"
  using assms
proof (induction "is" arbitrary: j d)
  case Nil
  then show ?case by (simp add: search_older_def)
next
  case (Cons i "is")
  note d = Cons.prems(1) and si = Cons.prems(2)
  let ?ns = "sr_nodes (d_searches d ! si)"
  have i: "i < length ?ns" using Cons.prems(3) by simp
  obtain s d1 where 1: "search_send_get_peers si (Some i) d = Some (s, d1)" "dht_ok d1"
    using search_send_keeps [OF d si, of "Some i"] i by (auto simp: keeps_def)
  note run = request_run [OF d si i 1(1)]
  show ?case
  proof (cases "search_due (d_now d) (?ns ! i)")
    case False
    then have e: "s = 0" "d1 = d" using run by simp_all
    have "requests_loop si (i # is) j d = requests_loop si is j d" using 1(1) e Cons.prems(5) by simp
    then show ?thesis using Cons.IH [OF d si _ _ Cons.prems(5,6)] Cons.prems(3,4) False by simp
  next
    case True
    let ?ms = "?ns[i := request_sent (d_now d) (?ns ! i)]"
    have e: "s = 1" "d_now d1 = d_now d" "length (d_searches d1) = length (d_searches d)"
      "d_searches d1 ! si = (d_searches d ! si)\<lparr>sr_nodes := ?ms\<rparr>"
      using run True si by simp_all
    have less: "pings_left ?ms < pings_left ?ns" by (rule pings_left_sent [OF i True])
    have times: "\<forall>n \<in> set ?ms. sn_request_time n \<le> d_now d"
      using Cons.prems(6) set_update_subset_insert [of ?ns i "request_sent (d_now d) (?ns ! i)"]
      by (auto simp: request_sent_def)
    show ?thesis
    proof (cases "DHT_INFLIGHT_QUERIES \<le> Suc j")
      case True
      then show ?thesis using 1 e less times by (simp add: search_older_def)
    next
      case False
      then have "requests_loop si (i # is) j d = requests_loop si is (Suc j) d1" using 1(1) e(1) by simp
      moreover have "\<exists>d2. requests_loop si is (Suc j) d1 = Some d2 \<and> dht_ok d2 \<and> d_now d2 = d_now d1
          \<and> length (d_searches d2) = length (d_searches d1) \<and> search_older (d_searches d1 ! si) (d_searches d2 ! si)
          \<and> (\<forall>n \<in> set (sr_nodes (d_searches d2 ! si)). sn_request_time n \<le> d_now d1)"
        using Cons.IH [OF 1(2), of "Suc j"] Cons.prems(3,4) si e times False by fastforce
      ultimately show ?thesis using e less by (fastforce simp: search_older_def)
    qed
  qed
qed

lemma not_all_done: "\<not> all_done_loop ns j \<Longrightarrow> \<exists>i < length ns. sn_pinged (ns ! i) < 3 \<and> \<not> sn_replied (ns ! i)"
proof (induction ns j rule: all_done_loop.induct)
  case (2 n ns j)
  show ?case
  proof (cases "sn_pinged n < 3 \<and> \<not> sn_replied n")
    case True
    then show ?thesis by (intro exI [of _ 0]) simp
  next
    case False
    then obtain i where "i < length ns" "sn_pinged (ns ! i) < 3" "\<not> sn_replied (ns ! i)"
      using 2 by (auto split: if_splits)
    then show ?thesis by (intro exI [of _ "Suc i"]) simp
  qed
qed simp


text \<open>A round: eleven seconds pass without a packet, and the search is stepped if it is not done.\<close>

fun search_rounds :: "nat \<Rightarrow> nat \<Rightarrow> bool \<Rightarrow> dht \<Rightarrow> dht option" where
  "search_rounds 0 si cb d = Some d"
| "search_rounds (Suc n) si cb d =
     (if sr_done (d_searches d ! si) then Some d
      else Option.bind (search_step si cb (d\<lparr>d_now := d_now d + 11\<rparr>)) (search_rounds n si cb))"

definition search_waiting :: "nat \<Rightarrow> dht \<Rightarrow> bool" where
  "search_waiting si d \<longleftrightarrow> dht_ok d \<and> si < length (d_searches d) \<and> sr_port (d_searches d ! si) = 0
     \<and> sr_step_time (d_searches d ! si) \<le> d_now d \<and> (\<forall>n \<in> set (sr_nodes (d_searches d ! si)). sn_request_time n \<le> d_now d)"

definition done_event :: "search \<Rightarrow> dht_event" where
  "done_event sr = \<lparr>ev_event = (if sr_af sr = AF_INET then DHT_EVENT_SEARCH_DONE else DHT_EVENT_SEARCH_DONE6),
     ev_info_hash = sr_id sr, ev_data = []\<rparr>"

lemma search_round:
  assumes w: "search_waiting si d" and going: "\<not> sr_done (d_searches d ! si)"
  obtains (ends) d1 where "search_step si True (d\<lparr>d_now := d_now d + 11\<rparr>) = Some d1" and "sr_done (d_searches d1 ! si)"
    and "done_event (d_searches d ! si) \<in> set (d_events d1)"
  | (waits) d1 where "search_step si True (d\<lparr>d_now := d_now d + 11\<rparr>) = Some d1" and "search_waiting si d1"
    and "\<not> sr_done (d_searches d1 ! si)" and "done_event (d_searches d1 ! si) = done_event (d_searches d ! si)"
    and "pings_left (sr_nodes (d_searches d1 ! si)) < pings_left (sr_nodes (d_searches d ! si))"
proof -
  let ?d = "d\<lparr>d_now := d_now d + 11\<rparr>" and ?sr = "d_searches d ! si"
  have d: "dht_ok ?d" and si: "si < length (d_searches d)" and p: "sr_port ?sr = 0"
    and t: "sr_step_time ?sr \<le> d_now d" "\<forall>n \<in> set (sr_nodes ?sr). sn_request_time n \<le> d_now d"
    using w by (simp_all add: search_waiting_def)
  show thesis
  proof (cases "all_done_loop (sr_nodes ?sr) 0")
    case True
    have "search_step si True ?d = Some (search_finish si True ?d)" using True p by (simp add: search_step_def)
    moreover have "sr_done (d_searches (search_finish si True ?d) ! si)"
      and "done_event ?sr \<in> set (d_events (search_finish si True ?d))"
      using si by (simp_all add: search_finish_def update_search_def dht_callback_def Let_def done_event_def)
    ultimately show ?thesis by (rule ends)
  next
    case False
    have "\<exists>i \<in> set [0..<length (sr_nodes ?sr)]. search_due (d_now d + 11) (sr_nodes ?sr ! i)"
    proof -
      obtain i where "i < length (sr_nodes ?sr)" "sn_pinged (sr_nodes ?sr ! i) < 3" "\<not> sn_replied (sr_nodes ?sr ! i)"
        using not_all_done [OF False] by blast
      moreover have "sn_request_time (sr_nodes ?sr ! i) \<le> d_now d" using t(2) calculation(1) by simp
      ultimately show ?thesis by (intro bexI [of _ i]) (simp_all add: search_due_def DHT_SEARCH_RETRANSMIT_def)
    qed
    moreover have "\<forall>n \<in> set (sr_nodes ?sr). sn_request_time n \<le> d_now d + 11" using t(2) by force
    ultimately obtain d1 where 1: "requests_loop si [0..<length (sr_nodes ?sr)] 0 ?d = Some d1" "dht_ok d1"
      "d_now d1 = d_now d + 11" "length (d_searches d1) = length (d_searches d)" "search_older ?sr (d_searches d1 ! si)"
      "\<forall>n \<in> set (sr_nodes (d_searches d1 ! si)). sn_request_time n \<le> d_now d + 11"
      "pings_left (sr_nodes (d_searches d1 ! si)) < pings_left (sr_nodes ?sr)"
      using requests_run [OF d, of si "[0..<length (sr_nodes ?sr)]" 0] si by (auto simp: DHT_INFLIGHT_QUERIES_def)
    let ?f = "\<lambda>sr. sr\<lparr>sr_step_time := d_now d1\<rparr>"
    let ?d2 = "update_search si ?f d1"
    have si1: "si < length (d_searches d1)" using si 1(4) by simp
    have ok2: "dht_ok ?d2" using keep_search_fields(1) [where f = ?f, OF 1(2) si1] by simp
    have sr2: "d_searches ?d2 ! si = ?f (d_searches d1 ! si)" "d_now ?d2 = d_now d + 11" "length (d_searches ?d2) = length (d_searches d)"
      using si1 1(3,4) by (simp_all add: update_search_def)
    have "search_step si True ?d = Some ?d2"
      using False t(1) 1(1) by (simp add: search_step_def Let_def DHT_SEARCH_RETRANSMIT_def)
    moreover have "search_waiting si ?d2"
      using ok2 sr2 1(3,5,6) p si by (simp add: search_waiting_def search_older_def)
    moreover have "\<not> sr_done (d_searches ?d2 ! si)" "done_event (d_searches ?d2 ! si) = done_event ?sr"
      "pings_left (sr_nodes (d_searches ?d2 ! si)) < pings_left (sr_nodes ?sr)"
      using sr2 1(5,7) going by (simp_all add: search_older_def done_event_def)
    ultimately show ?thesis by (rule waits)
  qed
qed

lemma search_rounds_end:
  assumes "search_waiting si d" and "\<not> sr_done (d_searches d ! si)" and "pings_left (sr_nodes (d_searches d ! si)) \<le> m"
  shows "\<exists>d1. search_rounds (Suc m) si True d = Some d1 \<and> sr_done (d_searches d1 ! si)
    \<and> done_event (d_searches d ! si) \<in> set (d_events d1)"
  using assms
proof (induction m arbitrary: d)
  case 0
  from 0(1,2) show ?case
  proof (cases rule: search_round)
    case (ends d1)
    then show ?thesis using 0(2) by simp
  next
    case (waits d1)
    then show ?thesis using 0(3) by simp
  qed
next
  case (Suc m)
  from Suc.prems(1,2) show ?case
  proof (cases rule: search_round)
    case (ends d1)
    then show ?thesis using Suc.prems(2) by simp
  next
    case (waits d1)
    then have "\<exists>d2. search_rounds (Suc m) si True d1 = Some d2 \<and> sr_done (d_searches d2 ! si)
        \<and> done_event (d_searches d1 ! si) \<in> set (d_events d2)"
      using Suc.prems(3) by (intro Suc.IH) simp_all
    then show ?thesis using waits(1,4) Suc.prems(2) by (subst search_rounds.simps(2)) auto
  qed
qed

text \<open>C16: A search that nobody answers ends: each round sends at least one of the at most three
  requests each candidate may get, so after as many rounds as requests are left, and one, the
  search is done and the callback has been told.\<close>

theorem search_ends:
  assumes "dht_reach d" and "si < length (d_searches d)" and "\<not> sr_done (d_searches d ! si)" and "sr_port (d_searches d ! si) = 0"
    and "sr_step_time (d_searches d ! si) \<le> d_now d" and "\<forall>n \<in> set (sr_nodes (d_searches d ! si)). sn_request_time n \<le> d_now d"
  shows "\<exists>d1. search_rounds (Suc (pings_left (sr_nodes (d_searches d ! si)))) si True d = Some d1
    \<and> sr_done (d_searches d1 ! si) \<and> done_event (d_searches d ! si) \<in> set (d_events d1)"
  by (rule search_rounds_end) (use assms dht_reach_ok in \<open>simp_all add: search_waiting_def\<close>)

text \<open>A search started when the table has a node.\<close>

definition ex_learned :: dht where
  "ex_learned = (case new_node_visit (replicate 20 0x44) ex_addr 16 0 0 ex_dht of
     Some (Stop r d1) \<Rightarrow> d1 | _ \<Rightarrow> ex_dht)"

definition ex_asking :: dht where
  "ex_asking = snd (the (dht_search (replicate 20 0x33) 0 AF_INET True ex_learned))"

lemma ex_asking_reach: "dht_reach ex_asking"
proof -
  have v: "(case new_node_visit (replicate 20 0x44) ex_addr 16 0 0 ex_dht of Some (Stop r d1) \<Rightarrow> r | _ \<Rightarrow> False) = True"
    by code_simp
  have "find_bucket (replicate 20 0x44) (dht_table (sa_family ex_addr) ex_dht) = Some 0"
    "id_cmp (replicate 20 0x44) (d_myid ex_dht) = 0 \<longleftrightarrow> False" "is_martian ex_addr = False"
    "node_blacklisted ex_addr 16 ex_dht = Some False" by code_simp+
  then have "new_node (replicate 20 0x44) ex_addr 16 0 ex_dht = Some (True, ex_learned)"
    using v by (subst new_node.simps) (simp add: ex_learned_def split: option.splits visit.splits)
  then have "dht_insert_node (replicate 20 0x44) ex_addr 16 ex_dht = Some (1, ex_learned)"
    by (simp add: dht_insert_node_def ex_addr_ok(2))
  then have d: "dht_reach ex_learned" by (rule dht_reach.insert [OF ex_reach _ ex_addr_ok(1), rotated]) simp
  have "map_option fst (dht_search (replicate 20 0x33) 0 AF_INET True ex_learned) = Some 1" by code_simp
  then have "dht_search (replicate 20 0x33) 0 AF_INET True ex_learned = Some (1, ex_asking)" by (auto simp: ex_asking_def)
  then show ?thesis by (rule dht_reach.search [OF d, rotated 2]) simp_all
qed

theorem search_ends_witness:
  "\<exists>d1. search_rounds 3 0 True ex_asking = Some d1 \<and> sr_done (d_searches d1 ! 0)
    \<and> done_event (d_searches ex_asking ! 0) \<in> set (d_events d1)"
proof -
  have "map (\<lambda>sr. (sr_done sr, sr_port sr, sr_step_time sr, pings_left (sr_nodes sr), map sn_request_time (sr_nodes sr)))
      (d_searches ex_asking) = [(False, 0, 1000, 2, [1000])] \<and> d_now ex_asking = 1000" by code_simp
  then obtain sr where sr: "d_searches ex_asking = [sr]" "\<not> sr_done sr" "sr_port sr = 0" "sr_step_time sr = 1000"
    "pings_left (sr_nodes sr) = 2" "map sn_request_time (sr_nodes sr) = [1000]" and now: "d_now ex_asking = 1000"
    by (auto simp: map_eq_Cons_conv)
  have w: "0 < length (d_searches ex_asking)" "\<not> sr_done (d_searches ex_asking ! 0)" "sr_port (d_searches ex_asking ! 0) = 0"
    "sr_step_time (d_searches ex_asking ! 0) \<le> d_now ex_asking"
    "\<forall>n \<in> set (sr_nodes (d_searches ex_asking ! 0)). sn_request_time n \<le> d_now ex_asking"
    "Suc (pings_left (sr_nodes (d_searches ex_asking ! 0))) = 3" using sr now by auto
  from search_ends [OF ex_asking_reach w(1-5)] show ?thesis unfolding w(6) .
qed


section \<open>Searches that crash\<close>

lemma oldest_none: "\<forall>sr \<in> set srs. \<not> sr_done sr \<Longrightarrow> oldest_done srs i None = None"
  by (induction srs arbitrary: i) simp_all

text \<open>C33: Starting a search crashes when a new slot is needed, none can be allocated and no search is
  done: the code reads through the null pointer of the oldest search.\<close>

theorem search_without_slot_crashes:
  assumes "dht_table af d \<noteq> []" and "same_search nid af (d_searches d) = None" and "\<forall>sr \<in> set (d_searches d). \<not> sr_done sr"
    and "DHT_MAX_SEARCHES \<le> d_numsearches d \<or> \<not> d_alloc d (d_alloc_pos d)"
  shows "dht_search nid port af cb d = None"
proof -
  define d0 where "d0 = (if cb then (case find_storage nid d of
      None \<Rightarrow> d | Some s \<Rightarrow> local_values nid (st_peers (d_storage d ! s)) d) else d)"
  have d0: "d_searches d0 = d_searches d" "d_numsearches d0 = d_numsearches d" "d_alloc d0 = d_alloc d" "d_alloc_pos d0 = d_alloc_pos d"
    using local_values_frame by (simp_all add: d0_def split: option.split)
  have "new_search d0 = None"
    using oldest_none [OF assms(3), of 0] assms(4) d0 by (auto simp: new_search_def c_calloc_def Let_def)
  then have "search_slot nid af d0 = None" using assms(2) d0(1) by (simp add: search_slot_def)
  moreover obtain k where "find_bucket nid (dht_table af d) = Some k" using assms(1) by (simp add: find_bucket_def)
  ultimately show ?thesis unfolding dht_search_def Let_def d0_def [symmetric] by simp
qed

theorem search_without_slot_crashes_witness:
  "dht_search (replicate 20 0x33) 0 AF_INET True (ex_dht\<lparr>d_alloc := (\<lambda>n. False)\<rparr>) = None"
proof (rule search_without_slot_crashes)
  show "dht_table AF_INET (ex_dht\<lparr>d_alloc := (\<lambda>n. False)\<rparr>) \<noteq> []"
  proof -
    have "length (dht_table AF_INET (ex_dht\<lparr>d_alloc := (\<lambda>n. False)\<rparr>)) = 1" by code_simp
    then show ?thesis by auto
  qed
  have "length (d_searches ex_dht) = 0" by code_simp
  then have e: "d_searches (ex_dht\<lparr>d_alloc := (\<lambda>n. False)\<rparr>) = []" by simp
  show "same_search (replicate 20 0x33) AF_INET (d_searches (ex_dht\<lparr>d_alloc := (\<lambda>n. False)\<rparr>)) = None"
    "\<forall>sr \<in> set (d_searches (ex_dht\<lparr>d_alloc := (\<lambda>n. False)\<rparr>)). \<not> sr_done sr" unfolding e by simp_all
qed simp

text \<open>C34: The lookup the controller makes never succeeds: it ignores the block and the record asked for,
  returns \<open>EINVAL\<close> when it returns, and with an empty table it crashes, since its callback reads
  the data of an event that has none.\<close>

theorem list_lookup_fails:
  "(\<forall>rc ip1 d1. dht_list_get_node block_id record_id ip d = Some (rc, ip1, d1) \<longrightarrow>
       rc = EINVAL_dht \<and> dht_list_get_node block_id2 record_id2 ip d = Some (rc, ip1, d1))
    \<and> (d_buckets d = [b] \<and> b_nodes b = [] \<and> d_searches d = [] \<and> d_storage d = [] \<and> d_numsearches d < DHT_MAX_SEARCHES
         \<and> d_alloc d (d_alloc_pos d) \<longrightarrow> dht_list_get_node block_id record_id ip d = None)"
proof (intro conjI allI impI)
  fix rc ip1 d1
  assume "dht_list_get_node block_id record_id ip d = Some (rc, ip1, d1)"
  then show "rc = EINVAL_dht" "dht_list_get_node block_id2 record_id2 ip d = Some (rc, ip1, d1)"
    by (auto simp: dht_list_get_node_def bind_eq_Some_conv case_prod_beta)
next
  assume a: "d_buckets d = [b] \<and> b_nodes b = [] \<and> d_searches d = [] \<and> d_storage d = [] \<and> d_numsearches d < DHT_MAX_SEARCHES
    \<and> d_alloc d (d_alloc_pos d)"
  have t: "dht_table AF_INET d = [b]" using a by (simp add: dht_table_def)
  have k: "find_bucket nid [b] = Some 0" for nid by (simp add: find_bucket_def)
  let ?sr = "search_zero\<lparr>sr_af := AF_INET, sr_tid := d_search_id d, sr_id := take 20 dht_list_hash, sr_port := 0\<rparr>"
  obtain d1 where d1: "dht_search dht_list_hash 0 AF_INET True d = Some (1, d1)"
    "d_events d1 = d_events d @ [\<lparr>ev_event = DHT_EVENT_SEARCH_DONE, ev_info_hash = take 20 dht_list_hash, ev_data = []\<rparr>]"
    using a t k by (simp add: dht_search_def find_storage_def search_slot_def new_search_def c_calloc_def update_search_def
        fill_search_def insert_search_bucket_def previous_bucket_def search_step_def search_finish_def dht_callback_def
        dht_table_def search_zero_def SEARCH_NODES_def Let_def)
  obtain rest d2 where "stack_bytes 12 d1 = (rest, d2)" by fastforce
  then show "dht_list_get_node block_id record_id ip d = None"
    using d1 by (simp add: dht_list_get_node_def get_data_callback_def)
qed

theorem list_lookup_fails_witness: "dht_list_get_node 1 2 [0, 0, 0, 0] ex_dht = None"
proof -
  have "map (\<lambda>b. length (b_nodes b)) (d_buckets ex_dht) = [0] \<and> length (d_searches ex_dht) = 0 \<and> length (d_storage ex_dht) = 0
    \<and> d_numsearches ex_dht < DHT_MAX_SEARCHES \<and> d_alloc ex_dht (d_alloc_pos ex_dht)" by code_simp
  then obtain b where "d_buckets ex_dht = [b]" "b_nodes b = []" "d_searches ex_dht = []" "d_storage ex_dht = []"
    "d_numsearches ex_dht < DHT_MAX_SEARCHES" "d_alloc ex_dht (d_alloc_pos ex_dht)" by (auto simp: map_eq_Cons_conv)
  then show ?thesis using list_lookup_fails [where d = ex_dht and b = b and block_id = 1 and record_id = 2 and ip = "[0, 0, 0, 0]"]
    by blast
qed

end
