(* ===== verification/DhtStorageProps.thy ===== *)
theory DhtStorageProps
  imports DhtProps "HOL-Library.Multiset"
begin

text \<open>
  The storage of peers as a map from hashes to peers, the expiry of old peers, the tokens that
  are to guard it, and the rate limit.
\<close>

section \<open>The storage as a map\<close>

definition dht_peers :: "dht \<Rightarrow> dht_id \<Rightarrow> peer list" where
  "dht_peers d nid = (case map_of (map (\<lambda>st. (st_id st, st_peers st)) (d_storage d)) nid of None \<Rightarrow> [] | Some ps \<Rightarrow> ps)"

definition peers_of :: "storage list \<Rightarrow> dht_id \<Rightarrow> peer list" where
  "peers_of sts nid = (case map_of (map (\<lambda>st. (st_id st, st_peers st)) sts) nid of None \<Rightarrow> [] | Some ps \<Rightarrow> ps)"

lemma dht_peers_of: "dht_peers d = peers_of (d_storage d)"
  by (simp add: fun_eq_iff dht_peers_def peers_of_def)

lemma peers_of_Cons: "peers_of (st # sts) nid = (if st_id st = nid then st_peers st else peers_of sts nid)"
  by (simp add: peers_of_def)

lemma peers_of_nth: "distinct (map st_id sts) \<Longrightarrow> k < length sts \<Longrightarrow> peers_of sts (st_id (sts ! k)) = st_peers (sts ! k)"
proof (induction sts arbitrary: k)
  case (Cons st sts)
  show ?case
  proof (cases k)
    case (Suc j)
    then have "st_id (sts ! j) \<noteq> st_id st" using Cons.prems by (metis distinct.simps(2) length_Cons length_map list.simps(9) not_less_eq nth_map nth_mem)
    then show ?thesis using Cons Suc by (simp add: peers_of_Cons)
  qed (simp add: peers_of_Cons)
qed simp

lemma peers_of_update:
  "distinct (map st_id sts) \<Longrightarrow> k < length sts \<Longrightarrow> st_id st = st_id (sts ! k) \<Longrightarrow>
    peers_of (sts[k := st]) = (peers_of sts)(st_id st := st_peers st)"
proof (induction sts arbitrary: k)
  case (Cons a sts)
  show ?case
  proof (cases k)
    case 0
    then show ?thesis using Cons.prems by (simp add: fun_eq_iff peers_of_Cons)
  next
    case (Suc j)
    then have "st_id st \<noteq> st_id a" using Cons.prems by (metis distinct.simps(2) length_Cons length_map list.simps(9) not_less_eq nth_Cons_Suc nth_map nth_mem)
    then show ?thesis using Cons.IH [of j] Cons.prems Suc by (auto simp: fun_eq_iff peers_of_Cons)
  qed
qed simp

lemma peers_of_none: "nid \<notin> st_id ` set sts \<Longrightarrow> peers_of sts nid = []"
  by (induction sts) (auto simp: peers_of_Cons peers_of_def)

text \<open>Storing a peer into a map: refresh it, append it, or refuse it.\<close>

definition new_peer :: "int \<Rightarrow> sockaddr \<Rightarrow> nat \<Rightarrow> peer" where
  "new_peer now sa port =
     \<lparr>p_time = now, p_ip = (if sa_family sa = AF_INET then sin_addr sa else sin6_addr sa),
      p_len = (if sa_family sa = AF_INET then 4 else 16), p_port = port\<rparr>"

text \<open>
  Two entries for the same place: the same port, the same kind of address, and the same bytes,
  compared pair by pair.  \<open>refresh_peer\<close> sets the time of the first entry for a place.
\<close>

definition same_address :: "peer \<Rightarrow> peer \<Rightarrow> bool" where
  "same_address p q \<longleftrightarrow> p_port p = p_port q \<and> p_len p = p_len q
     \<and> (\<forall>(a, b) \<in> set (zip (take (p_len p) (p_ip p)) (take (p_len p) (p_ip q))). a = b)"

definition peer_known :: "peer \<Rightarrow> peer list \<Rightarrow> bool" where
  "peer_known p ps \<longleftrightarrow> (\<exists>q \<in> set ps. same_address p q)"

fun refresh_peer :: "int \<Rightarrow> peer \<Rightarrow> peer list \<Rightarrow> peer list" where
  "refresh_peer now p [] = []"
| "refresh_peer now p (q # qs) = (if same_address p q then q\<lparr>p_time := now\<rparr> # qs else q # refresh_peer now p qs)"

lemma memcmp_zero: "memcmp xs ys = 0 \<longleftrightarrow> (\<forall>(a, b) \<in> set (zip xs ys). a = b)"
  by (induction xs ys rule: memcmp.induct) (auto simp: not_less_iff_gr_or_eq)

lemma zip_agree_sym: "(\<forall>(a, b) \<in> set (zip xs ys). a = b) \<longleftrightarrow> (\<forall>(a, b) \<in> set (zip ys xs). a = b)"
  by (induction xs ys rule: list_induct2') auto

lemma same_peer_address: "same_peer (p_ip p) (p_len p) (p_port p) q \<longleftrightarrow> same_address p q"
  unfolding same_peer_def same_address_def memcmp_zero zip_agree_sym [of "take (p_len p) (p_ip p)"]
  by auto

lemma find_peer_known: "find_peer (p_ip p) (p_len p) (p_port p) ps < length ps \<longleftrightarrow> peer_known p ps"
  by (induction ps) (auto simp: same_peer_address peer_known_def)

lemma find_peer_unknown: "\<not> peer_known p ps \<Longrightarrow> find_peer (p_ip p) (p_len p) (p_port p) ps = length ps"
  by (induction ps) (auto simp: same_peer_address peer_known_def)

lemma find_peer_refresh:
  "peer_known p ps \<Longrightarrow> i = find_peer (p_ip p) (p_len p) (p_port p) ps \<Longrightarrow> ps[i := (ps ! i)\<lparr>p_time := now\<rparr>] = refresh_peer now p ps"
  by (induction ps arbitrary: i) (auto simp: same_peer_address peer_known_def)

lemma length_refresh_peer [simp]: "length (refresh_peer now p ps) = length ps"
  by (induction ps) auto

lemma take_ip: "take (if sa_family sa = AF_INET then 4 else 16) (if sa_family sa = AF_INET then sin_addr sa else sin6_addr sa)
    = (if sa_family sa = AF_INET then sin_addr sa else sin6_addr sa)"
  by (simp add: sin_addr_def sin6_addr_def)

text \<open>What becomes of the peers of one hash; \<open>refused\<close> says why a peer may be refused.\<close>

definition peer_put :: "peer \<Rightarrow> bool \<Rightarrow> peer list \<Rightarrow> int \<Rightarrow> peer list \<Rightarrow> bool" where
  "peer_put p refused ps rc ps1 \<longleftrightarrow>
     (if peer_known p ps then rc = 0 \<and> ps1 = refresh_peer (p_time p) p ps
      else if length ps = 2048 then rc = 0 \<and> ps1 = ps
      else (rc = 1 \<and> ps1 = ps @ [p]) \<or> (rc = - 1 \<and> ps1 = ps \<and> refused))"

lemma peer_put_mono: "peer_put p a ps rc ps1 \<Longrightarrow> (a \<Longrightarrow> b) \<Longrightarrow> peer_put p b ps rc ps1"
  by (auto simp: peer_put_def split: if_splits)

lemma storage_put_peers:
  assumes "st_ok st" and "storage_put (p_time p) (p_ip p) (p_len p) (p_port p) ok st = (rc, st1)" and "take (p_len p) (p_ip p) = p_ip p"
  shows "peer_put p (\<not> ok) (st_peers st) rc (st_peers st1)"
proof (cases "peer_known p (st_peers st)")
  case True
  then show ?thesis
    using assms(2) find_peer_known [of p "st_peers st"] find_peer_refresh [OF True refl, of "p_time p"]
    by (auto simp: storage_put_def peer_put_def Let_def)
next
  case False
  then show ?thesis
    using assms find_peer_unknown [OF False]
    by (auto simp: storage_put_def peer_put_def Let_def st_ok_def DHT_MAX_PEERS_def split: if_splits)
qed

lemma storage_put_at_peers:
  assumes d: "dht_ok d" and k: "k < length (d_storage d)" and p: "take (p_len p) (p_ip p) = p_ip p" "p_time p = d_now d"
    and run: "storage_put_at k (p_ip p) (p_len p) (p_port p) d = (rc, d1)"
    and nid: "nid = st_id (d_storage d ! k)"
  shows "\<exists>ps1. dht_peers d1 = (dht_peers d)(nid := ps1) \<and> peer_put p (\<exists>n. \<not> d_alloc d n) (dht_peers d nid) rc ps1"
proof -
  have "storage_ok (d_storage d) (d_numstorage d)" using d by (simp add: dht_ok_def)
  note st = this [unfolded storage_ok_alt]
  obtain ok d0 where c: "(if storage_grows (p_ip p) (p_len p) (p_port p) (d_storage d ! k) then c_calloc d else (True, d)) = (ok, d0)"
    by fastforce
  then have d0: "d_storage d0 = d_storage d" "\<not> ok \<Longrightarrow> \<exists>n. \<not> d_alloc d n" by (auto simp: c_calloc_def split: if_splits)
  obtain st1 where s: "storage_put (d_now d) (p_ip p) (p_len p) (p_port p) ok (d_storage d ! k) = (rc, st1)"
    and d1: "d1 = d0\<lparr>d_storage := (d_storage d0)[k := st1]\<rparr>"
    using run c by (auto simp: storage_put_at_def Let_def split: prod.splits)
  have ok: "st_ok (d_storage d ! k)" using st k by simp
  have id: "st_id st1 = nid" using storage_put_ok(2) [OF ok s] by (simp add: nid)
  have "dht_peers d1 = (dht_peers d)(nid := st_peers st1)"
    using peers_of_update [of "d_storage d" k st1] st k id by (simp add: dht_peers_of d1 d0 nid)
  moreover have "dht_peers d nid = st_peers (d_storage d ! k)"
    using peers_of_nth [of "d_storage d" k] st k by (simp add: dht_peers_of nid)
  ultimately show ?thesis
    using peer_put_mono [OF storage_put_peers [OF ok _ p(1), of ok rc st1]] s p(2) d0(2) by auto
qed

lemma storage_store_put:
  assumes ok: "dht_ok d" and nid: "is_id nid" and af: "sa_family sa = AF_INET \<or> sa_family sa = AF_INET6"
    and run: "storage_store nid sa port d = (rc, d1)" and p: "p = new_peer (d_now d) sa port"
  shows "\<exists>ps1. dht_peers d1 = (dht_peers d)(nid := ps1)
    \<and> peer_put p ((\<exists>n. \<not> d_alloc d n) \<or> (nid \<notin> st_id ` set (d_storage d) \<and> length (d_storage d) = 16384)) (dht_peers d nid) rc ps1"
proof -
  have "storage_ok (d_storage d) (d_numstorage d)" using ok by (simp add: dht_ok_def)
  note st = this [unfolded storage_ok_alt]
  have ip: "take (p_len p) (p_ip p) = p_ip p" "p_time p = d_now d" using take_ip [of sa] by (simp_all add: p new_peer_def)
  show ?thesis
  proof (cases "find_storage nid d")
    case (Some k)
    then have k: "k < length (d_storage d)" "nid = st_id (d_storage d ! k)"
      using find_storage_loop_some storage_ids [OF ok] nid unfolding find_storage_def by blast+
    have "storage_put_at k (p_ip p) (p_len p) (p_port p) d = (rc, d1)"
      using af run Some by (auto simp: storage_store_def new_peer_def p)
    then show ?thesis
      using storage_put_at_peers [OF ok k(1) ip _ k(2)] peer_put_mono by (metis (no_types, lifting))
  next
    case None
    have new: "nid \<notin> st_id ` set (d_storage d)"
      using find_storage_loop_none storage_ids [OF ok] nid None unfolding find_storage_def by blast
    then have ps: "dht_peers d nid = []" using peers_of_none by (simp add: dht_peers_of)
    obtain al d0 where c: "c_calloc d = (al, d0)" by fastforce
    then have d0: "dht_ok d0" "d_storage d0 = d_storage d" "d_numstorage d0 = d_numstorage d" "d_now d0 = d_now d"
      "d_alloc d0 = d_alloc d" "\<not> al \<Longrightarrow> \<exists>n. \<not> d_alloc d n"
      using ok by (auto simp: c_calloc_def)
    show ?thesis
    proof (cases "\<not> DHT_MAX_HASHES \<le> d_numstorage d \<and> al")
      case False
      then have r: "rc = - 1 \<and> d_storage d1 = d_storage d"
        using af run None c d0(2) by (auto simp: storage_store_def split: if_splits)
      have "length (d_storage d) = 16384 \<or> \<not> al" using False st by (auto simp: DHT_MAX_HASHES_def)
      then show ?thesis
        using r new d0(6) fun_upd_triv [of "dht_peers d" nid] ps
        by (intro exI [of _ "[]"]) (auto simp: dht_peers_of peer_put_def peer_known_def)
    next
      case True
      let ?st = "\<lparr>st_id = take 20 nid, st_maxpeers = 0, st_peers = []\<rparr>"
      let ?d2 = "d0\<lparr>d_storage := ?st # d_storage d0, d_numstorage := d_numstorage d0 + 1\<rparr>"
      have "storage_ok (?st # d_storage d0) (d_numstorage d0 + 1)"
        using True d0(2,3) st nid new by (auto simp: storage_ok_alt st_ok_def)
      then have d2: "dht_ok ?d2" by (rule dht_ok_storage(1) [OF d0(1)])
      have run0: "storage_put_at 0 (p_ip p) (p_len p) (p_port p) ?d2 = (rc, d1)"
        using af run None c True by (auto simp: storage_store_def new_peer_def p)
      have same: "dht_peers ?d2 = dht_peers d"
        using peers_of_none [OF new] nid d0(2) by (auto simp: fun_eq_iff dht_peers_of peers_of_Cons)
      obtain ps1 where "dht_peers d1 = (dht_peers d)(nid := ps1)" "peer_put p (\<exists>n. \<not> d_alloc d n) (dht_peers d nid) rc ps1"
        using storage_put_at_peers [OF d2 _ ip(1) _ run0, of nid] ip(2) same nid d0(4,5) by auto
      then show ?thesis using peer_put_mono by blast
    qed
  qed
qed

text \<open>The invariant bounds the peers of every hash.\<close>

lemma dht_peers_bound:
  assumes "dht_ok d"
  shows "length (dht_peers d h) \<le> 2048"
proof -
  have "\<forall>st \<in> set (d_storage d). length (st_peers st) \<le> 2048"
    using assms by (auto simp: dht_ok_def storage_ok_def DHT_MAX_PEERS_def dest!: bspec)
  then have "length (peers_of sts h) \<le> 2048" if "set sts \<subseteq> set (d_storage d)" for sts
    using that by (induction sts) (auto simp: peers_of_Cons peers_of_def)
  then show ?thesis by (simp add: dht_peers_of)
qed

text \<open>C15: The storage is a map from hashes to at most 2048 peers.  Storing a peer changes no other hash.
  Under its own hash, a peer with the same address and port is refreshed, the first one, and the result
  is 0; otherwise a hash with 2048 peers stays as it is, with result 0, and one with fewer gets
  the peer appended, with result 1, or is refused with -1 and no change, which only happens when
  an allocation fails or when there are 16384 hashes and this one is new.\<close>

theorem storage_store_refines:
  assumes "dht_reach d" and "is_id nid" and "sa_family sa = AF_INET \<or> sa_family sa = AF_INET6"
    and "storage_store nid sa port d = (rc, d1)"
    and "p = new_peer (d_now d) sa port" and "ps = dht_peers d nid"
  shows "(if \<exists>q \<in> set ps. same_address p q
      then rc = 0 \<and> dht_peers d1 = (dht_peers d)(nid := refresh_peer (d_now d) p ps)
      else if length ps = 2048 then rc = 0 \<and> dht_peers d1 = dht_peers d
      else (rc = 1 \<and> dht_peers d1 = (dht_peers d)(nid := ps @ [p]))
        \<or> (rc = - 1 \<and> dht_peers d1 = dht_peers d
            \<and> ((\<exists>n. \<not> d_alloc d n) \<or> (nid \<notin> st_id ` set (d_storage d) \<and> length (d_storage d) = 16384))))
    \<and> (\<forall>h. length (dht_peers d1 h) \<le> 2048)"
proof -
  note ok = dht_reach_ok [OF assms(1)]
  have bound: "length (dht_peers d1 h) \<le> 2048" for h
    using dht_peers_bound [OF storage_store_ok(1) [OF ok assms(2)], of sa port h] assms(4) by simp
  obtain ps1 where "dht_peers d1 = (dht_peers d)(nid := ps1)"
    "peer_put p ((\<exists>n. \<not> d_alloc d n) \<or> (nid \<notin> st_id ` set (d_storage d) \<and> length (d_storage d) = 16384)) ps rc ps1"
    using storage_store_put [OF ok assms(2-5)] unfolding assms(6) by blast
  then show ?thesis
    using bound fun_upd_triv [of "dht_peers d" nid]
    by (auto simp: peer_put_def peer_known_def assms(5,6) new_peer_def split: if_splits)
qed

theorem storage_store_refines_witness:
  "fst (storage_store ex_id ex_addr 6881 ex_dht) = 1
    \<and> dht_peers (snd (storage_store ex_id ex_addr 6881 ex_dht)) ex_id = [new_peer 1000 ex_addr 6881]"
proof -
  have r: "fst (storage_store ex_id ex_addr 6881 ex_dht) = 1" "dht_peers ex_dht ex_id = []" "d_now ex_dht = 1000" by code_simp+
  then show ?thesis
    using storage_store_refines [OF ex_reach _ _ prod.collapse [symmetric] refl refl, of ex_id ex_addr 6881] ex_addr_ok(2)
    by (auto simp: ex_id_def)
qed

section \<open>Expiry\<close>

text \<open>Overwriting an old peer by the last one permutes the rest.\<close>

lemma expire_swap:
  assumes "i < length ps" and "i \<noteq> length ps - 1"
  shows "take i (butlast (ps[i := ps ! (length ps - 1)])) = take i ps"
    and "mset (drop i (butlast (ps[i := ps ! (length ps - 1)]))) = mset (drop (Suc i) ps)"
proof -
  let ?l = "ps ! (length ps - 1)" and ?r = "drop (Suc i) ps"
  have r: "?r \<noteq> []" using assms by simp
  have "last ?r = ?l" using assms last_drop [of "Suc i" ps] last_conv_nth [of ps] by fastforce
  then have split: "?r = butlast ?r @ [?l]" using r by (metis append_butlast_last_id)
  have e: "butlast (ps[i := ?l]) = take i ps @ ?l # butlast ?r"
    using upd_conv_take_nth_drop [OF assms(1), of ?l] r by (simp add: butlast_append)
  then show "take i (butlast (ps[i := ?l])) = take i ps" using assms(1) by simp
  have "mset ?r = mset (butlast ?r) + {#?l#}" using arg_cong [OF split, of mset] by simp
  then show "mset (drop i (butlast (ps[i := ?l]))) = mset ?r" using e assms(1) by simp
qed

lemma expire_peers_run:
  "i \<le> length ps \<Longrightarrow> mset (expire_peers now ps i) = mset (take i ps) + filter_mset (\<lambda>p. \<not> peer_old now p) (mset (drop i ps))"
proof (induction now ps i rule: expire_peers.induct)
  case (1 now ps i)
  let ?ps = "butlast (if i \<noteq> length ps - 1 then ps[i := ps ! (length ps - 1)] else ps)"
  show ?case
  proof (cases "i < length ps")
    case False
    then show ?thesis using 1 by (subst expire_peers.simps) simp
  next
    case i: True
    have cons: "drop i ps = ps ! i # drop (Suc i) ps" using i by (simp add: Cons_nth_drop_Suc)
    show ?thesis
    proof (cases "peer_old now (ps ! i)")
      case False
      have "mset (expire_peers now ps (Suc i))
          = mset (take (Suc i) ps) + filter_mset (\<lambda>p. \<not> peer_old now p) (mset (drop (Suc i) ps))"
        using "1.IH"(2) [OF i False] i by simp
      then show ?thesis using i False cons by (subst expire_peers.simps) (simp add: take_Suc_conv_app_nth)
    next
      case True
      have t: "take i ?ps = take i ps \<and> mset (drop i ?ps) = mset (drop (Suc i) ps) \<and> i \<le> length ?ps"
      proof (cases "i = length ps - 1")
        case True
        then have "butlast ps = take i ps" by (simp add: butlast_conv_take)
        then show ?thesis using True i by simp
      next
        case False
        then show ?thesis using expire_swap [OF i False] i by simp
      qed
      then have "mset (expire_peers now ?ps i)
          = mset (take i ps) + filter_mset (\<lambda>p. \<not> peer_old now p) (mset (drop (Suc i) ps))"
        using "1.IH"(1) [OF i True] by simp
      then show ?thesis using i True cons by (subst expire_peers.simps) simp
    qed
  qed
qed

lemma expire_storage_loop_run:
  assumes "expire_storage_loop now sts num = (sts1, num1)" and "distinct (map st_id sts)"
  shows "peers_of sts1 nid = expire_peers now (peers_of sts nid) 0 \<and> st_id ` set sts1 \<subseteq> st_id ` set sts
    \<and> (\<forall>st \<in> set sts1. st_peers st \<noteq> [])"
  using assms
proof (induction sts arbitrary: num sts1 num1)
  case Nil
  then show ?case by (simp add: peers_of_def expire_peers.simps)
next
  case (Cons st sts)
  let ?ps = "expire_peers now (st_peers st) 0"
  show ?case
  proof (cases "?ps = []")
    case True
    then obtain n where e: "expire_storage_loop now sts n = (sts1, num1)" using Cons.prems(1) by simp
    note ih = Cons.IH [OF e]
    have "st_id st \<notin> st_id ` set sts1" using ih Cons.prems(2) by auto
    then have "peers_of sts1 (st_id st) = []" by (rule peers_of_none)
    then show ?thesis using ih Cons.prems(2) True by (auto simp: peers_of_Cons)
  next
    case False
    obtain rest n1 where r: "expire_storage_loop now sts num = (rest, n1)" by fastforce
    then have "sts1 = st\<lparr>st_peers := ?ps\<rparr> # rest" using Cons.prems(1) False by simp
    then show ?thesis using Cons.IH [OF r] Cons.prems(2) False by (auto simp: peers_of_Cons)
  qed
qed

text \<open>C24: The expiry of the storage removes from every hash exactly the peers that did not announce
  themselves in the last 32 minutes, and then the hashes without a peer; the count stays right.\<close>

theorem expire_storage_removes_old:
  assumes "dht_reach d" and "snd (expire_storage d) = d1"
  shows "(\<forall>nid. mset (dht_peers d1 nid) = filter_mset (\<lambda>p. d_now d - 32 * 60 \<le> p_time p) (mset (dht_peers d nid)))
    \<and> (\<forall>st \<in> set (d_storage d1). st_peers st \<noteq> []) \<and> d_numstorage d1 = int (length (d_storage d1))"
proof -
  note ok = dht_reach_ok [OF assms(1)]
  have dist: "distinct (map st_id (d_storage d))" using ok by (simp add: dht_ok_def storage_ok_def)
  obtain sts num where e: "expire_storage_loop (d_now d) (d_storage d) (d_numstorage d) = (sts, num)" by fastforce
  note run = expire_storage_loop_run [OF e dist]
  have d1: "d_storage d1 = sts" using assms(2) e by (auto simp: expire_storage_def)
  have "(\<lambda>p. \<not> peer_old (d_now d) p) = (\<lambda>p. d_now d - 32 * 60 \<le> p_time p)"
    by (auto simp: peer_old_def fun_eq_iff)
  then have "mset (dht_peers d1 nid) = filter_mset (\<lambda>p. d_now d - 32 * 60 \<le> p_time p) (mset (dht_peers d nid))" for nid
    using run [of nid] expire_peers_run [of 0 "dht_peers d nid" "d_now d"] by (simp add: dht_peers_of d1)
  moreover have "dht_ok d1" using expire_storage_ok [OF ok] assms(2) by simp
  ultimately show ?thesis using run d1 by (simp add: dht_ok_def storage_ok_def)
qed

theorem expire_storage_removes_old_witness:
  "mset (dht_peers (snd (expire_storage ex_dht)) ex_id) = filter_mset (\<lambda>p. d_now ex_dht - 32 * 60 \<le> p_time p) (mset (dht_peers ex_dht ex_id))"
  using expire_storage_removes_old [OF ex_reach refl] by blast

section \<open>Tokens\<close>

text \<open>C35: The token that is to show that a node asked from its own address shows nothing: whether one
  is accepted does not depend on the sender's address, nor on the secrets.\<close>

theorem token_ignores_sender:
  assumes "sa_family sa1 = AF_INET \<or> sa_family sa1 = AF_INET6" and "sa_family sa2 = AF_INET \<or> sa_family sa2 = AF_INET6"
  shows "map_option fst (token_match token sa1 d) = map_option fst (token_match token sa2 (d\<lparr>d_secret := s1, d_oldsecret := s2\<rparr>))"
  using assms by (auto simp: token_match_def make_token_def dht_hash_def stack_bytes_def Let_def)

theorem token_ignores_sender_witness:
  "map_option fst (token_match (replicate 8 0) ex_addr ex_dht)
    = map_option fst (token_match (replicate 8 0) (make_sockaddr_in [192, 0, 2, 1] [1, 2]) (ex_dht\<lparr>d_secret := [], d_oldsecret := []\<rparr>))"
  using token_ignores_sender [of ex_addr "make_sockaddr_in [192, 0, 2, 1] [1, 2]"] ex_addr_ok(2)
    sockaddr_in_ok [of "[1, 2]" "[192, 0, 2, 1]"] by (simp add: addr_ok_def)

section \<open>The rate limit\<close>

text \<open>The number of queries accepted out of \<open>n\<close> that come in the same second.\<close>

fun queries_accepted :: "nat \<Rightarrow> dht \<Rightarrow> nat" where
  "queries_accepted 0 d = 0"
| "queries_accepted (Suc n) d = (let (ok, d1) = token_bucket d in (if ok then 1 else 0) + queries_accepted n d1)"

lemma token_bucket_times: "d_now (snd (token_bucket d)) = d_now d"
  by (simp add: token_bucket_def Let_def)

lemma queries_same_second:
  "d_token_bucket_time d = d_now d \<Longrightarrow> 0 \<le> d_token_bucket_tokens d \<Longrightarrow>
    int (queries_accepted n d) = min (int n) (d_token_bucket_tokens d)"
proof (induction n arbitrary: d)
  case (Suc n)
  show ?case
  proof (cases "d_token_bucket_tokens d = 0")
    case True
    then have "fst (token_bucket d) = False" "d_token_bucket_tokens (snd (token_bucket d)) = 0"
      "d_token_bucket_time (snd (token_bucket d)) = d_now d"
      using Suc.prems by (simp_all add: token_bucket_def MAX_TOKEN_BUCKET_TOKENS_def)
    then show ?thesis using Suc.IH [of "snd (token_bucket d)"] True token_bucket_times [of d] by (simp add: case_prod_beta)
  next
    case False
    then have "fst (token_bucket d) = True" "d_token_bucket_tokens (snd (token_bucket d)) = d_token_bucket_tokens d - 1"
      "d_token_bucket_time (snd (token_bucket d)) = d_token_bucket_time d"
      by (simp_all add: token_bucket_def)
    then show ?thesis
      using Suc.IH [of "snd (token_bucket d)"] Suc.prems False token_bucket_times [of d] by (auto simp: case_prod_beta)
  qed
qed simp


text \<open>C23: In one second the DHT answers as many queries as it has tokens left and, once these are
  used up, a hundred for each second since the last refill, but at most 400.\<close>

theorem queries_limited:
  assumes "0 \<le> d_token_bucket_tokens d" and "d_token_bucket_time d \<le> d_now d"
  shows "int (queries_accepted n d)
    = min (int n) (d_token_bucket_tokens d + min 400 (100 * (d_now d - d_token_bucket_time d)))"
  using assms
proof (induction n arbitrary: d)
  case (Suc n)
  let ?refill = "min 400 (100 * (d_now d - d_token_bucket_time d))" and ?d1 = "snd (token_bucket d)"
  consider "0 < d_token_bucket_tokens d" | "d_token_bucket_tokens d = 0" "d_token_bucket_time d < d_now d"
    | "d_token_bucket_tokens d = 0" "d_token_bucket_time d = d_now d" using Suc.prems by linarith
  then show ?case
  proof cases
    case 1
    then have "fst (token_bucket d) = True" "d_token_bucket_tokens ?d1 = d_token_bucket_tokens d - 1"
      "d_token_bucket_time ?d1 = d_token_bucket_time d" by (simp_all add: token_bucket_def)
    then show ?thesis using Suc.IH [of ?d1] Suc.prems 1 token_bucket_times [of d] by (auto simp: case_prod_beta)
  next
    case 2
    then have t: "fst (token_bucket d) = True" "d_token_bucket_tokens ?d1 = ?refill - 1" "d_token_bucket_time ?d1 = d_now d"
      by (simp_all add: token_bucket_def MAX_TOKEN_BUCKET_TOKENS_def Let_def)
    have "int (queries_accepted n ?d1) = min (int n) (?refill - 1)"
      using queries_same_second [of ?d1 n] t token_bucket_times [of d] 2(2) by simp
    then show ?thesis using t(1) 2 by (auto simp: case_prod_beta)
  next
    case 3
    then show ?thesis using queries_same_second [of d "Suc n"] by simp
  qed
qed simp

theorem queries_limited_witness:
  "int (queries_accepted 1000 (ex_dht\<lparr>d_now := 1002\<rparr>)) = 600"
proof -
  have "d_token_bucket_tokens ex_dht = 400 \<and> d_token_bucket_time ex_dht = 1000" by code_simp
  then show ?thesis using queries_limited [of "ex_dht\<lparr>d_now := 1002\<rparr>" 1000] by simp
qed

text \<open>When the clock is set back, the refill of an empty bucket makes the number of tokens negative,
  and from then on no query is refused.\<close>

theorem clock_back_disables_limit:
  assumes "d_token_bucket_tokens d = 0" and "d_now d < d_token_bucket_time d"
  shows "queries_accepted n d = n"
proof -
  have neg: "queries_accepted m d1 = m" if "d_token_bucket_tokens d1 < 0" for m d1
    using that
  proof (induction m arbitrary: d1)
    case (Suc m)
    then have "fst (token_bucket d1) = True" "d_token_bucket_tokens (snd (token_bucket d1)) < 0"
      by (simp_all add: token_bucket_def)
    then show ?case using Suc.IH [of "snd (token_bucket d1)"] by (simp add: case_prod_beta)
  qed simp
  show ?thesis
  proof (cases n)
    case (Suc m)
    have "fst (token_bucket d) = True" "d_token_bucket_tokens (snd (token_bucket d)) < 0"
      using assms by (simp_all add: token_bucket_def MAX_TOKEN_BUCKET_TOKENS_def Let_def)
    then show ?thesis using neg [of "snd (token_bucket d)" m] Suc by (simp add: case_prod_beta)
  qed simp
qed

theorem clock_back_disables_limit_witness:
  "queries_accepted 100000 (ex_dht\<lparr>d_token_bucket_tokens := 0, d_now := 900\<rparr>) = 100000"
proof -
  have "d_token_bucket_time ex_dht = 1000" by code_simp
  then show ?thesis using clock_back_disables_limit [of "ex_dht\<lparr>d_token_bucket_tokens := 0, d_now := 900\<rparr>"] by simp
qed

end
