(* ===== verification/DhtMsgProps.thy ===== *)
theory DhtMsgProps
  imports DhtProps
begin

text \<open>
  Packets: the parser stays inside its arrays, a ping is read back as it was sent, and what
  happens to a packet whose ids contain a key of the protocol.
\<close>

section \<open>Finding keys\<close>

fun starts :: "byte list \<Rightarrow> byte list \<Rightarrow> bool" where
  "starts [] ys = True"
| "starts (x # xs) [] = False"
| "starts (x # xs) (y # ys) = (x = y \<and> starts xs ys)"

lemma starts_take: "starts xs ys \<longleftrightarrow> length xs \<le> length ys \<and> take (length xs) ys = xs"
  by (induction xs ys rule: starts.induct) auto

lemma memmem_steps:
  "dht_memmem [] (k # ks) = None"
  "dht_memmem (x # xs) (k # ks) = (if x = k \<and> starts ks xs then Some (x # xs) else dht_memmem xs (k # ks))"
proof -
  show "dht_memmem [] (k # ks) = None" by (subst dht_memmem.simps) simp
  have short: "dht_memmem ys (k # ks) = None" if "length ys < Suc (length ks)" for ys
    using that by (subst dht_memmem.simps) simp
  show "dht_memmem (x # xs) (k # ks) = (if x = k \<and> starts ks xs then Some (x # xs) else dht_memmem xs (k # ks))"
    using short [of xs] by (subst dht_memmem.simps) (auto simp: starts_take)
qed

text \<open>C21: Whatever a packet contains, the fields the parser fills fit the arrays of \<open>dht_periodic\<close>, and
  the ids have their twenty bytes.\<close>

theorem parse_message_fits:
  assumes "parse_message buf nul parsed_zero = (t, m)"
  shows "length (m_id m) = 20 \<and> length (m_info_hash m) = 20 \<and> length (m_target m) = 20
    \<and> length (m_tid m) < 16 \<and> length (m_token m) < 128 \<and> length (m_nodes m) \<le> 416 \<and> length (m_nodes6 m) \<le> 608
    \<and> length (m_values m) \<le> 2048 \<and> length (m_values6 m) \<le> 2048 \<and> m_port m < 65536"
  using parse_message_ok [OF assms]
  by (simp add: message_ok_def PARSE_TID_LEN_def PARSE_TOKEN_LEN_def PARSE_NODES_LEN_def PARSE_NODES6_LEN_def
      PARSE_VALUES_LEN_def PARSE_VALUES6_LEN_def)

theorem parse_message_fits_witness:
  "length (m_tid (snd (parse_message (bytes_of_string ''d1:ad2:id20:aaaaaaaaaaaaaaaaaaaae1:t99:'') 0 parsed_zero))) < 16"
  using parse_message_fits [OF prod.collapse [symmetric]] by blast

text \<open>
  A ping with the given id and transaction id; \<open>v\<close> is the part that names the program, empty or
  as \<open>dht_init\<close> prepares it.
\<close>

definition ping_packet :: "dht_id \<Rightarrow> byte list \<Rightarrow> byte list \<Rightarrow> byte list" where
  "ping_packet nid tid v = bytes_of_string ''d1:ad2:id20:'' @ nid @ bytes_of_string ''e1:q4:ping1:t4:'' @ tid
     @ v @ bytes_of_string ''1:y1:qe''"

definition version_part :: "byte list \<Rightarrow> bool" where
  "version_part v \<longleftrightarrow> v = [] \<or> (length v = 9 \<and> take 5 v = bytes_of_string ''1:v4:'' \<and> 58 \<notin> set (drop 5 v))"

definition own_version :: "dht \<Rightarrow> byte list" where
  "own_version d = (if d_have_v d then d_my_v d else [])"

lemma version_part_cases:
  assumes "version_part v"
  obtains a b c d where "v = [] \<or> (v = [49, 58, 118, 52, 58, a, b, c, d] \<and> 58 \<notin> {a, b, c, d})"
proof (cases "v = []")
  case False
  then have l: "length v = 9" "take 5 v = bytes_of_string ''1:v4:''" "58 \<notin> set (drop 5 v)"
    using assms by (simp_all add: version_part_def)
  define w where "w = drop 5 v"
  have "length w = 4" using l(1) by (simp add: w_def)
  then obtain a b c d where w: "w = [a, b, c, d]" by (auto simp: numeral_eq_Suc length_Suc_conv)
  have "v = bytes_of_string ''1:v4:'' @ w" using append_take_drop_id [of 5 v] l(2) by (simp only: w_def)
  moreover have "58 \<notin> {a, b, c, d}" using l(3) w by (simp add: w_def)
  ultimately show thesis using w by (intro that) (simp add: bytes_of_string_def)
qed (use that in blast)

lemma ping_parts:
  assumes "length tid = 4" and "is_id (d_myid d)" and "version_part (own_version d)"
  shows "add_parts 512 [] ([Fmt ''d1:ad2:id20:'', Copy (d_myid d), tid_fmt ''e1:q4:ping1:t'' tid, Copy tid]
    @ add_v d @ [Fmt ''1:y1:qe'']) = Some (ping_packet (d_myid d) tid (own_version d))"
proof -
  have "dec_str 4 = ''4''" by code_simp
  then show ?thesis using assms by (auto simp: add_part_def tid_fmt_def add_v_def ping_packet_def own_version_def version_part_def)
qed

lemma list_of_20:
  assumes "length xs = 20"
  obtains a b c d e f g h i j k l m n p q r s t u where "xs = [a, b, c, d, e, f, g, h, i, j, k, l, m, n, p, q, r, s, t, u]"
proof -
  have "xs = map (\<lambda>i. xs ! i) [0..<20]" using assms map_nth [of xs] by simp
  then show thesis by (simp add: upt_rec) (rule that)
qed


lemma ping_fields:
  assumes "length nid = 20" and "length tid = 4" and "58 \<notin> set nid" and "58 \<notin> set tid"
    and "version_part v"
  shows "find_key (ping_packet nid tid v) ''1:t'' = Some (bytes_of_string ''4:'' @ tid @ v @ bytes_of_string ''1:y1:qe'')
    \<and> find_key (ping_packet nid tid v) ''2:id20:'' = Some (nid @ bytes_of_string ''e1:q4:ping1:t4:'' @ tid @ v @ bytes_of_string ''1:y1:qe'')
    \<and> find_key (ping_packet nid tid v) ''9:info_hash20:'' = None
    \<and> find_key (ping_packet nid tid v) ''4:porti'' = None
    \<and> find_key (ping_packet nid tid v) ''12:implied_porti'' = None
    \<and> find_key (ping_packet nid tid v) ''6:target20:'' = None
    \<and> find_key (ping_packet nid tid v) ''5:token'' = None
    \<and> find_key (ping_packet nid tid v) ''5:nodes'' = None
    \<and> find_key (ping_packet nid tid v) ''6:nodes6'' = None
    \<and> find_key (ping_packet nid tid v) ''6:valuesl'' = None
    \<and> find_key (ping_packet nid tid v) ''4:wantl'' = None
    \<and> find_key (ping_packet nid tid v) ''1:y1:r'' = None
    \<and> find_key (ping_packet nid tid v) ''1:y1:e'' = None
    \<and> find_key (ping_packet nid tid v) ''1:y1:q'' \<noteq> None
    \<and> find_key (ping_packet nid tid v) ''1:q4:ping'' \<noteq> None"
proof -
  obtain a b c d e f g h i j k l m n p q r s t u where nid: "nid = [a, b, c, d, e, f, g, h, i, j, k, l, m, n, p, q, r, s, t, u]"
    by (rule list_of_20 [OF assms(1)])
  obtain w x y z where tid: "tid = [w, x, y, z]" using assms(2) by (auto simp: numeral_eq_Suc length_Suc_conv)
  obtain v1 v2 v3 v4 where v: "v = [] \<or> (v = [49, 58, 118, 52, 58, v1, v2, v3, v4] \<and> 58 \<notin> {v1, v2, v3, v4})"
    by (rule version_part_cases [OF assms(5)])
  note chars = assms(3,4) [unfolded nid tid, simplified]
  note parse = find_key_def ping_packet_def nid tid bytes_of_string_def memmem_steps
  from v show ?thesis
    by (elim disjE; simp add: parse chars)
qed

lemma ping_tid: "strtol (bytes_of_string ''4:'' @ ys) = (4, 58 # ys)"
  by (simp add: strtol_def bytes_of_string_def isspace_def isdigit_def digits_val_def Let_def)

lemma parse_ping:
  assumes "length nid = 20" and "length tid = 4" and "58 \<notin> set nid" and "58 \<notin> set tid"
    and "version_part v"
  shows "parse_message (ping_packet nid tid v) 0 parsed_zero = (PING, parsed_zero\<lparr>m_tid := tid, m_id := nid\<rparr>)"
proof -
  note keys = ping_fields [OF assms]
  have "parse_counted (ping_packet nid tid v) ''1:t'' PARSE_TID_LEN (\<lambda>x. m_tid_update (\<lambda>_. x)) parsed_zero = Some (parsed_zero\<lparr>m_tid := tid\<rparr>)"
    using keys assms(2) by (simp add: parse_counted_def ping_tid at_char_def PARSE_TID_LEN_def)
  moreover have "parse_type (ping_packet nid tid v) = PING"
    using keys by (simp add: parse_type_def has_key_def)
  ultimately show ?thesis
    using keys assms(1) by (simp add: parse_message_def parse_fields_def parse_fixed_def parse_number_def
        parse_counted_def parse_values_def parse_want_def)
qed


text \<open>C26: A ping that goes out is read back as what it is: a query \<open>ping\<close> with the sender's id and the
  transaction id, as long as neither contains a colon.  This covers the part that names the program,
  where there is one, with four bytes and no colon among them, such as the one the thread of
  \<open>dht_list.c\<close> passes.\<close>

theorem ping_round_trip:
  assumes "dht_reach d" and "length tid = 4" and "58 \<notin> set (d_myid d)" and "58 \<notin> set tid"
    and "d_have_v d \<Longrightarrow> d_my_v d = bytes_of_string ''1:v4:'' @ v \<and> length v = 4 \<and> 58 \<notin> set v"
    and "send_ping sa salen tid d = Some (rc, d1)" and "d_sent d1 = d_sent d @ [p]"
  shows "parse_message (pk_data p) 0 parsed_zero = (PING, parsed_zero\<lparr>m_tid := tid, m_id := d_myid d\<rparr>)"
proof -
  have id: "is_id (d_myid d)" using dht_reach_ok [OF assms(1)] by (simp add: dht_ok_def)
  have v: "version_part (own_version d)"
    using assms(5) by (auto simp: version_part_def own_version_def bytes_of_string_def)
  have "dht_send (ping_packet (d_myid d) tid (own_version d)) False sa salen d = Some (rc, d1)"
    using assms(6) ping_parts [OF assms(2) id v] by (simp add: send_ping_def send_parts_def)
  then have "pk_data p = ping_packet (d_myid d) tid (own_version d)"
    using assms(7) by (auto simp: dht_send_def Let_def split: if_splits option.splits bool.splits)
  then show ?thesis using parse_ping [OF id assms(2-4) v] by simp
qed

text \<open>The example is started the way the thread starts the DHT, with the bytes \<open>JC\<close> and two zeros.\<close>

definition ex_named :: dht where
  "ex_named = snd (the (dht_init 5 (- 1) ex_id (Some [74, 67, 0, 0]) 1000 ex_static))"

lemma ex_named_reach: "dht_reach ex_named"
proof -
  have "map_option fst (dht_init 5 (- 1) ex_id (Some [74, 67, 0, 0]) 1000 ex_static) = Some 1" by code_simp
  then have "dht_init 5 (- 1) ex_id (Some [74, 67, 0, 0]) 1000 ex_static = Some (1, ex_named)" by (auto simp: ex_named_def)
  then show ?thesis by (rule dht_reach.init [OF ex_static_ok, rotated]) (simp add: ex_id_def)
qed

theorem ping_round_trip_witness:
  "d_have_v ex_named
    \<and> parse_message (pk_data (hd (d_sent (snd (the (send_ping ex_addr 16 (make_tid ''pn'' 0) ex_named)))))) 0 parsed_zero
      = (PING, parsed_zero\<lparr>m_tid := make_tid ''pn'' 0, m_id := d_myid ex_named\<rparr>)"
proof -
  have w: "d_have_v ex_named \<and> d_sent ex_named = [] \<and> 58 \<notin> set (d_myid ex_named)"
    "length (make_tid ''pn'' 0) = 4" "58 \<notin> set (make_tid ''pn'' 0)"
    "d_my_v ex_named = bytes_of_string ''1:v4:'' @ [74, 67, 0, 0] \<and> length [74, 67, 0, 0 :: byte] = 4 \<and> 58 \<notin> set [74, 67, 0, 0 :: byte]"
    "map_option (\<lambda>(rc, d1). length (d_sent d1)) (send_ping ex_addr 16 (make_tid ''pn'' 0) ex_named) = Some 1" by code_simp+
  then obtain rc d1 where s: "send_ping ex_addr 16 (make_tid ''pn'' 0) ex_named = Some (rc, d1)" "length (d_sent d1) = 1" by auto
  then obtain p where p: "d_sent d1 = [p]" by (auto simp: length_Suc_conv)
  show ?thesis using ping_round_trip [OF ex_named_reach w(2) _ w(3) w(4) s(1), of p] p w(1) s(1) by simp
qed

lemma memmem_inside: "dht_memmem (xs @ k # ks @ ys) (k # ks) \<noteq> None"
proof (induction xs)
  case Nil
  have "starts ks (ks @ ys)" by (simp add: starts_take)
  then show ?case by (simp add: memmem_steps)
qed (simp add: memmem_steps)

text \<open>The parser looks for the keys of the protocol anywhere in a packet, inside of ids too: a ping
  from a node whose id contains \<open>1:y1:r\<close> is not taken for a ping.\<close>

theorem key_in_id_misread:
  assumes "nid = xs @ bytes_of_string ''1:y1:r'' @ ys"
  shows "fst (parse_message (ping_packet nid tid v) 0 parsed_zero) \<noteq> PING"
proof -
  let ?rest = "ys @ bytes_of_string ''e1:q4:ping1:t4:'' @ tid @ v @ bytes_of_string ''1:y1:qe''"
  have "ping_packet nid tid v = (bytes_of_string ''d1:ad2:id20:'' @ xs) @ bytes_of_string ''1:y1:r'' @ ?rest"
    by (simp add: ping_packet_def assms)
  moreover have "bytes_of_string ''1:y1:r'' = 49 # bytes_of_string '':y1:r''" by (simp add: bytes_of_string_def)
  ultimately have "has_key (ping_packet nid tid v) ''1:y1:r''"
    using memmem_inside [of "bytes_of_string ''d1:ad2:id20:'' @ xs" 49 "bytes_of_string '':y1:r''" ?rest]
    by (auto simp: has_key_def find_key_def split: option.split)
  then have "parse_type (ping_packet nid tid v) = REPLY" by (simp add: parse_type_def)
  then show ?thesis by (simp add: parse_message_def REPLY_def PING_def split: option.split)
qed

theorem key_in_id_misread_witness:
  "fst (parse_message (ping_packet (replicate 7 0 @ bytes_of_string ''1:y1:r'' @ replicate 7 0) [1, 2, 3, 4] []) 0 parsed_zero) \<noteq> PING"
  by (rule key_in_id_misread) (rule refl)

end
