(* ===== verification/DhtList.thy ===== *)
theory DhtList
  imports DhtPeriodic SeaOS
begin

unbundle bit_operations_syntax

text \<open>
  The thread that runs the DHT, \<open>__dht_list_init\<close> of \<open>dht_list.c\<close>: it loads or makes the id of
  the node, resolves the bootstrap nodes, opens the sockets, starts the DHT, and then waits in a
  loop for packets and signals.  \<open>None\<close> as the result of a part of the start is a call of
  \<open>exit(1)\<close>; \<open>None\<close> as the result of a turn of the loop is an abort or a crash of the DHT.
\<close>

section \<open>The environment\<close>

text \<open>
  What the calls outside of the file system answer: \<open>le_urandom\<close> is the result of opening
  \<open>/dev/urandom\<close> and of the first \<open>read\<close> with its bytes, \<open>le_random\<close> the sequence of \<open>random\<close> for
  a seed.
\<close>

record list_env =
  le_urandom :: "(int \<times> byte list) option"
  le_random :: "byte list \<Rightarrow> nat \<Rightarrow> nat"
  le_resolve :: "string \<Rightarrow> string \<Rightarrow> sockaddr list option"
  le_socket :: "nat \<Rightarrow> int"
  le_getfl :: "int \<Rightarrow> int"
  le_setfl :: "int \<Rightarrow> int \<Rightarrow> int"
  le_setsockopt :: "int \<Rightarrow> int"
  le_bind :: "int \<Rightarrow> int \<Rightarrow> int"

section \<open>The id of the node\<close>

definition id_file :: string where "id_file = ''dht-example.id''"

text \<open>Whether there was an id, and the array \<open>myid\<close>.\<close>

definition load_id :: "os \<Rightarrow> bool \<times> byte list \<times> os" where
  "load_id os =
     (let myid = junk_bytes os 20; (fd, os1) = sys_open id_file False os
      in if fd < 0 then (False, myid, os1)
         else let (rc, bs, os2) = sys_read fd 20 os1
              in (rc = 20, put_at 0 bs myid, sys_close fd os2))"

definition save_id :: "byte list \<Rightarrow> os \<Rightarrow> os" where
  "save_id myid os =
     (let (ofd, os1) = sys_open id_file True os
      in if ofd < 0 then os1
         else
           let (rc, os2) = sys_write ofd myid (sys_ftruncate ofd 0 os1);
               os3 = (if rc < 20 then snd (sys_unlink id_file os2) else os2)
           in sys_close ofd os3)"

text \<open>
  The id and the four bytes of the seed.  After a new id was made the descriptor is closed
  already, the \<open>read\<close> of the seed fails, and the seed is what the stack holds.
\<close>

definition node_id :: "list_env \<Rightarrow> os \<Rightarrow> (byte list \<times> byte list) option \<times> os" where
  "node_id env os =
     (let (have_id, myid, os1) = load_id os
      in case le_urandom env of
           None \<Rightarrow> (None, os1)
         | Some (rc, bs) \<Rightarrow>
           (if have_id then (Some (myid, put_at 0 (take (nat rc) (take 4 bs)) (junk_bytes os1 4)), os1)
            else if rc < 0 then (None, os1)
            else
              let myid1 = put_at 0 (take (nat rc) (take 20 bs)) myid
              in (Some (myid1, junk_bytes os1 4), save_id myid1 os1)))"

definition srandom :: "list_env \<Rightarrow> byte list \<Rightarrow> dht \<Rightarrow> dht" where
  "srandom env seed d = d\<lparr>d_random := le_random env seed, d_random_pos := 0\<rparr>"

section \<open>Bootstrap nodes\<close>

definition MAX_BOOTSTRAP_NODES :: nat where "MAX_BOOTSTRAP_NODES = 20"

text \<open>The addresses of one name, copied into an array without a look at its bound.\<close>

fun add_bootstrap :: "sockaddr list \<Rightarrow> sockaddr list \<Rightarrow> sockaddr list outcome" where
  "add_bootstrap [] bs = Done bs"
| "add_bootstrap (sa # sas) bs =
     (if length bs < MAX_BOOTSTRAP_NODES then add_bootstrap sas (bs @ [sa]) else Undef)"

text \<open>
  Each turn takes two elements, a name and a service, and moves on by three.  Reading past the
  end of the list is undefined.
\<close>

function bootstrap_loop ::
    "list_env \<Rightarrow> string list \<Rightarrow> nat \<Rightarrow> sockaddr list \<Rightarrow> sockaddr list option outcome" where
  "bootstrap_loop env nodes i bs =
     (if i < length nodes
      then
        if length nodes \<le> Suc i then Undef
        else
          (case le_resolve env (nodes ! i) (nodes ! Suc i) of
             None \<Rightarrow> Done None
           | Some sas \<Rightarrow>
             (case add_bootstrap sas bs of
                Undef \<Rightarrow> Undef
              | Done bs1 \<Rightarrow> bootstrap_loop env nodes (i + 3) bs1))
      else Done (Some bs))"
  by pat_completeness auto

termination
  by (relation "measure (\<lambda>(env, nodes, i, bs). length nodes - i)") auto

declare bootstrap_loop.simps [simp del]

section \<open>Sockets\<close>

definition O_NONBLOCK :: int where "O_NONBLOCK = 2048"

definition set_nonblocking :: "list_env \<Rightarrow> int \<Rightarrow> bool \<Rightarrow> int" where
  "set_nonblocking env fd nonblocking =
     (let rc = le_getfl env fd
      in if rc < 0 then - 1
         else if le_setfl env fd (if nonblocking then rc OR O_NONBLOCK else rc AND NOT O_NONBLOCK) < 0 then - 1
         else 0)"

definition list_socket :: "list_env \<Rightarrow> nat \<Rightarrow> int option" where
  "list_socket env af =
     (let s = le_socket env af in if set_nonblocking env s True < 0 then None else Some s)"

definition bind4 :: "list_env \<Rightarrow> int \<Rightarrow> int \<Rightarrow> bool" where
  "bind4 env port s \<longleftrightarrow> \<not> (0 \<le> s \<and> le_bind env s port < 0)"

definition bind6 :: "list_env \<Rightarrow> int \<Rightarrow> int \<Rightarrow> bool" where
  "bind6 env port s6 \<longleftrightarrow> \<not> (0 \<le> s6 \<and> (le_setsockopt env s6 < 0 \<or> le_bind env s6 port < 0))"

definition list_sockets :: "list_env \<Rightarrow> int \<Rightarrow> (int \<times> int) option" where
  "list_sockets env port =
     (case list_socket env AF_INET of
        None \<Rightarrow> None
      | Some s \<Rightarrow>
        (case list_socket env AF_INET6 of
           None \<Rightarrow> None
         | Some s6 \<Rightarrow>
           (if (s < 0 \<and> s6 < 0) \<or> \<not> bind4 env port s \<or> \<not> bind6 env port s6 then None else Some (s, s6))))"

section \<open>The start\<close>

text \<open>The three flags are set by signal handlers and read by the loop.\<close>

record dht_loop =
  dl_s :: int
  dl_s6 :: int
  dl_tosleep :: int
  dl_dumping :: bool
  dl_searching :: bool
  dl_exiting :: bool
  dl_dht :: dht

text \<open>Each ping is followed by a pause of random length.\<close>

fun ping_bootstrap :: "sockaddr list \<Rightarrow> dht \<Rightarrow> dht option" where
  "ping_bootstrap [] d = Some d"
| "ping_bootstrap (sa # sas) d =
     do { (rc, d1) \<leftarrow> dht_ping_node sa (if sa_family sa = AF_INET then 16 else 28) d;
          ping_bootstrap sas (snd (c_random d1)) }"

definition list_v :: "byte list" where "list_v = bytes_of_string ''JC'' @ [0, 0]"

definition start_dht ::
    "sockaddr list \<Rightarrow> int \<Rightarrow> int \<Rightarrow> dht_id \<Rightarrow> int \<Rightarrow> dht \<Rightarrow> dht_loop option outcome" where
  "start_dht bs s s6 myid t d =
     (case dht_init s s6 myid (Some list_v) t d of
        None \<Rightarrow> Undef
      | Some (rc, d1) \<Rightarrow>
        (if rc < 0 then Done None
         else
           (case ping_bootstrap bs d1 of
              None \<Rightarrow> Undef
            | Some d2 \<Rightarrow>
                Done (Some \<lparr>dl_s = s, dl_s6 = s6, dl_tosleep = 0, dl_dumping = False, dl_searching = False,
                           dl_exiting = False, dl_dht = d2\<rparr>))))"

definition dht_list_start ::
    "int \<Rightarrow> string list \<Rightarrow> list_env \<Rightarrow> int \<Rightarrow> os \<Rightarrow> dht \<Rightarrow> (dht_loop option \<times> os) outcome" where
  "dht_list_start port nodes env t os d =
     (let (r, os1) = node_id env os
      in case r of
           None \<Rightarrow> Done (None, os1)
         | Some (myid, seed) \<Rightarrow>
           (if port \<le> 0 \<or> 0x10000 \<le> port then Done (None, os1)
            else
              (case bootstrap_loop env nodes 0 [] of
                 Undef \<Rightarrow> Undef
               | Done None \<Rightarrow> Done (None, os1)
               | Done (Some bs) \<Rightarrow>
                 (case list_sockets env port of
                    None \<Rightarrow> Done (None, os1)
                  | Some (s, s6) \<Rightarrow>
                    (case start_dht bs s s6 myid t (srandom env seed d) of
                       Undef \<Rightarrow> Undef
                     | Done l \<Rightarrow> Done (l, os1))))))"

definition dht_list_process :: "list_env \<Rightarrow> int \<Rightarrow> os \<Rightarrow> dht \<Rightarrow> (dht_loop option \<times> os) outcome" where
  "dht_list_process env t os d = dht_list_start 8888 [] env t os d"

section \<open>The loop\<close>

text \<open>The callback of the loop prints a line.\<close>

definition list_callback :: "nat \<Rightarrow> nat \<Rightarrow> string" where
  "list_callback event data_len =
     (if event = DHT_EVENT_SEARCH_DONE then ''Search done.''
      else if event = DHT_EVENT_SEARCH_DONE6 then ''IPv6 search done.''
      else if event = DHT_EVENT_VALUES then ''Received '' @ dec_str (data_len div 6) @ '' values.''
      else if event = DHT_EVENT_VALUES6 then ''Received '' @ dec_str (data_len div 18) @ '' IPv6 values.''
      else ''Unknown DHT event '' @ dec_str event @ ''.'') @ [CHR 0x0A]"

datatype signal = SIGUSR1 | SIGUSR2 | SIGINT

fun deliver :: "signal \<Rightarrow> dht_loop \<Rightarrow> dht_loop" where
  "deliver SIGUSR1 l = l\<lparr>dl_dumping := True\<rparr>"
| "deliver SIGUSR2 l = l\<lparr>dl_searching := True\<rparr>"
| "deliver SIGINT l = l\<lparr>dl_exiting := True\<rparr>"

text \<open>
  What happens in one turn: the signals that arrive up to the end of \<open>select\<close>, its result, the
  sockets it reports, the packet that \<open>recvfrom\<close> delivers (\<open>None\<close> when it fails) with its sender,
  and the time of day.
\<close>

record wakeup =
  wk_signals :: "signal list"
  wk_rc :: int
  wk_ready :: bool
  wk_ready6 :: bool
  wk_data :: "byte list option"
  wk_from :: sockaddr
  wk_fromlen :: nat
  wk_time :: int

text \<open>The packet a turn hands to \<open>dht_periodic\<close>, empty when there is none; \<open>abort\<close> when no socket is readable.\<close>

definition receive :: "wakeup \<Rightarrow> dht_loop \<Rightarrow> byte list option" where
  "receive e l =
     (if wk_rc e \<le> 0 then Some []
      else if (0 \<le> dl_s l \<and> wk_ready e) \<or> (0 \<le> dl_s6 l \<and> wk_ready6 e)
      then Some (case wk_data e of None \<Rightarrow> [] | Some bs \<Rightarrow> take 4095 bs)
      else None)"

text \<open>What a pending signal asks for.  A dump writes to the standard output only.\<close>

definition search_if :: "bool \<Rightarrow> nat \<Rightarrow> dht \<Rightarrow> dht option" where
  "search_if wanted af d =
     (if wanted then map_option snd (dht_search dht_list_hash 0 af True d) else Some d)"

definition answer_signals :: "dht_loop \<Rightarrow> dht_loop option" where
  "answer_signals l =
     (if dl_searching l
      then do { d1 \<leftarrow> search_if (0 \<le> dl_s l) AF_INET (dl_dht l);
                d2 \<leftarrow> search_if (0 \<le> dl_s6 l) AF_INET6 d1;
                Some (l\<lparr>dl_searching := False, dl_dumping := False, dl_dht := d2\<rparr>) }
      else Some (l\<lparr>dl_dumping := False\<rparr>))"

definition EINTR_list :: int where "EINTR_list = 4"

datatype turn = Turns dht_loop | Leaves dht_loop

definition EFAULT_list :: int where "EFAULT_list = 14"

text \<open>A negative \<open>rc\<close> is compared with the positive numbers \<open>EINVAL\<close> and \<open>EFAULT\<close>.\<close>

definition list_turn :: "wakeup \<Rightarrow> dht_loop \<Rightarrow> turn option" where
  "list_turn e l0 =
     (let l = fold deliver (wk_signals e) (l0\<lparr>dl_dht := snd (c_random (dl_dht l0))\<rparr>)
      in if dl_exiting l then Some (Leaves l)
         else
           do { pkt \<leftarrow> receive e l;
                (rc, tosleep, d1) \<leftarrow>
                  (if pkt \<noteq> [] then dht_periodic pkt 0 (wk_from e) (wk_fromlen e) (dl_tosleep l) True (wk_time e) (dl_dht l)
                   else dht_periodic [] 0 [] 0 (dl_tosleep l) True (wk_time e) (dl_dht l));
                let l1 = l\<lparr>dl_tosleep := tosleep, dl_dht := d1\<rparr>
                in if rc < 0 \<and> d_errno d1 = EINTR_list then Some (Turns l1)
                   else if rc < 0 \<and> (rc = EINVAL_dht \<or> rc = EFAULT_list) then None
                   else map_option Turns (answer_signals (if rc < 0 then l1\<lparr>dl_tosleep := 1\<rparr> else l1)) })"

fun dht_list_loop :: "wakeup list \<Rightarrow> dht_loop \<Rightarrow> turn option" where
  "dht_list_loop [] l = Some (Turns l)"
| "dht_list_loop (e # es) l =
     (case list_turn e l of
        None \<Rightarrow> None
      | Some (Leaves l1) \<Rightarrow> Some (Leaves l1)
      | Some (Turns l1) \<Rightarrow> dht_list_loop es l1)"

text \<open>The end: the good nodes are counted and the DHT is stopped.\<close>

definition dht_list_end :: "dht_loop \<Rightarrow> nat \<times> int \<times> dht" where
  "dht_list_end l =
     (let (i, sin, sin6) = dht_get_nodes 500 500 (dl_dht l); (rc, d1) = dht_uninit (dl_dht l) in (i, 0, d1))"

end
