(* ===== verification/DhtListRun.thy ===== *)
theory DhtListRun
  imports DhtList DhtInvPeriodic
begin

text \<open>
  What the thread of the DHT does: the id of the node is stored once and read back, the start
  leads to a reachable state of the DHT, and every turn of the loop to another one.
\<close>

section \<open>The id\<close>

lemma sys_read_short: "length (fst (snd (sys_read fd n os))) \<le> n"
  by (simp add: sys_read_def read_at_def Let_def min_le_iff_disj split: option.split fault.split)

lemma load_id_length: "length (fst (snd (load_id os))) = 20"
proof -
  obtain fd os1 where o: "sys_open id_file False os = (fd, os1)" by fastforce
  obtain rc bs os2 where r: "sys_read fd 20 os1 = (rc, bs, os2)" by (metis prod_cases3)
  then have "length bs \<le> 20" using sys_read_short [of fd 20 os1] by simp
  then show ?thesis by (simp add: load_id_def Let_def o r)
qed

lemma node_id_length:
  assumes "node_id env os = (Some (myid, seed), os1)"
  shows "length myid = 20"
proof -
  obtain have_id m os0 where l: "load_id os = (have_id, m, os0)" by (metis prod_cases3)
  then have "length m = 20" using load_id_length [of os] by simp
  then show ?thesis
    using assms l by (auto simp: node_id_def Let_def split: option.splits if_splits)
qed

text \<open>A fault-free system whose id file holds \<open>nid\<close>.\<close>

definition id_stored :: "byte list \<Rightarrow> os \<Rightarrow> bool" where
  "id_stored nid os \<longleftrightarrow> reliable os \<and> os_wf os \<and> length nid = 20
     \<and> (\<exists>i. os_names os id_file = Some i \<and> os_inodes os i = nid)"

lemma load_id_stored:
  assumes "id_stored nid os"
  obtains os1 where "load_id os = (True, nid, os1)" and "id_stored nid os1"
proof -
  from assms obtain i where i: "reliable os" "os_wf os" "length nid = 20" "os_names os id_file = Some i" "os_inodes os i = nid"
    by (auto simp: id_stored_def)
  let ?os1 = "(ticked (ticked os))\<lparr>os_next_fd := os_next_fd os + 1, os_fds := (os_fds os)(os_next_fd os := None)\<rparr>"
  have o: "sys_open id_file False os
      = (os_next_fd os, set_pos (os_next_fd os) i 0 ((ticked os)\<lparr>os_next_fd := os_next_fd os + 1\<rparr>))"
    using i(1,4) by (simp add: sys_open_def open_inode_run)
  have "load_id os = (True, nid, ?os1)"
    using i os_wf_next_fd(2) [OF i(2)] by (simp add: load_id_def o sys_read_run ticked_def)
  moreover have "os_wf ?os1" using i(2) by (auto simp: os_wf_def)
  then have "id_stored nid ?os1" using i by (simp add: id_stored_def)
  ultimately show thesis using that by blast
qed

lemma node_id_stored:
  assumes "id_stored nid os" and "le_urandom env = Some r"
  obtains seed os1 where "node_id env os = (Some (nid, seed), os1)" and "id_stored nid os1"
proof -
  obtain os1 where l: "load_id os = (True, nid, os1)" "id_stored nid os1" using load_id_stored [OF assms(1)] by blast
  obtain rc bs where "r = (rc, bs)" by fastforce
  then show thesis using that [OF _ l(2)] l(1) assms(2) by (simp add: node_id_def)
qed

lemma node_id_new:
  assumes "reliable os" and "os_wf os" and "[] \<in> os_dirs os" and "os_names os id_file = None"
    and "le_urandom env = Some (20, bs)" and "length bs = 20"
  obtains seed os1 where "node_id env os = (Some (bs, seed), os1)" and "id_stored bs os1"
proof -
  let ?i = "os_next_ino os" and ?fd = "os_next_fd os" and ?os0 = "(ticked os)\<lparr>os_errno := ENOENT\<rparr>"
  have wf0: "os_wf ?os0" using assms(2) by (simp add: os_wf_def)
  have l: "load_id os = (False, junk_bytes os 20, ?os0)"
    using assms(1,4) by (simp add: load_id_def sys_open_def Let_def)
  have par: "parent_path id_file = []" by (simp add: parent_path_def id_file_def)
  let ?os1 = "(ticked ?os0)\<lparr>os_names := (os_names os)(id_file \<mapsto> ?i), os_next_ino := Suc ?i, os_next_fd := ?fd + 1\<rparr>"
  have o: "sys_open id_file True ?os0 = (?fd, set_pos ?fd ?i 0 (set_content ?i [] ?os1))"
    using sys_open_new [of ?os0 id_file] assms(1,3,4) par by simp
  have t: "sys_ftruncate ?fd 0 (set_pos ?fd ?i 0 (set_content ?i [] ?os1)) = set_pos ?fd ?i 0 (set_content ?i [] ?os1)"
    by (simp add: sys_ftruncate_def set_pos_def set_content_def)
  have w: "sys_write ?fd bs (set_pos ?fd ?i 0 (set_content ?i [] ?os1))
      = (20, set_pos ?fd ?i 20 (ticked (set_content ?i bs ?os1)))"
    using assms(1,6) by (simp add: sys_write_run set_pos_norm file_write_def put_at_def)
  let ?os2 = "(ticked (set_content ?i bs ?os1))\<lparr>os_fds := (os_fds os)(?fd := None)\<rparr>"
  have s: "save_id bs ?os0 = ?os2"
    using os_wf_next_fd(2) [OF assms(2)] by (simp add: save_id_def o t w)
  have "os_wf ?os2"
    using assms(2) by (auto simp: os_wf_def set_content_def ticked_def less_Suc_eq)
  then have "id_stored bs ?os2" using assms(1,6) by (simp add: id_stored_def)
  moreover have "node_id env os = (Some (bs, junk_bytes ?os0 4), ?os2)"
    using assms(5,6) s by (simp add: node_id_def l)
  ultimately show thesis using that by blast
qed

section \<open>The start\<close>

lemma srandom_static: "dht_static (srandom env seed d) = dht_static d"
  by (simp add: dht_static_def srandom_def)

lemma ping_bootstrap_run:
  assumes "dht_reach d"
  obtains d1 where "ping_bootstrap sas d = Some d1" and "dht_reach d1"
proof -
  have "\<exists>d1. ping_bootstrap sas d = Some d1 \<and> dht_reach d1"
    using assms
  proof (induction sas arbitrary: d)
    case (Cons sa sas)
    let ?len = "if sa_family sa = AF_INET then 16 else 28"
    have len: "salen_ok ?len" by (simp add: sizeof_sockaddr_storage_def)
    obtain rc d1 where p: "dht_ping_node sa ?len d = Some (rc, d1)"
      by (rule sends_state [OF sends_senders(1) [OF len] dht_reach_ok [OF Cons.prems], of sa "make_tid ''pn'' 0"])
        (simp add: dht_ping_node_def)
    have "dht_reach (snd (c_random d1))" by (rule dht_reach.random [OF dht_reach.ping [OF Cons.prems len p]])
    from Cons.IH [OF this] show ?case by (simp add: p)
  qed simp
  then show thesis using that by blast
qed

lemma start_dht_run:
  assumes "dht_static d" and "is_id myid"
  obtains "start_dht bs s s6 myid t d = Done None"
  | d1 where "start_dht bs s s6 myid t d
        = Done (Some \<lparr>dl_s = s, dl_s6 = s6, dl_tosleep = 0, dl_dumping = False, dl_searching = False,
                      dl_exiting = False, dl_dht = d1\<rparr>)" and "dht_reach d1"
proof -
  obtain rc d1 where i: "dht_init s s6 myid (Some list_v) t d = Some (rc, d1)" "rc = 1 \<or> rc < 0"
    using dht_init_run [OF assms] by metis
  show thesis
  proof (cases "rc < 0")
    case True
    then show thesis using that(1) i by (simp add: start_dht_def)
  next
    case False
    then have "dht_reach d1" using dht_reach.init [OF assms] i by auto
    then obtain d2 where p: "ping_bootstrap bs d1 = Some d2" "dht_reach d2" using ping_bootstrap_run by metis
    show thesis using that(2) [OF _ p(2)] i p(1) False by (simp add: start_dht_def)
  qed
qed

text \<open>A loop that has just started.\<close>

definition loop_started :: "dht_loop \<Rightarrow> bool" where
  "loop_started l \<longleftrightarrow> dht_reach (dl_dht l) \<and> \<not> dl_searching l \<and> \<not> dl_exiting l"

lemma process_run:
  assumes "dht_static d"
  obtains os1 where "dht_list_process env t os d = Done (None, os1)"
  | l os1 where "dht_list_process env t os d = Done (Some l, os1)" and "loop_started l"
proof -
  obtain r os1 where n: "node_id env os = (r, os1)" by fastforce
  show thesis
  proof (cases r)
    case None
    then show thesis using that(1) n by (simp add: dht_list_process_def dht_list_start_def)
  next
    case (Some ms)
    obtain myid seed where ms: "ms = (myid, seed)" by fastforce
    have run: "dht_list_process env t os d
        = (case list_sockets env 8888 of
             None \<Rightarrow> Done (None, os1)
           | Some (s, s6) \<Rightarrow> (case start_dht [] s s6 myid t (srandom env seed d) of Undef \<Rightarrow> Undef | Done l \<Rightarrow> Done (l, os1)))"
      using n Some ms by (simp add: dht_list_process_def dht_list_start_def bootstrap_loop.simps)
    have st: "dht_static (srandom env seed d)" "is_id myid"
      using assms node_id_length [of env os myid seed os1] n Some ms by (simp_all add: srandom_static)
    show thesis
    proof (cases "list_sockets env 8888")
      case None
      then show thesis using that(1) run by simp
    next
      case (Some ss)
      obtain s s6 where ss: "ss = (s, s6)" by fastforce
      show thesis
        by (rule start_dht_run [OF st, of "[]" s s6 t])
          (use that run Some ss in \<open>auto simp: loop_started_def\<close>)
    qed
  qed
qed

text \<open>With \<open>fcntl\<close> refusing \<open>-1\<close>, the thread ends unless both sockets were opened.\<close>

lemma list_sockets_both:
  assumes "\<And>fd. fd < 0 \<Longrightarrow> le_getfl env fd < 0" and "list_sockets env port = Some (s, s6)"
  shows "0 \<le> s" and "0 \<le> s6"
proof -
  have "list_socket env AF_INET = Some s" "list_socket env AF_INET6 = Some s6"
    using assms(2) by (auto simp: list_sockets_def split: option.splits if_splits)
  then have "\<not> le_getfl env s < 0" "\<not> le_getfl env s6 < 0"
    by (auto simp: list_socket_def set_nonblocking_def Let_def split: if_splits)
  then show "0 \<le> s" "0 \<le> s6" using assms(1) not_less by blast+
qed

section \<open>The loop\<close>

lemma deliver_all:
  "dl_dht (fold deliver sigs l) = dl_dht l" "dl_s (fold deliver sigs l) = dl_s l" "dl_s6 (fold deliver sigs l) = dl_s6 l"
  "dl_searching (fold deliver sigs l) = (dl_searching l \<or> SIGUSR2 \<in> set sigs)"
  "dl_exiting (fold deliver sigs l) = (dl_exiting l \<or> SIGINT \<in> set sigs)"
proof (induction sigs arbitrary: l)
  case (Cons x xs)
  { case 1 then show ?case using Cons.IH by (cases x) auto }
  { case 2 then show ?case using Cons.IH by (cases x) auto }
  { case 3 then show ?case using Cons.IH by (cases x) auto }
  { case 4 then show ?case using Cons.IH by (cases x) auto }
  { case 5 then show ?case using Cons.IH by (cases x) auto }
qed simp_all

text \<open>
  What \<open>select\<close> and \<open>recvfrom\<close> guarantee: when something is readable it is one of the sockets,
  and the sender has an address of one of the families.
\<close>

definition wake_ok :: "int \<Rightarrow> int \<Rightarrow> wakeup \<Rightarrow> bool" where
  "wake_ok s s6 e \<longleftrightarrow>
     (0 < wk_rc e \<longrightarrow> ((0 \<le> s \<and> wk_ready e) \<or> (0 \<le> s6 \<and> wk_ready6 e)) \<and> addr_ok (wk_from e) (wk_fromlen e))"

fun turn_loop :: "turn \<Rightarrow> dht_loop" where
  "turn_loop (Turns l) = l"
| "turn_loop (Leaves l) = l"

lemma receive_ok:
  assumes "wake_ok (dl_s l) (dl_s6 l) e"
  obtains pkt where "receive e l = Some pkt" and "pkt \<noteq> [] \<Longrightarrow> addr_ok (wk_from e) (wk_fromlen e)"
proof (cases "wk_rc e \<le> 0")
  case True
  then show thesis using that [of "[]"] by (simp add: receive_def)
next
  case False
  then have "(0 \<le> dl_s l \<and> wk_ready e) \<or> (0 \<le> dl_s6 l \<and> wk_ready6 e)" and a: "addr_ok (wk_from e) (wk_fromlen e)"
    using assms by (auto simp: wake_ok_def)
  then show thesis using that False by (simp add: receive_def)
qed

text \<open>Without a signal that asks for a search, a turn goes from a reachable state to a reachable state.\<close>

lemma list_turn_run:
  assumes l: "dht_reach (dl_dht l)" "\<not> dl_searching l" "\<not> dl_exiting l"
    and e: "wake_ok (dl_s l) (dl_s6 l) e" "SIGUSR2 \<notin> set (wk_signals e)"
  obtains l1 where "list_turn e l = Some (if SIGINT \<in> set (wk_signals e) then Leaves l1 else Turns l1)"
    and "dht_reach (dl_dht l1)" and "dl_s l1 = dl_s l" and "dl_s6 l1 = dl_s6 l" and "\<not> dl_searching l1"
    and "SIGINT \<notin> set (wk_signals e) \<Longrightarrow> \<not> dl_exiting l1"
proof -
  define l0 where "l0 = fold deliver (wk_signals e) (l\<lparr>dl_dht := snd (c_random (dl_dht l))\<rparr>)"
  have l0: "dl_s l0 = dl_s l" "dl_s6 l0 = dl_s6 l" "\<not> dl_searching l0" "dl_exiting l0 = (SIGINT \<in> set (wk_signals e))"
    using l e(2) by (simp_all add: l0_def deliver_all)
  have r0: "dht_reach (dl_dht l0)" using dht_reach.random [OF l(1)] by (simp add: l0_def deliver_all)
  show thesis
  proof (cases "SIGINT \<in> set (wk_signals e)")
    case True
    then show thesis using that [of l0] l0 r0 by (simp add: list_turn_def l0_def [symmetric])
  next
    case False
    obtain pkt where p: "receive e l0 = Some pkt" "pkt \<noteq> [] \<Longrightarrow> addr_ok (wk_from e) (wk_fromlen e)"
      using receive_ok [of l0 e] e(1) l0 by metis
    let ?per = "if pkt \<noteq> [] then dht_periodic pkt 0 (wk_from e) (wk_fromlen e) (dl_tosleep l0) True (wk_time e) (dl_dht l0)
       else dht_periodic [] 0 [] 0 (dl_tosleep l0) True (wk_time e) (dl_dht l0)"
    obtain rc tosleep d1 where per: "?per = Some (rc, tosleep, d1)"
      using dht_periodic_run [OF dht_reach_ok [OF r0] p(2)] dht_periodic_run [OF dht_reach_ok [OF r0], of "[]"] by metis
    have d1: "dht_reach d1"
    proof (cases "pkt = []")
      case True
      then show ?thesis using dht_reach.periodic [OF r0, of "[]"] per by simp
    next
      case False
      then show ?thesis using dht_reach.periodic [OF r0 p(2)] per by simp
    qed
    have "list_turn e l = (let l1 = l0\<lparr>dl_tosleep := tosleep, dl_dht := d1\<rparr>
                in if rc < 0 \<and> d_errno d1 = EINTR_list then Some (Turns l1)
                   else if rc < 0 \<and> (rc = EINVAL_dht \<or> rc = EFAULT_list) then None
                   else map_option Turns (answer_signals (if rc < 0 then l1\<lparr>dl_tosleep := 1\<rparr> else l1)))"
      unfolding list_turn_def l0_def [symmetric] Let_def using False l0(4) p(1) per by simp
    then have "list_turn e l = Some (Turns (l0\<lparr>dl_tosleep := tosleep, dl_dht := d1\<rparr>))
        \<or> list_turn e l = Some (Turns (l0\<lparr>dl_tosleep := 1, dl_dht := d1, dl_dumping := False\<rparr>))
        \<or> list_turn e l = Some (Turns (l0\<lparr>dl_tosleep := tosleep, dl_dht := d1, dl_dumping := False\<rparr>))"
      using l0(3) by (auto simp: answer_signals_def EINVAL_dht_def EFAULT_list_def Let_def split: if_splits)
    then show thesis using that False l0 d1 by auto
  qed
qed

lemma dht_list_loop_run:
  assumes "dht_reach (dl_dht l)" "\<not> dl_searching l" "\<not> dl_exiting l"
    and "\<forall>e \<in> set es. wake_ok (dl_s l) (dl_s6 l) e \<and> SIGUSR2 \<notin> set (wk_signals e)"
  shows "\<exists>r. dht_list_loop es l = Some r \<and> dht_reach (dl_dht (turn_loop r))
    \<and> (r = Leaves (turn_loop r)) = (\<exists>e \<in> set es. SIGINT \<in> set (wk_signals e))"
  using assms
proof (induction es arbitrary: l)
  case (Cons e es)
  obtain l1 where l1: "list_turn e l = Some (if SIGINT \<in> set (wk_signals e) then Leaves l1 else Turns l1)"
      "dht_reach (dl_dht l1)" "dl_s l1 = dl_s l" "dl_s6 l1 = dl_s6 l" "\<not> dl_searching l1"
      "SIGINT \<notin> set (wk_signals e) \<Longrightarrow> \<not> dl_exiting l1"
    using list_turn_run [of l e] Cons.prems by auto
  show ?case
  proof (cases "SIGINT \<in> set (wk_signals e)")
    case True
    then show ?thesis using l1 by simp
  next
    case False
    then show ?thesis using Cons.IH [of l1] Cons.prems l1 by auto
  qed
qed simp

end
