(* ===== verification/DhtListProps.thy ===== *)
theory DhtListProps
  imports DhtListRun DhtProps
begin

text \<open>
  The properties of the thread that runs the DHT: it keeps its id from one start to the next,
  and its loop goes on until it is told to stop.
\<close>

section \<open>The id\<close>

text \<open>The ids and seeds of several starts, one after the other, on the same system.\<close>

fun node_starts :: "list_env list \<Rightarrow> os \<Rightarrow> (byte list \<times> byte list) option list" where
  "node_starts [] os = []"
| "node_starts (env # envs) os = (let (r, os1) = node_id env os in r # node_starts envs os1)"

lemma node_starts_stored:
  "id_stored nid os \<Longrightarrow> \<forall>env \<in> set envs. le_urandom env \<noteq> None \<Longrightarrow>
    map (map_option fst) (node_starts envs os) = replicate (length envs) (Some nid)"
proof (induction envs arbitrary: os)
  case (Cons env envs)
  then obtain r where "le_urandom env = Some r" by auto
  then obtain seed os1 where "node_id env os = (Some (nid, seed), os1)" "id_stored nid os1"
    using node_id_stored [OF Cons.prems(1)] by metis
  then show ?case using Cons by simp
qed simp

text \<open>C27: On a system without an id file the first start makes the id from the random bytes it
  reads, and every later start, whatever random bytes it gets, finds the same id.\<close>

theorem node_id_kept:
  assumes "reliable os" and "os_wf os" and "[] \<in> os_dirs os" and "os_names os id_file = None"
    and "le_urandom env = Some (20, bs)" and "length bs = 20" and "\<forall>e \<in> set envs. le_urandom e \<noteq> None"
  shows "map (map_option fst) (node_starts (env # envs) os) = Some bs # replicate (length envs) (Some bs)"
proof -
  obtain seed os1 where n: "node_id env os = (Some (bs, seed), os1)" "id_stored bs os1"
    using node_id_new [OF assms(1-6)] by metis
  then show ?thesis using node_starts_stored [OF n(2) assms(7)] by simp
qed

definition ex_env :: "byte \<Rightarrow> list_env" where
  "ex_env b = \<lparr>le_urandom = Some (20, replicate 20 b), le_random = (\<lambda>seed n. n), le_resolve = (\<lambda>a s. None),
     le_socket = (\<lambda>af. if af = AF_INET then 5 else 6), le_getfl = (\<lambda>fd. if fd < 0 then - 1 else 2),
     le_setfl = (\<lambda>fd fl. 0), le_setsockopt = (\<lambda>fd. 0), le_bind = (\<lambda>fd port. 0)\<rparr>"

theorem node_id_kept_witness:
  "map (map_option fst) (node_starts [ex_env 1, ex_env 2, ex_env 3] (fresh_os {[]}))
    = [Some (replicate 20 1), Some (replicate 20 1), Some (replicate 20 1)]"
  using node_id_kept [of "fresh_os {[]}" "ex_env 1" "replicate 20 1" "[ex_env 2, ex_env 3]"]
  by (simp add: ex_env_def numeral_2_eq_2)

section \<open>The loop\<close>

text \<open>C9: The start of the thread always returns.  If it leads to the loop, the loop goes through
  every sequence of packets, failures of \<open>select\<close> and signals without a crash, in reachable states
  of the DHT, and it is left exactly when \<open>SIGINT\<close> arrives; only a signal that asks for a search is
  excluded.\<close>

theorem dht_thread_runs:
  assumes "dht_static d"
  shows "\<exists>r os1. dht_list_process env t os d = Done (r, os1)
    \<and> (\<forall>l es. r = Some l \<and> (\<forall>e \<in> set es. wake_ok (dl_s l) (dl_s6 l) e \<and> SIGUSR2 \<notin> set (wk_signals e)) \<longrightarrow>
         (\<exists>x. dht_list_loop es l = Some x \<and> dht_reach (dl_dht (turn_loop x))
            \<and> (x = Leaves (turn_loop x)) = (\<exists>e \<in> set es. SIGINT \<in> set (wk_signals e))))"
proof (rule process_run [OF assms, of env t os])
  fix os1 assume "dht_list_process env t os d = Done (None, os1)"
  then show ?thesis by simp
next
  fix l os1 assume "dht_list_process env t os d = Done (Some l, os1)" and "loop_started l"
  then show ?thesis using dht_list_loop_run [of l] by (auto simp: loop_started_def)
qed

text \<open>A first packet, a \<open>select\<close> that is interrupted, and the end.\<close>

definition ex_wake :: "signal list \<Rightarrow> int \<Rightarrow> wakeup" where
  "ex_wake sigs rc = \<lparr>wk_signals = sigs, wk_rc = rc, wk_ready = True, wk_ready6 = False,
     wk_data = Some (bytes_of_string ''d1:ad2:id20:aaaaaaaaaaaaaaaaaaaae1:q4:ping1:t2:xy1:y1:qe''),
     wk_from = ex_addr, wk_fromlen = 16, wk_time = 1001\<rparr>"

lemma ex_process:
  "\<exists>l os1. dht_list_process (ex_env 1) 1000 (fresh_os {[]}) ex_static = Done (Some l, os1) \<and> 0 \<le> dl_s l"
proof -
  have "case dht_list_process (ex_env 1) 1000 (fresh_os {[]}) ex_static of Done (Some l, os1) \<Rightarrow> 0 \<le> dl_s l | _ \<Rightarrow> False"
    by code_simp
  then show ?thesis by (auto split: outcome.splits option.splits)
qed

theorem dht_thread_runs_witness:
  "\<exists>l os1 x. dht_list_process (ex_env 1) 1000 (fresh_os {[]}) ex_static = Done (Some l, os1)
    \<and> dht_list_loop [ex_wake [] 1, ex_wake [SIGUSR1] (- 1), ex_wake [SIGINT] 0] l = Some (Leaves x) \<and> dht_reach (dl_dht x)"
proof -
  define es where "es = [ex_wake [] 1, ex_wake [SIGUSR1] (- 1), ex_wake [SIGINT] 0]"
  obtain l os1 where l: "dht_list_process (ex_env 1) 1000 (fresh_os {[]}) ex_static = Done (Some l, os1)" "0 \<le> dl_s l"
    using ex_process by blast
  have "addr_ok ex_addr 16" using sockaddr_in_ok [of "[0x1A, 0xE1]" "[10, 0, 0, 9]"] by (simp add: ex_addr_def make_sockaddr_in_def)
  then have "\<forall>e \<in> set es. wake_ok (dl_s l) (dl_s6 l) e \<and> SIGUSR2 \<notin> set (wk_signals e)"
    using l(2) by (simp add: wake_ok_def ex_wake_def es_def)
  moreover have "\<exists>e \<in> set es. SIGINT \<in> set (wk_signals e)" by (simp add: ex_wake_def es_def)
  ultimately obtain x where "dht_list_loop es l = Some x" "dht_reach (dl_dht (turn_loop x))" "x = Leaves (turn_loop x)"
    using dht_thread_runs [OF ex_static_ok, of "ex_env 1" 1000 "fresh_os {[]}"] l(1) by auto
  then show ?thesis using l(1) unfolding es_def by metis
qed

end
