(* ===== verification/Spec2Isabelle.thy ===== *)
theory Spec2Isabelle
  imports SeaWord SeaServerProps DhtSearchProps DhtStorageProps DhtMsgProps DhtListProps
begin

text \<open>
  A verification library for the Sea storage engine (C sources under \<open>src/src\<close>).

  Sea stores byte records in blocks.  A block (\<open>block/time\<close>) is a directory with two files:
  an index, which maps a record id to an offset, and a data file of framed records.  On
  blocks rest the graph database (\<open>block/graph\<close>), the super block and the controller
  (\<open>controller\<close>), which serves reads and writes locally and turns to other nodes when that
  fails; the nodes know each other through a distributed hash table (\<open>controller/dht\<close>) that a
  thread of its own runs (\<open>dht_list.c\<close>).  Over the controller lies a server (\<open>rest\<close>) that takes
  records by HTTP and answers other nodes.  Column arrays (\<open>block/array\<close>) hold the posting lists
  of the word index (\<open>block/word\<close>), whose files are named by an MD5 digest.

  Foundations:

  \<^item> \<open>SeaPrelude\<close>: machine integers, little-endian encodings, decimal text, byte-list surgery,
    the type \<open>outcome\<close> whose value \<open>Undef\<close> stands for undefined behaviour of C.
  \<^item> \<open>SeaOS\<close>: the POSIX calls on an explicit state (names, inodes, descriptors, positions,
    \<open>errno\<close>), with an oracle for failures and short transfers and one for uninitialised memory.
  \<^item> \<open>SeaLog\<close>: the interfaces the stores share, as locales: \<open>append_log\<close>, an append-only log, and
    \<open>map_store\<close>, a finite map, each with what a client may conclude from it.

  The block layer:

  \<^item> \<open>SeaOffset\<close>, \<open>SeaRecord\<close>, \<open>SeaIndex\<close>, \<open>SeaData\<close>, \<open>SeaBlock\<close>: \<open>block/time\<close>, file by file.
    \<open>SeaIndex\<close> interprets the log on the index file; \<open>SeaBlock\<close> has the invariant \<open>block_at\<close>
    of an open block and the sessions store, fetch and update.
  \<^item> \<open>SeaArray\<close>: \<open>block/array\<close>, with the log interpreted on an open array.
  \<^item> \<open>SeaMd5\<close>, \<open>SeaWord\<close>: \<open>block/word\<close>; the digest against a definition of MD5 after RFC 1321
    that shares nothing with the code, and the life of a posting list.
  \<^item> \<open>SeaGraph\<close>: \<open>block/graph\<close>, with the log interpreted on a connection.

  The controller and the server:

  \<^item> \<open>SeaKhash\<close>: the hash table of \<open>include/khash.h\<close> for 64-bit keys, with \<open>map_store\<close> interpreted
    on it; \<open>SeaPhone\<close>: \<open>phone_list.c\<close>, the nodes of a block; \<open>SeaSuper\<close>: \<open>super_block.c\<close>.
  \<^item> \<open>SeaController\<close>: \<open>controller.c\<close>, \<open>controller_data.c\<close> and \<open>include/protocol.h\<close>, on a \<open>world\<close> that
    joins the operating system, the state of the DHT and the network library.
  \<^item> \<open>SeaStore\<close>: the blocks of a directory as a map from ids to payloads; \<open>SeaControllerRun\<close>: the
    representation \<open>ctl_rep\<close> of such a map by a controller, and what reads and writes do to it;
    \<open>SeaControllerLog\<close>: the log interpreted on a controller, across blocks.
  \<^item> \<open>SeaServer\<close>: \<open>rest/server.c\<close> and \<open>rest/sea_rest.c\<close>; \<open>SeaServerRun\<close>: its lemmas;
    \<open>SeaServerProps\<close>: the properties of controller and server.

  The distributed hash table, \<open>controller/dht/dht.c\<close>:

  \<^item> \<open>DhtId\<close>, \<open>DhtState\<close>, \<open>DhtMsg\<close>, \<open>DhtParse\<close>, \<open>DhtStorage\<close>, \<open>DhtSearch\<close>, \<open>DhtTable\<close>, \<open>DhtPeriodic\<close>: the
    definitions, from the ids and the record of all static variables to \<open>dht_periodic\<close>.
  \<^item> \<open>DhtBits\<close>, \<open>DhtTableInv\<close>, \<open>DhtNear\<close>: ids as bit strings, the invariant of a bucket table, and
    the bounded lists sorted by distance (the locale \<open>nearest\<close>, interpreted on the nodes of a
    search and on the nodes of an answer).
  \<^item> \<open>DhtInv\<close>, \<open>DhtInvSearch\<close>, \<open>DhtInvTable\<close>, \<open>DhtInvPacket\<close>, \<open>DhtInvPeriodic\<close>: the invariant \<open>dht_ok\<close>, kept
    by every operation, none of which crashes or runs for ever under it; the states a program
    can reach (\<open>dht_reach\<close>), all of which satisfy it.
  \<^item> \<open>DhtProps\<close>, \<open>DhtSearchProps\<close>, \<open>DhtStorageProps\<close>, \<open>DhtMsgProps\<close>: the properties.
  \<^item> \<open>DhtList\<close>, \<open>DhtListRun\<close>, \<open>DhtListProps\<close>: the thread that runs the DHT, from the id file to the
    event loop, with what holds of every run.

  Operations are functions from the arguments and the state to the result, the values stored
  through pointer arguments and the new state; a value that the code leaves unassigned is
  \<open>None\<close>.  Every error branch of the code is a branch of its function.  In the theories \<open>Sea...\<close>
  undefined behaviour is \<open>Undef\<close>; in the theories \<open>Dht...\<close> an abort or a crash is \<open>None\<close>.  The
  functional theorems of the store are about a fault-free system (\<open>reliable\<close>); the operations
  themselves are total and cover the failing calls as well.  Linked lists are lists, pointers
  into them positions.  What is not under \<open>src\<close> is a parameter: \<open>w_rv\<close> gives the results of the
  network library \<open>nng\<close>, the fields of \<open>dht\<close> from \<open>d_random\<close> on and of \<open>list_env\<close> those of
  \<open>random\<close>, \<open>calloc\<close>, \<open>sendto\<close>, \<open>/dev/urandom\<close>, \<open>socket\<close> and name resolution.  Memory that is never
  written holds what \<open>os_junk\<close> or \<open>d_stack\<close> says.

  A read behind the end of an object is undefined.  Three times the program depends on such a read
  on its normal path, and the properties that follow that path say so in a hypothesis: a write
  copies three words from the address of a local of one word (\<open>w_behind\<close>: what may be read behind
  it), a posted body is printed as a string (\<open>w_behind_body\<close>: what may be read behind the body), and
  the super block uses copies without a terminating zero as strings (\<open>super_memory\<close>: the bytes of
  the allocation behind them are zero).  Without these hypotheses the model gives \<open>Undef\<close>, as
  \<open>controller_write_extends\<close> shows for the write.

  Bounds: a block takes 131072 records before it is retired, a payload fetched by HTTP has up to
  131072 bytes, and a log of a controller up to \<open>2 ^ 40\<close> records.  The hash table is a map up to
  \<open>2 ^ 28\<close> keys; its probes take fuel, and the lemmas show that one round over the buckets is
  enough.  Splitting buckets ends because every split deepens the bucket of our own id by one
  of its 160 bits; \<open>new_node\<close> and the loops over it are shown to return.  All other loops are
  structural or have a measure.

  Not modelled: freeing of memory (except where the code uses freed memory), log and debug
  output and the dumps of the DHT, which only print (the one that may read too far, of a posted
  body, is modelled: \<open>print_body\<close>); threads as such, so nothing is said about
  data races between the server and the thread of the DHT; the starting and stopping of
  \<open>nng\<close> and \<open>ulfius\<close> beyond the results of their calls; the parts of \<open>block/graph\<close> that are
  declared without a body; the vendored macro headers \<open>queue.h\<close> and \<open>tree.h\<close>; the instances of
  \<open>khash.h\<close> no one uses; the demonstration \<open>dht-example.c\<close>, from which \<open>dht_list.c\<close> was copied,
  and the test drivers.
\<close>

end
